(* ===== verification/Prelude.thy ===== *)
theory Prelude
  imports Complex_Main "HOL-Library.Word" "HOL-Library.Multiset"
begin

text \<open>
  What the components share: the data of the Solana client library as the TypeScript code reads
  it (a public key is its base58 text, a buffer a list of bytes), JavaScript errors as values of
  a sum type, the JavaScript list operations the code uses (\<open>slice\<close>, \<open>new Set\<close> in insertion
  order, \<open>Object.keys\<close> of a record filled in order), the helper \<open>chunks\<close> that several packages
  define, and the generic lemmas about them.
\<close>

named_theorems js_defs \<open>unfolding rules of the small JavaScript helpers\<close>
named_theorems ebindE \<open>inversion of sequenced fallible steps\<close>

section \<open>Solana data\<close>

type_synonym pubkey = string
type_synonym byte = "8 word"
type_synonym bytes = "byte list"

record account_meta =
  am_pubkey :: pubkey
  am_isSigner :: bool
  am_isWritable :: bool

record instruction =
  ix_programId :: pubkey
  ix_keys :: "account_meta list"
  ix_data :: bytes

text \<open>
  The compiled (wire) form of a transaction, as the code reads it from a \<open>VersionedTransaction\<close>:
  instructions that name their program and their accounts by index into the account keys.
\<close>

record compiled_instruction =
  ci_programIdIndex :: nat
  ci_accountKeyIndexes :: "nat list"
  ci_data :: bytes

record versioned_message =
  vm_staticAccountKeys :: "pubkey list"
  vm_compiledInstructions :: "compiled_instruction list"

text \<open>\<open>xs[i]\<close>: \<open>undefined\<close> out of range.\<close>

definition js_nth :: "'a list \<Rightarrow> nat \<Rightarrow> 'a option" where
  "js_nth xs i = (if i < length xs then Some (xs ! i) else None)"

lemma js_nth_Some_iff: "js_nth xs i = Some x \<longleftrightarrow> i < length xs \<and> xs ! i = x"
  by (auto simp: js_nth_def)

lemma js_nth_None_iff: "js_nth xs i = None \<longleftrightarrow> length xs \<le> i"
  by (auto simp: js_nth_def)

section \<open>Errors as values\<close>

datatype js_error =
    Err string
  | RangeError
  | TypeError
  | Timeout
  | Rejected string

definition ebind :: "'e + 'a \<Rightarrow> ('a \<Rightarrow> 'e + 'b) \<Rightarrow> 'e + 'b" where
  "ebind r f = (case r of Inl e \<Rightarrow> Inl e | Inr x \<Rightarrow> f x)"

lemma ebind_simps [simp]:
  "ebind (Inl e) f = Inl e"
  "ebind (Inr x) f = f x"
  by (simp_all add: ebind_def)

lemma ebind_Inr_iff: "ebind r f = Inr y \<longleftrightarrow> (\<exists>x. r = Inr x \<and> f x = Inr y)"
  by (cases r) auto

lemma ebind_InrE [ebindE, elim]:
  assumes "ebind r f = Inr y"
  obtains x where "r = Inr x" and "f x = Inr y"
  using assms by (auto simp: ebind_Inr_iff)

text \<open>\<open>for (const x of xs) acc = await step(acc, x)\<close>: the first error ends the loop.\<close>

fun efold :: "('s \<Rightarrow> 'a \<Rightarrow> 'e + 's) \<Rightarrow> 's \<Rightarrow> 'a list \<Rightarrow> 'e + 's" where
  "efold step s [] = Inr s"
| "efold step s (x # xs) = ebind (step s x) (\<lambda>s'. efold step s' xs)"

text \<open>\<open>xs.map(f)\<close> with an \<open>f\<close> that may throw.\<close>

fun emap :: "('a \<Rightarrow> 'e + 'b) \<Rightarrow> 'a list \<Rightarrow> 'e + 'b list" where
  "emap f [] = Inr []"
| "emap f (x # xs) = ebind (f x) (\<lambda>y. ebind (emap f xs) (\<lambda>ys. Inr (y # ys)))"

lemma efold_append:
  "efold step s (xs @ ys) = ebind (efold step s xs) (\<lambda>s'. efold step s' ys)"
proof (induction xs arbitrary: s)
  case Nil
  then show ?case by simp
next
  case (Cons x xs)
  then show ?case by (cases "step s x") auto
qed

lemma efold_inv:
  assumes "efold step s xs = Inr s'" and "P s"
    and "\<And>s x s'. x \<in> set xs \<Longrightarrow> P s \<Longrightarrow> step s x = Inr s' \<Longrightarrow> P s'"
  shows "P s'"
  using assms
proof (induction xs arbitrary: s)
  case Nil
  then show ?case by simp
next
  case (Cons x xs)
  from Cons.prems(1) obtain u where u: "step s x = Inr u" "efold step u xs = Inr s'"
    by (auto elim: ebind_InrE)
  from Cons.prems(3)[OF _ Cons.prems(2) u(1)] have "P u" by simp
  show ?case
    by (rule Cons.IH[OF u(2) \<open>P u\<close>]) (rule Cons.prems(3), auto)
qed

lemma emap_Inr_length: "emap f xs = Inr ys \<Longrightarrow> length ys = length xs"
  by (induction xs arbitrary: ys) (auto elim!: ebind_InrE)

lemma emap_Inr_nth: "emap f xs = Inr ys \<Longrightarrow> i < length xs \<Longrightarrow> f (xs ! i) = Inr (ys ! i)"
  by (induction xs arbitrary: ys i) (auto elim!: ebind_InrE simp: nth_Cons split: nat.splits)

lemma emap_total: "(\<And>x. x \<in> set xs \<Longrightarrow> f x = Inr (g x)) \<Longrightarrow> emap f xs = Inr (map g xs)"
  by (induction xs) auto

lemma emap_map: "\<forall>x \<in> set xs. F (f x) = Inr (g x) \<Longrightarrow> emap F (map f xs) = Inr (map g xs)"
  by (induction xs) auto

section \<open>Runs that may not return\<close>

type_synonym 'a run = "(js_error + 'a) option"

definition rbind :: "'a run \<Rightarrow> ('a \<Rightarrow> 'b run) \<Rightarrow> 'b run" where
  "rbind m f = (case m of None \<Rightarrow> None | Some (Inl e) \<Rightarrow> Some (Inl e) | Some (Inr x) \<Rightarrow> f x)"

lemma rbind_simps [simp]:
  "rbind None f = None"
  "rbind (Some (Inl e)) f = Some (Inl e)"
  "rbind (Some (Inr x)) f = f x"
  by (simp_all add: rbind_def)

lemma rbind_InrE:
  assumes "rbind m f = Some (Inr y)"
  obtains x where "m = Some (Inr x)" and "f x = Some (Inr y)"
  using assms by (auto simp: rbind_def split: option.splits sum.splits)

lemma rbind_returns: "m \<noteq> None \<Longrightarrow> (\<And>x. m = Some (Inr x) \<Longrightarrow> f x \<noteq> None) \<Longrightarrow> rbind m f \<noteq> None"
  by (auto simp: rbind_def split: option.splits sum.splits)

lemma rbind_cong: "m = m' \<Longrightarrow> (\<And>x. m = Some (Inr x) \<Longrightarrow> f x = g x) \<Longrightarrow> rbind m f = rbind m' g"
  by (auto simp: rbind_def split: option.splits sum.splits)

section \<open>JavaScript lists\<close>

text \<open>\<open>xs.slice(a, b)\<close> for \<open>0 \<le> a\<close> and \<open>0 \<le> b\<close>.\<close>

definition js_slice :: "'a list \<Rightarrow> nat \<Rightarrow> nat \<Rightarrow> 'a list" where
  "js_slice xs a b = take (b - a) (drop a xs)"

text \<open>\<open>Array.from(new Set(xs))\<close>: the first occurrences, in order.\<close>

fun js_set :: "'a list \<Rightarrow> 'a list" where
  "js_set [] = []"
| "js_set (x # xs) = x # filter (\<lambda>y. y \<noteq> x) (js_set xs)"

lemma set_js_set [simp]: "set (js_set xs) = set xs"
  by (induction xs) auto

lemma distinct_js_set [simp]: "distinct (js_set xs)"
  by (induction xs) auto

lemma js_set_distinct: "distinct xs \<Longrightarrow> js_set xs = xs"
proof (induction xs)
  case Nil
  then show ?case by simp
next
  case (Cons x xs)
  then have "filter (\<lambda>y. y \<noteq> x) xs = xs" by (auto simp: filter_id_conv)
  with Cons show ?case by simp
qed

text \<open>\<open>s.includes(t)\<close>.\<close>

definition js_includes :: "string \<Rightarrow> string \<Rightarrow> bool" where
  "js_includes s t = list_ex (\<lambda>i. take (length t) (drop i s) = t) [0..<length s + 1]"

lemma js_includes_refl [simp]: "js_includes s s"
  by (auto simp: js_includes_def list_ex_iff intro!: bexI[of _ 0])

text \<open>The decimal text of a number.\<close>

fun nat_str :: "nat \<Rightarrow> string" where
  "nat_str n = (if n < 10 then [char_of (48 + n)] else nat_str (n div 10) @ [char_of (48 + n mod 10)])"

declare nat_str.simps [simp del]

text \<open>
  A record (plain object or \<open>Map\<close>) whose key order matters: an association list, updated in
  place or at the end, as JavaScript keeps the insertion order of string keys.
\<close>

fun obj_set :: "('k \<times> 'v) list \<Rightarrow> 'k \<Rightarrow> 'v \<Rightarrow> ('k \<times> 'v) list" where
  "obj_set [] k v = [(k, v)]"
| "obj_set ((k', v') # kvs) k v = (if k' = k then (k, v) # kvs else (k', v') # obj_set kvs k v)"

lemma map_of_obj_set [simp]: "map_of (obj_set kvs k v) = (map_of kvs)(k \<mapsto> v)"
  by (induction kvs k v rule: obj_set.induct) auto

lemma keys_obj_set: "set (map fst (obj_set kvs k v)) = insert k (set (map fst kvs))"
  by (induction kvs k v rule: obj_set.induct) auto

lemma fst_set_obj_set [simp]: "fst ` set (obj_set kvs k v) = insert k (fst ` set kvs)"
  using keys_obj_set[of kvs k v] by simp

lemma distinct_obj_set: "distinct (map fst kvs) \<Longrightarrow> distinct (map fst (obj_set kvs k v))"
  by (induction kvs k v rule: obj_set.induct) auto

text \<open>\<open>delete o[k]\<close>.\<close>

definition obj_delete :: "('k \<times> 'v) list \<Rightarrow> 'k \<Rightarrow> ('k \<times> 'v) list" where
  "obj_delete kvs k = filter (\<lambda>(k', v). k' \<noteq> k) kvs"

lemma obj_delete_keys [simp]: "fst ` set (obj_delete kvs k) = fst ` set kvs - {k}"
  by (auto simp: obj_delete_def image_iff)

lemma map_of_obj_delete [simp]: "map_of (obj_delete kvs k) = (map_of kvs)(k := None)"
  by (induction kvs) (auto simp: obj_delete_def fun_eq_iff)

lemma distinct_obj_delete: "distinct (map fst kvs) \<Longrightarrow> distinct (map fst (obj_delete kvs k))"
  by (simp add: obj_delete_def distinct_map_filter)

lemma find_upt_le:
  assumes "P k" and "i \<le> k" and "k < n"
  obtains j where "find P [i..<n] = Some j" and "j \<le> k"
proof -
  have k: "k \<in> set [i..<n]" using assms by simp
  with assms(1) obtain j where j: "find P [i..<n] = Some j" by (metis find_None_iff2 option.exhaust)
  then obtain m where m: "m < n - i" "j = i + m" "\<forall>m' < m. \<not> P ([i..<n] ! m')"
    by (auto simp: find_Some_iff nth_upt)
  have "j \<le> k"
  proof (rule ccontr)
    assume "\<not> j \<le> k"
    then have "k - i < m" using m(2) assms(2) by linarith
    with m(1,3) assms(1,2) show False by (auto simp: nth_upt)
  qed
  with j that show thesis by blast
qed

section \<open>Little-endian integers in buffers\<close>

definition u32le :: "nat \<Rightarrow> bytes" where
  "u32le n = [word_of_nat n, word_of_nat (n div 256), word_of_nat (n div 65536), word_of_nat (n div 16777216)]"

definition readUInt32LE :: "bytes \<Rightarrow> nat \<Rightarrow> js_error + nat" where
  "readUInt32LE b off =
     (if off + 4 \<le> length b
      then Inr (unat (b ! off) + 256 * unat (b ! (off + 1)) + 65536 * unat (b ! (off + 2))
                + 16777216 * unat (b ! (off + 3)))
      else Inl RangeError)"

lemma unat_byte_of_nat: "unat (word_of_nat n :: byte) = n mod 256"
  by (simp add: unat_of_nat)

lemma readUInt32LE_u32le:
  assumes "n < 2 ^ 32"
  shows "readUInt32LE (pre @ u32le n) (length pre) = Inr n"
proof -
  have last: "n div 16777216 < 256" using assms by (intro less_mult_imp_div_less) simp
  have "n mod 256 + 256 * (n div 256 mod 256) + 65536 * (n div 65536 mod 256)
      + 16777216 * (n div 16777216) = n"
  proof -
    have d: "n div 65536 = n div 256 div 256" "n div 16777216 = n div 256 div 256 div 256"
      by (simp_all flip: div_mult2_eq)
    have "n = n div 256 * 256 + n mod 256"
      "n div 256 = n div 256 div 256 * 256 + n div 256 mod 256"
      "n div 256 div 256 = n div 256 div 256 div 256 * 256 + n div 256 div 256 mod 256"
      by (simp_all only: div_mult_mod_eq)
    then show ?thesis unfolding d by linarith
  qed
  with last show ?thesis
    by (simp add: readUInt32LE_def u32le_def nth_append unat_byte_of_nat)
qed

section \<open>chunks\<close>

text \<open>
  \<^verbatim>\<open>
  Array.apply(0, new Array(Math.ceil(array.length / size))).map((_, index) =>
    array.slice(index * size, (index + 1) * size))
  \<close>
  With \<open>size = 0\<close> the array length is \<open>Infinity\<close> or \<open>NaN\<close> and \<open>new Array\<close> throws a RangeError.
\<close>

definition ceil_div :: "nat \<Rightarrow> nat \<Rightarrow> nat" where
  "ceil_div a b = (a + b - 1) div b"

definition chunks :: "'a list \<Rightarrow> nat \<Rightarrow> js_error + 'a list list" where
  "chunks xs sz =
     (if sz = 0 then Inl RangeError
      else Inr (map (\<lambda>index. js_slice xs (index * sz) ((index + 1) * sz))
                  [0..<ceil_div (length xs) sz]))"

lemma ceil_div_Suc:
  assumes "0 < b" and "b \<le> a"
  shows "ceil_div a b = Suc (ceil_div (a - b) b)"
proof -
  have "a + b - 1 = (a - b + b - 1) + b" using assms by simp
  then have "(a + b - 1) div b = Suc ((a - b + b - 1) div b)"
    using assms by (metis Suc_eq_plus1 div_add_self2 less_numeral_extra(3))
  then show ?thesis by (simp only: ceil_div_def)
qed

lemma ceil_div_pos_le: "0 < b \<Longrightarrow> 0 < a \<Longrightarrow> a \<le> b \<Longrightarrow> ceil_div a b = 1"
  unfolding ceil_div_def by (rule div_nat_eqI) auto

lemma ceil_div_0 [simp]: "0 < b \<Longrightarrow> ceil_div 0 b = 0"
  by (simp add: ceil_div_def)

text \<open>The recursive reading of \<open>chunks\<close>, for induction.\<close>

fun chop :: "nat \<Rightarrow> 'a list \<Rightarrow> 'a list list" where
  "chop n [] = []"
| "chop n (x # xs) = (if n = 0 then [] else take n (x # xs) # chop n (drop n (x # xs)))"

lemma chunks_chop: "0 < n \<Longrightarrow> chunks xs n = Inr (chop n xs)"
proof (induction n xs rule: chop.induct)
  case (1 n)
  then show ?case by (simp add: chunks_def)
next
  case (2 n x xs)
  let ?ys = "x # xs"
  have IH: "map (\<lambda>i. js_slice (drop n ?ys) (i * n) ((i + 1) * n))
      [0..<ceil_div (length (drop n ?ys)) n] = chop n (drop n ?ys)"
    using 2 by (simp add: chunks_def)
  have sl: "js_slice (drop n ?ys) (i * n) ((i + 1) * n) = js_slice ?ys (Suc i * n) ((Suc i + 1) * n)" for i
    by (simp add: js_slice_def add.commute)
  have cd: "ceil_div (length ?ys) n = Suc (ceil_div (length ?ys - n) n)"
  proof (cases "n \<le> length ?ys")
    case True
    then show ?thesis using "2.prems" by (rule ceil_div_Suc[rotated])
  next
    case False
    then show ?thesis using "2.prems" by (simp add: ceil_div_pos_le)
  qed
  have "map (\<lambda>i. js_slice ?ys (i * n) ((i + 1) * n)) [0..<ceil_div (length ?ys) n] =
      take n ?ys # map (\<lambda>i. js_slice ?ys (Suc i * n) ((Suc i + 1) * n)) [0..<ceil_div (length ?ys - n) n]"
    unfolding cd by (simp add: upt_conv_Cons js_slice_def flip: map_Suc_upt del: upt_Suc)
  also have "\<dots> = take n ?ys # chop n (drop n ?ys)"
    using IH by (simp only: sl length_drop)
  finally show ?case using "2.prems" by (simp add: chunks_def)
qed

lemma concat_chop: "0 < n \<Longrightarrow> concat (chop n xs) = xs"
  by (induction n xs rule: chop.induct) auto

lemma chop_bounds: "0 < n \<Longrightarrow> c \<in> set (chop n xs) \<Longrightarrow> c \<noteq> [] \<and> length c \<le> n"
  by (induction n xs rule: chop.induct) auto

lemma chop_full: "0 < n \<Longrightarrow> i + 1 < length (chop n xs) \<Longrightarrow> length (chop n xs ! i) = n"
proof (induction n xs arbitrary: i rule: chop.induct)
  case (1 n)
  then show ?case by simp
next
  case (2 n x xs)
  show ?case
  proof (cases i)
    case 0
    have "drop n (x # xs) \<noteq> []"
    proof
      assume "drop n (x # xs) = []"
      with 2 0 show False by simp
    qed
    then have "n \<le> length (x # xs)" by simp
    with 0 "2.prems" show ?thesis by simp
  next
    case (Suc j)
    with 2 show ?thesis by simp
  qed
qed

lemma length_chop: "0 < n \<Longrightarrow> length (chop n xs) = ceil_div (length xs) n"
  using chunks_chop[of n xs] by (auto simp: chunks_def dest!: arg_cong[where f = length])

lemma chunks_members:
  assumes "chunks xs n = Inr css" and "c \<in> set css" and "x \<in> set c"
  shows "x \<in> set xs"
proof -
  have n: "0 < n" using assms(1) by (auto simp: chunks_def split: if_splits)
  with assms have "css = chop n xs" by (simp add: chunks_chop)
  with assms(2,3) show ?thesis using concat_chop[OF n, of xs] by (metis UN_I set_concat)
qed

text \<open>A fallible step over the chunks of a list, and over their slices.\<close>

lemma emap_comp: "emap F (map f xs) = emap (\<lambda>x. F (f x)) xs"
  by (induction xs) simp_all

lemma emap_slices:
  "0 < n \<Longrightarrow> emap (\<lambda>i. f (js_slice xs (i * n) ((i + 1) * n))) [0..<ceil_div (length xs) n] = emap f (chop n xs)"
proof -
  let ?rows = "map (\<lambda>i. js_slice xs (i * n) ((i + 1) * n)) [0..<ceil_div (length xs) n]"
  assume "0 < n"
  then have rows: "?rows = chop n xs" using chunks_chop[of n xs] by (simp add: chunks_def)
  have "emap (\<lambda>i. f (js_slice xs (i * n) ((i + 1) * n))) [0..<ceil_div (length xs) n] = emap f ?rows"
    by (rule emap_comp[symmetric])
  then show ?thesis unfolding rows .
qed

lemma emap_append: "emap f (xs @ ys) = ebind (emap f xs) (\<lambda>a. ebind (emap f ys) (\<lambda>b. Inr (a @ b)))"
  by (induction xs) (simp_all add: ebind_def split: sum.splits)

lemma emap_chop: "0 < n \<Longrightarrow> ebind (emap (emap f) (chop n xs)) (\<lambda>rows. Inr (concat rows)) = emap f xs"
proof (induction n xs rule: chop.induct)
  case (2 n x xs)
  from 2 have "ebind (emap (emap f) (chop n (drop n (x # xs)))) (\<lambda>rows. Inr (concat rows)) = emap f (drop n (x # xs))" by simp
  then show ?case
    using 2(2) emap_append[of f "take n (x # xs)" "drop n (x # xs)"] by (simp add: ebind_def split: sum.splits)
qed simp

lemma emap_cong: "(\<And>x. x \<in> set xs \<Longrightarrow> f x = g x) \<Longrightarrow> emap f xs = emap g xs"
  by (induction xs) simp_all

lemma emap_Inr_map: "emap f xs = Inr rs \<Longrightarrow> (\<And>x r. x \<in> set xs \<Longrightarrow> f x = Inr r \<Longrightarrow> r = g x) \<Longrightarrow> rs = map g xs"
  by (induction xs arbitrary: rs) (auto elim!: ebind_InrE)

section \<open>Events\<close>

text \<open>
  An event system: a handler, an invariant, and the events that are allowed in a state.
\<close>

fun allowed :: "('e \<Rightarrow> 's \<Rightarrow> 's) \<Rightarrow> ('s \<Rightarrow> 'e \<Rightarrow> bool) \<Rightarrow> 'e list \<Rightarrow> 's \<Rightarrow> bool" where
  "allowed h ok [] s = True"
| "allowed h ok (e # es) s = (ok s e \<and> allowed h ok es (h e s))"

locale event_system =
  fixes h :: "'e \<Rightarrow> 's \<Rightarrow> 's"
    and ok :: "'s \<Rightarrow> 'e \<Rightarrow> bool"
    and inv :: "'s \<Rightarrow> bool"
  assumes inv_handle: "inv s \<Longrightarrow> ok s e \<Longrightarrow> inv (h e s)"
begin

lemma inv_run: "inv s \<Longrightarrow> allowed h ok es s \<Longrightarrow> inv (foldl (\<lambda>s e. h e s) s es)"
  by (induction es arbitrary: s) (auto intro: inv_handle)

end

end
