(* ===== verification/JS_Number.thy ===== *)
theory JS_Number
  imports Prelude "HOL-Library.Log_Nat"
begin

text \<open>
  JavaScript numbers. A finite double is the rational number it stands for; an arithmetic
  operation is the exact rational operation followed by rounding to the nearest number with a
  53-bit significand, ties to even (IEEE 754 binary64). Exponents are not bounded: the values the
  code handles (compute units, bytes, lamports, slots, seconds) are far from overflow and from
  the subnormal range. \<open>NaN\<close> and the infinities are not values of the type; where the code can
  meet them the model has an explicit branch.
\<close>

type_synonym number = rat

definition round_half_even :: "rat \<Rightarrow> int" where
  "round_half_even q =
     (let f = \<lfloor>q\<rfloor>; r = q - of_int f
      in if r < 1/2 then f else if 1/2 < r then f + 1 else if even f then f else f + 1)"

text \<open>The exponent of a positive rational: \<open>2 powi e \<le> x < 2 powi (e + 1)\<close>.\<close>

definition expo :: "rat \<Rightarrow> int" where
  "expo x =
     (let (p, q) = quotient_of x;
          d = bitlen p - bitlen q
      in if 2 powi d \<le> x then d else d - 1)"

definition rnd :: "rat \<Rightarrow> rat" where
  "rnd x =
     (if x = 0 then 0
      else let a = \<bar>x\<bar>; u = 2 powi (expo a - 52) in sgn x * of_int (round_half_even (a / u)) * u)"

definition fmul :: "number \<Rightarrow> number \<Rightarrow> number" where
  "fmul a b = rnd (a * b)"

definition fdiv :: "number \<Rightarrow> number \<Rightarrow> number" where
  "fdiv a b = rnd (a / b)"

definition fadd :: "number \<Rightarrow> number \<Rightarrow> number" where
  "fadd a b = rnd (a + b)"

lemmas js_arith_defs [js_defs] = fmul_def fdiv_def fadd_def

section \<open>Rounding to an integer\<close>

lemma round_half_even_of_int [simp]: "round_half_even (of_int n) = n"
  by (simp add: round_half_even_def)

lemma round_half_even_floor: "round_half_even q = \<lfloor>q\<rfloor> \<or> round_half_even q = \<lfloor>q\<rfloor> + 1"
  by (auto simp: round_half_even_def Let_def)

lemma round_half_even_mono: "p \<le> q \<Longrightarrow> round_half_even p \<le> round_half_even q"
proof -
  assume le: "p \<le> q"
  then have fl: "\<lfloor>p\<rfloor> \<le> \<lfloor>q\<rfloor>" by (rule floor_mono)
  show ?thesis
  proof (cases "\<lfloor>p\<rfloor> = \<lfloor>q\<rfloor>")
    case True
    with le show ?thesis by (auto simp: round_half_even_def Let_def)
  next
    case False
    with fl have "\<lfloor>p\<rfloor> + 1 \<le> \<lfloor>q\<rfloor>" by simp
    with round_half_even_floor[of p] round_half_even_floor[of q] show ?thesis by auto
  qed
qed

lemma round_half_even_ge: "of_int n \<le> q \<Longrightarrow> n \<le> round_half_even q"
  using round_half_even_mono[of "of_int n" q] by simp

lemma round_half_even_le: "q \<le> of_int n \<Longrightarrow> round_half_even q \<le> n"
  using round_half_even_mono[of q "of_int n"] by simp

section \<open>Rounding to a double\<close>

lemma expo_bounds:
  assumes "0 < x"
  shows "2 powi expo x \<le> x" and "x < 2 powi (expo x + 1)"
proof -
  obtain p q where pq: "quotient_of x = (p, q)" by (cases "quotient_of x")
  have q: "0 < q" and x: "x = of_int p / of_int q"
    using quotient_of_denom_pos[OF pq] quotient_of_div[OF pq] by auto
  with assms have p: "0 < p" by (simp add: zero_less_divide_iff)
  define d where "d = bitlen p - bitlen q"
  have bp: "bitlen p \<ge> 1" and bq: "bitlen q \<ge> 1"
    using p q bitlen_eq_zero_iff[of p] bitlen_eq_zero_iff[of q] bitlen_nonneg[of p] bitlen_nonneg[of q]
    by auto
  have pr: "(2 :: rat) powi (bitlen n - 1) \<le> of_int n \<and> of_int n < (2 :: rat) powi bitlen n"
    if "0 < n" "bitlen n \<ge> 1" for n
  proof -
    have "2 ^ nat (bitlen n - 1) \<le> n" "n < 2 ^ nat (bitlen n)" using bitlen_bounds[OF that(1)] by auto
    then have "of_int (2 ^ nat (bitlen n - 1)) \<le> (of_int n :: rat)"
        "(of_int n :: rat) < of_int (2 ^ nat (bitlen n))"
      by (simp_all only: of_int_le_iff of_int_less_iff)
    then show ?thesis using that by (simp add: power_int_def)
  qed
  have "x < 2 powi bitlen p / 2 powi (bitlen q - 1)"
    unfolding x using pr[OF p bp] pr[OF q bq] p q
    by (intro frac_less) auto
  also have "\<dots> = 2 powi (d + 1)" by (simp add: d_def algebra_simps flip: power_int_diff)
  finally have up: "x < 2 powi (d + 1)" .
  have "2 powi (bitlen p - 1) / 2 powi bitlen q < x"
    unfolding x using pr[OF p bp] pr[OF q bq] p q
    by (intro frac_less2) auto
  moreover have "2 powi (bitlen p - 1) / (2 :: rat) powi bitlen q = 2 powi (d - 1)"
    by (simp add: d_def algebra_simps flip: power_int_diff)
  ultimately have lo: "2 powi (d - 1) \<le> x" by simp
  have e: "expo x = (if 2 powi d \<le> x then d else d - 1)"
    by (simp add: expo_def pq d_def Let_def)
  from up lo show "2 powi expo x \<le> x" and "x < 2 powi (expo x + 1)" by (auto simp: e)
qed

lemma expo_mono: "0 < x \<Longrightarrow> x \<le> y \<Longrightarrow> expo x \<le> expo y"
proof (rule ccontr)
  assume *: "0 < x" "x \<le> y" "\<not> expo x \<le> expo y"
  then have "(2 :: rat) powi (expo y + 1) \<le> 2 powi expo x" by (intro power_int_increasing) auto
  also have "\<dots> \<le> y" using expo_bounds(1)[of x] * by simp
  also have "y < 2 powi (expo y + 1)" using expo_bounds(2)[of y] * by simp
  finally show False by simp
qed

lemma rnd_pos: "0 < x \<Longrightarrow> rnd x = of_int (round_half_even (x / 2 powi (expo x - 52))) * 2 powi (expo x - 52)"
  by (simp add: rnd_def Let_def)

lemma rnd_pos_ge: "0 < x \<Longrightarrow> 2 powi expo x \<le> rnd x"
proof -
  assume x: "0 < x"
  have u: "(2 :: rat) powi expo x = of_int (2 ^ 52) * 2 powi (expo x - 52)"
    by (simp add: power_int_diff)
  have "2 ^ 52 \<le> round_half_even (x / 2 powi (expo x - 52))"
    using expo_bounds(1)[OF x] unfolding u
    by (intro round_half_even_ge) (simp add: pos_le_divide_eq)
  then have "(of_int (2 ^ 52) :: rat) \<le> of_int (round_half_even (x / 2 powi (expo x - 52)))"
    by (simp only: of_int_le_iff)
  then show ?thesis unfolding rnd_pos[OF x] u by (intro mult_right_mono) auto
qed

lemma rnd_pos_le: "0 < x \<Longrightarrow> rnd x \<le> 2 powi (expo x + 1)"
proof -
  assume x: "0 < x"
  have u: "(2 :: rat) powi (expo x + 1) = of_int (2 ^ 53) * 2 powi (expo x - 52)"
    by (simp add: power_int_diff power_int_add)
  have "round_half_even (x / 2 powi (expo x - 52)) \<le> 2 ^ 53"
    using expo_bounds(2)[OF x] unfolding u
    by (intro round_half_even_le) (simp add: pos_divide_le_eq)
  then have "(of_int (round_half_even (x / 2 powi (expo x - 52))) :: rat) \<le> of_int (2 ^ 53)"
    by (simp only: of_int_le_iff)
  then show ?thesis unfolding rnd_pos[OF x] u by (intro mult_right_mono) auto
qed

lemma rnd_0 [simp]: "rnd 0 = 0"
  by (simp add: rnd_def)

lemma rnd_pos_mono: "0 < x \<Longrightarrow> x \<le> y \<Longrightarrow> rnd x \<le> rnd y"
proof (cases "expo x = expo y")
  case True
  assume xy: "0 < x" "x \<le> y"
  have "round_half_even (x / 2 powi (expo x - 52)) \<le> round_half_even (y / 2 powi (expo x - 52))"
    using xy by (intro round_half_even_mono divide_right_mono) auto
  then show ?thesis using xy True by (simp add: rnd_pos)
next
  case False
  assume xy: "0 < x" "x \<le> y"
  with False expo_mono[OF xy] have "expo x + 1 \<le> expo y" by simp
  then have "(2 :: rat) powi (expo x + 1) \<le> 2 powi expo y" by (intro power_int_increasing) auto
  with rnd_pos_le[of x] rnd_pos_ge[of y] xy show ?thesis by simp
qed

lemma rnd_nonneg: "0 \<le> x \<Longrightarrow> 0 \<le> rnd x"
  by (cases "x = 0") (auto intro: order_trans[OF _ rnd_pos_ge])

lemma rnd_mono_nonneg: "0 \<le> x \<Longrightarrow> x \<le> y \<Longrightarrow> rnd x \<le> rnd y"
  by (cases "x = 0") (auto intro: rnd_pos_mono rnd_nonneg)

text \<open>Integers below \<open>2 ^ 53\<close> are doubles, and so are their products with powers of two.\<close>

lemma rnd_of_nat: "n < 2 ^ 53 \<Longrightarrow> rnd (of_nat n) = of_nat n"
proof (cases "n = 0")
  case False
  assume n: "n < 2 ^ 53"
  let ?x = "of_nat n :: rat"
  have x: "0 < ?x" using False by simp
  have "expo ?x \<le> 52"
  proof (rule ccontr)
    assume "\<not> expo ?x \<le> 52"
    then have "(2 :: rat) powi 53 \<le> 2 powi expo ?x" by (intro power_int_increasing) auto
    also have "\<dots> \<le> ?x" by (rule expo_bounds(1)[OF x])
    finally have "2 ^ 53 \<le> ?x" by simp
    then have "2 ^ 53 \<le> n" by (metis of_nat_le_iff of_nat_numeral of_nat_power)
    with n show False by simp
  qed
  then have "?x / 2 powi (expo ?x - 52) = of_int (int n * 2 ^ nat (52 - expo ?x))"
    by (simp add: power_int_def divide_simps nat_diff_distrib)
  then have "round_half_even (?x / 2 powi (expo ?x - 52)) = int n * 2 ^ nat (52 - expo ?x)"
    by (metis round_half_even_of_int)
  then show ?thesis
    unfolding rnd_pos[OF x] using \<open>expo ?x \<le> 52\<close>
    by (auto simp: power_int_def mult.assoc simp flip: power_mult_distrib)
qed simp

lemma expo_eqI:
  assumes "2 powi e \<le> x" and "x < 2 powi (e + 1)"
  shows "expo x = e"
proof -
  have x: "0 < x" using assms(1) by (rule order.strict_trans2[rotated]) simp
  have "\<not> e + 1 \<le> expo x"
  proof
    assume "e + 1 \<le> expo x"
    then have "(2 :: rat) powi (e + 1) \<le> 2 powi expo x" by (intro power_int_increasing) auto
    with expo_bounds(1)[OF x] assms(2) show False by simp
  qed
  moreover have "\<not> expo x + 1 \<le> e"
  proof
    assume "expo x + 1 \<le> e"
    then have "(2 :: rat) powi (expo x + 1) \<le> 2 powi e" by (intro power_int_increasing) auto
    with expo_bounds(2)[OF x] assms(1) show False by simp
  qed
  ultimately show ?thesis by simp
qed

lemma rnd_scale: "0 < x \<Longrightarrow> rnd (x * 2 powi k) = rnd x * 2 powi k"
proof -
  assume x: "0 < x"
  have e: "expo (x * 2 powi k) = expo x + k"
    using expo_bounds[OF x] by (intro expo_eqI) (auto simp: power_int_add)
  have "x * 2 powi k / 2 powi (expo x + k - 52) = x / 2 powi (expo x - 52)"
    by (simp add: power_int_diff power_int_add)
  then show ?thesis using x
    by (simp add: rnd_pos e power_int_diff power_int_add)
qed

lemma rnd_of_nat_div_pow2: "n < 2 ^ 53 \<Longrightarrow> rnd (of_nat n / 2 ^ k) = of_nat n / 2 ^ k"
  using rnd_scale[of "of_nat n" "- int k"] rnd_of_nat[of n]
  by (cases "n = 0") (auto simp: power_int_minus divide_simps)

lemma rnd_pos_pos: "0 < x \<Longrightarrow> 0 < rnd x"
  by (rule order.strict_trans2[OF _ rnd_pos_ge]) auto

lemma fmul_ge_of_nat:
  assumes "n < 2 ^ 53" and "1 \<le> s"
  shows "of_nat n \<le> fmul (of_nat n) s"
proof -
  have "of_nat n * 1 \<le> of_nat n * s" using assms by (intro mult_left_mono) auto
  then have "rnd (of_nat n) \<le> rnd (of_nat n * s)" by (intro rnd_mono_nonneg) auto
  then show ?thesis using assms by (simp add: fmul_def rnd_of_nat)
qed

end
