(* ===== verification/Compute_Units.thy ===== *)
theory Compute_Units
  imports JS_Number
begin

text \<open>
  \<^verbatim>\<open>packages/spl-utils/src/computeUnitTable.ts\<close>: the fallback compute-unit table, used to price a
  transaction when simulation fails. The table itself (three parts, in the order of the file), the
  ceilings of the non-Anchor programs, the key format, and the summation with its conservative
  branches. The lemmas give the value on every branch, its bounds, its independence of the order of
  the instructions and its monotonicity; the two entry points (compiled transaction, instruction
  list) agree.
\<close>

section \<open>The tables\<close>

definition INSTRUCTION_CU_TABLE_1 :: "(string \<times> nat) list" where
  "INSTRUCTION_CU_TABLE_1 = [
     (''topqqzQZroCyRrgyM5zVq6xkFDVnfF13iixSjajydgU:eaccb3f1f9b4986e'', 230071),
     (''topqqzQZroCyRrgyM5zVq6xkFDVnfF13iixSjajydgU:d973e6aa442fafc7'', 52423),
     (''topqqzQZroCyRrgyM5zVq6xkFDVnfF13iixSjajydgU:1b878c374c515333'', 152410),
     (''hcrLPFgFUY6sCUKzqLWxXx5bntDiDCrAZVcrXfx9AHu:3f865a9ff98338b5'', 380865),
     (''hcrLPFgFUY6sCUKzqLWxXx5bntDiDCrAZVcrXfx9AHu:2c2149f2ca9ca298'', 8607),
     (''tdcam4m5U74pEZQrsQ7fVAav4AUXXc6z8fkhvExfRVN:34871f9c70464b03'', 69738),
     (''tdcam4m5U74pEZQrsQ7fVAav4AUXXc6z8fkhvExfRVN:e10f950c9015525e'', 17431),
     (''tdcam4m5U74pEZQrsQ7fVAav4AUXXc6z8fkhvExfRVN:98c73c1c865777ea'', 44115),
     (''circAbx64bbsscPbQzZAUvuXpHqrCe6fLMzc2uKXz9g:fa7a4d3065fef3a8'', 2118),
     (''circAbx64bbsscPbQzZAUvuXpHqrCe6fLMzc2uKXz9g:c2d1a80365b0691e'', 8245),
     (''circAbx64bbsscPbQzZAUvuXpHqrCe6fLMzc2uKXz9g:1e406323709f29b1'', 26000),
     (''treaf4wWBBty3fHdyBpo35Mz84M8k3heKXmjmi9vFt5:9503c96c823838d2'', 97294),
     (''circAbx64bbsscPbQzZAUvuXpHqrCe6fLMzc2uKXz9g:556cf6d2f8039fa7'', 14620),
     (''circAbx64bbsscPbQzZAUvuXpHqrCe6fLMzc2uKXz9g:adf6f0eae5b2f939'', 14188),
     (''circAbx64bbsscPbQzZAUvuXpHqrCe6fLMzc2uKXz9g:d2a4a1d34780dff4'', 13994),
     (''circAbx64bbsscPbQzZAUvuXpHqrCe6fLMzc2uKXz9g:a2b6c16166557fbd'', 10507),
     (''credMBJhYFzfn7NxBMdU4aUqFggAjgztaCcv2Fo6fPT:9223fefc22ccdd85'', 52793),
     (''credMBJhYFzfn7NxBMdU4aUqFggAjgztaCcv2Fo6fPT:816a2b04348f66d0'', 70681),
     (''credMBJhYFzfn7NxBMdU4aUqFggAjgztaCcv2Fo6fPT:33b6f3246bf2b0b2'', 58802),
     (''credMBJhYFzfn7NxBMdU4aUqFggAjgztaCcv2Fo6fPT:9a38e280a273e205'', 63244),
     (''credMBJhYFzfn7NxBMdU4aUqFggAjgztaCcv2Fo6fPT:17c173cadc9d4498'', 63366),
     (''credMBJhYFzfn7NxBMdU4aUqFggAjgztaCcv2Fo6fPT:08ad2a3d9d5835b6'', 69839),
     (''credMBJhYFzfn7NxBMdU4aUqFggAjgztaCcv2Fo6fPT:4e6da984905edd39'', 92991),
     (''credMBJhYFzfn7NxBMdU4aUqFggAjgztaCcv2Fo6fPT:ad3d5fa348074519'', 4470),
     (''topqqzQZroCyRrgyM5zVq6xkFDVnfF13iixSjajydgU:b23a1aa0d17d480e'', 219706),
     (''topqqzQZroCyRrgyM5zVq6xkFDVnfF13iixSjajydgU:cc744535507a208c'', 222223),
     (''fanqeMu3fw8R4LwKNbahPtYXJsyLL6NXyfe2BqzhfB6:6de6e02f28465a94'', 41055),
     (''hemjuPXBpNvggtaUnN1MwT3wrdhttKEfosTcc2P9Pg8:0ce6855c96e58d8e'', 35576),
     (''hemjuPXBpNvggtaUnN1MwT3wrdhttKEfosTcc2P9Pg8:05ee98b948780391'', 10463),
     (''hemjuPXBpNvggtaUnN1MwT3wrdhttKEfosTcc2P9Pg8:1351db1e0a220c50'', 277706),
     (''hemjuPXBpNvggtaUnN1MwT3wrdhttKEfosTcc2P9Pg8:cc1a3e8670c9a2a0'', 183444),
     (''hemjuPXBpNvggtaUnN1MwT3wrdhttKEfosTcc2P9Pg8:ae32200f8f070b98'', 25836),
     (''hemjuPXBpNvggtaUnN1MwT3wrdhttKEfosTcc2P9Pg8:bf60f52e3f49cf11'', 173032),
     (''hemjuPXBpNvggtaUnN1MwT3wrdhttKEfosTcc2P9Pg8:e8c27a44a7f677c5'', 811271),
     (''hemjuPXBpNvggtaUnN1MwT3wrdhttKEfosTcc2P9Pg8:de8378a3e6bb5bd1'', 161073),
     (''hemjuPXBpNvggtaUnN1MwT3wrdhttKEfosTcc2P9Pg8:3c70f0ce50655ed2'', 202384),
     (''hemjuPXBpNvggtaUnN1MwT3wrdhttKEfosTcc2P9Pg8:466172e2219650d9'', 213537),
     (''hemjuPXBpNvggtaUnN1MwT3wrdhttKEfosTcc2P9Pg8:62b37f333abfaebc'', 89343),
     (''hemjuPXBpNvggtaUnN1MwT3wrdhttKEfosTcc2P9Pg8:1ebde5db7b773e98'', 130123),
     (''hemjuPXBpNvggtaUnN1MwT3wrdhttKEfosTcc2P9Pg8:2d1881260e41070f'', 136021),
     (''hemjuPXBpNvggtaUnN1MwT3wrdhttKEfosTcc2P9Pg8:1790d29b08cb5acf'', 111987),
     (''hemjuPXBpNvggtaUnN1MwT3wrdhttKEfosTcc2P9Pg8:7917126e2b6f20fe'', 5687),
     (''hemjuPXBpNvggtaUnN1MwT3wrdhttKEfosTcc2P9Pg8:a6782c8f053f79d2'', 5050),
     (''hemjuPXBpNvggtaUnN1MwT3wrdhttKEfosTcc2P9Pg8:eabacc1c5b58f6f4'', 19444),
     (''hemjuPXBpNvggtaUnN1MwT3wrdhttKEfosTcc2P9Pg8:e20adef366cd0ddd'', 59617),
     (''hemjuPXBpNvggtaUnN1MwT3wrdhttKEfosTcc2P9Pg8:7554404c891fbc1c'', 55267),
     (''hemjuPXBpNvggtaUnN1MwT3wrdhttKEfosTcc2P9Pg8:d6341e41d7267a66'', 47954),
     (''hemjuPXBpNvggtaUnN1MwT3wrdhttKEfosTcc2P9Pg8:d3ebcd1d6d569927'', 128554),
     (''hemjuPXBpNvggtaUnN1MwT3wrdhttKEfosTcc2P9Pg8:cf68529dc1e54999'', 129637)]"

definition INSTRUCTION_CU_TABLE_2 :: "(string \<times> nat) list" where
  "INSTRUCTION_CU_TABLE_2 = [
     (''hemjuPXBpNvggtaUnN1MwT3wrdhttKEfosTcc2P9Pg8:3455a9868a744e12'', 10461),
     (''hdaoVTCqhfHHo75XdAMxBKdUqvq1i5bF23sisBqVgGR:40e9782eac5354a3'', 6185),
     (''hdaoVTCqhfHHo75XdAMxBKdUqvq1i5bF23sisBqVgGR:6ba7facfb714abcb'', 61135),
     (''hdaoVTCqhfHHo75XdAMxBKdUqvq1i5bF23sisBqVgGR:81ec694ab0bef674'', 105152),
     (''hdaoVTCqhfHHo75XdAMxBKdUqvq1i5bF23sisBqVgGR:6c062a0600debead'', 49206),
     (''hdaoVTCqhfHHo75XdAMxBKdUqvq1i5bF23sisBqVgGR:60b6c45174ce9a69'', 69267),
     (''hdaoVTCqhfHHo75XdAMxBKdUqvq1i5bF23sisBqVgGR:c3679952983b792e'', 47973),
     (''hdaoVTCqhfHHo75XdAMxBKdUqvq1i5bF23sisBqVgGR:c18bff7e5f8690ef'', 75166),
     (''hdaoVTCqhfHHo75XdAMxBKdUqvq1i5bF23sisBqVgGR:2992374f89120d04'', 87968),
     (''hdaoVTCqhfHHo75XdAMxBKdUqvq1i5bF23sisBqVgGR:976801653a9f691f'', 124280),
     (''hdaoVTCqhfHHo75XdAMxBKdUqvq1i5bF23sisBqVgGR:b73528fd810d4368'', 154997),
     (''hdaoVTCqhfHHo75XdAMxBKdUqvq1i5bF23sisBqVgGR:a6ce1d9d4990a429'', 75490),
     (''hdaoVTCqhfHHo75XdAMxBKdUqvq1i5bF23sisBqVgGR:a3c456f96074ecc2'', 28790),
     (''hdaoVTCqhfHHo75XdAMxBKdUqvq1i5bF23sisBqVgGR:d8b6f68e72073a9e'', 28281),
     (''hdaoVTCqhfHHo75XdAMxBKdUqvq1i5bF23sisBqVgGR:d08f434b1fc1878e'', 9785),
     (''hdaoVTCqhfHHo75XdAMxBKdUqvq1i5bF23sisBqVgGR:a2b6c16166557fbd'', 76320),
     (''hdaoVTCqhfHHo75XdAMxBKdUqvq1i5bF23sisBqVgGR:9dd177797d2dafa1'', 6127),
     (''hdaoVTCqhfHHo75XdAMxBKdUqvq1i5bF23sisBqVgGR:d8a415fc617392df'', 7218),
     (''hexbnKYoA2GercNNhHUCCfrTRWrHjT6ujKPXTa5NPqJ:92f69f33b423b544'', 64014),
     (''hexbnKYoA2GercNNhHUCCfrTRWrHjT6ujKPXTa5NPqJ:7980030869de1f60'', 2781),
     (''hexbnKYoA2GercNNhHUCCfrTRWrHjT6ujKPXTa5NPqJ:5b2129d12b1bb15c'', 15386),
     (''hexbnKYoA2GercNNhHUCCfrTRWrHjT6ujKPXTa5NPqJ:d869e391350b90c7'', 2947),
     (''hexbnKYoA2GercNNhHUCCfrTRWrHjT6ujKPXTa5NPqJ:56f63a60270e715a'', 3993),
     (''1azyuavdMyvsivtNxPoz6SucD18eDHeXzFCUPq5XU7w:a030b8390569e947'', 120730),
     (''1azyuavdMyvsivtNxPoz6SucD18eDHeXzFCUPq5XU7w:52268acb365ff0b6'', 80567),
     (''1azyuavdMyvsivtNxPoz6SucD18eDHeXzFCUPq5XU7w:eb132a0c7162d675'', 59163),
     (''1azyuavdMyvsivtNxPoz6SucD18eDHeXzFCUPq5XU7w:509097151a90daae'', 95720),
     (''1azyuavdMyvsivtNxPoz6SucD18eDHeXzFCUPq5XU7w:5237cacb9ec6f067'', 103481),
     (''1azyuavdMyvsivtNxPoz6SucD18eDHeXzFCUPq5XU7w:d82333ab98293e6a'', 25786),
     (''1azyuavdMyvsivtNxPoz6SucD18eDHeXzFCUPq5XU7w:fbedbe80e4c35def'', 7565),
     (''1azyuavdMyvsivtNxPoz6SucD18eDHeXzFCUPq5XU7w:3e325d2999ca0dd1'', 12343),
     (''1azyuavdMyvsivtNxPoz6SucD18eDHeXzFCUPq5XU7w:75c8372c3ec3c951'', 52961),
     (''1azyuavdMyvsivtNxPoz6SucD18eDHeXzFCUPq5XU7w:c4edd0b26807240e'', 3494),
     (''1azyuavdMyvsivtNxPoz6SucD18eDHeXzFCUPq5XU7w:4976a7ecd3d59ed6'', 6303),
     (''1atrmQs3eq1N2FEYWu6tyTXbCjP4uQwExpjtnhXtS8h:20e3cf7f70321f9d'', 11374),
     (''1atrmQs3eq1N2FEYWu6tyTXbCjP4uQwExpjtnhXtS8h:d95dae6182b77e2c'', 156774),
     (''mfanLprNnaiP4RX9Zz1BMcDosYHCqnG24H1fMEbi9Gn:6d929483c50acb64'', 79084),
     (''mfanLprNnaiP4RX9Zz1BMcDosYHCqnG24H1fMEbi9Gn:6de6e02f28465a94'', 144276),
     (''mfanLprNnaiP4RX9Zz1BMcDosYHCqnG24H1fMEbi9Gn:0cd0601ffbf3b6f7'', 65877),
     (''mfanLprNnaiP4RX9Zz1BMcDosYHCqnG24H1fMEbi9Gn:eaccb3f1f9b4986e'', 171480),
     (''mfanLprNnaiP4RX9Zz1BMcDosYHCqnG24H1fMEbi9Gn:75d8d18303804134'', 193465),
     (''mfanLprNnaiP4RX9Zz1BMcDosYHCqnG24H1fMEbi9Gn:744028b39e3d0c80'', 187662),
     (''memMa1HG4odAFmUbGWfPwS1WWfK95k99F2YTkGvyxZr:85bc12fb6ed37c3e'', 3701),
     (''memMa1HG4odAFmUbGWfPwS1WWfK95k99F2YTkGvyxZr:b3b30a3cc4388749'', 253636),
     (''memMa1HG4odAFmUbGWfPwS1WWfK95k99F2YTkGvyxZr:8495a0e84fa7c2f8'', 296524),
     (''memMa1HG4odAFmUbGWfPwS1WWfK95k99F2YTkGvyxZr:2b544a080178b7de'', 158165),
     (''memMa1HG4odAFmUbGWfPwS1WWfK95k99F2YTkGvyxZr:58ac46d225df19b7'', 282332),
     (''memMa1HG4odAFmUbGWfPwS1WWfK95k99F2YTkGvyxZr:92466d7699f94f2a'', 3715),
     (''memMa1HG4odAFmUbGWfPwS1WWfK95k99F2YTkGvyxZr:5e9ada6c20c71de3'', 56992),
     (''porcSnvH9pvcYPmQ65Y8qcZSRxQBiBBQX7UV5nmBegy:602b842aaf26568d'', 6213)]"

definition INSTRUCTION_CU_TABLE_3 :: "(string \<times> nat) list" where
  "INSTRUCTION_CU_TABLE_3 = [
     (''rorcfdX4h9m9swCKgcypaHJ8NGYVANBpmV9EHn3cYrF:a25beb44242d9b36'', 23443),
     (''rorcfdX4h9m9swCKgcypaHJ8NGYVANBpmV9EHn3cYrF:fb93f1b425970d7f'', 28702),
     (''treaf4wWBBty3fHdyBpo35Mz84M8k3heKXmjmi9vFt5:eb7fab8b774deb76'', 123073),
     (''hvsrNC3NKbcryqDs2DocYHZ9yPKEVzdSjQG6RVtK1s8:95c9c0c8b88e92e7'', 9599),
     (''hvsrNC3NKbcryqDs2DocYHZ9yPKEVzdSjQG6RVtK1s8:adbc23d7b6ed9e07'', 27962),
     (''hvsrNC3NKbcryqDs2DocYHZ9yPKEVzdSjQG6RVtK1s8:2e34e1900dd6f664'', 9398),
     (''hvsrNC3NKbcryqDs2DocYHZ9yPKEVzdSjQG6RVtK1s8:52ac9d0849d6a83e'', 52036),
     (''hvsrNC3NKbcryqDs2DocYHZ9yPKEVzdSjQG6RVtK1s8:aeea50891a95f41d'', 21616),
     (''hvsrNC3NKbcryqDs2DocYHZ9yPKEVzdSjQG6RVtK1s8:fbad85c69e239861'', 219735),
     (''hvsrNC3NKbcryqDs2DocYHZ9yPKEVzdSjQG6RVtK1s8:785a390824ff5219'', 202912),
     (''hvsrNC3NKbcryqDs2DocYHZ9yPKEVzdSjQG6RVtK1s8:e9301a243eaa4f9e'', 31658),
     (''hvsrNC3NKbcryqDs2DocYHZ9yPKEVzdSjQG6RVtK1s8:44cd301ea43e0046'', 6974),
     (''hvsrNC3NKbcryqDs2DocYHZ9yPKEVzdSjQG6RVtK1s8:8a913c33b9a7a29e'', 37226),
     (''hvsrNC3NKbcryqDs2DocYHZ9yPKEVzdSjQG6RVtK1s8:beb055c81df8007f'', 11519),
     (''hvsrNC3NKbcryqDs2DocYHZ9yPKEVzdSjQG6RVtK1s8:8ec941e27088f866'', 33121),
     (''hvsrNC3NKbcryqDs2DocYHZ9yPKEVzdSjQG6RVtK1s8:a3c456f96074ecc2'', 8921),
     (''hvsrNC3NKbcryqDs2DocYHZ9yPKEVzdSjQG6RVtK1s8:ade7d9e2b2f79057'', 2995),
     (''hvsrNC3NKbcryqDs2DocYHZ9yPKEVzdSjQG6RVtK1s8:a2b6c16166557fbd'', 34455),
     (''hvsrNC3NKbcryqDs2DocYHZ9yPKEVzdSjQG6RVtK1s8:522f14166c3bf573'', 67869),
     (''hvsrNC3NKbcryqDs2DocYHZ9yPKEVzdSjQG6RVtK1s8:f07fcfe44519fd61'', 32598),
     (''we1cGnTxTkDP9Sk49dw1d3T7ik7V2NfnY4qDGCDHXfC:c1bdbddb61b052e7'', 450737),
     (''we1cGnTxTkDP9Sk49dw1d3T7ik7V2NfnY4qDGCDHXfC:dcdeb87d64f3f3ac'', 160147),
     (''we1cGnTxTkDP9Sk49dw1d3T7ik7V2NfnY4qDGCDHXfC:1e0bda1830c6205a'', 216491),
     (''tdcam4m5U74pEZQrsQ7fVAav4AUXXc6z8fkhvExfRVN:8b8f316cfb0cd23b'', 115475),
     (''hemjuPXBpNvggtaUnN1MwT3wrdhttKEfosTcc2P9Pg8:5ee3f08543e0196d'', 2485),
     (''porcSnvH9pvcYPmQ65Y8qcZSRxQBiBBQX7UV5nmBegy:7f38af8e33d815f2'', 7150),
     (''porcSnvH9pvcYPmQ65Y8qcZSRxQBiBBQX7UV5nmBegy:786faf77c4d879c0'', 50973),
     (''hvsrNC3NKbcryqDs2DocYHZ9yPKEVzdSjQG6RVtK1s8:0d13701bf8d02691'', 67083),
     (''hvsrNC3NKbcryqDs2DocYHZ9yPKEVzdSjQG6RVtK1s8:060b33935de72723'', 75364),
     (''1atrmQs3eq1N2FEYWu6tyTXbCjP4uQwExpjtnhXtS8h:5cbdb0f581ada6a9'', 2765),
     (''1atrmQs3eq1N2FEYWu6tyTXbCjP4uQwExpjtnhXtS8h:1956817cb8c38659'', 2872),
     (''1atrmQs3eq1N2FEYWu6tyTXbCjP4uQwExpjtnhXtS8h:38dfa5f596ecad25'', 3604),
     (''memMa1HG4odAFmUbGWfPwS1WWfK95k99F2YTkGvyxZr:ddec50737de071a8'', 182270),
     (''memMa1HG4odAFmUbGWfPwS1WWfK95k99F2YTkGvyxZr:c9012eb54fbf43f4'', 3320),
     (''hexbnKYoA2GercNNhHUCCfrTRWrHjT6ujKPXTa5NPqJ:dc96b2aac596d965'', 3130),
     (''topqqzQZroCyRrgyM5zVq6xkFDVnfF13iixSjajydgU:c2d0b1ae6462c4d9'', 106264),
     (''tdcam4m5U74pEZQrsQ7fVAav4AUXXc6z8fkhvExfRVN:50afa90952dcb70a'', 88794),
     (''circAbx64bbsscPbQzZAUvuXpHqrCe6fLMzc2uKXz9g:1b38455f49685612'', 2115),
     (''treaf4wWBBty3fHdyBpo35Mz84M8k3heKXmjmi9vFt5:d18b5ae2f99559d9'', 2035),
     (''fanqeMu3fw8R4LwKNbahPtYXJsyLL6NXyfe2BqzhfB6:04cd34efdfa711d3'', 268386),
     (''fanqeMu3fw8R4LwKNbahPtYXJsyLL6NXyfe2BqzhfB6:f49b9aa5eb7f2cbb'', 204750),
     (''fanqeMu3fw8R4LwKNbahPtYXJsyLL6NXyfe2BqzhfB6:c72b785167076870'', 65264),
     (''hcrLPFgFUY6sCUKzqLWxXx5bntDiDCrAZVcrXfx9AHu:e84f95190fa03200'', 9083),
     (''hcrLPFgFUY6sCUKzqLWxXx5bntDiDCrAZVcrXfx9AHu:76852f41b6df15f5'', 27474),
     (''hcrLPFgFUY6sCUKzqLWxXx5bntDiDCrAZVcrXfx9AHu:30728631ae0f54d1'', 26461),
     (''hcrLPFgFUY6sCUKzqLWxXx5bntDiDCrAZVcrXfx9AHu:e00545309cad3477'', 55887),
     (''hcrLPFgFUY6sCUKzqLWxXx5bntDiDCrAZVcrXfx9AHu:59d043dd74967d7c'', 19434),
     (''hcrLPFgFUY6sCUKzqLWxXx5bntDiDCrAZVcrXfx9AHu:881bfbc9a9530fce'', 181986),
     (''hcrLPFgFUY6sCUKzqLWxXx5bntDiDCrAZVcrXfx9AHu:25bbf0e2c259d539'', 263828),
     (''hcrLPFgFUY6sCUKzqLWxXx5bntDiDCrAZVcrXfx9AHu:bf5d02ac7f030110'', 18875),
     (''hcrLPFgFUY6sCUKzqLWxXx5bntDiDCrAZVcrXfx9AHu:6d694121031f838f'', 65598),
     (''hcrLPFgFUY6sCUKzqLWxXx5bntDiDCrAZVcrXfx9AHu:b3fd74f09eb38f77'', 29279),
     (''hcrLPFgFUY6sCUKzqLWxXx5bntDiDCrAZVcrXfx9AHu:7a169de76dc89b02'', 327897)]"

definition INSTRUCTION_CU_TABLE :: "(string \<times> nat) list" where
  "INSTRUCTION_CU_TABLE = INSTRUCTION_CU_TABLE_1 @ INSTRUCTION_CU_TABLE_2 @ INSTRUCTION_CU_TABLE_3"

definition MAX_COMPUTE_UNITS :: nat where
  "MAX_COMPUTE_UNITS = 1400000"

definition FALLBACK_CU_MARGIN :: number where
  "FALLBACK_CU_MARGIN = 2"

definition PROGRAM_CU_CEILINGS :: "(pubkey \<times> nat) list" where
  "PROGRAM_CU_CEILINGS = [
     (''11111111111111111111111111111111'', 3000),
     (''TokenkegQfeZyiNwAJbNbGKPFXCWuBvf9Ss623VQ5DA'', 10000),
     (''TokenzQdBNbLqP5VEhdkAS6EPFLC1PHnBqCXEpPxuEb'', 12000),
     (''ATokenGPvbdGVxr1b2hvZbsiqW5xWH25efTNsLJA8knL'', 35000),
     (''MemoSq4gqABAXKb96qnH8TysNcWxMyWCqXgDLGmfcHr'', 15000)]"

section \<open>Keys and summation\<close>

definition hex_digit :: "nat \<Rightarrow> char" where
  "hex_digit n = (if n < 10 then char_of (48 + n) else char_of (87 + n))"

definition byte_hex :: "byte \<Rightarrow> string" where
  "byte_hex b = [hex_digit (unat b div 16), hex_digit (unat b mod 16)]"

definition cuTableKey :: "pubkey \<Rightarrow> bytes \<Rightarrow> string" where
  "cuTableKey programId data = programId @ '':'' @ concat (map byte_hex (js_slice data 0 8))"

text \<open>\<open>INSTRUCTION_CU_TABLE[cuTableKey(..)] ?? PROGRAM_CU_CEILINGS[programId]\<close>.\<close>

definition cu_lookup :: "pubkey \<Rightarrow> bytes \<Rightarrow> nat option" where
  "cu_lookup programId data =
     (case map_of INSTRUCTION_CU_TABLE (cuTableKey programId data) of
        Some cu \<Rightarrow> Some cu
      | None \<Rightarrow> map_of PROGRAM_CU_CEILINGS programId)"

text \<open>
  The loop of \<open>sumTableCu\<close>: ComputeBudget instructions are skipped, an unknown instruction ends
  the function with the maximum (\<open>None\<close> here), otherwise the total is the sum.
\<close>

fun sum_loop :: "pubkey \<Rightarrow> nat \<Rightarrow> (pubkey \<times> bytes) list \<Rightarrow> nat option" where
  "sum_loop cb tot [] = Some tot"
| "sum_loop cb tot ((programId, data) # pairs) =
     (if programId = cb then sum_loop cb tot pairs
      else case cu_lookup programId data of
        None \<Rightarrow> None
      | Some cu \<Rightarrow> sum_loop cb (tot + cu) pairs)"

definition sumTableCu :: "pubkey \<Rightarrow> (pubkey \<times> bytes) list \<Rightarrow> nat" where
  "sumTableCu cb pairs =
     (case sum_loop cb 0 pairs of
        None \<Rightarrow> MAX_COMPUTE_UNITS
      | Some tot \<Rightarrow>
          if tot = 0 then MAX_COMPUTE_UNITS
          else min MAX_COMPUTE_UNITS (nat \<lceil>fmul (of_nat tot) FALLBACK_CU_MARGIN\<rceil>))"

definition tableComputeUnits :: "pubkey \<Rightarrow> versioned_message \<Rightarrow> nat" where
  "tableComputeUnits cb msg =
     sumTableCu cb (map (\<lambda>ix.
       (case js_nth (vm_staticAccountKeys msg) (ci_programIdIndex ix) of Some k \<Rightarrow> k | None \<Rightarrow> [],
        ci_data ix)) (vm_compiledInstructions msg))"

definition tableComputeUnitsForInstructions :: "pubkey \<Rightarrow> instruction list \<Rightarrow> nat" where
  "tableComputeUnitsForInstructions cb instructions =
     sumTableCu cb (map (\<lambda>ix. (ix_programId ix, ix_data ix)) instructions)"

section \<open>Lemmas\<close>

lemma sum_loop_step:
  "sum_loop cb t (p # ps) =
     (if fst p = cb then sum_loop cb t ps
      else case cu_lookup (fst p) (snd p) of None \<Rightarrow> None | Some cu \<Rightarrow> sum_loop cb (t + cu) ps)"
  by (cases p) simp

text \<open>The total as a specification: no unknown instruction, and the sum over the others.\<close>

definition priced :: "pubkey \<Rightarrow> (pubkey \<times> bytes) list \<Rightarrow> nat option list" where
  "priced cb pairs = map (\<lambda>(p, d). cu_lookup p d) (filter (\<lambda>(p, d). p \<noteq> cb) pairs)"

lemma sum_loop_priced:
  "sum_loop cb t pairs =
     (if None \<in> set (priced cb pairs) then None
      else Some (t + sum_list (map the (priced cb pairs))))"
  by (induction cb t pairs rule: sum_loop.induct) (auto simp: priced_def split: option.splits)

lemma margin_exact:
  assumes "t < 2 ^ 52"
  shows "nat \<lceil>fmul (of_nat t) FALLBACK_CU_MARGIN\<rceil> = 2 * t"
proof -
  have "fmul (of_nat t) FALLBACK_CU_MARGIN = rnd (of_nat (2 * t))"
    by (simp add: fmul_def FALLBACK_CU_MARGIN_def mult.commute)
  also have "\<dots> = of_nat (2 * t)" using assms by (intro rnd_of_nat) simp
  finally show ?thesis by (metis ceiling_of_nat nat_int)
qed

lemma margin_ge:
  "t < 2 ^ 53 \<Longrightarrow> t \<le> nat \<lceil>fmul (of_nat t) FALLBACK_CU_MARGIN\<rceil>"
  using fmul_ge_of_nat[of t FALLBACK_CU_MARGIN]
  by (simp add: FALLBACK_CU_MARGIN_def le_nat_iff le_ceiling_iff)

lemma margin_mono:
  "a \<le> b \<Longrightarrow> nat \<lceil>fmul (of_nat a) FALLBACK_CU_MARGIN\<rceil> \<le> nat \<lceil>fmul (of_nat b) FALLBACK_CU_MARGIN\<rceil>"
  by (intro nat_mono ceiling_mono) (auto simp: fmul_def FALLBACK_CU_MARGIN_def intro: rnd_mono_nonneg)

lemma margin_pos:
  assumes "0 < t"
  shows "0 < nat \<lceil>fmul (of_nat t) FALLBACK_CU_MARGIN\<rceil>"
  using margin_mono[of 1 t] margin_exact[of 1] assms by (simp del: nat_ceiling_le_eq zero_less_nat_eq)

lemma sumTableCu_priced:
  "sumTableCu cb pairs =
     (let cs = priced cb pairs; t = sum_list (map the cs)
      in if None \<in> set cs \<or> t = 0 then MAX_COMPUTE_UNITS
         else min MAX_COMPUTE_UNITS (nat \<lceil>fmul (of_nat t) FALLBACK_CU_MARGIN\<rceil>))"
  by (simp add: sumTableCu_def sum_loop_priced Let_def)

lemma sumTableCu_le: "sumTableCu cb pairs \<le> MAX_COMPUTE_UNITS"
  by (simp add: sumTableCu_priced Let_def)

lemma sumTableCu_pos: "0 < sumTableCu cb pairs"
  unfolding sumTableCu_priced Let_def
  using margin_pos[of "sum_list (map the (priced cb pairs))"]
  by (simp add: MAX_COMPUTE_UNITS_def del: sum_list_eq_0_iff zero_less_nat_eq)

lemma priced_append: "priced cb (ps @ qs) = priced cb ps @ priced cb qs"
  by (simp add: priced_def)

lemma mset_priced: "mset ps = mset qs \<Longrightarrow> mset (priced cb ps) = mset (priced cb qs)"
  by (simp add: priced_def mset_filter)

text \<open>
  The fallback estimate covers the table: it is a valid compute-unit request (positive, at most
  \<open>MAX_COMPUTE_UNITS\<close>), it is the maximum when any instruction is unknown, and when every
  instruction is known it is at least the sum of the table's entries (capped at the maximum), so a
  transaction priced from the table never requests less than its measured cost.
\<close>

theorem sumTableCu_covers:
  assumes "sum_list (map the (priced cb pairs)) < 2 ^ 52"
  shows "0 < sumTableCu cb pairs \<and> sumTableCu cb pairs \<le> MAX_COMPUTE_UNITS
    \<and> (None \<in> set (priced cb pairs) \<longrightarrow> sumTableCu cb pairs = MAX_COMPUTE_UNITS)
    \<and> min MAX_COMPUTE_UNITS (2 * sum_list (map the (priced cb pairs))) \<le> sumTableCu cb pairs"
proof (intro conjI)
  show "0 < sumTableCu cb pairs" by (rule sumTableCu_pos)
  show "sumTableCu cb pairs \<le> MAX_COMPUTE_UNITS" by (rule sumTableCu_le)
  show "None \<in> set (priced cb pairs) \<longrightarrow> sumTableCu cb pairs = MAX_COMPUTE_UNITS"
    by (simp add: sumTableCu_priced Let_def)
  show "min MAX_COMPUTE_UNITS (2 * sum_list (map the (priced cb pairs))) \<le> sumTableCu cb pairs"
    unfolding sumTableCu_priced Let_def margin_exact[OF assms] by simp
qed

theorem sumTableCu_covers_witness:
  "sum_list (map the (priced ''cb'' [(''cb'', [2])])) < 2 ^ 52 \<and>
   0 < sumTableCu ''cb'' [(''cb'', [2])] \<and> sumTableCu ''cb'' [(''cb'', [2])] \<le> MAX_COMPUTE_UNITS"
  using sumTableCu_covers[of "''cb''" "[(''cb'', [2])]"] by (simp add: priced_def)

text \<open>
  The estimate depends on which instructions a transaction has, not on their order, and adding
  instructions to a transaction that already prices to something never lowers it.
\<close>

theorem sumTableCu_order_and_monotone:
  "(mset ps = mset qs \<longrightarrow> sumTableCu cb ps = sumTableCu cb qs) \<and>
   (0 < sum_list (map the (priced cb ps)) \<longrightarrow> sumTableCu cb ps \<le> sumTableCu cb (ps @ rs))"
proof (intro conjI impI)
  assume "mset ps = mset qs"
  then have m: "mset (priced cb ps) = mset (priced cb qs)" by (rule mset_priced)
  then have "set (priced cb ps) = set (priced cb qs)" by (rule mset_eq_setD)
  moreover have "sum_list (map the (priced cb ps)) = sum_list (map the (priced cb qs))"
    using m by (metis mset_map sum_mset_sum_list)
  ultimately show "sumTableCu cb ps = sumTableCu cb qs" by (simp only: sumTableCu_priced Let_def)
next
  assume pos: "0 < sum_list (map the (priced cb ps))"
  show "sumTableCu cb ps \<le> sumTableCu cb (ps @ rs)"
  proof (cases "None \<in> set (priced cb (ps @ rs))")
    case True
    then have "sumTableCu cb (ps @ rs) = MAX_COMPUTE_UNITS" by (simp add: sumTableCu_priced Let_def)
    then show ?thesis using sumTableCu_le[of cb ps] by simp
  next
    case False
    then have "None \<notin> set (priced cb ps)" by (simp add: priced_append)
    then have "sumTableCu cb ps = min MAX_COMPUTE_UNITS
        (nat \<lceil>fmul (of_nat (sum_list (map the (priced cb ps)))) FALLBACK_CU_MARGIN\<rceil>)"
      unfolding sumTableCu_priced Let_def using pos by (simp del: sum_list_eq_0_iff)
    also have "\<dots> \<le> min MAX_COMPUTE_UNITS
        (nat \<lceil>fmul (of_nat (sum_list (map the (priced cb (ps @ rs))))) FALLBACK_CU_MARGIN\<rceil>)"
      by (intro min.mono margin_mono order_refl) (simp add: priced_append)
    also have "\<dots> = sumTableCu cb (ps @ rs)"
      unfolding sumTableCu_priced Let_def using pos False by (simp add: priced_append del: sum_list_eq_0_iff)
    finally show ?thesis .
  qed
qed

theorem sumTableCu_order_and_monotone_witness:
  "sumTableCu [] [(''a'', []), (''b'', [])] = sumTableCu [] [(''b'', []), (''a'', [])]"
  using sumTableCu_order_and_monotone[of "[(''a'', []), (''b'', [])]" "[(''b'', []), (''a'', [])]" "[]"]
  by (simp add: add_mset_commute)

text \<open>
  Both entry points price a transaction alike: when the compiled message resolves each
  instruction to the program and data of the original one, the estimate from the compiled
  transaction equals the estimate from the instruction list.
\<close>

theorem tableComputeUnits_compiled:
  assumes "list_all2 (\<lambda>c ix. js_nth (vm_staticAccountKeys msg) (ci_programIdIndex c) = Some (ix_programId ix)
             \<and> ci_data c = ix_data ix) (vm_compiledInstructions msg) instructions"
  shows "tableComputeUnits cb msg = tableComputeUnitsForInstructions cb instructions"
proof -
  have "map (\<lambda>c. (case js_nth (vm_staticAccountKeys msg) (ci_programIdIndex c) of Some k \<Rightarrow> k | None \<Rightarrow> [],
          ci_data c)) (vm_compiledInstructions msg) = map (\<lambda>ix. (ix_programId ix, ix_data ix)) instructions"
    using assms by (induction rule: list_all2_induct) auto
  then show ?thesis by (simp only: tableComputeUnits_def tableComputeUnitsForInstructions_def)
qed

theorem tableComputeUnits_compiled_witness:
  "tableComputeUnits ''cb'' \<lparr>vm_staticAccountKeys = [''w'', ''p''],
     vm_compiledInstructions = [\<lparr>ci_programIdIndex = 1, ci_accountKeyIndexes = [0], ci_data = [7]\<rparr>]\<rparr> =
   tableComputeUnitsForInstructions ''cb'' [\<lparr>ix_programId = ''p'', ix_keys = [], ix_data = [7]\<rparr>]"
  by (rule tableComputeUnits_compiled) (simp add: js_nth_def)

lemma table_bounds:
  "list_all (\<lambda>(k, v). 0 < v \<and> v \<le> MAX_COMPUTE_UNITS) INSTRUCTION_CU_TABLE"
  "list_all (\<lambda>(k, v). 0 < v \<and> v \<le> MAX_COMPUTE_UNITS) PROGRAM_CU_CEILINGS"
  by (simp_all add: INSTRUCTION_CU_TABLE_def INSTRUCTION_CU_TABLE_1_def INSTRUCTION_CU_TABLE_2_def
    INSTRUCTION_CU_TABLE_3_def PROGRAM_CU_CEILINGS_def MAX_COMPUTE_UNITS_def)

end
