(* ===== verification/Priority_Fees.thy ===== *)
theory Priority_Fees
  imports Compute_Units
begin

text \<open>
  \<^verbatim>\<open>packages/spl-utils/src/priorityFees.ts\<close> and \<^verbatim>\<open>draft.ts\<close>: pricing a transaction. The ComputeBudget
  instructions, the priority-fee estimate with its fallback, the compute-unit and data-size
  estimate by simulation, and \<open>withPriorityFees\<close>, which prepends what the caller left unset.
  The client library's instruction builders and the RPC node are parameters: a record \<open>web3\<close> and a
  record \<open>connection\<close> of the answers the node gives.
\<close>

section \<open>The client library and the node\<close>

record web3 =
  cb_programId :: pubkey
  setComputeUnitLimit :: "number \<Rightarrow> instruction"
  setComputeUnitPrice :: "number \<Rightarrow> instruction"

type_synonym lut = "pubkey \<times> pubkey list"

text \<open>
  A simulation response: \<open>err\<close> is \<open>null\<close> or the error's JSON text; \<open>unitsConsumed\<close> and
  \<open>loadedAccountsDataSize\<close> may be absent.
\<close>

record sim_response =
  sim_err :: "string option"
  sim_unitsConsumed :: "nat option"
  sim_loadedAccountsDataSize :: "nat option"

text \<open>
  The node. A call that may be repeated has an index: \<open>simulateTransaction\<close> is indexed by the call of
  \<open>estimateComputeBudget\<close> that makes it and by its attempt. \<open>Inl\<close> is a rejected promise.
\<close>

record connection =
  simulateTransaction :: "nat \<Rightarrow> nat \<Rightarrow> versioned_message \<Rightarrow> js_error + sim_response"
  getPriorityFeeEstimate :: "pubkey list \<Rightarrow> js_error + number"
  getRecentPrioritizationFees :: "pubkey list \<Rightarrow> js_error + (nat \<times> nat) list"
  getMultipleAccountsInfo :: "pubkey list \<Rightarrow> js_error + bytes option list"
  getLatestBlockhash :: "js_error + string"
  deserializeLut :: "bytes \<Rightarrow> js_error + pubkey list"
  compileToV0Message ::
    "pubkey \<Rightarrow> string \<Rightarrow> instruction list \<Rightarrow> lut list \<Rightarrow> js_error + versioned_message"

section \<open>Constants\<close>

definition MAX_RECENT_PRIORITY_FEE_ACCOUNTS :: nat where
  "MAX_RECENT_PRIORITY_FEE_ACCOUNTS = 128"

definition MAX_PRIO_FEE :: number where
  "MAX_PRIO_FEE = 2500000"

definition DEFAULT_LOADED_ACCOUNTS_DATA_SIZE_LIMIT :: number where
  "DEFAULT_LOADED_ACCOUNTS_DATA_SIZE_LIMIT = 16 * 1024 * 1024"

definition LOADED_ACCOUNTS_DATA_SIZE_QUANTUM :: number where
  "LOADED_ACCOUNTS_DATA_SIZE_QUANTUM = 32 * 1024"

definition MAX_LOADED_ACCOUNTS_DATA_SIZE_LIMIT :: number where
  "MAX_LOADED_ACCOUNTS_DATA_SIZE_LIMIT = 64 * 1024 * 1024"

definition COMPUTE_BUDGET_IX_LIMIT :: byte where
  "COMPUTE_BUDGET_IX_LIMIT = 2"

definition COMPUTE_BUDGET_IX_PRICE :: byte where
  "COMPUTE_BUDGET_IX_PRICE = 3"

definition COMPUTE_BUDGET_IX_DATA_SIZE :: byte where
  "COMPUTE_BUDGET_IX_DATA_SIZE = 4"

lemmas size_consts = DEFAULT_LOADED_ACCOUNTS_DATA_SIZE_LIMIT_def LOADED_ACCOUNTS_DATA_SIZE_QUANTUM_def
  MAX_LOADED_ACCOUNTS_DATA_SIZE_LIMIT_def

lemmas cb_types = COMPUTE_BUDGET_IX_LIMIT_def COMPUTE_BUDGET_IX_PRICE_def COMPUTE_BUDGET_IX_DATA_SIZE_def

text \<open>What the library documents of its ComputeBudget builders: program and discriminator byte.\<close>

definition web3_ok :: "web3 \<Rightarrow> bool" where
  "web3_ok w \<longleftrightarrow>
     (\<forall>n. ix_programId (setComputeUnitLimit w n) = cb_programId w
        \<and> js_nth (ix_data (setComputeUnitLimit w n)) 0 = Some COMPUTE_BUDGET_IX_LIMIT
        \<and> ix_programId (setComputeUnitPrice w n) = cb_programId w
        \<and> js_nth (ix_data (setComputeUnitPrice w n)) 0 = Some COMPUTE_BUDGET_IX_PRICE)"

section \<open>ComputeBudget instructions\<close>

text \<open>\<open>ix.data[0]\<close>: \<open>undefined\<close> for an instruction without data.\<close>

definition cb_type :: "instruction \<Rightarrow> byte option" where
  "cb_type ix = js_nth (ix_data ix) 0"

definition callerComputeBudgetTypes :: "web3 \<Rightarrow> instruction list \<Rightarrow> byte option list" where
  "callerComputeBudgetTypes w instructions =
     js_set (map cb_type (filter (\<lambda>ix. ix_programId ix = cb_programId w) instructions))"

definition isDataSizeExceededErr :: "string option \<Rightarrow> bool" where
  "isDataSizeExceededErr err =
     js_includes (case err of None \<Rightarrow> [CHR 0x22, CHR 0x22] | Some e \<Rightarrow> e)
       ''MaxLoadedAccountsDataSizeExceeded''"

definition clampDataSize :: "number \<Rightarrow> nat" where
  "clampDataSize n = nat \<lfloor>min MAX_LOADED_ACCOUNTS_DATA_SIZE_LIMIT (max 1 (of_int \<lfloor>n\<rfloor>))\<rfloor>"

definition setLoadedAccountsDataSizeLimit :: "web3 \<Rightarrow> number \<Rightarrow> instruction" where
  "setLoadedAccountsDataSizeLimit w n =
     \<lparr>ix_programId = cb_programId w, ix_keys = [],
      ix_data = COMPUTE_BUDGET_IX_DATA_SIZE # u32le (clampDataSize n)\<rparr>"

definition prependComputeBudgetIxs ::
  "web3 \<Rightarrow> instruction list \<Rightarrow> number option \<Rightarrow> number option \<Rightarrow> number option \<Rightarrow> instruction list" where
  "prependComputeBudgetIxs w instructions computeUnits microLamports loadedAccountsDataSizeLimit =
     (let callerCbTypes = callerComputeBudgetTypes w instructions
      in (case computeUnits of
            None \<Rightarrow> []
          | Some n \<Rightarrow> if Some COMPUTE_BUDGET_IX_LIMIT \<in> set callerCbTypes then [] else [setComputeUnitLimit w n]) @
         (case microLamports of
            None \<Rightarrow> []
          | Some n \<Rightarrow> if Some COMPUTE_BUDGET_IX_PRICE \<in> set callerCbTypes then [] else [setComputeUnitPrice w n]) @
         (case loadedAccountsDataSizeLimit of
            None \<Rightarrow> []
          | Some n \<Rightarrow> if Some COMPUTE_BUDGET_IX_DATA_SIZE \<in> set callerCbTypes then []
                      else [setLoadedAccountsDataSizeLimit w n]) @
         instructions)"

text \<open>\<open>withFees.slice(0, withFees.length - original.length)\<close>; a negative end counts from the end.\<close>

definition prependedComputeBudgetIxs :: "instruction list \<Rightarrow> instruction list \<Rightarrow> instruction list" where
  "prependedComputeBudgetIxs withFees original =
     (let e = int (length withFees) - int (length original)
      in js_slice withFees 0 (nat (if e < 0 then int (length withFees) + e else e)))"

section \<open>The priority fee\<close>

definition or_default :: "number option \<Rightarrow> number \<Rightarrow> number" where
  "or_default x d = (case x of None \<Rightarrow> d | Some v \<Rightarrow> if v = 0 then d else v)"

text \<open>The reduce that keeps the first maximum of a slot.\<close>

fun max_fee :: "nat \<times> nat \<Rightarrow> (nat \<times> nat) list \<Rightarrow> nat \<times> nat" where
  "max_fee m [] = m"
| "max_fee m (fee # fees) = max_fee (if snd fee > snd m then fee else m) fees"

text \<open>
  \<open>groupedBySlot\<close>, \<open>maxFeeBySlot\<close> and the sort by slot: one entry per slot, its maximum fee, from the
  oldest slot to the newest.
\<close>

definition maximumFees :: "(nat \<times> nat) list \<Rightarrow> (nat \<times> nat) list" where
  "maximumFees priorityFees =
     map (\<lambda>slot. let grp = filter (\<lambda>fee. fst fee = slot) priorityFees in max_fee (hd grp) (tl grp))
       (sort (js_set (map fst priorityFees)))"

definition medianOfRecent :: "(nat \<times> nat) list \<Rightarrow> number" where
  "medianOfRecent fees =
     (let recentFees = drop (length fees - 20) fees; mid = length recentFees div 2
      in if length recentFees mod 2 \<noteq> 0 then of_nat (snd (recentFees ! mid))
         else fdiv (fadd (of_nat (snd (recentFees ! (mid - 1)))) (of_nat (snd (recentFees ! mid)))) 2)"

definition uniqueAccounts :: "instruction list \<Rightarrow> pubkey list" where
  "uniqueAccounts ixs =
     js_slice (js_set (map am_pubkey (concat (map (\<lambda>x. filter am_isWritable (ix_keys x)) ixs))))
       0 MAX_RECENT_PRIORITY_FEE_ACCOUNTS"

definition estimatePrioritizationFee ::
  "connection \<Rightarrow> instruction list \<Rightarrow> number option \<Rightarrow> number \<Rightarrow> js_error + number" where
  "estimatePrioritizationFee conn ixs basePriorityFee maxPriorityFee =
     (let accounts = uniqueAccounts ixs
      in case getPriorityFeeEstimate conn accounts of
           Inr est \<Rightarrow> Inr (min maxPriorityFee (max (or_default basePriorityFee 1) (of_int \<lceil>est\<rceil>)))
         | Inl _ \<Rightarrow>
             ebind (getRecentPrioritizationFees conn accounts) (\<lambda>priorityFees.
               if length priorityFees < 1 then Inr (max (or_default basePriorityFee 0) 1)
               else Inr (max (or_default basePriorityFee 1)
                      (of_int \<lceil>medianOfRecent (maximumFees priorityFees)\<rceil>))))"

section \<open>Transaction drafts\<close>

record draft =
  dr_recentBlockhash :: "string option"
  dr_feePayer :: pubkey
  dr_instructions :: "instruction list"
  dr_addressLookupTableAddresses :: "pubkey list option"
  dr_addressLookupTables :: "lut list option"
  dr_signers :: "pubkey list"

text \<open>The reduce over the fetched accounts: a missing account is left out, its key with it.\<close>

fun collect_luts :: "connection \<Rightarrow> (pubkey \<times> bytes option) list \<Rightarrow> js_error + lut list" where
  "collect_luts conn [] = Inr []"
| "collect_luts conn ((key, None) # rest) = collect_luts conn rest"
| "collect_luts conn ((key, Some data) # rest) =
     ebind (deserializeLut conn data) (\<lambda>st.
     ebind (collect_luts conn rest) (\<lambda>luts. Inr ((key, st) # luts)))"

definition getAddressLookupTableAccounts :: "connection \<Rightarrow> pubkey list \<Rightarrow> js_error + lut list" where
  "getAddressLookupTableAccounts conn keys =
     (if keys = [] then Inr []
      else ebind (getMultipleAccountsInfo conn keys) (\<lambda>infos. collect_luts conn (zip keys infos)))"

definition populateMissingDraftInfo :: "connection \<Rightarrow> draft \<Rightarrow> js_error + draft" where
  "populateMissingDraftInfo conn tx =
     ebind (case dr_addressLookupTables tx of
              Some _ \<Rightarrow> Inr tx
            | None \<Rightarrow>
                ebind (getAddressLookupTableAccounts conn
                         (case dr_addressLookupTableAddresses tx of None \<Rightarrow> [] | Some ks \<Rightarrow> ks))
                  (\<lambda>luts. Inr (tx\<lparr>dr_addressLookupTables := Some luts\<rparr>)))
       (\<lambda>tx'. if dr_recentBlockhash tx' = None \<or> dr_recentBlockhash tx' = Some []
              then ebind (getLatestBlockhash conn) (\<lambda>bh. Inr (tx'\<lparr>dr_recentBlockhash := Some bh\<rparr>))
              else Inr tx')"

text \<open>
  A draft without blockhash or lookup tables makes the library read \<open>undefined\<close>, which its compiler
  rejects; every caller of the repository fills both in first.
\<close>

definition toVersionedTx :: "connection \<Rightarrow> draft \<Rightarrow> js_error + versioned_message" where
  "toVersionedTx conn tx =
     (case (dr_recentBlockhash tx, dr_addressLookupTables tx) of
        (Some bh, Some luts) \<Rightarrow> compileToV0Message conn (dr_feePayer tx) bh (dr_instructions tx) luts
      | _ \<Rightarrow> Inl TypeError)"

section \<open>Simulation\<close>

record budget =
  bg_computeUnits :: number
  bg_simulated :: bool
  bg_loadedAccountsDataSize :: "nat option"
  bg_simErr :: "string option"

definition table_budget :: "web3 \<Rightarrow> versioned_message \<Rightarrow> string option \<Rightarrow> budget" where
  "table_budget w tx simErr =
     \<lparr>bg_computeUnits = of_nat (tableComputeUnits (cb_programId w) tx), bg_simulated = False,
      bg_loadedAccountsDataSize = None, bg_simErr = simErr\<rparr>"

text \<open>
  The loop over at most two attempts: a rejected call is retried once, a response ends the loop. A
  response without an error and with a nonzero unit count is used, any other falls back to the table.
\<close>

fun sim_attempts ::
  "web3 \<Rightarrow> (nat \<Rightarrow> versioned_message \<Rightarrow> js_error + sim_response) \<Rightarrow> versioned_message \<Rightarrow> number
   \<Rightarrow> nat list \<Rightarrow> budget" where
  "sim_attempts w sim tx scale [] = table_budget w tx None"
| "sim_attempts w sim tx scale (attempt # rest) =
     (case sim attempt tx of
        Inl _ \<Rightarrow> sim_attempts w sim tx scale rest
      | Inr r \<Rightarrow>
          (case (sim_err r, sim_unitsConsumed r) of
             (None, Some units) \<Rightarrow>
               if units \<noteq> 0 then
                 \<lparr>bg_computeUnits = min (of_nat MAX_COMPUTE_UNITS) (of_int \<lceil>fmul (of_nat units) scale\<rceil>),
                  bg_simulated = True, bg_loadedAccountsDataSize = sim_loadedAccountsDataSize r,
                  bg_simErr = None\<rparr>
               else table_budget w tx (sim_err r)
           | _ \<Rightarrow> table_budget w tx (sim_err r)))"

definition estimateComputeBudget ::
  "web3 \<Rightarrow> connection \<Rightarrow> nat \<Rightarrow> versioned_message \<Rightarrow> number \<Rightarrow> budget" where
  "estimateComputeBudget w conn call tx computeScaleUp =
     sim_attempts w (simulateTransaction conn call) tx computeScaleUp [0, 1]"

section \<open>withPriorityFees\<close>

record fee_args =
  fa_computeUnits :: "number option"
  fa_instructions :: "instruction list"
  fa_basePriorityFee :: "number option"
  fa_maxPriorityFee :: number
  fa_computeScaleUp :: number
  fa_loadedAccountsDataSizeLimit :: "number option"
  fa_feePayer :: "pubkey option"
  fa_recentBlockhash :: "string option"
  fa_addressLookupTableAddresses :: "pubkey list option"
  fa_addressLookupTables :: "lut list option"

text \<open>\<open>if (!x) x = undefined\<close>.\<close>

definition nonzero :: "number option \<Rightarrow> number option" where
  "nonzero x = (case x of None \<Rightarrow> None | Some v \<Rightarrow> if v = 0 then None else Some v)"

text \<open>\<open>PublicKey.default.toBase58()\<close>: the key of 32 zero bytes.\<close>

definition default_pubkey :: pubkey where
  "default_pubkey = replicate 32 (CHR ''1'')"

definition derivedDataSize :: "nat \<Rightarrow> number \<Rightarrow> number" where
  "derivedDataSize sz computeScaleUp =
     min MAX_LOADED_ACCOUNTS_DATA_SIZE_LIMIT
       (fmul (of_int \<lceil>fdiv (fmul (of_nat sz) computeScaleUp) LOADED_ACCOUNTS_DATA_SIZE_QUANTUM\<rceil>)
          LOADED_ACCOUNTS_DATA_SIZE_QUANTUM)"

text \<open>
  The data-size limit to request, from the budget (lines 387 to 413): a caller's explicit value is
  kept as resolved so far; otherwise it comes from the measured size, clamped to the ceiling the
  simulation enforced, or is the validated ceiling itself, or stays unset.
\<close>

definition resolveDataSize :: "number option \<Rightarrow> number option \<Rightarrow> number \<Rightarrow> bool \<Rightarrow> budget \<Rightarrow> number \<Rightarrow> number option" where
  "resolveDataSize explicit resolved simCeiling underOurs budget computeScaleUp =
     (case explicit of
        Some _ \<Rightarrow> resolved
      | None \<Rightarrow>
          if bg_simulated budget \<and> bg_loadedAccountsDataSize budget \<notin> {None, Some 0} then
            let derived = derivedDataSize (the (bg_loadedAccountsDataSize budget)) computeScaleUp
            in Some (if underOurs then min simCeiling derived else derived)
          else if bg_simulated budget \<and> underOurs then Some simCeiling
          else resolved)"

text \<open>The branch that estimates by simulation (lines 312 to 414): the compute units and the limit.\<close>

definition simulateBudget ::
  "web3 \<Rightarrow> connection \<Rightarrow> fee_args \<Rightarrow> pubkey \<Rightarrow> number option \<Rightarrow> js_error + (number \<times> number option)" where
  "simulateBudget w conn a feePayer explicit =
     (let simCeiling = (case explicit of None \<Rightarrow> DEFAULT_LOADED_ACCOUNTS_DATA_SIZE_LIMIT | Some n \<Rightarrow> n);
          scale = fa_computeScaleUp a
      in ebind (populateMissingDraftInfo conn
           \<lparr>dr_recentBlockhash = Some (case fa_recentBlockhash a of None \<Rightarrow> default_pubkey | Some bh \<Rightarrow> bh),
            dr_feePayer = feePayer, dr_instructions = fa_instructions a,
            dr_addressLookupTableAddresses = fa_addressLookupTableAddresses a,
            dr_addressLookupTables = fa_addressLookupTables a, dr_signers = []\<rparr>) (\<lambda>tx.
         let simValidates = (Some COMPUTE_BUDGET_IX_DATA_SIZE \<notin> set (callerComputeBudgetTypes w (dr_instructions tx)))
         in ebind (toVersionedTx conn (tx\<lparr>dr_instructions :=
              prependComputeBudgetIxs w (dr_instructions tx) (Some (of_nat MAX_COMPUTE_UNITS)) (Some 1) (Some simCeiling)\<rparr>)) (\<lambda>v.
            let budget = estimateComputeBudget w conn 0 v scale;
                exceeded = (simValidates \<and> \<not> bg_simulated budget \<and> isDataSizeExceededErr (bg_simErr budget))
            in if exceeded \<and> explicit = None then
                 ebind (toVersionedTx conn (tx\<lparr>dr_instructions :=
                   prependComputeBudgetIxs w (dr_instructions tx) (Some (of_nat MAX_COMPUTE_UNITS)) (Some 1) None\<rparr>)) (\<lambda>v'.
                 let budget' = estimateComputeBudget w conn 1 v' scale
                 in Inr (bg_computeUnits budget', resolveDataSize explicit explicit simCeiling False budget' scale))
               else
                 let resolved = (if exceeded then None else explicit)
                 in Inr (bg_computeUnits budget,
                         resolveDataSize explicit resolved simCeiling simValidates budget scale))))"

definition withPriorityFees :: "web3 \<Rightarrow> connection \<Rightarrow> fee_args \<Rightarrow> js_error + instruction list" where
  "withPriorityFees w conn a =
     (let computeUnits = nonzero (fa_computeUnits a);
          explicit = nonzero (fa_loadedAccountsDataSizeLimit a)
      in if computeUnits = None \<and> fa_feePayer a = None
         then Inl (Err ''Must provide feePayer if estimating compute units'')
         else
           ebind (case computeUnits of
                    Some n \<Rightarrow> Inr (n, explicit)
                  | None \<Rightarrow> simulateBudget w conn a (the (fa_feePayer a)) explicit) (\<lambda>(units, resolved).
           ebind (estimatePrioritizationFee conn (fa_instructions a) (fa_basePriorityFee a) (fa_maxPriorityFee a))
             (\<lambda>estimate. Inr (prependComputeBudgetIxs w (fa_instructions a) (Some units) (Some estimate) resolved))))"

section \<open>Lemmas: ComputeBudget instructions\<close>

text \<open>The discriminators of a transaction's ComputeBudget instructions, in order.\<close>

definition cb_types_of :: "web3 \<Rightarrow> instruction list \<Rightarrow> byte option list" where
  "cb_types_of w ixs = map cb_type (filter (\<lambda>ix. ix_programId ix = cb_programId w) ixs)"

lemma callerComputeBudgetTypes_eq: "callerComputeBudgetTypes w ixs = js_set (cb_types_of w ixs)"
  by (simp add: callerComputeBudgetTypes_def cb_types_of_def)

lemma set_callerComputeBudgetTypes [simp]:
  "set (callerComputeBudgetTypes w ixs) = set (cb_types_of w ixs)"
  by (simp add: callerComputeBudgetTypes_eq)

lemma cb_types_of_append: "cb_types_of w (xs @ ys) = cb_types_of w xs @ cb_types_of w ys"
  by (simp add: cb_types_of_def)

lemma setLoaded_cb [simp]:
  "ix_programId (setLoadedAccountsDataSizeLimit w n) = cb_programId w"
  "cb_type (setLoadedAccountsDataSizeLimit w n) = Some COMPUTE_BUDGET_IX_DATA_SIZE"
  by (simp_all add: setLoadedAccountsDataSizeLimit_def cb_type_def js_nth_def)

lemma web3_okD:
  assumes "web3_ok w"
  shows "ix_programId (setComputeUnitLimit w n) = cb_programId w"
    and "cb_type (setComputeUnitLimit w n) = Some COMPUTE_BUDGET_IX_LIMIT"
    and "ix_programId (setComputeUnitPrice w n) = cb_programId w"
    and "cb_type (setComputeUnitPrice w n) = Some COMPUTE_BUDGET_IX_PRICE"
  using assms by (auto simp: web3_ok_def cb_type_def)

text \<open>
  What a price prefix is: ComputeBudget instructions only, no type twice, no type the caller set.
\<close>

definition price_prefix :: "web3 \<Rightarrow> instruction list \<Rightarrow> instruction list \<Rightarrow> bool" where
  "price_prefix w pre ixs \<longleftrightarrow>
     list_all (\<lambda>ix. ix_programId ix = cb_programId w) pre \<and> distinct (map cb_type pre)
     \<and> list_all (\<lambda>ix. cb_type ix \<notin> set (cb_types_of w ixs)) pre"

lemma price_prefix_Nil [simp]: "price_prefix w [] ixs"
  by (simp add: price_prefix_def)

lemma cb_types_of_prefix:
  "list_all (\<lambda>ix. ix_programId ix = cb_programId w) pre \<Longrightarrow> cb_types_of w pre = map cb_type pre"
  by (simp add: cb_types_of_def list_all_iff)

lemma price_prefix_distinct:
  "price_prefix w pre ixs \<Longrightarrow> distinct (cb_types_of w ixs) \<Longrightarrow> distinct (cb_types_of w (pre @ ixs))"
  by (auto simp: price_prefix_def cb_types_of_append cb_types_of_prefix list_all_iff)

lemma prepend_shape:
  assumes "web3_ok w"
  obtains pre where "prependComputeBudgetIxs w ixs cu ml ds = pre @ ixs" and "price_prefix w pre ixs"
proof
  let ?pre = "(case cu of None \<Rightarrow> [] | Some n \<Rightarrow>
        if Some COMPUTE_BUDGET_IX_LIMIT \<in> set (cb_types_of w ixs) then [] else [setComputeUnitLimit w n]) @
      (case ml of None \<Rightarrow> [] | Some n \<Rightarrow>
        if Some COMPUTE_BUDGET_IX_PRICE \<in> set (cb_types_of w ixs) then [] else [setComputeUnitPrice w n]) @
      (case ds of None \<Rightarrow> [] | Some n \<Rightarrow>
        if Some COMPUTE_BUDGET_IX_DATA_SIZE \<in> set (cb_types_of w ixs) then []
        else [setLoadedAccountsDataSizeLimit w n])"
  show "prependComputeBudgetIxs w ixs cu ml ds = ?pre @ ixs"
    unfolding prependComputeBudgetIxs_def Let_def set_callerComputeBudgetTypes by (simp only: append_assoc)
  show "price_prefix w ?pre ixs"
    using web3_okD[OF assms] by (auto simp: price_prefix_def cb_types split: option.splits)
qed

lemma prepended_prefix: "prependedComputeBudgetIxs (pre @ ixs) ixs = pre"
  by (simp add: prependedComputeBudgetIxs_def js_slice_def Let_def)

lemma withPriorityFees_shape:
  assumes "web3_ok w" and "withPriorityFees w conn a = Inr out"
  obtains pre where "out = pre @ fa_instructions a" and "price_prefix w pre (fa_instructions a)"
proof -
  from assms(2) obtain units estimate resolved where
    "out = prependComputeBudgetIxs w (fa_instructions a) (Some units) (Some estimate) resolved"
    by (auto simp: withPriorityFees_def Let_def split: if_splits elim!: ebind_InrE)
  with prepend_shape[OF assms(1)] that show ?thesis by metis
qed

text \<open>
  C21. Pricing never changes the caller's instructions and never duplicates a ComputeBudget type:
  a successful \<open>withPriorityFees\<close> returns the instructions behind a prefix of ComputeBudget
  instructions of types the caller left unset, so a transaction without duplicate types stays
  without (the runtime rejects duplicates); and \<open>prependedComputeBudgetIxs\<close> recovers the prefix.
\<close>

theorem withPriorityFees_preserves:
  assumes "web3_ok w" and "withPriorityFees w conn a = Inr out"
  shows "\<exists>pre. out = pre @ fa_instructions a
      \<and> prependedComputeBudgetIxs out (fa_instructions a) = pre
      \<and> list_all (\<lambda>ix. ix_programId ix = cb_programId w) pre
      \<and> (distinct (cb_types_of w (fa_instructions a)) \<longrightarrow> distinct (cb_types_of w out))"
proof -
  obtain pre where "out = pre @ fa_instructions a" "price_prefix w pre (fa_instructions a)"
    using withPriorityFees_shape[OF assms] .
  then show ?thesis
    using price_prefix_distinct[of w pre "fa_instructions a"] prepended_prefix
    by (auto simp: price_prefix_def)
qed

text \<open>
  The builders as the client library documents them: a discriminator and a little-endian integer.
\<close>

definition CB_PROGRAM :: pubkey where
  "CB_PROGRAM = ''ComputeBudget111111111111111111111111111111''"

definition solana_web3 :: web3 where
  "solana_web3 =
     \<lparr>cb_programId = CB_PROGRAM,
      setComputeUnitLimit = (\<lambda>n. \<lparr>ix_programId = CB_PROGRAM, ix_keys = [],
        ix_data = 2 # u32le (nat \<lfloor>n\<rfloor>)\<rparr>),
      setComputeUnitPrice = (\<lambda>n. \<lparr>ix_programId = CB_PROGRAM, ix_keys = [],
        ix_data = 3 # u32le (nat \<lfloor>n\<rfloor>) @ u32le (nat \<lfloor>n\<rfloor> div 2 ^ 32)\<rparr>)\<rparr>"

lemma solana_web3_ok [simp]: "web3_ok solana_web3"
  by (simp add: web3_ok_def solana_web3_def js_nth_def cb_types)

lemma solana_cb [simp]: "cb_programId solana_web3 = CB_PROGRAM"
  by (simp add: solana_web3_def)

text \<open>
  An example node: every simulation consumes 1000 units and loads 40000 bytes, the fee is 7.
\<close>

definition demo_conn :: connection where
  "demo_conn =
     \<lparr>simulateTransaction = (\<lambda>_ _ _. Inr \<lparr>sim_err = None, sim_unitsConsumed = Some 1000,
        sim_loadedAccountsDataSize = Some 40000\<rparr>),
      getPriorityFeeEstimate = (\<lambda>_. Inr 7),
      getRecentPrioritizationFees = (\<lambda>_. Inl Timeout),
      getMultipleAccountsInfo = (\<lambda>ks. Inr (map (\<lambda>_. None) ks)),
      getLatestBlockhash = Inr ''bh'',
      deserializeLut = (\<lambda>_. Inr []),
      compileToV0Message = (\<lambda>_ _ _ _. Inr \<lparr>vm_staticAccountKeys = [], vm_compiledInstructions = []\<rparr>)\<rparr>"

definition demo_ixs :: "instruction list" where
  "demo_ixs = [\<lparr>ix_programId = ''prog'', ix_keys = [\<lparr>am_pubkey = ''acct'', am_isSigner = False, am_isWritable = True\<rparr>],
     ix_data = [9]\<rparr>]"

definition demo_args :: "number option \<Rightarrow> fee_args" where
  "demo_args cu = \<lparr>fa_computeUnits = cu, fa_instructions = demo_ixs, fa_basePriorityFee = None,
     fa_maxPriorityFee = MAX_PRIO_FEE, fa_computeScaleUp = 1, fa_loadedAccountsDataSizeLimit = None,
     fa_feePayer = Some ''payer'', fa_recentBlockhash = None, fa_addressLookupTableAddresses = None,
     fa_addressLookupTables = Some []\<rparr>"

lemma demo_explicit_units:
  "withPriorityFees solana_web3 demo_conn (demo_args (Some 5000)) =
     Inr ([setComputeUnitLimit solana_web3 5000, setComputeUnitPrice solana_web3 7] @ demo_ixs)"
  by (simp add: withPriorityFees_def demo_args_def nonzero_def demo_conn_def estimatePrioritizationFee_def
      or_default_def MAX_PRIO_FEE_def prependComputeBudgetIxs_def callerComputeBudgetTypes_def demo_ixs_def
      CB_PROGRAM_def)

theorem withPriorityFees_preserves_witness:
  "\<exists>out pre. withPriorityFees solana_web3 demo_conn (demo_args (Some 5000)) = Inr out
     \<and> out = pre @ demo_ixs \<and> list_all (\<lambda>ix. ix_programId ix = CB_PROGRAM) pre
     \<and> distinct (cb_types_of solana_web3 out)"
proof -
  have i: "fa_instructions (demo_args (Some 5000)) = demo_ixs" by (simp add: demo_args_def)
  have "distinct (cb_types_of solana_web3 demo_ixs)"
    by (simp add: cb_types_of_def demo_ixs_def CB_PROGRAM_def)
  then show ?thesis
    using withPriorityFees_preserves[OF solana_web3_ok demo_explicit_units] unfolding i solana_cb
    using demo_explicit_units by metis
qed

section \<open>The data-size limit\<close>

lemma clampDataSize_bounds: "1 \<le> clampDataSize n" "clampDataSize n \<le> 64 * 1024 * 1024"
proof -
  let ?m = "min MAX_LOADED_ACCOUNTS_DATA_SIZE_LIMIT (max 1 (of_int \<lfloor>n\<rfloor>))"
  have a: "1 \<le> ?m" by (simp add: size_consts)
  have b: "?m \<le> 67108864" by (simp add: size_consts)
  from a show "1 \<le> clampDataSize n" by (simp add: clampDataSize_def le_nat_iff le_floor_iff)
  from b have "\<lfloor>?m\<rfloor> \<le> 67108864" by (simp add: floor_le_iff)
  then show "clampDataSize n \<le> 64 * 1024 * 1024" by (simp add: clampDataSize_def nat_le_iff)
qed

lemma clampDataSize_ge:
  assumes "of_nat k \<le> n" and "k \<le> 64 * 1024 * 1024"
  shows "k \<le> clampDataSize n"
proof -
  have "int k \<le> \<lfloor>n\<rfloor>" using assms(1) by (simp add: le_floor_iff)
  then have "of_nat k \<le> (of_int \<lfloor>n\<rfloor> :: rat)" by (metis of_int_le_iff of_int_of_nat_eq)
  moreover have "of_nat k \<le> (67108864 :: rat)"
    using assms(2) of_nat_le_iff[of k "67108864", where ?'a = rat] by simp
  ultimately have "of_nat k \<le> min MAX_LOADED_ACCOUNTS_DATA_SIZE_LIMIT (max 1 (of_int \<lfloor>n\<rfloor> :: rat))"
    by (auto simp: size_consts)
  then show ?thesis by (simp add: clampDataSize_def le_nat_iff le_floor_iff)
qed

lemma data_size_payload [simp]:
  "readUInt32LE (ix_data (setLoadedAccountsDataSizeLimit w n)) (Suc 0) = Inr (clampDataSize n)"
proof -
  have "clampDataSize n < 2 ^ 32" using clampDataSize_bounds(2)[of n] by simp
  from readUInt32LE_u32le[OF this, of "[COMPUTE_BUDGET_IX_DATA_SIZE]"]
  show ?thesis by (simp add: setLoadedAccountsDataSizeLimit_def)
qed

text \<open>
  The hand-built data-size instruction always encodes a legal request: whatever number it is
  given, \<open>writeUInt32LE\<close> does not throw, the payload decodes to the clamped value, between 1 and the
  64 MiB of the runtime, and a whole number of bytes in that range is encoded unchanged.
\<close>

theorem setLoadedAccountsDataSizeLimit_encodes:
  "readUInt32LE (ix_data (setLoadedAccountsDataSizeLimit w n)) 1 = Inr (clampDataSize n)
   \<and> 1 \<le> clampDataSize n \<and> clampDataSize n \<le> 64 * 1024 * 1024
   \<and> (\<forall>k. 1 \<le> k \<and> k \<le> 64 * 1024 * 1024 \<longrightarrow> clampDataSize (of_nat k) = k)"
proof (intro conjI allI impI)
  show "readUInt32LE (ix_data (setLoadedAccountsDataSizeLimit w n)) 1 = Inr (clampDataSize n)" by simp
  show "1 \<le> clampDataSize n" "clampDataSize n \<le> 64 * 1024 * 1024" by (rule clampDataSize_bounds)+
  fix k :: nat
  assume k: "1 \<le> k \<and> k \<le> 64 * 1024 * 1024"
  have "clampDataSize (of_nat k) \<le> k"
    using k floor_mono[of MAX_LOADED_ACCOUNTS_DATA_SIZE_LIMIT "of_nat k"]
    by (auto simp: clampDataSize_def nat_le_iff min_def max_def)
  moreover have "k \<le> clampDataSize (of_nat k)" using k by (intro clampDataSize_ge) auto
  ultimately show "clampDataSize (of_nat k) = k" by simp
qed

theorem setLoadedAccountsDataSizeLimit_encodes_witness:
  "readUInt32LE (ix_data (setLoadedAccountsDataSizeLimit solana_web3 16777216)) 1 = Inr 16777216"
proof -
  note enc = setLoadedAccountsDataSizeLimit_encodes[of solana_web3 "of_nat 16777216"]
  from enc have "clampDataSize (of_nat 16777216) = 16777216" by (elim conjE allE[of _ 16777216]) simp
  with enc show ?thesis by simp
qed

text \<open>
  What the node enforces: the limit of a transaction is the payload of its first data-size
  instruction, 64 MiB without one.
\<close>

definition dataSizeLimitOf :: "web3 \<Rightarrow> instruction list \<Rightarrow> nat" where
  "dataSizeLimitOf w ixs =
     (case filter (\<lambda>ix. ix_programId ix = cb_programId w \<and> cb_type ix = Some COMPUTE_BUDGET_IX_DATA_SIZE) ixs of
        [] \<Rightarrow> 64 * 1024 * 1024
      | ix # _ \<Rightarrow> (case readUInt32LE (ix_data ix) 1 of Inl _ \<Rightarrow> 0 | Inr n \<Rightarrow> n))"

text \<open>
  The node's documented behaviour, for a transaction whose accounts load \<open>loaded\<close> bytes: a
  simulation that reports no error ran within its limit, and a size it reports is the loaded size.
\<close>

definition node_enforces :: "web3 \<Rightarrow> connection \<Rightarrow> instruction list \<Rightarrow> nat \<Rightarrow> bool" where
  "node_enforces w conn ixs loaded \<longleftrightarrow>
     (\<forall>payer bh pre luts v call attempt r.
        compileToV0Message conn payer bh (pre @ ixs) luts = Inr v \<and> price_prefix w pre ixs
        \<and> simulateTransaction conn call attempt v = Inr r \<and> sim_err r = None
        \<longrightarrow> loaded \<le> dataSizeLimitOf w (pre @ ixs) \<and> sim_loadedAccountsDataSize r \<in> {None, Some loaded})"

lemma sim_attempts_simulated:
  assumes "bg_simulated (sim_attempts w sim tx scale attempts)"
  obtains k r where "sim k tx = Inr r" and "sim_err r = None"
    and "bg_loadedAccountsDataSize (sim_attempts w sim tx scale attempts) = sim_loadedAccountsDataSize r"
  using assms
  by (induction w sim tx scale attempts rule: sim_attempts.induct)
    (auto simp: table_budget_def split: sum.splits option.splits if_splits)

lemma no_data_size_filter:
  assumes "Some COMPUTE_BUDGET_IX_DATA_SIZE \<notin> set (cb_types_of w ixs)"
  shows "filter (\<lambda>ix. ix_programId ix = cb_programId w \<and> cb_type ix = Some COMPUTE_BUDGET_IX_DATA_SIZE) ixs = []"
  using assms by (force simp: filter_empty_conv cb_types_of_def)

lemma dataSizeLimitOf_prepend:
  assumes "web3_ok w" and "Some COMPUTE_BUDGET_IX_DATA_SIZE \<notin> set (cb_types_of w ixs)"
  shows "dataSizeLimitOf w (prependComputeBudgetIxs w ixs cu ml ds) =
    (case ds of None \<Rightarrow> 64 * 1024 * 1024 | Some n \<Rightarrow> clampDataSize n)"
proof -
  have ne: "COMPUTE_BUDGET_IX_LIMIT \<noteq> COMPUTE_BUDGET_IX_DATA_SIZE"
    "COMPUTE_BUDGET_IX_PRICE \<noteq> COMPUTE_BUDGET_IX_DATA_SIZE"
    by (simp_all add: cb_types)
  show ?thesis
    unfolding dataSizeLimitOf_def prependComputeBudgetIxs_def Let_def set_callerComputeBudgetTypes
    using assms(2) ne
    by (auto simp: web3_okD[OF assms(1)] no_data_size_filter[OF assms(2)] split: option.split)
qed

lemma derivedDataSize_ge:
  assumes "sz \<le> 64 * 1024 * 1024" and "1 \<le> scale"
  shows "of_nat sz \<le> derivedDataSize sz scale"
proof -
  let ?q = "LOADED_ACCOUNTS_DATA_SIZE_QUANTUM" and ?s = "fmul (of_nat sz) scale"
  have q: "?q = 2 ^ 15" by (simp add: size_consts)
  have sz: "sz < 2 ^ 53" using assms(1) by simp
  have "of_nat sz / ?q = rnd (of_nat sz / ?q)" unfolding q by (simp only: rnd_of_nat_div_pow2[OF sz])
  also have "\<dots> \<le> fdiv ?s ?q"
    unfolding fdiv_def using fmul_ge_of_nat[OF sz assms(2)]
    by (intro rnd_mono_nonneg) (auto simp: q divide_right_mono)
  finally have "of_nat sz / ?q \<le> of_int \<lceil>fdiv ?s ?q\<rceil>" by (meson le_of_int_ceiling order_trans)
  then have "of_nat sz \<le> of_int \<lceil>fdiv ?s ?q\<rceil> * ?q" by (simp add: q divide_simps)
  then have "rnd (of_nat sz) \<le> fmul (of_int \<lceil>fdiv ?s ?q\<rceil>) ?q"
    unfolding fmul_def by (intro rnd_mono_nonneg) auto
  moreover have "of_nat sz \<le> MAX_LOADED_ACCOUNTS_DATA_SIZE_LIMIT"
    using assms(1) of_nat_le_iff[of sz "67108864", where ?'a = rat] by (simp add: size_consts)
  ultimately show ?thesis using rnd_of_nat[OF sz] by (simp add: derivedDataSize_def)
qed

lemma populate_instructions:
  "populateMissingDraftInfo conn tx = Inr tx' \<Longrightarrow> dr_instructions tx' = dr_instructions tx"
  by (auto simp: populateMissingDraftInfo_def split: option.splits if_splits elim!: ebind_InrE)

lemma toVersionedTx_compile:
  assumes "toVersionedTx conn tx = Inr v"
  obtains bh luts where "compileToV0Message conn (dr_feePayer tx) bh (dr_instructions tx) luts = Inr v"
  using assms by (auto simp: toVersionedTx_def split: option.splits)

text \<open>A successful simulation of the priced instructions, and what the node then guarantees.\<close>

lemma simulated_within_limit:
  assumes "node_enforces w conn ixs loaded" and "web3_ok w"
    and "toVersionedTx conn (tx\<lparr>dr_instructions := prependComputeBudgetIxs w ixs cu ml ds\<rparr>) = Inr v"
    and "bg_simulated (estimateComputeBudget w conn call v scale)"
  shows "loaded \<le> dataSizeLimitOf w (prependComputeBudgetIxs w ixs cu ml ds)"
    and "bg_loadedAccountsDataSize (estimateComputeBudget w conn call v scale) \<in> {None, Some loaded}"
proof -
  obtain pre where pre: "prependComputeBudgetIxs w ixs cu ml ds = pre @ ixs" "price_prefix w pre ixs"
    using prepend_shape[OF assms(2)] .
  obtain bh luts where c: "compileToV0Message conn (dr_feePayer tx) bh (pre @ ixs) luts = Inr v"
    using toVersionedTx_compile[OF assms(3)] unfolding pre(1) by auto
  obtain k r where r: "simulateTransaction conn call k v = Inr r" "sim_err r = None"
    "bg_loadedAccountsDataSize (estimateComputeBudget w conn call v scale) = sim_loadedAccountsDataSize r"
    using sim_attempts_simulated assms(4) unfolding estimateComputeBudget_def by metis
  have "loaded \<le> dataSizeLimitOf w (pre @ ixs) \<and> sim_loadedAccountsDataSize r \<in> {None, Some loaded}"
    using assms(1) c pre(2) r(1,2) unfolding node_enforces_def by blast
  then show "loaded \<le> dataSizeLimitOf w (prependComputeBudgetIxs w ixs cu ml ds)"
    and "bg_loadedAccountsDataSize (estimateComputeBudget w conn call v scale) \<in> {None, Some loaded}"
    using pre(1) r(3) by auto
qed

lemma resolveDataSize_safe:
  assumes "resolveDataSize None None simCeiling underOurs budget scale = Some d"
    and "bg_simulated budget \<Longrightarrow> bg_loadedAccountsDataSize budget \<in> {None, Some loaded}"
    and "bg_simulated budget \<Longrightarrow> underOurs \<Longrightarrow> loaded \<le> clampDataSize simCeiling"
    and "loaded \<le> 64 * 1024 * 1024" and "1 \<le> scale"
  shows "loaded \<le> clampDataSize d"
proof -
  have "loaded \<le> clampDataSize (derivedDataSize loaded scale)"
    using derivedDataSize_ge assms(4,5) by (intro clampDataSize_ge)
  moreover have "d = simCeiling \<and> underOurs \<or> d = derivedDataSize loaded scale" and "bg_simulated budget"
    using assms(1,2) by (auto simp: resolveDataSize_def Let_def min_def split: if_splits)
  ultimately show ?thesis using assms(3) by auto
qed

lemma simulateBudget_safe:
  assumes "simulateBudget w conn a payer None = Inr (units, Some d)"
    and "web3_ok w" and "node_enforces w conn (fa_instructions a) loaded"
    and "Some COMPUTE_BUDGET_IX_DATA_SIZE \<notin> set (cb_types_of w (fa_instructions a))"
    and "1 \<le> fa_computeScaleUp a" and "loaded \<le> 64 * 1024 * 1024"
  shows "loaded \<le> clampDataSize d"
proof -
  let ?ixs = "fa_instructions a" and ?scale = "fa_computeScaleUp a" and ?max = "Some (of_nat MAX_COMPUTE_UNITS)"
    and ?ceil = DEFAULT_LOADED_ACCOUNTS_DATA_SIZE_LIMIT
  note within = simulated_within_limit[OF assms(3,2)]
  from assms(1) obtain tx where "populateMissingDraftInfo conn
      \<lparr>dr_recentBlockhash = Some (case fa_recentBlockhash a of None \<Rightarrow> default_pubkey | Some bh \<Rightarrow> bh),
       dr_feePayer = payer, dr_instructions = ?ixs,
       dr_addressLookupTableAddresses = fa_addressLookupTableAddresses a,
       dr_addressLookupTables = fa_addressLookupTables a, dr_signers = []\<rparr> = Inr tx"
    by (auto simp: simulateBudget_def Let_def elim!: ebind_InrE)
  then have or: "(\<exists>v. toVersionedTx conn (tx\<lparr>dr_instructions := prependComputeBudgetIxs w ?ixs ?max (Some 1) (Some ?ceil)\<rparr>) = Inr v
        \<and> resolveDataSize None None ?ceil True (estimateComputeBudget w conn 0 v ?scale) ?scale = Some d)
      \<or> (\<exists>v. toVersionedTx conn (tx\<lparr>dr_instructions := prependComputeBudgetIxs w ?ixs ?max (Some 1) None\<rparr>) = Inr v
        \<and> resolveDataSize None None ?ceil False (estimateComputeBudget w conn 1 v ?scale) ?scale = Some d)"
    using assms(1,4) populate_instructions
    by (auto simp: simulateBudget_def Let_def split: if_splits elim!: ebind_InrE)
  from or show ?thesis
  proof (elim disjE exE conjE)
    fix v
    assume v: "toVersionedTx conn (tx\<lparr>dr_instructions := prependComputeBudgetIxs w ?ixs ?max (Some 1) (Some ?ceil)\<rparr>) = Inr v"
      and d: "resolveDataSize None None ?ceil True (estimateComputeBudget w conn 0 v ?scale) ?scale = Some d"
    show ?thesis
      using within[OF v] dataSizeLimitOf_prepend[OF assms(2,4), of ?max "Some 1" "Some ?ceil"]
      by (intro resolveDataSize_safe[OF d _ _ assms(6,5)]) auto
  next
    fix v
    assume v: "toVersionedTx conn (tx\<lparr>dr_instructions := prependComputeBudgetIxs w ?ixs ?max (Some 1) None\<rparr>) = Inr v"
      and d: "resolveDataSize None None ?ceil False (estimateComputeBudget w conn 1 v ?scale) ?scale = Some d"
    show ?thesis
      using within[OF v] by (intro resolveDataSize_safe[OF d _ _ assms(6,5)]) auto
  qed
qed

text \<open>
  C12. Pricing never burns a fee on the data-size limit: when the caller sets no limit of his own and
  the node enforces limits as documented, a transaction whose accounts fit the runtime's 64 MiB fits
  the limit \<open>withPriorityFees\<close> requests, on every path (measured size with headroom, validated
  ceiling, second simulation under the runtime default, failed simulations, explicit units).
\<close>

theorem withPriorityFees_data_size_safe:
  assumes "web3_ok w" and "withPriorityFees w conn a = Inr out"
    and "nonzero (fa_loadedAccountsDataSizeLimit a) = None"
    and "Some COMPUTE_BUDGET_IX_DATA_SIZE \<notin> set (cb_types_of w (fa_instructions a))"
    and "node_enforces w conn (fa_instructions a) loaded"
    and "1 \<le> fa_computeScaleUp a" and "loaded \<le> 64 * 1024 * 1024"
  shows "loaded \<le> dataSizeLimitOf w out"
proof -
  from assms(2,3) obtain units estimate resolved where
    out: "out = prependComputeBudgetIxs w (fa_instructions a) (Some units) (Some estimate) resolved" and
    or: "resolved = None \<or> (\<exists>payer. simulateBudget w conn a payer None = Inr (units, resolved))"
    by (auto simp: withPriorityFees_def Let_def split: if_splits option.splits elim!: ebind_InrE)
  have "loaded \<le> (case resolved of None \<Rightarrow> 64 * 1024 * 1024 | Some n \<Rightarrow> clampDataSize n)"
    using or simulateBudget_safe[OF _ assms(1,5,4,6,7)] assms(7) by (auto split: option.split)
  then show ?thesis unfolding out dataSizeLimitOf_prepend[OF assms(1,4)] .
qed

text \<open>A node that enforces the limit, for an instruction list that loads 40000 bytes.\<close>

definition enforcing_conn :: connection where
  "enforcing_conn = demo_conn
     \<lparr>compileToV0Message := (\<lambda>_ _ ixs _. Inr \<lparr>vm_staticAccountKeys = [],
        vm_compiledInstructions = [\<lparr>ci_programIdIndex = dataSizeLimitOf solana_web3 ixs,
          ci_accountKeyIndexes = [], ci_data = []\<rparr>]\<rparr>),
      simulateTransaction := (\<lambda>_ _ v.
        if 40000 \<le> ci_programIdIndex (hd (vm_compiledInstructions v))
        then Inr \<lparr>sim_err = None, sim_unitsConsumed = Some 1000, sim_loadedAccountsDataSize = Some 40000\<rparr>
        else Inr \<lparr>sim_err = Some ''MaxLoadedAccountsDataSizeExceeded'', sim_unitsConsumed = None,
                   sim_loadedAccountsDataSize = None\<rparr>)\<rparr>"

lemma enforcing_conn_enforces: "node_enforces solana_web3 enforcing_conn ixs 40000"
  by (auto simp: node_enforces_def enforcing_conn_def split: if_splits)

lemma default_pubkey_nonempty: "default_pubkey \<noteq> []"
  by (simp add: default_pubkey_def)

lemma enforcing_conn_returns: "\<exists>out. withPriorityFees solana_web3 enforcing_conn (demo_args None) = Inr out"
  by (auto simp: withPriorityFees_def demo_args_def nonzero_def simulateBudget_def populateMissingDraftInfo_def
      toVersionedTx_def enforcing_conn_def demo_conn_def estimatePrioritizationFee_def Let_def
      default_pubkey_nonempty)

theorem withPriorityFees_data_size_safe_witness:
  "\<exists>out. withPriorityFees solana_web3 enforcing_conn (demo_args None) = Inr out
     \<and> 40000 \<le> dataSizeLimitOf solana_web3 out"
proof -
  obtain out where out: "withPriorityFees solana_web3 enforcing_conn (demo_args None) = Inr out"
    using enforcing_conn_returns by blast
  have "40000 \<le> dataSizeLimitOf solana_web3 out"
    by (rule withPriorityFees_data_size_safe[OF solana_web3_ok out _ _ enforcing_conn_enforces])
      (simp_all add: demo_args_def nonzero_def cb_types_of_def demo_ixs_def CB_PROGRAM_def)
  with out show ?thesis by blast
qed

section \<open>The compute-unit request\<close>

lemma sim_attempts_units:
  assumes "0 < scale"
  shows "1 \<le> bg_computeUnits (sim_attempts w sim tx scale ks)
    \<and> bg_computeUnits (sim_attempts w sim tx scale ks) \<le> of_nat MAX_COMPUTE_UNITS"
  using assms
proof (induction w sim tx scale ks rule: sim_attempts.induct)
  case (1 w sim tx scale)
  then show ?case
    using sumTableCu_pos sumTableCu_le by (simp add: table_budget_def tableComputeUnits_def Suc_le_eq)
next
  case (2 w sim tx scale attempt rest)
  have t: "1 \<le> bg_computeUnits (table_budget w tx e) \<and> bg_computeUnits (table_budget w tx e) \<le> of_nat MAX_COMPUTE_UNITS" for e
    using sumTableCu_pos sumTableCu_le by (simp add: table_budget_def tableComputeUnits_def Suc_le_eq)
  have "1 \<le> (of_int \<lceil>fmul (of_nat u) scale\<rceil> :: rat)" if "u \<noteq> 0" for u
  proof -
    have "0 < fmul (of_nat u) scale" using that 2(2) by (auto simp: fmul_def intro!: rnd_pos_pos)
    then have "0 < \<lceil>fmul (of_nat u) scale\<rceil>" by simp
    then show ?thesis by simp
  qed
  moreover have "(1 :: rat) \<le> of_nat MAX_COMPUTE_UNITS" by (simp add: MAX_COMPUTE_UNITS_def)
  ultimately show ?case using 2 t by (auto split: sum.splits option.splits)
qed

text \<open>
  Whatever the node answers, the compute-unit estimate is a legal request, between 1 and
  1.4 million units; it comes from a simulation only when some attempt returned without error, and is
  the table's estimate otherwise.
\<close>

theorem estimateComputeBudget_valid:
  assumes "0 < computeScaleUp"
  shows "1 \<le> bg_computeUnits (estimateComputeBudget w conn call tx computeScaleUp)
    \<and> bg_computeUnits (estimateComputeBudget w conn call tx computeScaleUp) \<le> 1400000
    \<and> (if bg_simulated (estimateComputeBudget w conn call tx computeScaleUp)
       then \<exists>k r u. simulateTransaction conn call k tx = Inr r \<and> sim_err r = None
         \<and> sim_unitsConsumed r = Some u
         \<and> bg_computeUnits (estimateComputeBudget w conn call tx computeScaleUp)
             = min 1400000 (of_int \<lceil>fmul (of_nat u) computeScaleUp\<rceil>)
       else bg_computeUnits (estimateComputeBudget w conn call tx computeScaleUp)
             = of_nat (tableComputeUnits (cb_programId w) tx))"
  using sim_attempts_units[OF assms, of w "simulateTransaction conn call" tx "[0, 1]"]
  by (auto simp: estimateComputeBudget_def table_budget_def MAX_COMPUTE_UNITS_def
      split: sum.splits option.splits if_splits)

theorem estimateComputeBudget_valid_witness:
  "1 \<le> bg_computeUnits (estimateComputeBudget solana_web3 demo_conn 0 \<lparr>vm_staticAccountKeys = [], vm_compiledInstructions = []\<rparr> 2)"
  using estimateComputeBudget_valid[of 2 solana_web3 demo_conn 0 "\<lparr>vm_staticAccountKeys = [], vm_compiledInstructions = []\<rparr>"]
  by simp

section \<open>The fee\<close>

lemma max_fee_spec:
  "max_fee m fees \<in> set (m # fees) \<and> (\<forall>f \<in> set (m # fees). snd f \<le> snd (max_fee m fees))"
  by (induction m fees rule: max_fee.induct) (auto split: if_splits dest: less_imp_le intro: order_trans)

lemma slot_group:
  assumes "slot \<in> fst ` set fees"
  shows "hd (filter (\<lambda>fee. fst fee = slot) fees) # tl (filter (\<lambda>fee. fst fee = slot) fees) =
    filter (\<lambda>fee. fst fee = slot) fees"
proof -
  have "filter (\<lambda>fee. fst fee = slot) fees \<noteq> []" using assms by (auto simp: filter_empty_conv)
  then show ?thesis by simp
qed

lemma maximumFees_slots: "map fst (maximumFees fees) = sort (js_set (map fst fees))"
proof -
  have "fst (let grp = filter (\<lambda>fee. fst fee = slot) fees in max_fee (hd grp) (tl grp)) = slot"
    if slot: "slot \<in> set (sort (js_set (map fst fees)))" for slot
  proof -
    let ?g = "filter (\<lambda>fee. fst fee = slot) fees"
    have "hd ?g # tl ?g = ?g" using slot by (intro slot_group) simp
    then have "max_fee (hd ?g) (tl ?g) \<in> set ?g" using max_fee_spec[of "hd ?g" "tl ?g"] by metis
    then show ?thesis by (simp add: Let_def)
  qed
  then show ?thesis unfolding maximumFees_def map_map o_def by (rule map_idI)
qed

text \<open>
  The fallback's grouping keeps one fee per slot, from the oldest slot to the newest, each
  reported by the node and at least every fee it reported for that slot; no slot is lost.
\<close>

theorem maximumFees_spec:
  "sorted_wrt (<) (map fst (maximumFees fees)) \<and> set (map fst (maximumFees fees)) = set (map fst fees)
   \<and> set (maximumFees fees) \<subseteq> set fees
   \<and> (\<forall>m \<in> set (maximumFees fees). \<forall>f \<in> set fees. fst f = fst m \<longrightarrow> snd f \<le> snd m)"
proof (intro conjI ballI impI subsetI)
  show "sorted_wrt (<) (map fst (maximumFees fees))"
    by (simp add: maximumFees_slots strict_sorted_iff)
  show "set (map fst (maximumFees fees)) = set (map fst fees)" by (simp only: maximumFees_slots set_sort set_js_set)
next
  have grp: "\<exists>m0 ms. m = max_fee m0 ms \<and> m0 # ms = filter (\<lambda>fee. fst fee = fst m) fees"
    if m: "m \<in> set (maximumFees fees)" for m
  proof -
    from m obtain slot where slot: "slot \<in> set (map fst fees)"
      "m = max_fee (hd (filter (\<lambda>fee. fst fee = slot) fees)) (tl (filter (\<lambda>fee. fst fee = slot) fees))"
      by (auto simp: maximumFees_def Let_def)
    let ?g = "filter (\<lambda>fee. fst fee = slot) fees"
    have g: "hd ?g # tl ?g = ?g" using slot(1) by (intro slot_group) simp
    then have "m \<in> set ?g" using max_fee_spec[of "hd ?g" "tl ?g"] slot(2) by metis
    then have "fst m = slot" by simp
    with slot(2) g show ?thesis by metis
  qed
  fix m
  assume m: "m \<in> set (maximumFees fees)"
  from grp[OF m] obtain m0 ms where g: "m = max_fee m0 ms" "m0 # ms = filter (\<lambda>fee. fst fee = fst m) fees"
    by blast
  from max_fee_spec[of m0 ms] have "m \<in> set (m0 # ms)" "\<And>f. f \<in> set (m0 # ms) \<Longrightarrow> snd f \<le> snd m"
    unfolding g(1) by blast+
  then show "m \<in> set fees" and "\<And>f. f \<in> set fees \<Longrightarrow> fst f = fst m \<Longrightarrow> snd f \<le> snd m"
    unfolding g(2) by auto
qed

theorem maximumFees_spec_witness:
  "set (maximumFees [(7, 1), (3, 5), (7, 4)]) \<subseteq> {(7, 1), (3, 5), (7, 4)}"
  using maximumFees_spec[of "[(7, 1), (3, 5), (7, 4)]"] by simp

text \<open>
  The fee of a successful estimate: never above the caller's cap, and never below the caller's
  base fee (or 1) unless the cap is. On the fallback path the floor holds as well.
\<close>

theorem estimatePrioritizationFee_bounds:
  assumes "estimatePrioritizationFee conn ixs base cap = Inr fee"
  shows "(\<forall>est. getPriorityFeeEstimate conn (uniqueAccounts ixs) = Inr est \<longrightarrow> fee \<le> cap)
    \<and> min cap (or_default base 1) \<le> fee \<and> length (uniqueAccounts ixs) \<le> 128"
  using assms
  by (auto simp: estimatePrioritizationFee_def Let_def uniqueAccounts_def js_slice_def or_default_def
      MAX_RECENT_PRIORITY_FEE_ACCOUNTS_def split: sum.splits if_splits option.splits elim!: ebind_InrE)

theorem estimatePrioritizationFee_bounds_witness:
  "estimatePrioritizationFee demo_conn demo_ixs (Some 2) 100 = Inr 7 \<and> (7 :: number) \<le> 100"
proof -
  have f: "estimatePrioritizationFee demo_conn demo_ixs (Some 2) 100 = Inr 7"
    by (simp add: estimatePrioritizationFee_def demo_conn_def or_default_def)
  with estimatePrioritizationFee_bounds[OF f] show ?thesis by (simp add: demo_conn_def)
qed

text \<open>A node that only answers the older request.\<close>

definition old_node :: "(nat \<times> nat) list \<Rightarrow> connection" where
  "old_node fees = demo_conn\<lparr>getPriorityFeeEstimate := (\<lambda>_. Inl (Rejected ''Method not found'')),
     getRecentPrioritizationFees := (\<lambda>_. Inr fees)\<rparr>"

text \<open>
  The fallback ignores the cap: with a node that only answers \<open>getRecentPrioritizationFees\<close>, a
  caller who allows at most \<open>MAX_PRIO_FEE\<close> is quoted 9000000; and the value it calls the median is the
  middle entry by slot, not by fee: 100 for the fees 0, 100, 0.
\<close>

theorem fallback_fee_uncapped:
  "estimatePrioritizationFee (old_node [(1, 9000000)]) demo_ixs None MAX_PRIO_FEE = Inr 9000000
   \<and> estimatePrioritizationFee (old_node [(1, 0), (2, 100), (3, 0)]) demo_ixs None MAX_PRIO_FEE = Inr 100"
  by (simp add: estimatePrioritizationFee_def old_node_def or_default_def maximumFees_def medianOfRecent_def)

section \<open>The interface to the batching code\<close>

text \<open>
  What batching relies on: a priced list of instructions is a prefix followed by the list. The call
  index stands for the node's answers at that call.
\<close>

locale fee_pricer =
  fixes price :: "nat \<Rightarrow> instruction list \<Rightarrow> js_error + instruction list"
  assumes price_suffix: "price n chunk = Inr out \<Longrightarrow> \<exists>pre. out = pre @ chunk"
begin

lemma prefix_recovered: "price n chunk = Inr out \<Longrightarrow> prependedComputeBudgetIxs out chunk @ chunk = out"
  using price_suffix by (fastforce simp: prepended_prefix)

end

text \<open>With the library's discriminators the prefix is a price prefix.\<close>

locale cb_pricer = fee_pricer +
  fixes w :: web3
  assumes price_prefixed: "price n chunk = Inr (pre @ chunk) \<Longrightarrow> price_prefix w pre chunk"
begin

lemma prepended_price_prefix:
  "price n chunk = Inr out \<Longrightarrow> price_prefix w (prependedComputeBudgetIxs out chunk) chunk"
  using price_prefixed prefix_recovered by metis

end

lemma prependComputeBudgetIxs_suffix: "\<exists>pre. prependComputeBudgetIxs w ixs cu ml ds = pre @ ixs"
  unfolding prependComputeBudgetIxs_def Let_def by (metis append_assoc)

lemma withPriorityFees_suffix:
  "withPriorityFees w conn a = Inr out \<Longrightarrow> \<exists>pre. out = pre @ fa_instructions a"
  using prependComputeBudgetIxs_suffix
  by (auto simp: withPriorityFees_def Let_def split: if_splits elim!: ebind_InrE)

text \<open>The connection \<open>conns n\<close> is the node as the \<open>n\<close>-th call finds it.\<close>

definition priceChunk ::
  "web3 \<Rightarrow> (nat \<Rightarrow> connection) \<Rightarrow> fee_args \<Rightarrow> nat \<Rightarrow> instruction list \<Rightarrow> js_error + instruction list" where
  "priceChunk w conns a n chunk = withPriorityFees w (conns n) (a\<lparr>fa_instructions := chunk\<rparr>)"

interpretation wpf: fee_pricer "priceChunk w conns a" for w conns a
  by unfold_locales (auto simp: priceChunk_def dest: withPriorityFees_suffix)

lemma priceChunk_cb_pricer:
  assumes "web3_ok w"
  shows "cb_pricer (priceChunk w conns a) w"
proof unfold_locales
  fix n chunk pre
  assume "priceChunk w conns a n chunk = Inr (pre @ chunk)"
  then show "price_prefix w pre chunk"
    unfolding priceChunk_def by (rule withPriorityFees_shape[OF assms]) simp
qed

interpretation wpf_cb: cb_pricer "priceChunk solana_web3 conns a" solana_web3 for conns a
  by (rule priceChunk_cb_pricer) simp

end
