(* ===== verification/Tx_Batching.thy ===== *)
theory Tx_Batching
  imports Priority_Fees
begin

text \<open>
  \<^verbatim>\<open>packages/spl-utils/src/transaction.ts\<close>: packing instructions into transactions of bounded size.
  \<open>batchInstructionsToTxsWithPriorityFee\<close> prices each full transaction and keeps groups of
  instructions together; \<open>batchParallelInstructions\<close> is the older batcher. The serialiser of the
  client library is a parameter; pricing is used through the interface \<open>fee_pricer\<close>.
\<close>

section \<open>Input and sizes\<close>

text \<open>An element of the input: one instruction, or an array that must stay in one transaction.\<close>

datatype batch_item = One instruction | Group "instruction list"

fun item_ixs :: "batch_item \<Rightarrow> instruction list" where
  "item_ixs (One ix) = [ix]"
| "item_ixs (Group ixs) = ixs"

record serializer =
  serialize_length :: "versioned_message \<Rightarrow> js_error + nat"
  signatures_length :: "versioned_message \<Rightarrow> nat"

definition overrun_msg :: string where
  "overrun_msg = ''encoding overruns Uint8Array''"

text \<open>\<open>e.toString().includes(..)\<close>.\<close>

fun isOverrun :: "js_error \<Rightarrow> bool" where
  "isOverrun (Err m) = js_includes m overrun_msg"
| "isOverrun (Rejected m) = js_includes m overrun_msg"
| "isOverrun _ = False"

text \<open>The body of the \<open>try\<close>: it throws when the transaction is too large.\<close>

definition sizeCheck :: "serializer \<Rightarrow> nat \<Rightarrow> bool \<Rightarrow> versioned_message \<Rightarrow> js_error + unit" where
  "sizeCheck ser maxTxSize tooMany tx =
     ebind (serialize_length ser tx) (\<lambda>len.
       if len + 64 * signatures_length ser tx > maxTxSize \<or> tooMany
       then Inl (Err overrun_msg) else Inr ())"

section \<open>batchParallelInstructions\<close>

record provider =
  pr_walletKey :: pubkey
  pr_blockhash :: string
  pr_luts :: "lut list"
  pr_lutAddresses :: "pubkey list"

definition mk_draft :: "provider \<Rightarrow> pubkey list \<Rightarrow> instruction list \<Rightarrow> draft" where
  "mk_draft pr signers ixs =
     \<lparr>dr_recentBlockhash = Some (pr_blockhash pr), dr_feePayer = pr_walletKey pr, dr_instructions = ixs,
      dr_addressLookupTableAddresses = Some (pr_lutAddresses pr),
      dr_addressLookupTables = Some (pr_luts pr), dr_signers = signers\<rparr>"

text \<open>
  One iteration: the item is pushed, the transaction measured; on an overrun the last instruction is
  popped, the rest becomes a draft and the item starts the next transaction.
\<close>

definition bp_step ::
  "connection \<Rightarrow> serializer \<Rightarrow> nat \<Rightarrow> provider \<Rightarrow> pubkey list
   \<Rightarrow> instruction list \<times> draft list \<Rightarrow> batch_item \<Rightarrow> js_error + (instruction list \<times> draft list)" where
  "bp_step conn ser maxTxSize pr extraSigners st item =
     (let current = fst st @ item_ixs item
      in ebind (toVersionedTx conn (mk_draft pr extraSigners current)) (\<lambda>tx.
           case sizeCheck ser maxTxSize False tx of
             Inr _ \<Rightarrow> Inr (current, snd st)
           | Inl e \<Rightarrow>
               if isOverrun e
               then Inr (item_ixs item, snd st @ [mk_draft pr extraSigners (butlast current)])
               else Inl e))"

text \<open>The drafts \<open>batchParallelInstructions\<close> hands to \<open>bulkSendTransactions\<close>.\<close>

definition batchParallelDrafts ::
  "connection \<Rightarrow> serializer \<Rightarrow> nat \<Rightarrow> pubkey \<Rightarrow> pubkey list \<Rightarrow> pubkey list \<Rightarrow> batch_item list
   \<Rightarrow> js_error + draft list" where
  "batchParallelDrafts conn ser maxTxSize wallet extraSigners lutAddresses instructions =
     ebind (getLatestBlockhash conn) (\<lambda>blockhash.
     ebind (getAddressLookupTableAccounts conn lutAddresses) (\<lambda>luts.
       let pr = \<lparr>pr_walletKey = wallet, pr_blockhash = blockhash, pr_luts = luts, pr_lutAddresses = lutAddresses\<rparr>
       in ebind (efold (bp_step conn ser maxTxSize pr extraSigners) ([], []) instructions) (\<lambda>(current, txs).
            Inr (if current \<noteq> [] then txs @ [mk_draft pr extraSigners current] else txs))))"

section \<open>batchInstructionsToTxsWithPriorityFee\<close>

record batch_args =
  ba_computeUnitLimit :: "number option"
  ba_basePriorityFee :: "number option"
  ba_addressLookupTableAddresses :: "pubkey list option"
  ba_computeScaleUp :: "number option"
  ba_maxTxSize :: nat
  ba_extraSigners :: "pubkey list"
  ba_useFirstEstimateForAll :: bool
  ba_maxInstructionsPerTx :: "nat option"
  ba_loadedAccountsDataSizeLimit :: "number option"

definition DEFAULT_COMPUTE_SCALE_UP :: number where
  "DEFAULT_COMPUTE_SCALE_UP = fdiv 11 10"

text \<open>The arguments of the \<open>withPriorityFees\<close> call; the instructions are the chunk's.\<close>

definition batch_fee_args :: "batch_args \<Rightarrow> provider \<Rightarrow> fee_args" where
  "batch_fee_args a pr =
     \<lparr>fa_computeUnits = ba_computeUnitLimit a, fa_instructions = [],
      fa_basePriorityFee = ba_basePriorityFee a, fa_maxPriorityFee = MAX_PRIO_FEE,
      fa_computeScaleUp = (case ba_computeScaleUp a of None \<Rightarrow> DEFAULT_COMPUTE_SCALE_UP | Some s \<Rightarrow> s),
      fa_loadedAccountsDataSizeLimit = ba_loadedAccountsDataSizeLimit a,
      fa_feePayer = Some (pr_walletKey pr), fa_recentBlockhash = None,
      fa_addressLookupTableAddresses = None, fa_addressLookupTables = Some (pr_luts pr)\<rparr>"

text \<open>The extra signers that sign some instruction of the chunk.\<close>

definition chunk_signers :: "pubkey list \<Rightarrow> instruction list \<Rightarrow> pubkey list" where
  "chunk_signers extraSigners chunk =
     filter (\<lambda>s. list_ex (\<lambda>ix. list_ex (\<lambda>k. am_pubkey k = s \<and> am_isSigner k) (ix_keys ix)) chunk) extraSigners"

text \<open>
  State of the batcher: the instructions of the open transaction, the ComputeBudget instructions
  captured from the first one (\<open>null\<close> before), and the drafts so far.
\<close>

record batch_state =
  bs_current :: "instruction list"
  bs_first :: "instruction list option"
  bs_txs :: "draft list"

definition flushChunk ::
  "web3 \<Rightarrow> (nat \<Rightarrow> instruction list \<Rightarrow> js_error + instruction list) \<Rightarrow> batch_args \<Rightarrow> provider
   \<Rightarrow> batch_state \<Rightarrow> instruction list \<Rightarrow> js_error + batch_state" where
  "flushChunk w price a pr st chunk =
     ebind (case bs_first st of
              Some firstIxs \<Rightarrow>
                Inr (filter (\<lambda>ix. cb_type ix \<notin> set (callerComputeBudgetTypes w chunk)) firstIxs @ chunk, bs_first st)
            | None \<Rightarrow>
                ebind (price (length (bs_txs st)) chunk) (\<lambda>ixs.
                  Inr (ixs,
                       if ba_useFirstEstimateForAll a
                       then Some (filter (\<lambda>ix. ba_loadedAccountsDataSizeLimit a \<noteq> None
                                     \<or> cb_type ix \<noteq> Some COMPUTE_BUDGET_IX_DATA_SIZE)
                                   (prependedComputeBudgetIxs ixs chunk))
                       else None)))
       (\<lambda>(ixs, first').
         Inr (st\<lparr>bs_first := first',
                 bs_txs := bs_txs st @ [mk_draft pr (chunk_signers (ba_extraSigners a) chunk) ixs]\<rparr>))"

text \<open>The probe that is measured: three placeholder ComputeBudget instructions and the candidate.\<close>

definition probe_ixs :: "web3 \<Rightarrow> batch_args \<Rightarrow> instruction list \<Rightarrow> instruction list" where
  "probe_ixs w a current =
     [setComputeUnitLimit w (or_default (ba_computeUnitLimit a) 100000),
      setComputeUnitPrice w 1,
      setLoadedAccountsDataSizeLimit w
        (case ba_loadedAccountsDataSizeLimit a of
           None \<Rightarrow> DEFAULT_LOADED_ACCOUNTS_DATA_SIZE_LIMIT | Some n \<Rightarrow> n)] @ current"

definition tooManyIxs :: "batch_args \<Rightarrow> instruction list \<Rightarrow> bool" where
  "tooManyIxs a current =
     (case ba_maxInstructionsPerTx a of None \<Rightarrow> False | Some m \<Rightarrow> m \<noteq> 0 \<and> length current > m)"

definition measure_probe ::
  "web3 \<Rightarrow> connection \<Rightarrow> serializer \<Rightarrow> batch_args \<Rightarrow> provider \<Rightarrow> instruction list \<Rightarrow> js_error + (js_error + unit)" where
  "measure_probe w conn ser a pr current =
     ebind (toVersionedTx conn (mk_draft pr [] (probe_ixs w a current))) (\<lambda>tx.
       Inr (sizeCheck ser (ba_maxTxSize a) (tooManyIxs a current) tx))"

definition batch_step ::
  "web3 \<Rightarrow> connection \<Rightarrow> serializer \<Rightarrow> (nat \<Rightarrow> instruction list \<Rightarrow> js_error + instruction list)
   \<Rightarrow> batch_args \<Rightarrow> provider \<Rightarrow> batch_state \<Rightarrow> batch_item option \<Rightarrow> js_error + batch_state" where
  "batch_step w conn ser price a pr st instruction =
     (case instruction of
        None \<Rightarrow> Inr st
      | Some item \<Rightarrow>
          (let instrArr = item_ixs item;
               prevLen = length (bs_current st);
               current = bs_current st @ instrArr
           in ebind (measure_probe w conn ser a pr current) (\<lambda>checked.
                case checked of
                  Inr _ \<Rightarrow> Inr (st\<lparr>bs_current := current\<rparr>)
                | Inl e \<Rightarrow>
                    if isOverrun e then
                      let back = js_slice current 0 prevLen
                      in ebind (if back \<noteq> [] then flushChunk w price a pr st back else Inr st) (\<lambda>st'.
                           Inr (st'\<lparr>bs_current := instrArr\<rparr>))
                    else Inl e)))"

definition batch_run ::
  "web3 \<Rightarrow> connection \<Rightarrow> serializer \<Rightarrow> (nat \<Rightarrow> instruction list \<Rightarrow> js_error + instruction list)
   \<Rightarrow> batch_args \<Rightarrow> provider \<Rightarrow> batch_item option list \<Rightarrow> js_error + draft list" where
  "batch_run w conn ser price a pr instructions =
     ebind (efold (batch_step w conn ser price a pr) \<lparr>bs_current = [], bs_first = None, bs_txs = []\<rparr> instructions)
       (\<lambda>st. ebind (if bs_current st \<noteq> [] then flushChunk w price a pr st (bs_current st) else Inr st)
          (\<lambda>st'. Inr (bs_txs st')))"

definition batchInstructionsToTxsWithPriorityFee ::
  "web3 \<Rightarrow> connection \<Rightarrow> (nat \<Rightarrow> connection) \<Rightarrow> serializer \<Rightarrow> batch_args \<Rightarrow> pubkey \<Rightarrow> batch_item option list
   \<Rightarrow> js_error + draft list" where
  "batchInstructionsToTxsWithPriorityFee w conn conns ser a wallet instructions =
     ebind (getLatestBlockhash conn) (\<lambda>blockhash.
       let lutAddresses = (case ba_addressLookupTableAddresses a of None \<Rightarrow> [] | Some ks \<Rightarrow> ks)
       in ebind (getAddressLookupTableAccounts conn lutAddresses) (\<lambda>luts.
            let pr = \<lparr>pr_walletKey = wallet, pr_blockhash = blockhash, pr_luts = luts, pr_lutAddresses = lutAddresses\<rparr>
            in batch_run w conn ser (priceChunk w conns (batch_fee_args a pr)) a pr instructions))"

section \<open>Lemmas: the older batcher\<close>

definition bp_fits :: "connection \<Rightarrow> serializer \<Rightarrow> nat \<Rightarrow> provider \<Rightarrow> pubkey list \<Rightarrow> instruction list \<Rightarrow> bool" where
  "bp_fits conn ser m pr sg ixs \<longleftrightarrow>
     (\<exists>tx len. toVersionedTx conn (mk_draft pr sg ixs) = Inr tx \<and> serialize_length ser tx = Inr len
        \<and> len + 64 * signatures_length ser tx \<le> m)"

lemma sizeCheck_Inr_iff:
  "sizeCheck ser m too tx = Inr u \<longleftrightarrow>
     (\<exists>len. serialize_length ser tx = Inr len \<and> len + 64 * signatures_length ser tx \<le> m \<and> \<not> too)"
  by (cases "serialize_length ser tx") (auto simp: sizeCheck_def)

lemma mk_draft_simps [simp]:
  "dr_instructions (mk_draft pr sg ixs) = ixs"
  "dr_signers (mk_draft pr sg ixs) = sg"
  by (simp_all add: mk_draft_def)

lemma bp_step_cases:
  assumes "bp_step conn ser m pr sg st item = Inr st'"
  obtains (fit) "st' = (fst st @ item_ixs item, snd st)" and "bp_fits conn ser m pr sg (fst st @ item_ixs item)"
    | (over) "st' = (item_ixs item, snd st @ [mk_draft pr sg (butlast (fst st @ item_ixs item))])"
  using assms
  by (auto simp: bp_step_def Let_def bp_fits_def sizeCheck_Inr_iff split: sum.splits if_splits elim!: ebind_InrE)

lemma bp_step_concat:
  assumes "bp_step conn ser m pr sg st (One ix) = Inr st'"
  shows "concat (map dr_instructions (snd st')) @ fst st' = concat (map dr_instructions (snd st)) @ fst st @ [ix]"
  using assms by (cases rule: bp_step_cases) auto

definition bp_inv ::
  "connection \<Rightarrow> serializer \<Rightarrow> nat \<Rightarrow> provider \<Rightarrow> pubkey list \<Rightarrow> instruction list \<times> draft list \<Rightarrow> bool" where
  "bp_inv conn ser m pr sg st \<longleftrightarrow>
     list_all (\<lambda>ixs. length ixs \<le> 1 \<or> bp_fits conn ser m pr sg ixs) (fst st # map dr_instructions (snd st))"

lemma bp_step_inv:
  assumes "bp_step conn ser m pr sg st (One ix) = Inr st'" and "bp_inv conn ser m pr sg st"
  shows "bp_inv conn ser m pr sg st'"
  using assms by (cases rule: bp_step_cases) (auto simp: bp_inv_def)

lemma bp_fold_inv:
  assumes "efold (bp_step conn ser m pr sg) st (map One ixs) = Inr st'"
  shows "concat (map dr_instructions (snd st')) @ fst st' = concat (map dr_instructions (snd st)) @ fst st @ ixs"
  using assms
proof (induction ixs arbitrary: st)
  case Nil
  then show ?case by simp
next
  case (Cons ix ixs)
  from Cons.prems obtain u where "bp_step conn ser m pr sg st (One ix) = Inr u"
    "efold (bp_step conn ser m pr sg) u (map One ixs) = Inr st'"
    by (auto elim: ebind_InrE)
  with Cons.IH[of u] bp_step_concat[of conn ser m pr sg st ix u] show ?case by simp
qed

lemma bp_fold_fits:
  assumes "efold (bp_step conn ser m pr sg) ([], []) (map One ixs) = Inr st'"
  shows "bp_inv conn ser m pr sg st'"
proof (rule efold_inv[OF assms])
  show "bp_inv conn ser m pr sg ([], [])" by (simp add: bp_inv_def)
next
  fix s x s'
  assume "x \<in> set (map One ixs)" "bp_inv conn ser m pr sg s" "bp_step conn ser m pr sg s x = Inr s'"
  then show "bp_inv conn ser m pr sg s'" by (auto intro: bp_step_inv)
qed

text \<open>
  The older batcher loses and repeats nothing when it is given single instructions, as its type
  says: the drafts, one after the other, are the instructions in order, and each draft fits the size
  bound unless it is a single instruction (or none).
\<close>

theorem batchParallelDrafts_single:
  assumes "batchParallelDrafts conn ser m wallet sg luts (map One ixs) = Inr drafts"
  shows "concat (map dr_instructions drafts) = ixs
    \<and> (\<exists>pr. list_all (\<lambda>d. length (dr_instructions d) \<le> 1 \<or> bp_fits conn ser m pr sg (dr_instructions d)) drafts)"
proof -
  from assms obtain pr cur txs where f: "efold (bp_step conn ser m pr sg) ([], []) (map One ixs) = Inr (cur, txs)"
    and d: "drafts = (if cur \<noteq> [] then txs @ [mk_draft pr sg cur] else txs)"
    by (auto simp: batchParallelDrafts_def Let_def elim!: ebind_InrE)
  have "concat (map dr_instructions drafts) = ixs" using bp_fold_inv[OF f] d by auto
  moreover have "list_all (\<lambda>d. length (dr_instructions d) \<le> 1 \<or> bp_fits conn ser m pr sg (dr_instructions d)) drafts"
    using bp_fold_fits[OF f] d by (auto simp: bp_inv_def list_all_iff)
  ultimately show ?thesis by blast
qed

text \<open>
  A serialiser that measures 400 bytes per instruction, and a node whose compiler keeps one compiled
  instruction for each instruction.
\<close>

definition demo_ser :: serializer where
  "demo_ser = \<lparr>serialize_length = (\<lambda>v. Inr (400 * length (vm_compiledInstructions v))),
     signatures_length = (\<lambda>v. 0)\<rparr>"

definition counting_conn :: connection where
  "counting_conn = demo_conn\<lparr>compileToV0Message := (\<lambda>_ _ ixs _. Inr \<lparr>vm_staticAccountKeys = [],
     vm_compiledInstructions =
       map (\<lambda>ix. \<lparr>ci_programIdIndex = 0, ci_accountKeyIndexes = [], ci_data = ix_data ix\<rparr>) ixs\<rparr>)\<rparr>"

definition num_ix :: "byte \<Rightarrow> instruction" where
  "num_ix n = \<lparr>ix_programId = ''prog'', ix_keys = [], ix_data = [n]\<rparr>"

lemma demo_measure [simp]:
  "toVersionedTx counting_conn (mk_draft pr sg ixs) = Inr \<lparr>vm_staticAccountKeys = [], vm_compiledInstructions =
     map (\<lambda>ix. \<lparr>ci_programIdIndex = 0, ci_accountKeyIndexes = [], ci_data = ix_data ix\<rparr>) ixs\<rparr>"
  "sizeCheck demo_ser m too v =
     (if 400 * length (vm_compiledInstructions v) > m \<or> too then Inl (Err overrun_msg) else Inr ())"
  "getLatestBlockhash counting_conn = Inr ''bh''"
  by (simp_all add: counting_conn_def demo_conn_def toVersionedTx_def mk_draft_def sizeCheck_def demo_ser_def)

theorem batchParallelDrafts_single_witness:
  "\<exists>drafts. batchParallelDrafts counting_conn demo_ser 1232 ''me'' [] [] (map One (map num_ix [1, 2, 3, 4])) = Inr drafts
     \<and> concat (map dr_instructions drafts) = map num_ix [1, 2, 3, 4]"
proof -
  have "\<exists>drafts. batchParallelDrafts counting_conn demo_ser 1232 ''me'' [] [] (map One (map num_ix [1, 2, 3, 4])) = Inr drafts"
    by (simp add: batchParallelDrafts_def getAddressLookupTableAccounts_def bp_step_def Let_def)
  then show ?thesis using batchParallelDrafts_single by blast
qed

text \<open>
  The defects of the older batcher, on concrete inputs. A group that overflows leaves all but its
  last instruction behind in the previous transaction and is sent again whole in the next: the
  instruction 4 appears twice (the drafts hold 1, 2, 4 and 4, 5). A first instruction that is too large
  on its own is preceded by an empty transaction.
\<close>

theorem batchParallelDrafts_group_duplicates:
  "(\<exists>drafts. batchParallelDrafts counting_conn demo_ser 1232 ''me'' [] []
       [One (num_ix 1), One (num_ix 2), Group [num_ix 4, num_ix 5]] = Inr drafts
     \<and> map dr_instructions drafts = [[num_ix 1, num_ix 2, num_ix 4], [num_ix 4, num_ix 5]])
   \<and> (\<exists>drafts. batchParallelDrafts counting_conn demo_ser 300 ''me'' [] [] [One (num_ix 1)] = Inr drafts
     \<and> map dr_instructions drafts = [[], [num_ix 1]])"
  by (simp add: batchParallelDrafts_def getAddressLookupTableAccounts_def bp_step_def Let_def)

section \<open>Lemmas: the pricing batcher\<close>

text \<open>The groups of the input: falsy elements are skipped, empty arrays add nothing.\<close>

definition groups_of :: "batch_item option list \<Rightarrow> instruction list list" where
  "groups_of items = filter (\<lambda>g. g \<noteq> []) (map item_ixs (List.map_filter id items))"

lemma groups_of_simps [simp]:
  "groups_of [] = []"
  "groups_of (None # items) = groups_of items"
  "groups_of (Some item # items) = (if item_ixs item = [] then [] else [item_ixs item]) @ groups_of items"
  by (simp_all add: groups_of_def List.map_filter_simps)

lemma groups_of_nonempty: "[] \<notin> set (groups_of items)"
  by (simp add: groups_of_def)

definition fits :: "web3 \<Rightarrow> connection \<Rightarrow> serializer \<Rightarrow> batch_args \<Rightarrow> provider \<Rightarrow> instruction list \<Rightarrow> bool" where
  "fits w conn ser a pr ixs \<longleftrightarrow>
     (\<exists>tx len. toVersionedTx conn (mk_draft pr [] (probe_ixs w a ixs)) = Inr tx
        \<and> serialize_length ser tx = Inr len \<and> len + 64 * signatures_length ser tx \<le> ba_maxTxSize a)
     \<and> \<not> tooManyIxs a ixs"

lemma measure_fits: "measure_probe w conn ser a pr ixs = Inr (Inr u) \<longleftrightarrow> fits w conn ser a pr ixs"
  by (auto simp: measure_probe_def fits_def sizeCheck_Inr_iff ebind_Inr_iff)

lemma batch_step_cases:
  assumes "batch_step w conn ser price a pr st (Some it) = Inr st'"
  obtains (fit) "st' = st\<lparr>bs_current := bs_current st @ item_ixs it\<rparr>" and "fits w conn ser a pr (bs_current st @ item_ixs it)"
    | (flush) u where "bs_current st \<noteq> []" and "flushChunk w price a pr st (bs_current st) = Inr u"
        and "st' = u\<lparr>bs_current := item_ixs it\<rparr>"
    | (skip) "bs_current st = []" and "st' = st\<lparr>bs_current := item_ixs it\<rparr>"
  using assms
  by (auto simp: batch_step_def Let_def js_slice_def measure_fits split: sum.splits if_splits elim!: ebind_InrE)

section \<open>What the batcher keeps\<close>

text \<open>
  A draft that carries a part of the groups: a prefix of ComputeBudget instructions whose types the
  part leaves unset, then the part's instructions, signed by who must sign.
\<close>

definition part_draft :: "web3 \<Rightarrow> batch_args \<Rightarrow> provider \<Rightarrow> instruction list list \<Rightarrow> draft \<Rightarrow> bool" where
  "part_draft w a pr p d \<longleftrightarrow>
     (\<exists>pre. d = mk_draft pr (chunk_signers (ba_extraSigners a) (concat p)) (pre @ concat p) \<and> price_prefix w pre (concat p))"

definition batch_parts ::
  "web3 \<Rightarrow> connection \<Rightarrow> serializer \<Rightarrow> batch_args \<Rightarrow> provider \<Rightarrow> instruction list list list \<Rightarrow> draft list \<Rightarrow> bool" where
  "batch_parts w conn ser a pr parts drafts \<longleftrightarrow>
     list_all2 (part_draft w a pr) parts drafts \<and> [] \<notin> set parts
     \<and> list_all (\<lambda>p. length p = 1 \<or> fits w conn ser a pr (concat p)) parts"

text \<open>A draft without a data-size limit beside the ones its part brings.\<close>

definition data_size_ixs :: "web3 \<Rightarrow> instruction list \<Rightarrow> instruction list" where
  "data_size_ixs w = filter (\<lambda>ix. ix_programId ix = cb_programId w \<and> cb_type ix = Some COMPUTE_BUDGET_IX_DATA_SIZE)"

definition reused_draft :: "web3 \<Rightarrow> instruction list list \<Rightarrow> draft \<Rightarrow> bool" where
  "reused_draft w p d \<longleftrightarrow> data_size_ixs w (dr_instructions d) = data_size_ixs w (concat p)"

text \<open>
  The invariant of \<open>firstTxComputeBudgetIxs\<close>: a prefix of distinct ComputeBudget types, without the
  data-size limit unless the caller pinned one.
\<close>

definition first_ok :: "web3 \<Rightarrow> batch_args \<Rightarrow> instruction list \<Rightarrow> bool" where
  "first_ok w a ixs \<longleftrightarrow>
     list_all (\<lambda>ix. ix_programId ix = cb_programId w) ixs \<and> distinct (map cb_type ixs)
     \<and> (ba_loadedAccountsDataSizeLimit a = None \<longrightarrow> Some COMPUTE_BUDGET_IX_DATA_SIZE \<notin> cb_type ` set ixs)"

abbreviation shares_estimate :: "batch_args \<Rightarrow> bool" where
  "shares_estimate a \<equiv> ba_useFirstEstimateForAll a \<and> ba_loadedAccountsDataSizeLimit a = None"

definition reuse_inv :: "web3 \<Rightarrow> batch_args \<Rightarrow> instruction list list list \<Rightarrow> batch_state \<Rightarrow> bool" where
  "reuse_inv w a parts st \<longleftrightarrow>
     (\<forall>ixs. bs_first st = Some ixs \<longrightarrow> first_ok w a ixs \<and> bs_txs st \<noteq> [])
     \<and> (shares_estimate a \<longrightarrow>
          (bs_txs st \<noteq> [] \<longrightarrow> bs_first st \<noteq> None) \<and> list_all2 (reused_draft w) (tl parts) (tl (bs_txs st)))"

text \<open>
  The invariant of the loop over the items seen so far: their groups are the parts already flushed, in
  order, and the groups of the open chunk, which fits unless it is a single group.
\<close>

definition flushed ::
  "web3 \<Rightarrow> connection \<Rightarrow> serializer \<Rightarrow> batch_args \<Rightarrow> provider \<Rightarrow> instruction list list list \<Rightarrow> batch_state \<Rightarrow> bool" where
  "flushed w conn ser a pr parts st \<longleftrightarrow> batch_parts w conn ser a pr parts (bs_txs st) \<and> reuse_inv w a parts st"

definition batch_inv ::
  "web3 \<Rightarrow> connection \<Rightarrow> serializer \<Rightarrow> batch_args \<Rightarrow> provider \<Rightarrow> instruction list list \<Rightarrow> batch_state \<Rightarrow> bool" where
  "batch_inv w conn ser a pr gs st \<longleftrightarrow>
     (\<exists>parts cur. concat parts @ cur = gs \<and> bs_current st = concat cur \<and> [] \<notin> set cur
        \<and> (length cur \<le> 1 \<or> fits w conn ser a pr (concat cur)) \<and> flushed w conn ser a pr parts st)"

lemma flushed_current [simp]: "flushed w conn ser a pr parts (st\<lparr>bs_current := c\<rparr>) = flushed w conn ser a pr parts st"
  by (simp add: flushed_def reuse_inv_def)

lemma batch_parts_snoc:
  assumes "batch_parts w conn ser a pr parts drafts" and "part_draft w a pr p d" and "p \<noteq> []"
    and "length p \<le> 1 \<or> fits w conn ser a pr (concat p)"
  shows "batch_parts w conn ser a pr (parts @ [p]) (drafts @ [d])"
  using assms by (auto simp: batch_parts_def list_all2_appendI le_Suc_eq)

lemma price_prefix_filter:
  assumes "first_ok w a ixs"
  shows "price_prefix w (filter (\<lambda>ix. cb_type ix \<notin> set (callerComputeBudgetTypes w chunk)) ixs) chunk"
  using assms by (auto simp: first_ok_def price_prefix_def list_all_iff distinct_map_filter)

lemma first_ok_filter:
  assumes "price_prefix w pre chunk"
  shows "first_ok w a (filter (\<lambda>ix. ba_loadedAccountsDataSizeLimit a \<noteq> None
      \<or> cb_type ix \<noteq> Some COMPUTE_BUDGET_IX_DATA_SIZE) pre)"
  using assms by (auto simp: first_ok_def price_prefix_def list_all_iff distinct_map_filter)

lemma reused_mk_draft:
  assumes "first_ok w a ixs" and "ba_loadedAccountsDataSizeLimit a = None"
  shows "reused_draft w p (mk_draft pr sg (filter Q ixs @ concat p))"
  using assms by (auto simp: reused_draft_def data_size_ixs_def first_ok_def mk_draft_def filter_empty_conv image_iff)

text \<open>Flushing the open chunk makes its groups one more part; this is all the batcher needs of its pricer.\<close>

context cb_pricer
begin

lemma flush_price:
  assumes "flushChunk w price a pr st (concat p) = Inr st'" and "bs_first st = None"
  obtains pre where "price_prefix w pre (concat p)"
    and "bs_txs st' = bs_txs st @ [mk_draft pr (chunk_signers (ba_extraSigners a) (concat p)) (pre @ concat p)]"
    and "bs_first st' = (if ba_useFirstEstimateForAll a
          then Some (filter (\<lambda>ix. ba_loadedAccountsDataSizeLimit a \<noteq> None
                 \<or> cb_type ix \<noteq> Some COMPUTE_BUDGET_IX_DATA_SIZE) pre) else None)"
proof -
  from assms obtain ixs where p: "price (length (bs_txs st)) (concat p) = Inr ixs" and
    st': "st' = st\<lparr>bs_first := (if ba_useFirstEstimateForAll a
          then Some (filter (\<lambda>ix. ba_loadedAccountsDataSizeLimit a \<noteq> None
                 \<or> cb_type ix \<noteq> Some COMPUTE_BUDGET_IX_DATA_SIZE) (prependedComputeBudgetIxs ixs (concat p))) else None),
        bs_txs := bs_txs st @ [mk_draft pr (chunk_signers (ba_extraSigners a) (concat p)) ixs]\<rparr>"
    by (auto simp: flushChunk_def elim!: ebind_InrE)
  show thesis
    by (rule that[of "prependedComputeBudgetIxs ixs (concat p)"])
      (simp_all add: st' prefix_recovered[OF p] prepended_price_prefix[OF p])
qed

lemma flush_flushed:
  assumes "flushed w conn ser a pr parts st" and "p \<noteq> []" and "length p \<le> 1 \<or> fits w conn ser a pr (concat p)"
    and "flushChunk w price a pr st (concat p) = Inr st'"
  shows "flushed w conn ser a pr (parts @ [p]) st'"
proof (cases "bs_first st")
  case None
  from flush_price[OF assms(4) None] obtain pre where pre: "price_prefix w pre (concat p)"
    and t: "bs_txs st' = bs_txs st @ [mk_draft pr (chunk_signers (ba_extraSigners a) (concat p)) (pre @ concat p)]"
    and f: "bs_first st' = (if ba_useFirstEstimateForAll a
          then Some (filter (\<lambda>ix. ba_loadedAccountsDataSizeLimit a \<noteq> None
                 \<or> cb_type ix \<noteq> Some COMPUTE_BUDGET_IX_DATA_SIZE) pre) else None)" .
  have "batch_parts w conn ser a pr (parts @ [p]) (bs_txs st')"
    unfolding t using assms(1-3) pre by (intro batch_parts_snoc) (auto simp: part_draft_def flushed_def)
  moreover have "parts = []" if "shares_estimate a"
    using assms(1) None that by (auto simp: flushed_def reuse_inv_def batch_parts_def)
  then have "reuse_inv w a (parts @ [p]) st'"
    using first_ok_filter[OF pre, of a] assms(1) None by (auto simp: reuse_inv_def flushed_def f t)
  ultimately show ?thesis by (simp add: flushed_def)
next
  case (Some firstIxs)
  let ?pre = "filter (\<lambda>ix. cb_type ix \<notin> set (callerComputeBudgetTypes w (concat p))) firstIxs"
  have f: "first_ok w a firstIxs" "bs_txs st \<noteq> []" "length parts = length (bs_txs st)"
    using assms(1) Some by (auto simp: flushed_def reuse_inv_def batch_parts_def list_all2_lengthD)
  have st': "st' = st\<lparr>bs_txs := bs_txs st @ [mk_draft pr (chunk_signers (ba_extraSigners a) (concat p)) (?pre @ concat p)]\<rparr>"
    using assms(4) Some by (auto simp: flushChunk_def)
  have "batch_parts w conn ser a pr (parts @ [p]) (bs_txs st')"
    unfolding st' using assms(1-3) price_prefix_filter[OF f(1)]
    by simp (intro batch_parts_snoc, auto simp: part_draft_def flushed_def)
  moreover have "parts \<noteq> []" using f(2,3) by auto
  then have "reuse_inv w a (parts @ [p]) st'"
    using assms(1) f(1,2) Some reused_mk_draft[OF f(1)]
    unfolding st' by (auto simp: reuse_inv_def flushed_def intro!: list_all2_appendI)
  ultimately show ?thesis by (simp add: flushed_def)
qed

lemma flush_inv:
  assumes "batch_inv w conn ser a pr gs st" and "bs_current st \<noteq> []"
    and "flushChunk w price a pr st (bs_current st) = Inr st'"
  shows "\<exists>parts. concat parts = gs \<and> flushed w conn ser a pr parts st'"
proof -
  obtain parts cur where p: "concat parts @ cur = gs" "bs_current st = concat cur"
    "length cur \<le> 1 \<or> fits w conn ser a pr (concat cur)" "flushed w conn ser a pr parts st"
    using assms(1) unfolding batch_inv_def by blast
  then have "flushed w conn ser a pr (parts @ [cur]) st'"
    using assms(2,3) by (intro flush_flushed[OF p(4)]) auto
  then show ?thesis using p(1) by (intro exI[of _ "parts @ [cur]"]) simp
qed

lemma step_inv:
  assumes inv: "batch_inv w conn ser a pr gs st" and step: "batch_step w conn ser price a pr st item = Inr st'"
  shows "batch_inv w conn ser a pr (gs @ groups_of [item]) st'"
proof (cases item)
  case None
  with assms show ?thesis by (simp add: batch_step_def)
next
  case (Some it)
  let ?g = "if item_ixs it = [] then [] else [item_ixs it]"
  have g: "concat ?g = item_ixs it" "[] \<notin> set ?g" "length ?g \<le> 1" by auto
  from inv obtain parts cur where i: "concat parts @ cur = gs" "bs_current st = concat cur" "[] \<notin> set cur"
    "flushed w conn ser a pr parts st"
    unfolding batch_inv_def by blast
  from step[unfolded Some] show ?thesis
  proof (cases rule: batch_step_cases)
    case fit
    with i g Some show ?thesis
      unfolding batch_inv_def by (intro exI[of _ parts] exI[of _ "cur @ ?g"]) auto
  next
    case (flush u)
    from flush_inv[OF inv flush(1,2)] obtain parts where
      "concat parts = gs" "flushed w conn ser a pr parts u" by blast
    with flush g Some show ?thesis
      unfolding batch_inv_def by (intro exI[of _ parts] exI[of _ ?g]) auto
  next
    case skip
    with i g Some show ?thesis
      unfolding batch_inv_def by (intro exI[of _ parts] exI[of _ ?g]) (cases cur; auto)
  qed
qed

lemma fold_inv:
  assumes "efold (batch_step w conn ser price a pr) st items = Inr st'" and "batch_inv w conn ser a pr gs st"
  shows "batch_inv w conn ser a pr (gs @ groups_of items) st'"
  using assms
proof (induction items arbitrary: st gs)
  case Nil
  then show ?case by simp
next
  case (Cons item items)
  from Cons.prems(1) obtain u where u: "batch_step w conn ser price a pr st item = Inr u"
    "efold (batch_step w conn ser price a pr) u items = Inr st'"
    by (auto elim: ebind_InrE)
  have "groups_of (item # items) = groups_of [item] @ groups_of items" by (cases item) auto
  with Cons.IH[OF u(2) step_inv[OF Cons.prems(2) u(1)]] show ?case by simp
qed

lemma run_parts:
  assumes "batch_run w conn ser price a pr items = Inr drafts"
  shows "\<exists>parts. concat parts = groups_of items \<and> batch_parts w conn ser a pr parts drafts
    \<and> (shares_estimate a \<longrightarrow> list_all2 (reused_draft w) (tl parts) (tl drafts))"
proof -
  let ?s0 = "\<lparr>bs_current = [], bs_first = None, bs_txs = []\<rparr>"
  from assms obtain st st' where f: "efold (batch_step w conn ser price a pr) ?s0 items = Inr st"
    and r: "(if bs_current st \<noteq> [] then flushChunk w price a pr st (bs_current st) else Inr st) = Inr st'"
    and d: "drafts = bs_txs st'"
    by (auto simp: batch_run_def elim!: ebind_InrE)
  have "batch_inv w conn ser a pr [] ?s0" by (simp add: batch_inv_def batch_parts_def flushed_def reuse_inv_def)
  from fold_inv[OF f this] have inv: "batch_inv w conn ser a pr (groups_of items) st" by simp
  have "\<exists>parts. concat parts = groups_of items \<and> flushed w conn ser a pr parts st'"
  proof (cases "bs_current st = []")
    case True
    from inv obtain parts cur where "concat parts @ cur = groups_of items" "bs_current st = concat cur" "[] \<notin> set cur"
      "flushed w conn ser a pr parts st"
      unfolding batch_inv_def by blast
    with True r show ?thesis by (cases cur) auto
  next
    case False
    with r flush_inv[OF inv False] show ?thesis by simp
  qed
  then show ?thesis unfolding d flushed_def reuse_inv_def by blast
qed

end

lemma batchInstructions_run:
  assumes "batchInstructionsToTxsWithPriorityFee w conn conns ser a wallet items = Inr drafts"
  obtains pr where "pr_walletKey pr = wallet"
    and "batch_run w conn ser (priceChunk w conns (batch_fee_args a pr)) a pr items = Inr drafts"
proof -
  from assms show thesis
    unfolding batchInstructionsToTxsWithPriorityFee_def Let_def
    by (elim ebind_InrE) (rule that[rotated], assumption, simp)
qed

lemma batchInstructions_parts:
  assumes "web3_ok w" and "batchInstructionsToTxsWithPriorityFee w conn conns ser a wallet items = Inr drafts"
  obtains pr parts where "pr_walletKey pr = wallet" and "concat parts = groups_of items"
    and "batch_parts w conn ser a pr parts drafts"
    and "shares_estimate a \<longrightarrow> list_all2 (reused_draft w) (tl parts) (tl drafts)"
proof -
  obtain pr where pr: "pr_walletKey pr = wallet"
    "batch_run w conn ser (priceChunk w conns (batch_fee_args a pr)) a pr items = Inr drafts"
    using batchInstructions_run[OF assms(2)] .
  from cb_pricer.run_parts[OF priceChunk_cb_pricer[OF assms(1)] pr(2)] pr(1) that show thesis by blast
qed

text \<open>
  C5. The pricing batcher packs faithfully: when it returns, the groups of the input are cut into
  consecutive parts, one draft for each part in order, none empty. A draft's instructions are a
  ComputeBudget prefix followed by its part's instructions, so no instruction is lost, repeated,
  reordered, and no group is split; a draft with more than one group passed the size check with the
  prefix counted and respects \<open>maxInstructionsPerTx\<close>; its signers are the extra signers its
  instructions need.
\<close>

theorem batchInstructions_packs:
  assumes "web3_ok w" and "batchInstructionsToTxsWithPriorityFee w conn conns ser a wallet items = Inr drafts"
  shows "\<exists>pr parts. pr_walletKey pr = wallet \<and> concat parts = groups_of items \<and> batch_parts w conn ser a pr parts drafts"
  using batchInstructions_parts[OF assms] by metis

definition demo_batch_args :: batch_args where
  "demo_batch_args = \<lparr>ba_computeUnitLimit = Some 5000, ba_basePriorityFee = None,
     ba_addressLookupTableAddresses = None, ba_computeScaleUp = None, ba_maxTxSize = 2000,
     ba_extraSigners = [], ba_useFirstEstimateForAll = True, ba_maxInstructionsPerTx = None,
     ba_loadedAccountsDataSizeLimit = None\<rparr>"

lemma demo_batch:
  "\<exists>drafts. batchInstructionsToTxsWithPriorityFee solana_web3 counting_conn (\<lambda>_. demo_conn) demo_ser demo_batch_args ''me''
     [Some (One (num_ix 1)), None, Some (Group [num_ix 2, num_ix 3])] = Inr drafts \<and> length drafts = 2"
  by (simp add: batchInstructionsToTxsWithPriorityFee_def getAddressLookupTableAccounts_def batch_run_def
      batch_step_def measure_probe_def probe_ixs_def tooManyIxs_def demo_batch_args_def Let_def js_slice_def
      flushChunk_def priceChunk_def withPriorityFees_def batch_fee_args_def nonzero_def
      estimatePrioritizationFee_def demo_conn_def)

theorem batchInstructions_packs_witness:
  "\<exists>drafts parts pr. batchInstructionsToTxsWithPriorityFee solana_web3 counting_conn (\<lambda>_. demo_conn) demo_ser
       demo_batch_args ''me'' [Some (One (num_ix 1)), None, Some (Group [num_ix 2, num_ix 3])] = Inr drafts
     \<and> length drafts = 2 \<and> concat parts = [[num_ix 1], [num_ix 2, num_ix 3]]
     \<and> batch_parts solana_web3 counting_conn demo_ser demo_batch_args pr parts drafts"
proof -
  obtain drafts where d: "batchInstructionsToTxsWithPriorityFee solana_web3 counting_conn (\<lambda>_. demo_conn) demo_ser
      demo_batch_args ''me'' [Some (One (num_ix 1)), None, Some (Group [num_ix 2, num_ix 3])] = Inr drafts"
    "length drafts = 2"
    using demo_batch by blast
  from batchInstructions_packs[OF solana_web3_ok d(1)] d show ?thesis by simp blast
qed



end
