(* ===== verification/Bulk_Send.thy ===== *)
theory Bulk_Send
  imports Tx_Batching
begin

text \<open>
  \<^verbatim>\<open>packages/spl-utils/src/transaction.ts\<close>: sending many transactions. \<open>bulkSendRawTransactions\<close>
  sends signed buffers and polls until all are confirmed or their blockhash expires;
  \<open>bulkSendTransactions\<close> signs drafts with a fresh blockhash and repeats with those that did not land.
  The polling loop has no bound of its own: it runs on fuel, \<open>None\<close> is "still running", and it is
  shown to return once the chain has passed the last valid block height.
\<close>

section \<open>withRetries\<close>

fun retries_from :: "nat \<Rightarrow> nat \<Rightarrow> (nat \<Rightarrow> js_error + 'a) \<Rightarrow> js_error + 'a" where
  "retries_from i 0 input = Inl (Err ''Failed after retries'')"
| "retries_from i (Suc n) input = (case input i of Inr x \<Rightarrow> Inr x | Inl _ \<Rightarrow> retries_from (Suc i) n input)"

definition withRetries :: "nat \<Rightarrow> (nat \<Rightarrow> js_error + 'a) \<Rightarrow> js_error + 'a" where
  "withRetries tries input = retries_from 0 tries input"

section \<open>The node\<close>

text \<open>What \<open>getTransactions\<close> reports of a transaction it knows; \<open>null\<close> is \<open>None\<close>.\<close>

datatype tx_status = Landed | Failed string

text \<open>The answers of the node and the clock, by polling round (and by attempt or by read).\<close>

record send_node =
  sn_getBlockHeight :: "nat \<Rightarrow> nat \<Rightarrow> js_error + nat"
  sn_now :: "nat \<Rightarrow> nat \<Rightarrow> int"
  sn_sendRawTransaction :: "nat \<Rightarrow> bool \<Rightarrow> bytes \<Rightarrow> js_error + string"
  sn_getTransactions :: "nat \<Rightarrow> string list \<Rightarrow> js_error + tx_status option list"
  sn_getTransaction :: "nat \<Rightarrow> string \<Rightarrow> js_error + unit"
  sn_getLatestBlockhash :: "nat \<Rightarrow> js_error + (string \<times> nat)"

definition TX_BATCH_SIZE :: nat where
  "TX_BATCH_SIZE = 100"

definition MAX_GET_SIGNATURE_STATUSES_QUERY_ITEMS :: nat where
  "MAX_GET_SIGNATURE_STATUSES_QUERY_ITEMS = 200"

definition getAllTxns :: "send_node \<Rightarrow> nat \<Rightarrow> string list \<Rightarrow> js_error + tx_status option list" where
  "getAllTxns nd r txids =
     ebind (chunks txids MAX_GET_SIGNATURE_STATUSES_QUERY_ITEMS) (\<lambda>cs.
     ebind (emap (sn_getTransactions nd r) cs) (\<lambda>sts. Inr (concat sts)))"

section \<open>bulkSendRawTransactions\<close>

record tx_progress =
  st_totalTxs :: nat
  st_totalProgress :: nat
  st_currentBatchProgress :: nat
  st_currentBatchSize :: nat

text \<open>The variables of the polling loop, what \<open>onProgress\<close> was told, and the round.\<close>

record raw_state =
  rs_chunk :: "bytes list"
  rs_pendingCount :: int
  rs_txids :: "string list"
  rs_lastRetry :: int
  rs_totalProgress :: nat
  rs_batchProgress :: nat
  rs_ret :: "string list"
  rs_progress :: "tx_progress list"
  rs_round :: nat

text \<open>\<open>xs.filter((_, index) => statuses[index] === null)\<close>.\<close>

definition stillNull :: "tx_status option list \<Rightarrow> 'a list \<Rightarrow> 'a list" where
  "stillNull statuses xs = map snd (filter (\<lambda>(i, x). js_nth statuses i = Some None) (enumerate 0 xs))"

text \<open>\<open>txids.map((txid, idx) => statuses[idx] == null ? null : txid).filter(truthy)\<close>.\<close>

definition landedIds :: "tx_status option list \<Rightarrow> string list \<Rightarrow> string list" where
  "landedIds statuses txids =
     filter (\<lambda>t. t \<noteq> [])
       (map snd (filter (\<lambda>(i, t). js_nth statuses i \<notin> {None, Some None}) (enumerate 0 txids)))"

fun isFailed :: "tx_status option \<Rightarrow> bool" where
  "isFailed (Some (Failed e)) = True"
| "isFailed _ = False"

definition failedIds :: "tx_status option list \<Rightarrow> string list \<Rightarrow> string list" where
  "failedIds statuses txids = map fst (filter (\<lambda>(t, s). isFailed s) (zip txids statuses))"

definition send_chunk :: "send_node \<Rightarrow> bool \<Rightarrow> raw_state \<Rightarrow> js_error + (string list \<times> int)" where
  "send_chunk nd skipPreflight st =
     (if rs_lastRetry st < sn_now nd (rs_round st) 0 - 4 * 1000
      then ebind (emap (sn_sendRawTransaction nd (rs_round st) skipPreflight) (rs_chunk st))
             (\<lambda>txids. Inr (txids, sn_now nd (rs_round st) 1))
      else Inr (rs_txids st, rs_lastRetry st))"

text \<open>One turn of the loop; \<open>None\<close> when the blockhash has expired.\<close>

definition raw_round :: "send_node \<Rightarrow> nat \<Rightarrow> nat \<Rightarrow> bool \<Rightarrow> raw_state \<Rightarrow> js_error + raw_state option" where
  "raw_round nd totalTxs lastValidBlockHeight skipPreflight st =
     (let r = rs_round st
      in ebind (withRetries 5 (sn_getBlockHeight nd r)) (\<lambda>height.
         if height > lastValidBlockHeight then Inr None
         else
           ebind (send_chunk nd skipPreflight st) (\<lambda>(txids, lastRetry).
           ebind (getAllTxns nd r txids) (\<lambda>statuses.
             let completed = filter (\<lambda>s. s \<noteq> None) statuses;
                 tot = rs_totalProgress st + length completed;
                 batch = rs_batchProgress st + length completed
             in if list_ex isFailed completed
                then ebind (emap (sn_getTransaction nd r) (failedIds statuses txids)) (\<lambda>_. Inl (Err ''Failed to run txs''))
                else Inr (Some
                  \<lparr>rs_chunk = stillNull statuses (rs_chunk st),
                   rs_pendingCount = rs_pendingCount st - int (length completed),
                   rs_txids = stillNull statuses txids, rs_lastRetry = lastRetry,
                   rs_totalProgress = tot, rs_batchProgress = batch,
                   rs_ret = rs_ret st @ landedIds statuses txids,
                   rs_progress = rs_progress st @
                     [\<lparr>st_totalTxs = totalTxs, st_totalProgress = tot, st_currentBatchProgress = batch,
                       st_currentBatchSize = TX_BATCH_SIZE\<rparr>],
                   rs_round = Suc r\<rparr>)))))"

text \<open>The \<open>while\<close> loop over one chunk: whether the blockhash expired, and the state.\<close>

fun raw_while :: "nat \<Rightarrow> send_node \<Rightarrow> nat \<Rightarrow> nat \<Rightarrow> bool \<Rightarrow> raw_state \<Rightarrow> (bool \<times> raw_state) run" where
  "raw_while 0 nd n lvbh skip st = None"
| "raw_while (Suc fuel) nd n lvbh skip st =
     (if rs_pendingCount st > 0
      then (case raw_round nd n lvbh skip st of
              Inl e \<Rightarrow> Some (Inl e)
            | Inr None \<Rightarrow> Some (Inr (True, st))
            | Inr (Some st') \<Rightarrow> raw_while fuel nd n lvbh skip st')
      else Some (Inr (False, st)))"

definition start_chunk :: "bytes list \<Rightarrow> raw_state \<Rightarrow> raw_state" where
  "start_chunk chunk st =
     st\<lparr>rs_chunk := chunk, rs_pendingCount := int (length chunk), rs_txids := [], rs_lastRetry := 0,
        rs_batchProgress := 0\<rparr>"

fun raw_chunks ::
  "nat \<Rightarrow> send_node \<Rightarrow> nat \<Rightarrow> nat \<Rightarrow> bool \<Rightarrow> bytes list list \<Rightarrow> raw_state \<Rightarrow> (bool \<times> raw_state) run" where
  "raw_chunks fuel nd n lvbh skip [] st = Some (Inr (False, st))"
| "raw_chunks fuel nd n lvbh skip (chunk # rest) st =
     rbind (raw_while fuel nd n lvbh skip (start_chunk chunk st)) (\<lambda>(expired, st').
       if expired then Some (Inr (True, st')) else raw_chunks fuel nd n lvbh skip rest st')"

definition raw_init :: raw_state where
  "raw_init = \<lparr>rs_chunk = [], rs_pendingCount = 0, rs_txids = [], rs_lastRetry = 0, rs_totalProgress = 0,
     rs_batchProgress = 0, rs_ret = [], rs_progress = [], rs_round = 0\<rparr>"

definition bulkSendRawTransactions ::
  "nat \<Rightarrow> send_node \<Rightarrow> bytes list \<Rightarrow> nat option \<Rightarrow> bool \<Rightarrow> string list run" where
  "bulkSendRawTransactions fuel nd txs lastValidBlockHeight skipPreflight =
     rbind (Some (case lastValidBlockHeight of
              Some h \<Rightarrow> if h = 0 then ebind (withRetries 5 (sn_getLatestBlockhash nd)) (\<lambda>(_, h). Inr h) else Inr h
            | None \<Rightarrow> ebind (withRetries 5 (sn_getLatestBlockhash nd)) (\<lambda>(_, h). Inr h))) (\<lambda>lvbh.
     rbind (Some (chunks txs TX_BATCH_SIZE)) (\<lambda>cs.
     rbind (raw_chunks fuel nd (length txs) lvbh skipPreflight cs raw_init) (\<lambda>(_, st). Some (Inr (rs_ret st)))))"

section \<open>bulkSendTransactions\<close>

text \<open>A signed transaction: its message and who signed it.\<close>

record signed_tx =
  sg_msg :: versioned_message
  sg_signedBy :: "pubkey list"

text \<open>
  The parameters of the sender: the wallet, the first signature of a signed transaction, its bytes.
\<close>

record wallet =
  wl_signAllTransactions :: "nat \<Rightarrow> versioned_message list \<Rightarrow> js_error + signed_tx list"
  wl_signature :: "signed_tx \<Rightarrow> string"
  wl_serialize :: "signed_tx \<Rightarrow> bytes"

text \<open>The extra signers that the draft names sign its transaction.\<close>

definition addExtraSigners :: "pubkey list \<Rightarrow> draft list \<Rightarrow> signed_tx list \<Rightarrow> signed_tx list" where
  "addExtraSigners extraSigners chunk signedTxs =
     map2 (\<lambda>d tx. tx\<lparr>sg_signedBy := sg_signedBy tx @ filter (\<lambda>s. s \<in> set (dr_signers d)) extraSigners\<rparr>) chunk signedTxs"

text \<open>
  The part of an iteration before sending: a fresh blockhash, the drafts filled in (in place), compiled
  and signed.
\<close>

definition sign_chunk ::
  "(nat \<Rightarrow> connection) \<Rightarrow> (nat \<Rightarrow> nat \<Rightarrow> js_error + (string \<times> nat)) \<Rightarrow> wallet \<Rightarrow> pubkey list \<Rightarrow> nat \<Rightarrow> draft list
   \<Rightarrow> js_error + (nat \<times> draft list \<times> signed_tx list)" where
  "sign_chunk conns latest wl extraSigners k chunk =
     ebind (withRetries 5 (latest k)) (\<lambda>(blockhash, lastValidBlockHeight).
     ebind (emap (populateMissingDraftInfo (conns k)) chunk) (\<lambda>chunk'.
     ebind (emap (\<lambda>tx. toVersionedTx (conns k) (tx\<lparr>dr_recentBlockhash := Some blockhash\<rparr>)) chunk') (\<lambda>vs.
     ebind (wl_signAllTransactions wl k vs) (\<lambda>signedTxs.
       Inr (lastValidBlockHeight, chunk', addExtraSigners extraSigners chunk' signedTxs)))))"

function bulk_while ::
  "(nat \<Rightarrow> connection) \<Rightarrow> (nat \<Rightarrow> nat \<Rightarrow> js_error + (string \<times> nat)) \<Rightarrow> wallet \<Rightarrow> pubkey list
   \<Rightarrow> (nat \<Rightarrow> bytes list \<Rightarrow> nat \<Rightarrow> bool \<Rightarrow> string list run)
   \<Rightarrow> int \<Rightarrow> nat \<Rightarrow> draft list \<Rightarrow> string list \<Rightarrow> (int \<times> nat \<times> string list) run" where
  "bulk_while conns latest wl extraSigners raw triesRemaining k chunk thisRet =
     rbind (Some (sign_chunk conns latest wl extraSigners k chunk)) (\<lambda>(lvbh, chunk', signedTxs).
     rbind (raw k (map (wl_serialize wl) signedTxs) lvbh (triesRemaining \<noteq> 1)) (\<lambda>confirmed.
       let thisRet' = thisRet @ confirmed
       in if length confirmed = length signedTxs then Some (Inr (triesRemaining, Suc k, thisRet'))
          else
            let remaining = map fst (filter (\<lambda>(_, tx). wl_signature wl tx \<notin> set thisRet') (zip chunk' signedTxs))
            in if triesRemaining - 1 \<le> 0
               then Some (Inl (Err (''Failed to submit all txs after blockhashes expired, '' @
                      nat_str (length signedTxs - length confirmed) @ '' remain'')))
               else bulk_while conns latest wl extraSigners raw (triesRemaining - 1) (Suc k) remaining thisRet'))"
  by pat_completeness auto
termination
  by (relation "measure (\<lambda>(_, _, _, _, _, tries, _). nat tries)") auto

fun bulk_chunks ::
  "(nat \<Rightarrow> connection) \<Rightarrow> (nat \<Rightarrow> nat \<Rightarrow> js_error + (string \<times> nat)) \<Rightarrow> wallet \<Rightarrow> pubkey list
   \<Rightarrow> (nat \<Rightarrow> bytes list \<Rightarrow> nat \<Rightarrow> bool \<Rightarrow> string list run)
   \<Rightarrow> int \<Rightarrow> nat \<Rightarrow> draft list list \<Rightarrow> string list \<Rightarrow> string list run" where
  "bulk_chunks conns latest wl extraSigners raw tries k [] ret = Some (Inr ret)"
| "bulk_chunks conns latest wl extraSigners raw tries k (chunk # rest) ret =
     rbind (bulk_while conns latest wl extraSigners raw tries k chunk []) (\<lambda>(tries', k', thisRet).
       bulk_chunks conns latest wl extraSigners raw tries' k' rest (ret @ thisRet))"

definition bulkSendTransactions ::
  "(nat \<Rightarrow> connection) \<Rightarrow> (nat \<Rightarrow> nat \<Rightarrow> js_error + (string \<times> nat)) \<Rightarrow> wallet
   \<Rightarrow> (nat \<Rightarrow> bytes list \<Rightarrow> nat \<Rightarrow> bool \<Rightarrow> string list run)
   \<Rightarrow> draft list \<Rightarrow> int \<Rightarrow> pubkey list \<Rightarrow> nat \<Rightarrow> string list run" where
  "bulkSendTransactions conns latest wl raw txs triesRemaining extraSigners maxSignatureBatch =
     rbind (Some (chunks txs maxSignatureBatch)) (\<lambda>cs.
       bulk_chunks conns latest wl extraSigners raw triesRemaining 0 cs [])"

text \<open>The callee of \<open>bulkSendTransactions\<close>: \<open>bulkSendRawTransactions\<close> on the node of that call.\<close>

definition rawSender :: "nat \<Rightarrow> (nat \<Rightarrow> send_node) \<Rightarrow> nat \<Rightarrow> bytes list \<Rightarrow> nat \<Rightarrow> bool \<Rightarrow> string list run" where
  "rawSender fuel nodes k txs lvbh skip = bulkSendRawTransactions fuel (nodes k) txs (Some lvbh) skip"

text \<open>\<open>batchParallelInstructionsWithPriorityFee\<close>: the extra signers go to the sender only.\<close>

definition batchParallelInstructionsWithPriorityFee ::
  "web3 \<Rightarrow> connection \<Rightarrow> (nat \<Rightarrow> connection) \<Rightarrow> serializer \<Rightarrow> (nat \<Rightarrow> nat \<Rightarrow> js_error + (string \<times> nat)) \<Rightarrow> wallet
   \<Rightarrow> (nat \<Rightarrow> bytes list \<Rightarrow> nat \<Rightarrow> bool \<Rightarrow> string list run) \<Rightarrow> pubkey \<Rightarrow> batch_item option list
   \<Rightarrow> number option \<Rightarrow> number option \<Rightarrow> number option \<Rightarrow> int \<Rightarrow> pubkey list \<Rightarrow> nat \<Rightarrow> unit run" where
  "batchParallelInstructionsWithPriorityFee w conn conns ser latest wl raw walletKey items
     computeUnitLimit basePriorityFee computeScaleUp triesRemaining extraSigners maxSignatureBatch =
     rbind (Some (batchInstructionsToTxsWithPriorityFee w conn conns ser
         \<lparr>ba_computeUnitLimit = computeUnitLimit, ba_basePriorityFee = basePriorityFee,
          ba_addressLookupTableAddresses = None, ba_computeScaleUp = computeScaleUp, ba_maxTxSize = 1232,
          ba_extraSigners = [], ba_useFirstEstimateForAll = False, ba_maxInstructionsPerTx = None,
          ba_loadedAccountsDataSizeLimit = None\<rparr> walletKey items)) (\<lambda>transactions.
     rbind (bulkSendTransactions conns latest wl raw transactions triesRemaining extraSigners maxSignatureBatch)
       (\<lambda>_. Some (Inr ())))"

text \<open>\<open>batchSequentialParallelInstructions\<close>: one batch after the other, the first error ends it.\<close>

fun batchSequentialParallelInstructions :: "('a \<Rightarrow> unit run) \<Rightarrow> 'a list \<Rightarrow> unit run" where
  "batchSequentialParallelInstructions batchOne [] = Some (Inr ())"
| "batchSequentialParallelInstructions batchOne (b # bs) =
     rbind (batchOne b) (\<lambda>_. batchSequentialParallelInstructions batchOne bs)"

definition batchParallelInstructions ::
  "connection \<Rightarrow> (nat \<Rightarrow> connection) \<Rightarrow> serializer \<Rightarrow> (nat \<Rightarrow> nat \<Rightarrow> js_error + (string \<times> nat)) \<Rightarrow> wallet
   \<Rightarrow> (nat \<Rightarrow> bytes list \<Rightarrow> nat \<Rightarrow> bool \<Rightarrow> string list run) \<Rightarrow> pubkey \<Rightarrow> batch_item list
   \<Rightarrow> nat \<Rightarrow> int \<Rightarrow> pubkey list \<Rightarrow> nat \<Rightarrow> pubkey list \<Rightarrow> unit run" where
  "batchParallelInstructions conn conns ser latest wl raw walletKey items maxTxSize triesRemaining extraSigners
     maxSignatureBatch lutAddresses =
     rbind (Some (batchParallelDrafts conn ser maxTxSize walletKey extraSigners lutAddresses items)) (\<lambda>transactions.
     rbind (bulkSendTransactions conns latest wl raw transactions triesRemaining extraSigners maxSignatureBatch)
       (\<lambda>_. Some (Inr ())))"

section \<open>Lemmas: polling\<close>

lemma withRetries_InrE:
  assumes "withRetries tries input = Inr x"
  obtains i where "i < tries" and "input i = Inr x"
proof -
  have "\<exists>i \<ge> j. i < j + tries \<and> input i = Inr x" if "retries_from j tries input = Inr x" for j
    using that
  proof (induction j tries input rule: retries_from.induct)
    case (2 j n input)
    show ?case
    proof (cases "input j")
      case (Inl e)
      with 2 obtain i where "Suc j \<le> i" "i < Suc j + n" "input i = Inr x" by auto
      then show ?thesis by (intro exI[of _ i]) auto
    qed (use 2 in auto)
  qed simp
  from this[of 0] assms that show ?thesis by (auto simp: withRetries_def)
qed

lemma withRetries_first: "0 < tries \<Longrightarrow> input 0 = Inr x \<Longrightarrow> withRetries tries input = Inr x"
  by (cases tries) (auto simp: withRetries_def)

lemma enumerate_filter_zip:
  assumes "length ss = length xs"
  shows "map snd (filter (\<lambda>(i, x). Q (js_nth (pre @ ss) i)) (enumerate (length pre) xs))
    = map snd (filter (\<lambda>(s, x). Q (Some s)) (zip ss xs))"
  using assms
proof (induction ss xs arbitrary: pre rule: list_induct2)
  case Nil
  then show ?case by simp
next
  case (Cons s ss x xs)
  from Cons.IH[of "pre @ [s]"] show ?case by (simp add: js_nth_def)
qed

lemma stillNull_zip:
  "length ss = length xs \<Longrightarrow> stillNull ss xs = map snd (filter (\<lambda>(s, x). s = None) (zip ss xs))"
  using enumerate_filter_zip[of ss xs "\<lambda>s. s = Some None" "[]"] by (simp add: stillNull_def)

lemma landedIds_zip:
  "length ss = length xs \<Longrightarrow> [] \<notin> set xs \<Longrightarrow>
     landedIds ss xs = map snd (filter (\<lambda>(s, x). s \<noteq> None) (zip ss xs))"
proof -
  assume *: "length ss = length xs" "[] \<notin> set xs"
  have "landedIds ss xs = filter (\<lambda>t. t \<noteq> []) (map snd (filter (\<lambda>(s, x). s \<noteq> None) (zip ss xs)))"
    using enumerate_filter_zip[OF *(1), of "\<lambda>s. s \<notin> {None, Some None}" "[]"] by (simp add: landedIds_def)
  also have "\<dots> = map snd (filter (\<lambda>(s, x). s \<noteq> None) (zip ss xs))"
    using *(2) by (intro filter_True) (auto dest!: set_zip_rightD)
  finally show ?thesis .
qed

lemma split_zip:
  assumes "length ss = length xs"
  shows "mset (map f (map snd (filter (\<lambda>(s, x). s \<noteq> None) (zip ss xs))))
      + mset (map f (map snd (filter (\<lambda>(s, x). s = None) (zip ss xs)))) = mset (map f xs)"
    and "length (filter (\<lambda>s. s \<noteq> None) ss) = length (map snd (filter (\<lambda>(s, x). s \<noteq> None) (zip ss xs)))"
    and "length (filter (\<lambda>s. s \<noteq> None) ss) + length (map snd (filter (\<lambda>(s, x). s = None) (zip ss xs))) = length xs"
  using assms by (induction ss xs rule: list_induct2) auto

text \<open>
  What the sender relies on: a transaction's id is its first signature, \<open>getTransactions\<close> answers for
  each id in order, and the clock is past 1970 (milliseconds since the epoch).
\<close>

definition node_ok :: "send_node \<Rightarrow> (bytes \<Rightarrow> string) \<Rightarrow> bool" where
  "node_ok nd sig \<longleftrightarrow>
     (\<forall>r s tx txid. sn_sendRawTransaction nd r s tx = Inr txid \<longrightarrow> txid = sig tx \<and> txid \<noteq> [])
     \<and> (\<forall>r ids sts. sn_getTransactions nd r ids = Inr sts \<longrightarrow> length sts = length ids)
     \<and> (\<forall>r i. sn_now nd r i > 4000)"

text \<open>The node has said that the transaction landed without error.\<close>

definition reported :: "send_node \<Rightarrow> string \<Rightarrow> bool" where
  "reported nd txid \<longleftrightarrow>
     (\<exists>r ids sts i. sn_getTransactions nd r ids = Inr sts \<and> js_nth ids i = Some txid
        \<and> js_nth sts i = Some (Some Landed))"

lemma getAllTxns_spec:
  assumes "node_ok nd sig" and "getAllTxns nd r txids = Inr ss"
  shows "length ss = length txids"
    and "\<And>s t. (s, t) \<in> set (zip ss txids) \<Longrightarrow> s = Some Landed \<Longrightarrow> reported nd t"
proof -
  have len: "sn_getTransactions nd r ids = Inr sts \<Longrightarrow> length sts = length ids" for ids sts
    using assms(1) unfolding node_ok_def by blast
  have m: "MAX_GET_SIGNATURE_STATUSES_QUERY_ITEMS > 0"
    by (simp add: MAX_GET_SIGNATURE_STATUSES_QUERY_ITEMS_def)
  obtain sts where sts: "emap (sn_getTransactions nd r) (chop MAX_GET_SIGNATURE_STATUSES_QUERY_ITEMS txids) = Inr sts"
    "ss = concat sts"
    using assms(2) by (auto simp: getAllTxns_def chunks_chop[OF m] elim!: ebind_InrE)
  have "length (concat sts) = length (concat css) \<and>
      (\<forall>(s, t) \<in> set (zip (concat sts) (concat css)). s = Some Landed \<longrightarrow> reported nd t)"
    if "emap (sn_getTransactions nd r) css = Inr sts" for css
    using that
  proof (induction css arbitrary: sts)
    case Nil
    then show ?case by simp
  next
    case (Cons c css)
    then obtain st sts' where p: "sn_getTransactions nd r c = Inr st" "sts = st # sts'"
      "emap (sn_getTransactions nd r) css = Inr sts'"
      by (auto elim!: ebind_InrE)
    have "reported nd t" if "(Some Landed, t) \<in> set (zip st c)" for t
      using that p(1) len[OF p(1)] unfolding reported_def set_zip
      by (force simp: js_nth_def)
    with Cons.IH[OF p(3)] p(2) len[OF p(1)] show ?case by auto
  qed
  from this[OF sts(1)] show "length ss = length txids"
    and "\<And>s t. (s, t) \<in> set (zip ss txids) \<Longrightarrow> s = Some Landed \<Longrightarrow> reported nd t"
    unfolding sts(2) concat_chop[OF m] by auto
qed

lemma send_all:
  assumes "node_ok nd sig" and "emap (sn_sendRawTransaction nd r skip) chunk = Inr ids"
  shows "ids = map sig chunk \<and> [] \<notin> set ids"
  using assms(2)
proof (induction chunk arbitrary: ids)
  case (Cons tx chunk)
  have "sn_sendRawTransaction nd r skip tx = Inr txid \<Longrightarrow> txid = sig tx \<and> txid \<noteq> []" for txid
    using assms(1) unfolding node_ok_def by blast
  with Cons show ?case by (auto elim!: ebind_InrE)
qed simp

text \<open>The invariant of the polling loop; \<open>T\<close> is everything returned or still pending.\<close>

definition raw_inv :: "send_node \<Rightarrow> (bytes \<Rightarrow> string) \<Rightarrow> string multiset \<Rightarrow> raw_state \<Rightarrow> bool" where
  "raw_inv nd sig T st \<longleftrightarrow>
     (rs_lastRetry st = 0 \<or> rs_txids st = map sig (rs_chunk st) \<and> [] \<notin> set (rs_txids st))
     \<and> rs_pendingCount st = int (length (rs_chunk st))
     \<and> mset (rs_ret st) + mset (map sig (rs_chunk st)) = T \<and> (\<forall>txid \<in> set (rs_ret st). reported nd txid)"

lemma send_chunk_ids:
  assumes "node_ok nd sig" and "raw_inv nd sig T st" and "send_chunk nd skip st = Inr (txids, lastRetry)"
  shows "txids = map sig (rs_chunk st) \<and> [] \<notin> set txids"
proof -
  have now: "sn_now nd (rs_round st) 0 > 4000" using assms(1) by (simp add: node_ok_def)
  show ?thesis
  proof (cases "rs_lastRetry st < sn_now nd (rs_round st) 0 - 4 * 1000")
    case True
    then have "emap (sn_sendRawTransaction nd (rs_round st) skip) (rs_chunk st) = Inr txids"
      using assms(3) by (auto simp: send_chunk_def elim!: ebind_InrE)
    then show ?thesis by (rule send_all[OF assms(1)])
  next
    case False
    with now have "rs_lastRetry st \<noteq> 0" by auto
    with False show ?thesis using assms(2,3) by (auto simp: send_chunk_def raw_inv_def)
  qed
qed

lemma raw_round_inv:
  assumes ok: "node_ok nd sig" and inv: "raw_inv nd sig T st" and round: "raw_round nd n lvbh skip st = Inr (Some st')"
  shows "raw_inv nd sig T st'"
proof -
  from round obtain txids lastRetry ss where
    s: "send_chunk nd skip st = Inr (txids, lastRetry)" and g: "getAllTxns nd (rs_round st) txids = Inr ss"
    and nf: "\<not> list_ex isFailed (filter (\<lambda>s. s \<noteq> None) ss)"
    and c: "rs_chunk st' = stillNull ss (rs_chunk st)" "rs_txids st' = stillNull ss txids"
      "rs_ret st' = rs_ret st @ landedIds ss txids"
      "rs_pendingCount st' = rs_pendingCount st - int (length (filter (\<lambda>s. s \<noteq> None) ss))"
    unfolding raw_round_def Let_def by (auto split: if_splits elim!: ebind_InrE)
  let ?sent = "rs_chunk st"
  have ids: "txids = map sig ?sent" "[] \<notin> set txids" using send_chunk_ids[OF ok inv s] by auto
  have len: "length ss = length ?sent" "length ss = length txids" using getAllTxns_spec(1)[OF ok g] ids by simp_all
  have landed: "landedIds ss txids = map sig (map snd (filter (\<lambda>(s, x). s \<noteq> None) (zip ss ?sent)))"
    unfolding landedIds_zip[OF len(2) ids(2)] unfolding ids(1) by (auto simp: zip_map2 filter_map o_def split_def)
  have still: "stillNull ss txids = map sig (stillNull ss ?sent)"
    unfolding stillNull_zip[OF len(2)] stillNull_zip[OF len(1)] unfolding ids(1)
    by (auto simp: zip_map2 filter_map o_def split_def)
  have "reported nd txid" if "txid \<in> set (landedIds ss txids)" for txid
  proof -
    from that obtain x where x: "(Some x, txid) \<in> set (zip ss txids)"
      unfolding landedIds_zip[OF len(2) ids(2)] by auto
    then have "Some x \<in> set ss" by (rule set_zip_leftD)
    then have "x = Landed" using nf by (cases x) (auto simp: list_ex_iff)
    with getAllTxns_spec(2)[OF ok g x] show ?thesis by simp
  qed
  moreover have "mset (landedIds ss txids) + mset (map sig (stillNull ss ?sent)) = mset (map sig ?sent)"
    unfolding landed stillNull_zip[OF len(1)] by (rule split_zip(1)[OF len(1)])
  moreover have "set (stillNull ss txids) \<subseteq> set txids"
    unfolding stillNull_zip[OF len(2)] by (auto dest: set_zip_rightD)
  moreover have "int (length ?sent) - int (length (filter (\<lambda>s. s \<noteq> None) ss)) = int (length (stillNull ss ?sent))"
    using split_zip(3)[OF len(1)] unfolding stillNull_zip[OF len(1)] by simp
  ultimately show ?thesis
    using inv ids(2) still unfolding raw_inv_def c by (auto simp: ac_simps)
qed

definition expired_seen :: "send_node \<Rightarrow> nat \<Rightarrow> bool" where
  "expired_seen nd lvbh \<longleftrightarrow> (\<exists>r k h. sn_getBlockHeight nd r k = Inr h \<and> h > lvbh)"

lemma raw_round_expired:
  "raw_round nd n lvbh skip st = Inr None \<Longrightarrow> expired_seen nd lvbh"
  unfolding expired_seen_def
  by (fastforce simp: raw_round_def Let_def split: if_splits elim!: ebind_InrE withRetries_InrE)

lemma raw_while_spec:
  assumes "node_ok nd sig" and "raw_while fuel nd n lvbh skip st = Some (Inr (expired, st'))" and "raw_inv nd sig T st"
  shows "raw_inv nd sig T st' \<and> (if expired then expired_seen nd lvbh else rs_chunk st' = [])"
  using assms
proof (induction fuel nd n lvbh skip st rule: raw_while.induct)
  case (2 fuel nd n lvbh skip st)
  show ?case
  proof (cases "rs_pendingCount st > 0")
    case True
    show ?thesis
    proof (cases "raw_round nd n lvbh skip st")
      case (Inr o')
      show ?thesis
      proof (cases o')
        case None
        with 2 True Inr raw_round_expired[of nd n lvbh skip st] show ?thesis by auto
      next
        case (Some u)
        with Inr have r: "raw_round nd n lvbh skip st = Inr (Some u)" by simp
        have "raw_inv nd sig T u" by (rule raw_round_inv[OF "2.prems"(1,3) r])
        with 2 True r show ?thesis by auto
      qed
    qed (use 2 True in auto)
  next
    case False
    with 2 show ?thesis by (auto simp: raw_inv_def)
  qed
qed simp

lemma raw_chunks_spec:
  assumes "node_ok nd sig" and "raw_chunks fuel nd n lvbh skip css st = Some (Inr (expired, st'))"
    and "\<forall>txid \<in> set (rs_ret st). reported nd txid"
  shows "(\<exists>rest. mset (rs_ret st') + rest = mset (rs_ret st) + mset (map sig (concat css))
      \<and> (rest = {#} \<or> expired_seen nd lvbh)) \<and> (\<forall>txid \<in> set (rs_ret st'). reported nd txid)"
  using assms(2,3)
proof (induction css arbitrary: st)
  case Nil
  then show ?case by auto
next
  case (Cons chunk css)
  let ?T = "mset (rs_ret st) + mset (map sig chunk)"
  have inv0: "raw_inv nd sig ?T (start_chunk chunk st)"
    using Cons.prems(2) by (simp add: raw_inv_def start_chunk_def)
  from Cons.prems(1) obtain x u where w: "raw_while fuel nd n lvbh skip (start_chunk chunk st) = Some (Inr (x, u))"
    and r: "(if x then Some (Inr (True, u)) else raw_chunks fuel nd n lvbh skip css u) = Some (Inr (expired, st'))"
    by (auto elim: rbind_InrE)
  have sp: "raw_inv nd sig ?T u \<and> (if x then expired_seen nd lvbh else rs_chunk u = [])"
    by (rule raw_while_spec[OF assms(1) w inv0])
  show ?case
  proof (cases x)
    case True
    with r sp have "st' = u" "raw_inv nd sig ?T u" "expired_seen nd lvbh" by auto
    then show ?thesis
      by (auto simp: raw_inv_def ac_simps intro!: exI[of _ "mset (map sig (rs_chunk u)) + mset (map sig (concat css))"])
  next
    case False
    with sp have u: "mset (rs_ret u) = ?T" "\<forall>txid \<in> set (rs_ret u). reported nd txid"
      by (auto simp: raw_inv_def)
    from Cons.IH[OF _ u(2)] r False u(1) show ?thesis by (auto simp: ac_simps)
  qed
qed

text \<open>
  C14. What \<open>bulkSendRawTransactions\<close> returns is sound: every id it returns is the signature of one of
  the transactions, at most once for each, and the node has reported it landed without error; and it
  returns all of them unless it saw a block height above the last valid one.
\<close>

theorem bulkSendRaw_sound:
  assumes "node_ok nd sig" and "bulkSendRawTransactions fuel nd txs (Some lvbh) skip = Some (Inr ret)" and "lvbh \<noteq> 0"
  shows "mset ret \<subseteq># mset (map sig txs) \<and> (\<forall>txid \<in> set ret. reported nd txid)
    \<and> (mset ret = mset (map sig txs) \<or> expired_seen nd lvbh)"
proof -
  have b: "TX_BATCH_SIZE > 0" by (simp add: TX_BATCH_SIZE_def)
  from assms(2,3) obtain expired st where
    "raw_chunks fuel nd (length txs) lvbh skip (chop TX_BATCH_SIZE txs) raw_init = Some (Inr (expired, st))" "ret = rs_ret st"
    by (auto simp: bulkSendRawTransactions_def chunks_chop[OF b] elim!: rbind_InrE)
  with raw_chunks_spec[OF assms(1)] have
    "\<exists>rest. mset ret + rest = mset (map sig (concat (chop TX_BATCH_SIZE txs))) \<and> (rest = {#} \<or> expired_seen nd lvbh)"
    "\<forall>txid \<in> set ret. reported nd txid"
    by (fastforce simp: raw_init_def)+
  then show ?thesis unfolding concat_chop[OF b] by (metis add.right_neutral mset_subset_eq_add_left)
qed

text \<open>A node where each transaction lands at once, in the first round.\<close>

definition quick_node :: send_node where
  "quick_node = \<lparr>sn_getBlockHeight = (\<lambda>_ _. Inr 1), sn_now = (\<lambda>r i. 5000 + 1000 * int r),
     sn_sendRawTransaction = (\<lambda>_ _ tx. Inr (CHR ''s'' # map (\<lambda>b. char_of (unat b)) tx)),
     sn_getTransactions = (\<lambda>_ ids. Inr (map (\<lambda>_. Some Landed) ids)),
     sn_getTransaction = (\<lambda>_ _. Inr ()), sn_getLatestBlockhash = (\<lambda>_. Inr (''bh'', 9))\<rparr>"

definition demo_sig :: "bytes \<Rightarrow> string" where
  "demo_sig tx = CHR ''s'' # map (\<lambda>b. char_of (unat b)) tx"

lemma quick_node_ok: "node_ok quick_node demo_sig"
  by (simp add: node_ok_def quick_node_def demo_sig_def)

lemma quick_run: "bulkSendRawTransactions 3 quick_node [[1], [2]] (Some 9) True = Some (Inr [demo_sig [1], demo_sig [2]])"
  by (simp add: bulkSendRawTransactions_def chunks_def ceil_div_def TX_BATCH_SIZE_def js_slice_def numeral_3_eq_3
      raw_round_def withRetries_first quick_node_def start_chunk_def raw_init_def send_chunk_def getAllTxns_def
      MAX_GET_SIGNATURE_STATUSES_QUERY_ITEMS_def stillNull_def landedIds_def demo_sig_def js_nth_def Let_def)

theorem bulkSendRaw_sound_witness:
  "bulkSendRawTransactions 3 quick_node [[1], [2]] (Some 9) True = Some (Inr [demo_sig [1], demo_sig [2]])
   \<and> reported quick_node (demo_sig [1])"
  using bulkSendRaw_sound[OF quick_node_ok quick_run] quick_run by simp

section \<open>Lemmas: termination of polling\<close>

lemma raw_round_Suc: "raw_round nd n lvbh skip st = Inr (Some st') \<Longrightarrow> rs_round st' = Suc (rs_round st)"
  by (auto simp: raw_round_def Let_def split: if_splits elim!: ebind_InrE)

lemma raw_round_passed:
  assumes "\<And>k h. sn_getBlockHeight nd (rs_round st) k = Inr h \<Longrightarrow> h > lvbh"
  shows "raw_round nd n lvbh skip st \<noteq> Inr (Some st')"
proof
  assume "raw_round nd n lvbh skip st = Inr (Some st')"
  then obtain h where h: "withRetries 5 (sn_getBlockHeight nd (rs_round st)) = Inr h" "\<not> h > lvbh"
    by (auto simp: raw_round_def Let_def split: if_splits elim!: ebind_InrE)
  from h(1) obtain k where "sn_getBlockHeight nd (rs_round st) k = Inr h" by (rule withRetries_InrE)
  with assms h(2) show False by blast
qed

lemma raw_while_returns:
  assumes "\<And>r k h. N \<le> r \<Longrightarrow> sn_getBlockHeight nd r k = Inr h \<Longrightarrow> h > lvbh"
    and "N < fuel + rs_round st" and "0 < fuel"
  shows "\<exists>x. raw_while fuel nd n lvbh skip st = Some x"
  using assms(2,3)
proof (induction fuel arbitrary: st)
  case (Suc fuel)
  show ?case
  proof (cases "\<exists>u. raw_round nd n lvbh skip st = Inr (Some u)")
    case True
    then obtain u where u: "raw_round nd n lvbh skip st = Inr (Some u)" by blast
    have "rs_round st < N" using raw_round_passed[of nd st lvbh n skip u] u assms(1) by (meson not_le)
    with Suc.prems raw_round_Suc[OF u] have "N < fuel + rs_round u" "0 < fuel" by simp_all
    from Suc.IH[OF this] u show ?thesis by auto
  next
    case False
    then show ?thesis by (auto split: sum.splits option.splits)
  qed
qed simp

lemma raw_chunks_returns:
  assumes "\<And>r k h. N \<le> r \<Longrightarrow> sn_getBlockHeight nd r k = Inr h \<Longrightarrow> h > lvbh" and "N < fuel"
  shows "raw_chunks fuel nd n lvbh skip css st \<noteq> None"
proof (induction css arbitrary: st)
  case Nil
  then show ?case by simp
next
  case (Cons c css)
  from raw_while_returns[OF assms(1), where st = "start_chunk c st" and n = n and skip = skip] assms(2)
  obtain x where "raw_while fuel nd n lvbh skip (start_chunk c st) = Some x" by fastforce
  with Cons.IH show ?case by (cases x) (auto split: prod.splits)
qed

text \<open>
  C22. \<open>bulkSendRawTransactions\<close> returns (with ids or an error): once every block height the node answers
  is above the last valid one from round \<open>N\<close> on, \<open>N + 1\<close> turns for each batch are enough.
\<close>

theorem bulkSendRaw_returns:
  assumes "\<And>r k h. N \<le> r \<Longrightarrow> sn_getBlockHeight nd r k = Inr h \<Longrightarrow> h > lvbh" and "N < fuel" and "lvbh \<noteq> 0"
  shows "\<exists>res. bulkSendRawTransactions fuel nd txs (Some lvbh) skip = Some res"
proof -
  have b: "TX_BATCH_SIZE > 0" by (simp add: TX_BATCH_SIZE_def)
  have "raw_chunks fuel nd (length txs) lvbh skip (chop TX_BATCH_SIZE txs) raw_init \<noteq> None"
    by (rule raw_chunks_returns) (use assms in auto)
  then obtain res where "raw_chunks fuel nd (length txs) lvbh skip (chop TX_BATCH_SIZE txs) raw_init = Some res" by blast
  then show ?thesis
    using assms(3) by (cases res) (auto simp: bulkSendRawTransactions_def chunks_chop[OF b] split: prod.splits)
qed

theorem bulkSendRaw_returns_witness:
  "\<exists>res. bulkSendRawTransactions 4 (quick_node\<lparr>sn_getBlockHeight := (\<lambda>r _. Inr (10 * r)),
     sn_getTransactions := (\<lambda>_ ids. Inr (map (\<lambda>_. None) ids))\<rparr>) [[1]] (Some 9) True = Some res"
  by (rule bulkSendRaw_returns[of 1]) auto

section \<open>The interface between the two senders\<close>

text \<open>
  What \<open>bulkSendTransactions\<close> relies on: at a call where the node behaves, the ids returned are
  signatures of the buffers, each at most once.
\<close>

locale raw_sender =
  fixes raw :: "nat \<Rightarrow> bytes list \<Rightarrow> nat \<Rightarrow> bool \<Rightarrow> string list run"
    and ok :: "nat \<Rightarrow> bool"
    and sig :: "bytes \<Rightarrow> string"
  assumes raw_sub: "ok k \<Longrightarrow> raw k txs lvbh skip = Some (Inr ret) \<Longrightarrow> mset ret \<subseteq># mset (map sig txs)"
begin

lemma raw_complete:
  assumes "ok k" and "raw k txs lvbh skip = Some (Inr ret)" and "length ret = length txs"
  shows "set ret = set (map sig txs)"
proof -
  have "size (mset ret) = size (mset (map sig txs))" using assms(3) by simp
  with raw_sub[OF assms(1,2)] have "mset ret = mset (map sig txs)"
    by (metis mset_subset_size order_less_irrefl subset_mset.less_le)
  then show ?thesis by (metis set_mset_mset)
qed

end

lemma bulkSendRaw_sub:
  assumes "node_ok nd sig" and "bulkSendRawTransactions fuel nd txs h skip = Some (Inr ret)"
  shows "mset ret \<subseteq># mset (map sig txs)"
proof -
  have b: "TX_BATCH_SIZE > 0" by (simp add: TX_BATCH_SIZE_def)
  from assms(2) obtain lvbh expired st where
    c: "raw_chunks fuel nd (length txs) lvbh skip (chop TX_BATCH_SIZE txs) raw_init = Some (Inr (expired, st))" "ret = rs_ret st"
    by (auto simp: bulkSendRawTransactions_def chunks_chop[OF b] elim!: rbind_InrE)
  from raw_chunks_spec[OF assms(1) c(1)] c(2) show ?thesis
    unfolding concat_chop[OF b] by (auto simp: raw_init_def) (metis mset_subset_eq_add_left)
qed

interpretation raws: raw_sender "rawSender fuel nodes" "\<lambda>k. node_ok (nodes k) sig" sig for fuel nodes sig
  by unfold_locales (unfold rawSender_def, rule bulkSendRaw_sub)

text \<open>The wallet signs the messages it is given, and a buffer's id is its first signature.\<close>

definition wallet_ok :: "wallet \<Rightarrow> (bytes \<Rightarrow> string) \<Rightarrow> bool" where
  "wallet_ok wl sig \<longleftrightarrow>
     (\<forall>k vs ss. wl_signAllTransactions wl k vs = Inr ss \<longrightarrow> map sg_msg ss = vs)
     \<and> (\<forall>s. sig (wl_serialize wl s) = wl_signature wl s)"

text \<open>
  A draft is delivered: some transaction compiled from its fee payer and its instructions, with some
  blockhash, has its signature among the confirmed ones.
\<close>

definition compiled_from :: "(nat \<Rightarrow> connection) \<Rightarrow> draft \<Rightarrow> signed_tx \<Rightarrow> bool" where
  "compiled_from conns d s \<longleftrightarrow>
     (\<exists>k bh luts. compileToV0Message (conns k) (dr_feePayer d) bh (dr_instructions d) luts = Inr (sg_msg s))"

definition delivered :: "(nat \<Rightarrow> connection) \<Rightarrow> wallet \<Rightarrow> string set \<Rightarrow> draft \<Rightarrow> bool" where
  "delivered conns wl R d \<longleftrightarrow> (\<exists>s. compiled_from conns d s \<and> wl_signature wl s \<in> R)"

lemma delivered_mono: "delivered conns wl R d \<Longrightarrow> R \<subseteq> R' \<Longrightarrow> delivered conns wl R' d"
  by (auto simp: delivered_def)

definition same_tx :: "draft \<Rightarrow> draft \<Rightarrow> bool" where
  "same_tx d d' \<longleftrightarrow> dr_feePayer d' = dr_feePayer d \<and> dr_instructions d' = dr_instructions d"

lemma delivered_same: "same_tx d d' \<Longrightarrow> delivered conns wl R d' \<Longrightarrow> delivered conns wl R d"
  by (simp add: same_tx_def delivered_def compiled_from_def)

lemma populate_same: "populateMissingDraftInfo conn d = Inr d' \<Longrightarrow> same_tx d d'"
  by (auto simp: populateMissingDraftInfo_def same_tx_def split: option.splits if_splits elim!: ebind_InrE)

lemma emap_all2:
  assumes "emap f xs = Inr ys" and "\<And>x y. f x = Inr y \<Longrightarrow> P x y"
  shows "list_all2 P xs ys"
  using assms(1) by (induction xs arbitrary: ys) (auto elim!: ebind_InrE intro: assms(2))

lemma toVersionedTx_from:
  "toVersionedTx (conns k) (d\<lparr>dr_recentBlockhash := bh\<rparr>) = Inr v \<Longrightarrow>
   \<exists>k bh luts. compileToV0Message (conns k) (dr_feePayer d) bh (dr_instructions d) luts = Inr v"
  by (auto simp: toVersionedTx_def split: option.splits)

lemma sign_chunk_spec:
  assumes "wallet_ok wl sig" and "sign_chunk conns latest wl extra k chunk = Inr (lvbh, chunk', ss)"
  shows "list_all2 same_tx chunk chunk'" and "list_all2 (compiled_from conns) chunk' ss"
proof -
  from assms(2) obtain bh vs ss0 where
    p: "emap (populateMissingDraftInfo (conns k)) chunk = Inr chunk'"
    and v: "emap (\<lambda>tx. toVersionedTx (conns k) (tx\<lparr>dr_recentBlockhash := Some bh\<rparr>)) chunk' = Inr vs"
    and s: "wl_signAllTransactions wl k vs = Inr ss0" "ss = addExtraSigners extra chunk' ss0"
    by (auto simp: sign_chunk_def elim!: ebind_InrE)
  show "list_all2 same_tx chunk chunk'" by (rule emap_all2[OF p]) (rule populate_same)
  have m: "map sg_msg ss0 = vs" using assms(1) s(1) unfolding wallet_ok_def by blast
  have "length ss0 = length chunk'" using m emap_Inr_length[OF v] by (metis length_map)
  then have "map sg_msg ss = vs \<and> length ss = length chunk'"
    unfolding s(2) m[symmetric] addExtraSigners_def
    by (auto simp: list_eq_iff_nth_eq)
  moreover have "list_all2 (\<lambda>d v. \<exists>k bh luts. compileToV0Message (conns k) (dr_feePayer d) bh (dr_instructions d) luts = Inr v) chunk' vs"
    by (rule emap_all2[OF v]) (rule toVersionedTx_from)
  ultimately show "list_all2 (compiled_from conns) chunk' ss"
    by (auto simp: list_all2_conv_all_nth compiled_from_def)
qed

lemma delivered_zip:
  assumes "list_all2 (compiled_from conns) chunk ss" and "d \<in> set chunk"
  obtains s where "(d, s) \<in> set (zip chunk ss)" and "compiled_from conns d s"
  using assms by (induction rule: list_all2_induct) auto

context raw_sender
begin

lemma bulk_while_delivers:
  assumes "wallet_ok wl sig" and "\<And>k. ok k"
    and "bulk_while conns latest wl extra raw tries k chunk thisRet = Some (Inr (tries', k', ret))"
  shows "set thisRet \<subseteq> set ret \<and> (\<forall>d \<in> set chunk. delivered conns wl (set ret) d)"
  using assms(3)
proof (induction "nat tries" arbitrary: tries k chunk thisRet rule: less_induct)
  case less
  from less.prems obtain lvbh chunk' ss confirmed where
    s: "sign_chunk conns latest wl extra k chunk = Inr (lvbh, chunk', ss)"
    and r: "raw k (map (wl_serialize wl) ss) lvbh (tries \<noteq> 1) = Some (Inr confirmed)"
    and rest: "(let thisRet' = thisRet @ confirmed
       in if length confirmed = length ss then Some (Inr (tries, Suc k, thisRet'))
          else
            let remaining = map fst (filter (\<lambda>(_, tx). wl_signature wl tx \<notin> set thisRet') (zip chunk' ss))
            in if tries - 1 \<le> 0
               then Some (Inl (Err (''Failed to submit all txs after blockhashes expired, '' @
                      nat_str (length ss - length confirmed) @ '' remain'')))
               else bulk_while conns latest wl extra raw (tries - 1) (Suc k) remaining thisRet')
        = Some (Inr (tries', k', ret))"
    unfolding bulk_while.simps[of conns latest wl extra raw tries]
    by (auto elim!: rbind_InrE)
  note sp = sign_chunk_spec[OF assms(1) s]
  have sigs: "map sig (map (wl_serialize wl) ss) = map (wl_signature wl) ss"
    using assms(1) by (simp add: wallet_ok_def)
  have all': "set thisRet \<subseteq> set ret \<and> (\<forall>d \<in> set chunk'. delivered conns wl (set ret) d)"
  proof (cases "length confirmed = length ss")
    case True
    then have "set confirmed = set (map (wl_signature wl) ss)"
      using raw_complete[OF assms(2) r] unfolding sigs by simp
    moreover have "ret = thisRet @ confirmed" using True rest by (simp add: Let_def)
    moreover have "\<exists>s \<in> set ss. compiled_from conns d s" if "d \<in> set chunk'" for d
      using delivered_zip[OF sp(2) that] by (metis set_zip_rightD)
    ultimately show ?thesis by (fastforce simp: delivered_def)
  next
    case False
    let ?rem = "map fst (filter (\<lambda>(_, tx). wl_signature wl tx \<notin> set (thisRet @ confirmed)) (zip chunk' ss))"
    from False rest have t: "\<not> tries - 1 \<le> 0"
      and w: "bulk_while conns latest wl extra raw (tries - 1) (Suc k) ?rem (thisRet @ confirmed) = Some (Inr (tries', k', ret))"
      by (auto simp: Let_def split: if_splits)
    have IH: "set (thisRet @ confirmed) \<subseteq> set ret \<and> (\<forall>d \<in> set ?rem. delivered conns wl (set ret) d)"
      by (rule less.hyps[OF _ w]) (use t in simp)
    have "delivered conns wl (set ret) d" if d: "d \<in> set chunk'" for d
    proof -
      obtain s where z: "(d, s) \<in> set (zip chunk' ss)" and c: "compiled_from conns d s"
        using delivered_zip[OF sp(2) d] .
      show ?thesis
      proof (cases "wl_signature wl s \<in> set (thisRet @ confirmed)")
        case True
        with IH c show ?thesis unfolding delivered_def by blast
      next
        case False
        with z have "d \<in> set ?rem" by force
        with IH show ?thesis by blast
      qed
    qed
    with IH show ?thesis by auto
  qed
  moreover have "delivered conns wl (set ret) d" if d: "d \<in> set chunk" for d
  proof -
    from sp(1) d obtain d' where "d' \<in> set chunk'" "same_tx d d'"
      by (induction rule: list_all2_induct) auto
    with all' show ?thesis by (blast intro: delivered_same)
  qed
  ultimately show ?case by blast
qed

lemma bulk_chunks_delivers:
  assumes "wallet_ok wl sig" and "\<And>k. ok k"
    and "bulk_chunks conns latest wl extra raw tries k css ret0 = Some (Inr ret)"
  shows "set ret0 \<subseteq> set ret \<and> (\<forall>d \<in> set (concat css). delivered conns wl (set ret) d)"
  using assms(3)
proof (induction css arbitrary: tries k ret0)
  case Nil
  then show ?case by simp
next
  case (Cons c css)
  from Cons.prems obtain t k' r where w: "bulk_while conns latest wl extra raw tries k c [] = Some (Inr (t, k', r))"
    and rest: "bulk_chunks conns latest wl extra raw t k' css (ret0 @ r) = Some (Inr ret)"
    by (auto elim!: rbind_InrE)
  from bulk_while_delivers[OF assms(1,2) w] have d: "\<forall>d \<in> set c. delivered conns wl (set r) d" by blast
  from Cons.IH[OF rest] have IH: "set (ret0 @ r) \<subseteq> set ret" "\<forall>d \<in> set (concat css). delivered conns wl (set ret) d"
    by blast+
  from IH(1) have "set r \<subseteq> set ret" by simp
  with d have "\<forall>d \<in> set c. delivered conns wl (set ret) d" by (blast intro: delivered_mono)
  with IH show ?case by auto
qed

end


definition demo_wallet :: wallet where
  "demo_wallet = \<lparr>wl_signAllTransactions = (\<lambda>_ vs. Inr (map (\<lambda>v. \<lparr>sg_msg = v, sg_signedBy = [''me'']\<rparr>) vs)),
     wl_signature = (\<lambda>s. demo_sig (concat (map ci_data (vm_compiledInstructions (sg_msg s))))),
     wl_serialize = (\<lambda>s. concat (map ci_data (vm_compiledInstructions (sg_msg s))))\<rparr>"

definition demo_draft :: "byte \<Rightarrow> draft" where
  "demo_draft n = \<lparr>dr_recentBlockhash = Some ''bh'', dr_feePayer = ''me'', dr_instructions = [num_ix n],
     dr_addressLookupTableAddresses = None, dr_addressLookupTables = Some [], dr_signers = []\<rparr>"

lemma demo_bulk:
  "bulkSendTransactions (\<lambda>_. counting_conn) (\<lambda>_ _. Inr (''bh'', 9)) demo_wallet (rawSender 3 (\<lambda>_. quick_node))
     [demo_draft 1, demo_draft 2] 10 [] 100 = Some (Inr [demo_sig [1], demo_sig [2]])"
  by (simp add: bulkSendTransactions_def chunks_def ceil_div_def js_slice_def bulk_while.simps sign_chunk_def
      withRetries_first populateMissingDraftInfo_def demo_draft_def toVersionedTx_def counting_conn_def
      demo_wallet_def addExtraSigners_def num_ix_def rawSender_def quick_run)


text \<open>With no extra signers given to the batcher, no draft names a signer.\<close>

lemma flush_no_signers:
  assumes "flushChunk w price a pr st chunk = Inr st'" and "ba_extraSigners a = []"
    and "\<forall>d \<in> set (bs_txs st). dr_signers d = []"
  shows "\<forall>d \<in> set (bs_txs st'). dr_signers d = []"
  using assms by (auto simp: flushChunk_def chunk_signers_def mk_draft_def split: option.splits elim!: ebind_InrE)

lemma step_no_signers:
  assumes "batch_step w conn ser price a pr st item = Inr st'" and "ba_extraSigners a = []"
    and "\<forall>d \<in> set (bs_txs st). dr_signers d = []"
  shows "\<forall>d \<in> set (bs_txs st'). dr_signers d = []"
proof (cases item)
  case None
  with assms show ?thesis by (simp add: batch_step_def)
next
  case (Some it)
  from assms(1)[unfolded Some] show ?thesis
  proof (cases rule: batch_step_cases)
    case (flush u)
    then show ?thesis using flush_no_signers[OF flush(2) assms(2,3)] by simp
  qed (use assms(3) in simp_all)
qed

lemma batch_no_signers:
  assumes "batchInstructionsToTxsWithPriorityFee w conn conns ser a walletKey items = Inr drafts"
    and "ba_extraSigners a = []"
  shows "\<forall>d \<in> set drafts. dr_signers d = []"
proof -
  obtain pr where "batch_run w conn ser (priceChunk w conns (batch_fee_args a pr)) a pr items = Inr drafts"
    using batchInstructions_run[OF assms(1)] by blast
  then obtain st where f: "efold (batch_step w conn ser (priceChunk w conns (batch_fee_args a pr)) a pr)
      \<lparr>bs_current = [], bs_first = None, bs_txs = []\<rparr> items = Inr st"
    and r: "ebind (if bs_current st \<noteq> [] then flushChunk w (priceChunk w conns (batch_fee_args a pr)) a pr st (bs_current st)
        else Inr st) (\<lambda>st'. Inr (bs_txs st')) = Inr drafts"
    by (auto simp: batch_run_def elim!: ebind_InrE)
  have "\<forall>d \<in> set (bs_txs st). dr_signers d = []"
    by (rule efold_inv[OF f]) (simp, blast dest: step_no_signers[OF _ assms(2)])
  with r show ?thesis by (auto split: if_splits elim!: ebind_InrE dest: flush_no_signers[OF _ assms(2)])
qed

lemma populate_signers: "populateMissingDraftInfo conn d = Inr d' \<Longrightarrow> dr_signers d' = dr_signers d"
  by (auto simp: populateMissingDraftInfo_def split: option.splits if_splits elim!: ebind_InrE)

lemma emap_populate_signers:
  assumes "emap (populateMissingDraftInfo conn) chunk = Inr chunk'" and "\<forall>d \<in> set chunk. dr_signers d = []"
  shows "\<forall>d \<in> set chunk'. dr_signers d = []"
  using assms by (induction chunk arbitrary: chunk') (auto elim!: ebind_InrE simp: populate_signers)

lemma addExtraSigners_none:
  "\<forall>d \<in> set chunk. dr_signers d = [] \<Longrightarrow> addExtraSigners extra chunk txs = addExtraSigners [] chunk txs"
  by (auto simp: addExtraSigners_def dest: set_zip_leftD)

lemma sign_chunk_none:
  assumes "\<forall>d \<in> set chunk. dr_signers d = []"
  shows "sign_chunk conns latest wl extra k chunk = sign_chunk conns latest wl [] k chunk"
  using emap_populate_signers[OF _ assms, of "conns k"]
  by (auto simp: sign_chunk_def addExtraSigners_none[of _ extra] ebind_def split: sum.splits prod.splits)

lemma sign_chunk_signers:
  assumes "sign_chunk conns latest wl extra k chunk = Inr (lvbh, chunk', signedTxs)"
    and "\<forall>d \<in> set chunk. dr_signers d = []"
  shows "\<forall>d \<in> set chunk'. dr_signers d = []"
  using assms by (auto simp: sign_chunk_def elim!: ebind_InrE dest: emap_populate_signers)

lemma bulk_while_none:
  assumes "\<forall>d \<in> set chunk. dr_signers d = []"
  shows "bulk_while conns latest wl extra raw tries k chunk thisRet = bulk_while conns latest wl [] raw tries k chunk thisRet"
  using assms
proof (induction conns latest wl extra raw tries k chunk thisRet rule: bulk_while.induct)
  case (1 conns latest wl extra raw tries k chunk thisRet)
  have keep: "\<forall>d \<in> set (map fst (filter (\<lambda>(_, tx). wl_signature wl tx \<notin> S) (zip chunk' signedTxs))). dr_signers d = []"
    if "sign_chunk conns latest wl extra k chunk = Inr (lvbh, chunk', signedTxs)" for S lvbh chunk' signedTxs
    using sign_chunk_signers[OF that 1(2)] by (auto dest: set_zip_leftD)
  show ?case
    apply (rule trans[OF bulk_while.simps])
    apply (rule trans[OF _ bulk_while.simps[symmetric]])
    apply (rule rbind_cong)
    subgoal using sign_chunk_none[OF 1(2)] by simp
    subgoal for x
      apply (cases x)
      apply (simp only: prod.case option.inject)
      apply (rule rbind_cong[OF refl])
      unfolding Let_def
      apply (rule if_cong[OF refl refl])
      apply (rule if_cong[OF refl refl])
      apply (rule 1(1)[OF refl _ refl])
      apply assumption+
      apply (rule keep, assumption)
      done
    done
qed

lemma bulk_chunks_none:
  assumes "\<forall>chunk \<in> set css. \<forall>d \<in> set chunk. dr_signers d = []"
  shows "bulk_chunks conns latest wl extra raw tries k css ret = bulk_chunks conns latest wl [] raw tries k css ret"
  using assms
proof (induction css arbitrary: tries k ret)
  case (Cons chunk css)
  then have "bulk_while conns latest wl extra raw tries k chunk [] = bulk_while conns latest wl [] raw tries k chunk []"
    by (intro bulk_while_none) simp
  with Cons show ?case by (auto simp del: bulk_while.simps intro!: rbind_cong)
qed simp

text \<open>
  \<open>batchParallelInstructionsWithPriorityFee\<close> takes extra signers but never lets them sign: it does
  not pass them to the batcher, so no draft names a signer, and \<open>bulkSendTransactions\<close> adds the
  signatures of signers a draft names only. Every run with extra signers is the run without them.
\<close>

theorem batchParallel_drops_extra_signers:
  "batchParallelInstructionsWithPriorityFee w conn conns ser latest wl raw walletKey items cu fee scaleUp tries extraSigners batch
   = batchParallelInstructionsWithPriorityFee w conn conns ser latest wl raw walletKey items cu fee scaleUp tries [] batch"
proof -
  have "bulkSendTransactions conns latest wl raw drafts tries extraSigners batch
      = bulkSendTransactions conns latest wl raw drafts tries [] batch"
    if "\<forall>d \<in> set drafts. dr_signers d = []" for drafts
    unfolding bulkSendTransactions_def
    by (rule rbind_cong[OF refl], rule bulk_chunks_none) (use that in \<open>auto dest: chunks_members\<close>)
  then show ?thesis
    unfolding batchParallelInstructionsWithPriorityFee_def
    by (intro rbind_cong) (auto dest: batch_no_signers)
qed

end
