(* ===== verification/Program_Error.thy ===== *)
theory Program_Error
  imports Prelude
begin

text \<open>
  \<^verbatim>\<open>packages/spl-utils/src/anchorError.ts\<close>: translating a failed transaction's error into a
  message. The tables of the file, the parts of JavaScript it uses (\<open>split\<close>, \<open>parseInt\<close>), and
  \<open>ProgramError.parse\<close>.
\<close>

section \<open>Tables\<close>

definition LangErrorCode :: "(string \<times> int) list" where
  "LangErrorCode = [
     (''InstructionMissing'', 100),
     (''InstructionFallbackNotFound'', 101),
     (''InstructionDidNotDeserialize'', 102),
     (''InstructionDidNotSerialize'', 103),
     (''IdlInstructionStub'', 1000),
     (''IdlInstructionInvalidProgram'', 1001),
     (''ConstraintMut'', 2000),
     (''ConstraintHasOne'', 2001),
     (''ConstraintSigner'', 2002),
     (''ConstraintRaw'', 2003),
     (''ConstraintOwner'', 2004),
     (''ConstraintRentExempt'', 2005),
     (''ConstraintSeeds'', 2006),
     (''ConstraintExecutable'', 2007),
     (''ConstraintState'', 2008),
     (''ConstraintAssociated'', 2009),
     (''ConstraintAssociatedInit'', 2010),
     (''ConstraintClose'', 2011),
     (''ConstraintAddress'', 2012),
     (''ConstraintZero'', 2013),
     (''ConstraintTokenMint'', 2014),
     (''ConstraintTokenOwner'', 2015),
     (''ConstraintMintMintAuthority'', 2016),
     (''ConstraintMintFreezeAuthority'', 2017),
     (''ConstraintMintDecimals'', 2018),
     (''ConstraintSpace'', 2019),
     (''AccountDiscriminatorAlreadySet'', 3000),
     (''AccountDiscriminatorNotFound'', 3001),
     (''AccountDiscriminatorMismatch'', 3002),
     (''AccountDidNotDeserialize'', 3003),
     (''AccountDidNotSerialize'', 3004),
     (''AccountNotEnoughKeys'', 3005),
     (''AccountNotMutable'', 3006),
     (''AccountOwnedByWrongProgram'', 3007),
     (''InvalidProgramId'', 3008),
     (''InvalidProgramExecutable'', 3009),
     (''AccountNotSigner'', 3010),
     (''AccountNotSystemOwned'', 3011),
     (''AccountNotInitialized'', 3012),
     (''AccountNotProgramData'', 3013),
     (''AccountNotAssociatedTokenAccount'', 3014),
     (''StateInvalidAddress'', 4000),
     (''Deprecated'', 5000)]"

definition SystemErrorMessage :: "(int \<times> string) list" where
  "SystemErrorMessage = [
     (1, ''Insufficient balance.''),
     (2, ''Invalid instruction data.''),
     (3, ''Invalid account data''),
     (4, ''Account data too small''),
     (5, ''Insufficient funds''),
     (6, ''Incorrect prgoram id''),
     (7, ''Missing required signature''),
     (8, ''Account already initialized''),
     (9, ''Attempt to operate on an account that was not yet initialized''),
     (10, ''Not enough account keys provided''),
     (11, ''Account borrow failed, already borrowed''),
     (12, ''Max seed length exceeded''),
     (13, ''Invalid seeds''),
     (14, ''Borsh IO Error''),
     (15, ''Account not rent exempt'')]"

definition LangErrorMessage :: "(int \<times> string) list" where
  "LangErrorMessage = [
     (100, ''8 byte instruction identifier not provided''),
     (101, ''Fallback functions are not supported''),
     (102, ''The program could not deserialize the given instruction''),
     (103, ''The program could not serialize the given instruction''),
     (1000, ''The program was compiled without idl instructions''),
     (1001, ''The transaction was given an invalid program for the IDL instruction''),
     (2000, ''A mut constraint was violated''),
     (2001, ''A has_one constraint was violated''),
     (2002, ''A signer constraint was violated''),
     (2003, ''A raw constraint was violated''),
     (2004, ''An owner constraint was violated''),
     (2005, ''A rent exempt constraint was violated''),
     (2006, ''A seeds constraint was violated''),
     (2007, ''An executable constraint was violated''),
     (2008, ''A state constraint was violated''),
     (2009, ''An associated constraint was violated''),
     (2010, ''An associated init constraint was violated''),
     (2011, ''A close constraint was violated''),
     (2012, ''An address constraint was violated''),
     (2013, ''Expected zero account discriminant''),
     (2014, ''A token mint constraint was violated''),
     (2015, ''A token owner constraint was violated''),
     (2016, ''A mint mint authority constraint was violated''),
     (2017, ''A mint freeze authority constraint was violated''),
     (2018, ''A mint decimals constraint was violated''),
     (2019, ''A space constraint was violated''),
     (3000, ''The account discriminator was already set on this account''),
     (3001, ''No 8 byte discriminator was found on the account''),
     (3002, ''8 byte discriminator did not match what was expected''),
     (3003, ''Failed to deserialize the account''),
     (3004, ''Failed to serialize the account''),
     (3005, ''Not enough account keys given to the instruction''),
     (3006, ''The given account is not mutable''),
     (3007, ''The given account is owned by a different program than expected''),
     (3008, ''Program ID was not as expected''),
     (3009, ''Program account is not executable''),
     (3010, ''The given account did not sign''),
     (3011, ''The given account is not owned by the system program''),
     (3012, ''The program expected this account to be already initialized''),
     (3013, ''The given account is not a program data account''),
     (3014, ''The given account is not the associated token account''),
     (4000, ''The given state account does not have the correct address''),
     (5000, ''The API being used is deprecated and should no longer be used'')]"

section \<open>split and parseInt\<close>

text \<open>\<open>s.split(sep)\<close> for a separator that is not empty.\<close>

function split_from :: "string \<Rightarrow> string \<Rightarrow> string \<Rightarrow> string list" where
  "split_from sep acc s =
     (if s = [] \<or> sep = [] then [rev acc @ s]
      else if take (length sep) s = sep then rev acc # split_from sep [] (drop (length sep) s)
      else split_from sep (hd s # acc) (tl s))"
  by pat_completeness auto
termination
  by (relation "measure (\<lambda>(_, _, s). length s)") auto

declare split_from.simps [simp del]

definition js_split :: "string \<Rightarrow> string \<Rightarrow> string list" where
  "js_split s sep = split_from sep [] s"

definition digit_val :: "char \<Rightarrow> int option" where
  "digit_val c =
     (let n = (of_char c :: int)
      in if 48 \<le> n \<and> n \<le> 57 then Some (n - 48)
         else if 97 \<le> n \<and> n \<le> 102 then Some (n - 87)
         else if 65 \<le> n \<and> n \<le> 70 then Some (n - 55)
         else None)"

text \<open>The longest prefix of digits below the base; \<open>None\<close> (\<open>NaN\<close>) without a digit.\<close>

fun digits :: "int \<Rightarrow> int option \<Rightarrow> string \<Rightarrow> int option" where
  "digits base acc [] = acc"
| "digits base acc (c # cs) =
     (case digit_val c of
        Some d \<Rightarrow> if d < base then digits base (Some (case acc of None \<Rightarrow> d | Some a \<Rightarrow> a * base + d)) cs else acc
      | None \<Rightarrow> acc)"

definition is_space :: "char \<Rightarrow> bool" where
  "is_space c = (of_char c \<in> {9 :: int, 10, 11, 12, 13, 32})"

text \<open>\<open>parseInt(s)\<close>: spaces, a sign, \<open>0x\<close> for base 16, digits; the rest is ignored.\<close>

definition parse_unsigned :: "string \<Rightarrow> int option" where
  "parse_unsigned s =
     (if take 2 s = ''0x'' \<or> take 2 s = ''0X'' then digits 16 None (drop 2 s) else digits 10 None s)"

definition parseInt :: "string \<Rightarrow> int option" where
  "parseInt s =
     (let t = dropWhile is_space s
      in case t of
           [] \<Rightarrow> None
         | c # cs \<Rightarrow>
             if c = CHR ''-'' then map_option uminus (parse_unsigned cs)
             else if c = CHR ''+'' then parse_unsigned cs
             else parse_unsigned t)"

section \<open>ProgramError.parse\<close>

text \<open>
  The second element of an \<open>InstructionError\<close>: an object with a \<open>Custom\<close> code, or anything else.
\<close>

datatype ie_detail = Custom int | Other string

text \<open>
  A thrown value as the code inspects it: \<open>err.InstructionError\<close> (its first element when that is a
  number, and its second), the property \<open>err.InstructionErr\<close>, its text, and the fields
  \<open>err.timeout\<close> and \<open>err.err\<close> that the sender inspects.
\<close>

type_synonym instruction_error = "int option \<times> ie_detail option"

record thrown =
  th_string :: string
  th_InstructionError :: "instruction_error option"
  th_InstructionErr :: "string option"
  th_timeout :: bool
  th_err :: "(string \<times> instruction_error option) option"

record program_error =
  pe_code :: int
  pe_msg :: string

text \<open>\<open>a || b\<close> on strings that may be undefined.\<close>

definition js_or :: "string option \<Rightarrow> string option \<Rightarrow> string option" where
  "js_or a b = (case a of None \<Rightarrow> b | Some s \<Rightarrow> if s = [] then b else a)"

definition codeOf :: "thrown \<Rightarrow> int option" where
  "codeOf err =
     (case th_InstructionError err of
        None \<Rightarrow> None
      | Some (first, second) \<Rightarrow>
          (case second of
             Some (Custom c) \<Rightarrow> if c \<noteq> 0 then Some c else first
           | _ \<Rightarrow> first))"

definition messageOf :: "thrown \<Rightarrow> (int \<times> string) list \<Rightarrow> int \<Rightarrow> string option" where
  "messageOf err idlErrors code =
     js_or (th_InstructionErr err)
       (js_or (map_of idlErrors code)
          (js_or (map_of LangErrorMessage code) (map_of SystemErrorMessage code)))"

definition parse :: "thrown \<Rightarrow> (int \<times> string) list \<Rightarrow> program_error option" where
  "parse err idlErrors =
     (let withCode = (\<lambda>code. case messageOf err idlErrors code of
                               None \<Rightarrow> None
                             | Some msg \<Rightarrow> Some \<lparr>pe_code = code, pe_msg = msg\<rparr>)
      in case codeOf err of
           Some code \<Rightarrow> withCode code
         | None \<Rightarrow>
             (case js_split (th_string err) ''custom program error: '' of
                [_, num] \<Rightarrow> (case parseInt num of None \<Rightarrow> None | Some code \<Rightarrow> withCode code)
              | _ \<Rightarrow> None))"

section \<open>Lemmas\<close>

text \<open>The hexadecimal text of a number, as the node writes it into a message.\<close>

fun hex_str :: "nat \<Rightarrow> string" where
  "hex_str n = (if n < 16 then [char_of (if n < 10 then 48 + n else 87 + n)]
     else hex_str (n div 16) @ [char_of (if n mod 16 < 10 then 48 + n mod 16 else 87 + n mod 16)])"

declare hex_str.simps [simp del]

lemma digit_val_hex:
  assumes "n < 16"
  shows "digit_val (char_of (if n < 10 then 48 + n else 87 + n)) = Some (int n)"
proof -
  have "(of_char (char_of k :: char) :: int) = int k" if "k < 256" for k :: nat
  proof -
    have "(of_char (char_of k :: char) :: int) = of_nat (of_char (char_of k :: char) :: nat)"
      by (simp only: of_nat_of_char)
    with that show ?thesis by (simp only: of_char_of mod_less)
  qed
  then show ?thesis using assms by (auto simp: digit_val_def Let_def)
qed

lemma digits_hex:
  "digits 16 acc (hex_str n @ rest) =
     digits 16 (Some ((case acc of None \<Rightarrow> 0 | Some a \<Rightarrow> a * 16 ^ length (hex_str n)) + int n)) rest"
proof (induction n arbitrary: acc rest rule: hex_str.induct)
  case (1 n)
  show ?case
  proof (cases "n < 16")
    case True
    then show ?thesis
      using digit_val_hex[OF True] by (auto simp: hex_str.simps[of n] split: option.splits)
  next
    case False
    have d: "digit_val (char_of (if n mod 16 < 10 then 48 + n mod 16 else 87 + n mod 16)) = Some (int (n mod 16))"
      by (rule digit_val_hex) simp
    have e: "hex_str n = hex_str (n div 16) @ [char_of (if n mod 16 < 10 then 48 + n mod 16 else 87 + n mod 16)]"
      using False by (simp only: hex_str.simps[of n] if_False)
    have m: "int (n mod 16) + (16 * int (n div 16) + x) = int n + x" for x by presburger
    show ?thesis
      unfolding e using "1.IH"[OF False] d m[of 0]
      by (cases acc) (simp_all add: algebra_simps m)
  qed
qed

lemma parseInt_hex: "parseInt (''0x'' @ hex_str n) = Some (int n)"
  using digits_hex[of None n "[]"]
  by (simp add: parseInt_def parse_unsigned_def is_space_def Let_def)

text \<open>
  A program's own error code is recovered from both forms the node uses, the structured
  \<open>InstructionError\<close> with a nonzero \<open>Custom\<close> code and the text with the code in hexadecimal, and then
  looked up in the program's table first, the framework's second and the system's last.
\<close>

theorem parse_custom:
  assumes "c \<noteq> 0" and "th_InstructionErr err = None"
    and "th_InstructionError err = Some (first, Some (Custom (int c)))
      \<or> th_InstructionError err = None \<and> (\<exists>pre. js_split (th_string err) ''custom program error: '' = [pre, ''0x'' @ hex_str c])"
  shows "parse err idlErrors =
    (case js_or (map_of idlErrors (int c)) (js_or (map_of LangErrorMessage (int c)) (map_of SystemErrorMessage (int c))) of
       None \<Rightarrow> None | Some msg \<Rightarrow> Some \<lparr>pe_code = int c, pe_msg = msg\<rparr>)"
  using assms(3)
proof (elim disjE conjE exE)
  assume "th_InstructionError err = Some (first, Some (Custom (int c)))"
  with assms(1,2) show ?thesis by (simp add: parse_def codeOf_def messageOf_def js_or_def[of None] Let_def)
next
  fix pre
  assume n: "th_InstructionError err = None"
    and s: "js_split (th_string err) ''custom program error: '' = [pre, ''0x'' @ hex_str c]"
  have p: "parseInt (CHR ''0'' # CHR ''x'' # hex_str c) = Some (int c)" using parseInt_hex[of c] by simp
  from n s p assms(2) show ?thesis
    by (simp add: parse_def codeOf_def messageOf_def js_or_def[of None] Let_def)
qed

definition text_error :: "string \<Rightarrow> thrown" where
  "text_error s = \<lparr>th_string = s, th_InstructionError = None, th_InstructionErr = None, th_timeout = False, th_err = None\<rparr>"

theorem parse_custom_witness:
  "parse (text_error ''failed: custom program error: 0x1771'') [(6001, ''TooEarly'')] =
     Some \<lparr>pe_code = 6001, pe_msg = ''TooEarly''\<rparr>"
proof -
  have h: "hex_str 6001 = ''1771''" by (simp add: hex_str.simps char_of_def bit_0)
  have s: "js_split (th_string (text_error ''failed: custom program error: 0x1771'')) ''custom program error: '' =
      [''failed: '', ''0x'' @ hex_str 6001]"
    unfolding h by (simp add: text_error_def js_split_def split_from.simps)
  show ?thesis
    using parse_custom[of 6001 "text_error ''failed: custom program error: 0x1771''" None "[(6001, ''TooEarly'')]"] s
    by (auto simp: text_error_def js_or_def)
qed

text \<open>
  The first element of an \<open>InstructionError\<close> is the index of the failing instruction, but it is
  taken for an error code: a runtime failure of instruction 5 that is not a program's own error (here
  \<open>ProgramFailedToComplete\<close>) is reported as code 5, "Insufficient funds", and a program's own error
  with code 0 in instruction 8 as code 8.
\<close>

theorem parse_confuses_index:
  "parse (text_error []\<lparr>th_InstructionError := Some (Some 5, Some (Other ''ProgramFailedToComplete''))\<rparr>) [] =
     Some \<lparr>pe_code = 5, pe_msg = ''Insufficient funds''\<rparr>
   \<and> parse (text_error []\<lparr>th_InstructionError := Some (Some 8, Some (Custom 0))\<rparr>) [(0, ''Mine'')] =
     Some \<lparr>pe_code = 8, pe_msg = ''Account already initialized''\<rparr>"
  by (simp add: parse_def text_error_def codeOf_def messageOf_def js_or_def SystemErrorMessage_def LangErrorMessage_def)

end
