(* ===== verification/Tx_Send.thy ===== *)
theory Tx_Send
  imports Bulk_Send Program_Error
begin

text \<open>
  \<^verbatim>\<open>packages/spl-utils/src/transaction.ts\<close>: sending one transaction or an ordered list of them and
  waiting for the confirmation (\<open>sendAndConfirmWithRetry\<close>, \<open>sendInstructions\<close>,
  \<open>sendMultipleInstructions\<close>, \<open>execute\<close>, \<open>executeBig\<close>). The background loop that resends the same
  bytes while the confirmation is awaited has no effect on the result and is not part of the model.
\<close>

section \<open>The provider\<close>

record legacy_tx =
  lt_feePayer :: pubkey
  lt_recentBlockhash :: string
  lt_instructions :: "instruction list"
  lt_signedBy :: "pubkey list"

record confirmation =
  cf_err :: "string option"
  cf_slot :: nat

text \<open>The wallet and the node; \<open>Inl\<close> is what the promise rejects with.\<close>

record sender =
  sd_walletKey :: pubkey
  sd_getLatestBlockhash :: "thrown + string"
  sd_signTransaction :: "legacy_tx \<Rightarrow> thrown + legacy_tx"
  sd_signAllTransactions :: "legacy_tx list \<Rightarrow> thrown + legacy_tx list"
  sd_serialize :: "legacy_tx \<Rightarrow> thrown + bytes"
  sd_sendRawTransaction :: "bytes \<Rightarrow> thrown + string"
  sd_wait :: "string \<Rightarrow> thrown + confirmation option"
  sd_getTransaction :: "string \<Rightarrow> thrown + unit"

datatype send_failure = Prog program_error | Raw thrown

section \<open>sendAndConfirmWithRetry\<close>

text \<open>The \<open>try\<close> block.\<close>

definition awaitConfirmed :: "sender \<Rightarrow> string \<Rightarrow> thrown + unit" where
  "awaitConfirmed sd txid =
     ebind (sd_wait sd txid) (\<lambda>confirmation.
       case confirmation of
         None \<Rightarrow> Inl (text_error ''Error: Timed out awaiting confirmation on transaction'')
       | Some cf \<Rightarrow>
           (case cf_err cf of
              None \<Rightarrow> Inr ()
            | Some _ \<Rightarrow> ebind (sd_getTransaction sd txid) (\<lambda>_.
                Inl (text_error ''Error: Transaction failed: Custom instruction error''))))"

text \<open>The \<open>catch\<close> block: it always throws.\<close>

definition confirmFailed :: "sender \<Rightarrow> string \<Rightarrow> thrown \<Rightarrow> thrown" where
  "confirmFailed sd txid err =
     (if th_timeout err then text_error ''Error: Timed out awaiting confirmation on transaction''
      else case sd_getTransaction sd txid of
             Inl e \<Rightarrow> e
           | Inr _ \<Rightarrow>
               (case th_err err of
                  None \<Rightarrow> err
                | Some (s, ie) \<Rightarrow> (text_error s)\<lparr>th_InstructionError := ie\<rparr>))"

definition sendAndConfirmWithRetry :: "sender \<Rightarrow> bytes \<Rightarrow> thrown + string" where
  "sendAndConfirmWithRetry sd txn =
     ebind (sd_sendRawTransaction sd txn) (\<lambda>txid.
       case awaitConfirmed sd txid of
         Inr _ \<Rightarrow> Inr txid
       | Inl err \<Rightarrow> Inl (confirmFailed sd txid err))"

text \<open>\<open>ProgramError.parse(e, idlErrors)\<close>, or the error itself.\<close>

definition wrapError :: "(int \<times> string) list \<Rightarrow> thrown \<Rightarrow> send_failure" where
  "wrapError idlErrors e = (case parse e idlErrors of Some pe \<Rightarrow> Prog pe | None \<Rightarrow> Raw e)"

section \<open>sendInstructions\<close>

definition walletMustSign :: "pubkey \<Rightarrow> legacy_tx \<Rightarrow> bool" where
  "walletMustSign walletKey tx =
     (lt_feePayer tx = walletKey \<or>
      list_ex (\<lambda>ix. list_ex (\<lambda>k. am_isSigner k \<and> am_pubkey k = walletKey) (ix_keys ix)) (lt_instructions tx))"

definition lift_raw :: "thrown + 'a \<Rightarrow> send_failure + 'a" where
  "lift_raw r = (case r of Inl e \<Rightarrow> Inl (Raw e) | Inr x \<Rightarrow> Inr x)"

definition sendInstructions ::
  "sender \<Rightarrow> instruction list \<Rightarrow> pubkey list \<Rightarrow> pubkey option \<Rightarrow> (int \<times> string) list \<Rightarrow> send_failure + string" where
  "sendInstructions sd instructions signers payer idlErrors =
     (if instructions = [] then Inr []
      else
        ebind (lift_raw (sd_getLatestBlockhash sd)) (\<lambda>blockhash.
          let tx = \<lparr>lt_feePayer = (case payer of None \<Rightarrow> sd_walletKey sd | Some p \<Rightarrow> p),
                    lt_recentBlockhash = blockhash, lt_instructions = instructions, lt_signedBy = signers\<rparr>
          in ebind (lift_raw (if walletMustSign (sd_walletKey sd) tx then sd_signTransaction sd tx else Inr tx)) (\<lambda>tx'.
             case ebind (sd_serialize sd tx') (sendAndConfirmWithRetry sd) of
               Inr txid \<Rightarrow> Inr txid
             | Inl e \<Rightarrow> Inl (wrapError idlErrors e))))"

definition js_error_thrown :: "js_error \<Rightarrow> thrown" where
  "js_error_thrown e =
     text_error (case e of Err m \<Rightarrow> ''Error: '' @ m | RangeError \<Rightarrow> ''RangeError'' | TypeError \<Rightarrow> ''TypeError''
                 | Timeout \<Rightarrow> ''Timeout'' | Rejected m \<Rightarrow> m)"

definition sendInstructionsWithPriorityFee ::
  "web3 \<Rightarrow> connection \<Rightarrow> sender \<Rightarrow> instruction list \<Rightarrow> pubkey list \<Rightarrow> pubkey option \<Rightarrow> (int \<times> string) list
   \<Rightarrow> number option \<Rightarrow> number \<Rightarrow> number \<Rightarrow> number option \<Rightarrow> send_failure + string" where
  "sendInstructionsWithPriorityFee w conn sd instructions signers payer idlErrors computeUnitLimit basePriorityFee
     maxPriorityFee loadedAccountsDataSizeLimit =
     (let payer' = (case payer of None \<Rightarrow> sd_walletKey sd | Some p \<Rightarrow> p)
      in case withPriorityFees w conn
             \<lparr>fa_computeUnits = computeUnitLimit, fa_instructions = instructions,
              fa_basePriorityFee = Some basePriorityFee, fa_maxPriorityFee = maxPriorityFee,
              fa_computeScaleUp = DEFAULT_COMPUTE_SCALE_UP,
              fa_loadedAccountsDataSizeLimit = loadedAccountsDataSizeLimit, fa_feePayer = Some payer',
              fa_recentBlockhash = None, fa_addressLookupTableAddresses = None, fa_addressLookupTables = None\<rparr> of
           Inl e \<Rightarrow> Inl (Raw (js_error_thrown e))
         | Inr ixs \<Rightarrow> sendInstructions sd ixs signers (Some payer') idlErrors)"

section \<open>sendMultipleInstructions\<close>

text \<open>\<open>promiseAllInOrder\<close>: each task starts when the one before it is done; the first failure ends it.\<close>

fun promiseAllInOrder :: "('a \<Rightarrow> thrown + 'b) \<Rightarrow> 'a list \<Rightarrow> thrown + 'b list" where
  "promiseAllInOrder run [] = Inr []"
| "promiseAllInOrder run (i # it) =
     ebind (run i) (\<lambda>r. ebind (promiseAllInOrder run it) (\<lambda>rs. Inr (r # rs)))"

text \<open>\<open>signers\<close> is \<open>undefined\<close> where there are fewer signer groups; reading its length throws.\<close>

fun partialSignAll :: "(instruction list \<times> pubkey list option) list \<Rightarrow> legacy_tx list \<Rightarrow> thrown + legacy_tx list" where
  "partialSignAll ((_, Some signers) # gs) (tx # txs) =
     ebind (partialSignAll gs txs) (\<lambda>rest. Inr (tx\<lparr>lt_signedBy := lt_signedBy tx @ signers\<rparr> # rest))"
| "partialSignAll _ [] = Inr []"
| "partialSignAll _ (tx # txs) = Inl (text_error ''TypeError'')"

definition sendMultipleInstructions ::
  "sender \<Rightarrow> instruction list list \<Rightarrow> pubkey list list \<Rightarrow> pubkey option \<Rightarrow> (int \<times> string) list
   \<Rightarrow> send_failure + string list" where
  "sendMultipleInstructions sd instructionGroups signerGroups payer idlErrors =
     ebind (lift_raw (sd_getLatestBlockhash sd)) (\<lambda>blockhash.
       let ixAndSigners = filter (\<lambda>(ixs, _). ixs \<noteq> [])
             (map (\<lambda>(i, ixs). (ixs, js_nth signerGroups i)) (enumerate 0 instructionGroups));
           txns = map (\<lambda>(ixs, _). \<lparr>lt_feePayer = (case payer of None \<Rightarrow> sd_walletKey sd | Some p \<Rightarrow> p),
             lt_recentBlockhash = blockhash, lt_instructions = ixs, lt_signedBy = []\<rparr>) ixAndSigners
       in ebind (lift_raw (sd_signAllTransactions sd txns)) (\<lambda>byWallet.
          ebind (lift_raw (partialSignAll ixAndSigners byWallet)) (\<lambda>signedTxs.
          ebind (lift_raw (emap (sd_serialize sd) signedTxs)) (\<lambda>bufs.
            case promiseAllInOrder (sendAndConfirmWithRetry sd) bufs of
              Inr txids \<Rightarrow> Inr txids
            | Inl e \<Rightarrow> Inl (wrapError idlErrors e)))))"

section \<open>execute and executeBig\<close>

text \<open>The \<open>errors\<close> map built from the IDL: the last message for a code wins.\<close>

definition idlErrorMap :: "(int \<times> string \<times> string) list \<Rightarrow> (int \<times> string) list" where
  "idlErrorMap errs = foldl (\<lambda>acc (code, name, msg). obj_set acc code (name @ '': '' @ msg)) [] errs"

definition execute ::
  "sender \<Rightarrow> (int \<times> string \<times> string) list \<Rightarrow> instruction list \<Rightarrow> pubkey list \<Rightarrow> 'o \<Rightarrow> pubkey
   \<Rightarrow> send_failure + (string option \<times> 'o)" where
  "execute sd idl instructions signers out payer =
     (if length instructions > 0
      then ebind (sendInstructions sd instructions signers (Some payer) (idlErrorMap idl)) (\<lambda>txid. Inr (Some txid, out))
      else Inr (None, out))"

definition executeBig ::
  "sender \<Rightarrow> (int \<times> string \<times> string) list \<Rightarrow> instruction list list \<Rightarrow> pubkey list list \<Rightarrow> 'o \<Rightarrow> pubkey
   \<Rightarrow> send_failure + (string list option \<times> 'o)" where
  "executeBig sd idl instructions signers out payer =
     (if length instructions > 0
      then ebind (sendMultipleInstructions sd instructions signers (Some payer) (idlErrorMap idl))
             (\<lambda>txids. Inr (Some txids, out))
      else Inr (None, out))"

section \<open>Lemmas\<close>

lemma sendAndConfirm_sound:
  assumes "sendAndConfirmWithRetry sd txn = Inr txid"
  shows "sd_sendRawTransaction sd txn = Inr txid \<and> (\<exists>cf. sd_wait sd txid = Inr (Some cf) \<and> cf_err cf = None)"
  using assms
  by (auto simp: sendAndConfirmWithRetry_def awaitConfirmed_def split: sum.splits option.splits elim!: ebind_InrE)

lemma lift_raw_Inr [simp]: "lift_raw r = Inr x \<longleftrightarrow> r = Inr x"
  by (cases r) (simp_all add: lift_raw_def)

lemma promiseAllInOrder_all2: "promiseAllInOrder run xs = Inr ys \<Longrightarrow> list_all2 (\<lambda>x y. run x = Inr y) xs ys"
  by (induction xs arbitrary: ys) (auto elim!: ebind_InrE)

text \<open>The law of the wallet: it adds its own signature to a transaction and changes nothing else.\<close>

definition signs_only :: "sender \<Rightarrow> bool" where
  "signs_only sd \<longleftrightarrow>
     (\<forall>tx tx'. sd_signTransaction sd tx = Inr tx' \<longrightarrow> tx' = tx\<lparr>lt_signedBy := lt_signedBy tx @ [sd_walletKey sd]\<rparr>)
     \<and> (\<forall>txs txs'. sd_signAllTransactions sd txs = Inr txs'
          \<longrightarrow> txs' = map (\<lambda>tx. tx\<lparr>lt_signedBy := lt_signedBy tx @ [sd_walletKey sd]\<rparr>) txs)"

lemma signs_onlyD:
  assumes "signs_only sd"
  shows "sd_signTransaction sd tx = Inr tx' \<Longrightarrow> tx' = tx\<lparr>lt_signedBy := lt_signedBy tx @ [sd_walletKey sd]\<rparr>"
    and "sd_signAllTransactions sd txs = Inr txs'
      \<Longrightarrow> txs' = map (\<lambda>tx. tx\<lparr>lt_signedBy := lt_signedBy tx @ [sd_walletKey sd]\<rparr>) txs"
  using assms unfolding signs_only_def by blast+

text \<open>
  C24. Success means confirmed: when \<open>sendInstructions\<close> returns an id for a non-empty list, it sent a
  transaction with exactly those instructions, paid by the given payer, signed by the given signers
  and, exactly when it is the payer or a required signer, by the wallet; and the node confirmed that
  id without error.
\<close>

theorem sendInstructions_confirmed:
  assumes "signs_only sd" and "instructions \<noteq> []" and "sendInstructions sd instructions signers payer idl = Inr txid"
  shows "\<exists>tx buf cf. lt_instructions tx = instructions
      \<and> lt_feePayer tx = (case payer of None \<Rightarrow> sd_walletKey sd | Some p \<Rightarrow> p)
      \<and> lt_signedBy tx = signers @ (if walletMustSign (sd_walletKey sd) tx then [sd_walletKey sd] else [])
      \<and> sd_serialize sd tx = Inr buf \<and> sd_sendRawTransaction sd buf = Inr txid
      \<and> sd_wait sd txid = Inr (Some cf) \<and> cf_err cf = None"
proof -
  let ?payer = "case payer of None \<Rightarrow> sd_walletKey sd | Some p \<Rightarrow> p"
  from assms(2,3) obtain bh tx' buf where
    s: "(if walletMustSign (sd_walletKey sd) \<lparr>lt_feePayer = ?payer, lt_recentBlockhash = bh, lt_instructions = instructions, lt_signedBy = signers\<rparr>
         then sd_signTransaction sd \<lparr>lt_feePayer = ?payer, lt_recentBlockhash = bh, lt_instructions = instructions, lt_signedBy = signers\<rparr>
         else Inr \<lparr>lt_feePayer = ?payer, lt_recentBlockhash = bh, lt_instructions = instructions, lt_signedBy = signers\<rparr>) = Inr tx'"
    and b: "sd_serialize sd tx' = Inr buf" and c: "sendAndConfirmWithRetry sd buf = Inr txid"
    unfolding sendInstructions_def Let_def
    by (auto split: sum.splits elim!: ebind_InrE)
  have "lt_instructions tx' = instructions \<and> lt_feePayer tx' = ?payer
      \<and> lt_signedBy tx' = signers @ (if walletMustSign (sd_walletKey sd) tx' then [sd_walletKey sd] else [])"
    using s by (auto simp: walletMustSign_def dest!: signs_onlyD(1)[OF assms(1)] split: if_splits)
  with b sendAndConfirm_sound[OF c] show ?thesis by blast
qed

definition demo_sender :: sender where
  "demo_sender = \<lparr>sd_walletKey = ''me'', sd_getLatestBlockhash = Inr ''bh'',
     sd_signTransaction = (\<lambda>tx. Inr (tx\<lparr>lt_signedBy := lt_signedBy tx @ [''me'']\<rparr>)),
     sd_signAllTransactions = (\<lambda>txs. Inr (map (\<lambda>tx. tx\<lparr>lt_signedBy := lt_signedBy tx @ [''me'']\<rparr>) txs)),
     sd_serialize = (\<lambda>tx. Inr (concat (map ix_data (lt_instructions tx)))),
     sd_sendRawTransaction = (\<lambda>b. Inr (demo_sig b)),
     sd_wait = (\<lambda>_. Inr (Some \<lparr>cf_err = None, cf_slot = 1\<rparr>)),
     sd_getTransaction = (\<lambda>_. Inr ())\<rparr>"

lemma demo_sender_signs: "signs_only demo_sender"
  by (simp add: signs_only_def demo_sender_def)

theorem sendInstructions_confirmed_witness:
  "sendInstructions demo_sender [num_ix 1] [] None [] = Inr (demo_sig [1])
   \<and> (\<exists>tx :: legacy_tx. lt_instructions tx = [num_ix 1] \<and> lt_signedBy tx = [''me''])"
proof -
  have r: "sendInstructions demo_sender [num_ix 1] [] None [] = Inr (demo_sig [1])"
    by (simp add: sendInstructions_def demo_sender_def walletMustSign_def sendAndConfirmWithRetry_def
        awaitConfirmed_def num_ix_def lift_raw_def Let_def)
  from sendInstructions_confirmed[OF demo_sender_signs _ r] obtain tx where
    "lt_instructions tx = [num_ix 1]" "lt_feePayer tx = ''me''"
    "lt_signedBy tx = (if walletMustSign ''me'' tx then [''me''] else [])"
    by (auto simp: demo_sender_def)
  then have "lt_instructions tx = [num_ix 1] \<and> lt_signedBy tx = [''me'']" by (simp add: walletMustSign_def)
  with r show ?thesis by blast
qed

text \<open>
  A transaction that fails on chain never gets its program's error message: the error of the
  confirmation is replaced by a fixed text before \<open>ProgramError.parse\<close> sees it, so the caller's
  \<open>idlErrors\<close> table is never consulted (preflight, whose error text would carry the code, is off).
\<close>

theorem sendInstructions_loses_program_error:
  assumes "instructions \<noteq> []" and "walletMustSign (sd_walletKey sd)
      \<lparr>lt_feePayer = (case payer of None \<Rightarrow> sd_walletKey sd | Some p \<Rightarrow> p), lt_recentBlockhash = bh,
       lt_instructions = instructions, lt_signedBy = signers\<rparr>"
    and "sd_getLatestBlockhash sd = Inr bh"
    and "sd_signTransaction sd \<lparr>lt_feePayer = (case payer of None \<Rightarrow> sd_walletKey sd | Some p \<Rightarrow> p), lt_recentBlockhash = bh,
       lt_instructions = instructions, lt_signedBy = signers\<rparr> = Inr tx"
    and "sd_serialize sd tx = Inr buf" and "sd_sendRawTransaction sd buf = Inr txid"
    and "sd_wait sd txid = Inr (Some \<lparr>cf_err = Some e, cf_slot = sl\<rparr>)" and "sd_getTransaction sd txid = Inr ()"
  shows "sendInstructions sd instructions signers payer idlErrors =
    Inl (Raw (text_error ''Error: Transaction failed: Custom instruction error''))"
proof -
  have "parse (text_error ''Error: Transaction failed: Custom instruction error'') idlErrors = None"
    by (simp add: parse_def codeOf_def text_error_def js_split_def split_from.simps)
  moreover have "confirmFailed sd txid (text_error ''Error: Transaction failed: Custom instruction error'') =
      text_error ''Error: Transaction failed: Custom instruction error''"
    using assms(8) by (simp add: confirmFailed_def text_error_def)
  ultimately show ?thesis
    using assms by (simp add: sendInstructions_def sendAndConfirmWithRetry_def awaitConfirmed_def wrapError_def
        lift_raw_def Let_def)
qed

theorem sendInstructions_loses_program_error_witness:
  "sendInstructions (demo_sender\<lparr>sd_wait := (\<lambda>_. Inr (Some \<lparr>cf_err = Some ''Custom 6001'', cf_slot = 1\<rparr>))\<rparr>)
     [num_ix 1] [] None [(6001, ''TooEarly'')] =
   Inl (Raw (text_error ''Error: Transaction failed: Custom instruction error''))"
  by (rule sendInstructions_loses_program_error[where bh = "''bh''"])
    (simp_all add: demo_sender_def walletMustSign_def)

text \<open>
  \<open>sendMultipleInstructions\<close> sends the groups strictly one after the other: on success it returns
  one confirmed id for each non-empty group, in order, each for a transaction with exactly that
  group's instructions, signed by the wallet and the group's signers.
\<close>

theorem sendMultipleInstructions_in_order:
  assumes "signs_only sd" and "sendMultipleInstructions sd groups signerGroups payer idl = Inr txids"
    and "length groups \<le> length signerGroups"
  shows "list_all2 (\<lambda>(ixs, signers) txid. \<exists>tx buf cf. lt_instructions tx = ixs
        \<and> lt_signedBy tx = sd_walletKey sd # signers \<and> sd_serialize sd tx = Inr buf
        \<and> sd_sendRawTransaction sd buf = Inr txid \<and> sd_wait sd txid = Inr (Some cf) \<and> cf_err cf = None)
      (filter (\<lambda>(ixs, _). ixs \<noteq> []) (zip groups signerGroups)) txids"
proof -
  let ?gs = "filter (\<lambda>(ixs, _). ixs \<noteq> []) (zip groups signerGroups)"
  let ?is = "filter (\<lambda>(ixs, _). ixs \<noteq> []) (map (\<lambda>(i, ixs). (ixs, js_nth signerGroups i)) (enumerate 0 groups))"
  have "map (\<lambda>(i, ixs). (ixs, js_nth signerGroups i)) (enumerate 0 groups) =
      map (\<lambda>(ixs, s). (ixs, Some s)) (zip groups signerGroups)"
    using assms(3) by (auto simp: list_eq_iff_nth_eq js_nth_def nth_enumerate_eq)
  then have is_eq: "?is = map (\<lambda>(ixs, s). (ixs, Some s)) ?gs" by (simp add: filter_map o_def split_def)
  obtain bh byWallet sgn bufs where
    w: "sd_signAllTransactions sd (map (\<lambda>(ixs, _). \<lparr>lt_feePayer = (case payer of None \<Rightarrow> sd_walletKey sd | Some p \<Rightarrow> p),
             lt_recentBlockhash = bh, lt_instructions = ixs, lt_signedBy = []\<rparr>) ?is) = Inr byWallet"
    and p: "partialSignAll ?is byWallet = Inr sgn" and b: "emap (sd_serialize sd) sgn = Inr bufs"
    and o': "promiseAllInOrder (sendAndConfirmWithRetry sd) bufs = Inr txids"
    using assms(2) unfolding sendMultipleInstructions_def Let_def
    by (auto split: sum.splits elim!: ebind_InrE)
  have bw: "byWallet = map (\<lambda>(ixs, _). \<lparr>lt_feePayer = (case payer of None \<Rightarrow> sd_walletKey sd | Some p \<Rightarrow> p),
             lt_recentBlockhash = bh, lt_instructions = ixs, lt_signedBy = [sd_walletKey sd]\<rparr>) ?gs"
    unfolding signs_onlyD(2)[OF assms(1) w] unfolding is_eq by (simp add: split_def o_def)
  have "list_all2 (\<lambda>(ixs, s) tx. lt_instructions tx = ixs \<and> lt_signedBy tx = sd_walletKey sd # s) gs sgn"
    if "partialSignAll (map (\<lambda>(ixs, s). (ixs, Some s)) gs) (map (\<lambda>(ixs, _). \<lparr>lt_feePayer = (case payer of None \<Rightarrow> sd_walletKey sd | Some p \<Rightarrow> p),
             lt_recentBlockhash = bh, lt_instructions = ixs, lt_signedBy = [sd_walletKey sd]\<rparr>) gs) = Inr sgn" for gs
    using that by (induction gs arbitrary: sgn) (auto elim!: ebind_InrE)
  with p have l1: "list_all2 (\<lambda>(ixs, s) tx. lt_instructions tx = ixs \<and> lt_signedBy tx = sd_walletKey sd # s) ?gs sgn"
    unfolding is_eq bw by blast
  have l2: "list_all2 (\<lambda>tx buf. sd_serialize sd tx = Inr buf) sgn bufs" by (rule emap_all2[OF b])
  have l3: "list_all2 (\<lambda>buf txid. sendAndConfirmWithRetry sd buf = Inr txid) bufs txids"
    by (rule promiseAllInOrder_all2[OF o'])
  have "list_all2 (\<lambda>tx txid. \<exists>buf. sd_serialize sd tx = Inr buf \<and> sendAndConfirmWithRetry sd buf = Inr txid) sgn txids"
    by (rule list_all2_trans[OF _ l2 l3]) blast
  with l1 show ?thesis
    by (rule list_all2_trans[rotated]) (auto dest!: sendAndConfirm_sound)
qed

theorem sendMultipleInstructions_in_order_witness:
  "\<exists>txids. sendMultipleInstructions demo_sender [[num_ix 1], [], [num_ix 2]] [[], [], [''s'']] None [] = Inr txids
     \<and> length txids = 2"
proof -
  have r: "\<exists>txids. sendMultipleInstructions demo_sender [[num_ix 1], [], [num_ix 2]] [[], [], [''s'']] None [] = Inr txids"
    by (simp add: sendMultipleInstructions_def demo_sender_def sendAndConfirmWithRetry_def awaitConfirmed_def
        num_ix_def lift_raw_def js_nth_def Let_def)
  then show ?thesis
    using sendMultipleInstructions_in_order[OF demo_sender_signs] by (fastforce dest: list_all2_lengthD)
qed

end
