(* ===== verification/Oracle_Server.thy ===== *)
theory Oracle_Server
  imports JS_Number
begin

text \<open>
  \<^verbatim>\<open>packages/distributor-oracle/src/server.ts\<close>: the rewards oracle. \<open>signTransaction\<close> decides which
  transactions the oracle's key signs; the handlers answer requests and build the claim tasks. The
  IDLs (account positions, decoders), the database, the chain and the key derivations are parameters,
  fields of the record \<open>oracle_env\<close>.
\<close>

section \<open>The server's surroundings\<close>

text \<open>A decoded instruction: its name and the arguments the code reads.\<close>

record decoded_ix =
  dc_name :: string
  dc_index :: nat
  dc_currentRewards :: nat

text \<open>A deserialized transaction.\<close>

record wire_tx =
  wt_staticKeys :: "pubkey list"
  wt_tableLookups :: "pubkey list"
  wt_instructions :: "compiled_instruction list"

text \<open>Positions of the named accounts in the instructions of the two IDLs.\<close>

record idl_layout =
  il_initRecipient_lazyDistributor :: nat
  il_initRecipient_mint :: nat
  il_initRecipient_recipient :: nat
  il_initCompression_lazyDistributor :: nat
  il_initCompression_payer :: nat
  il_initCompression_merkleTree :: nat
  il_initCompression_recipient :: nat
  il_setRewards_oracle :: nat
  il_setRewards_lazyDistributor :: nat
  il_setRewards_recipient :: nat
  il_wrapper_oracle :: nat
  il_wrapper_lazyDistributor :: nat
  il_wrapper_recipient :: nat
  il_wrapper_keyToAsset :: nat

record key_to_asset =
  ka_address :: pubkey
  ka_asset :: pubkey
  ka_entityKey :: bytes
  ka_keySerialization :: string

record oracle_env =
  oe_oracle :: pubkey
  oe_lazyDistributor :: pubkey
  oe_willPayRecipient :: bool
  oe_layout :: idl_layout
  oe_CB_PID :: pubkey
  oe_LD_PID :: pubkey
  oe_RO_PID :: pubkey
  oe_deserialize :: "bytes \<Rightarrow> js_error + wire_tx"
  oe_getAddressLookupTable :: "pubkey \<Rightarrow> js_error + pubkey list option"
  oe_getAccountKeys :: "wire_tx \<Rightarrow> pubkey list list \<Rightarrow> js_error + pubkey list"
  oe_ldDecode :: "bytes \<Rightarrow> decoded_ix option"
  oe_roDecode :: "bytes \<Rightarrow> decoded_ix option"
  oe_getLeafAssetId :: "pubkey \<Rightarrow> nat \<Rightarrow> pubkey"
  oe_fetchKeyToAsset :: "pubkey \<Rightarrow> js_error + key_to_asset"
  oe_keyToAssetKey :: "bytes \<Rightarrow> pubkey"
  oe_decodeEntityKey :: "bytes \<Rightarrow> string \<Rightarrow> string"
  oe_fetchRecipientAsset :: "pubkey \<Rightarrow> js_error + pubkey option"
  oe_getCurrentRewardsByEntity :: "string \<Rightarrow> js_error + nat"
  oe_getCurrentRewards :: "pubkey \<Rightarrow> js_error + nat"
  oe_sign :: "wire_tx \<Rightarrow> js_error + unit"

text \<open>A refusal is a result with \<open>success: false\<close> and a message.\<close>

datatype stop = Throw js_error | Refuse string

definition lift_throw :: "js_error + 'a \<Rightarrow> stop + 'a" where
  "lift_throw r = (case r of Inl e \<Rightarrow> Inl (Throw e) | Inr x \<Rightarrow> Inr x)"

text \<open>\<open>allAccs[ix.accountKeyIndexes[i]]\<close>, of which a method is called: \<open>undefined\<close> throws.\<close>

definition acc_at :: "pubkey list \<Rightarrow> compiled_instruction \<Rightarrow> nat \<Rightarrow> stop + pubkey" where
  "acc_at allAccs ix i =
     (case js_nth (ci_accountKeyIndexes ix) i of
        None \<Rightarrow> Inl (Throw TypeError)
      | Some j \<Rightarrow> (case js_nth allAccs j of None \<Rightarrow> Inl (Throw TypeError) | Some k \<Rightarrow> Inr k))"

definition acc_opt :: "pubkey list \<Rightarrow> compiled_instruction \<Rightarrow> nat \<Rightarrow> pubkey option" where
  "acc_opt allAccs ix i = (case js_nth (ci_accountKeyIndexes ix) i of None \<Rightarrow> None | Some j \<Rightarrow> js_nth allAccs j)"

definition program_of :: "pubkey list \<Rightarrow> compiled_instruction \<Rightarrow> stop + pubkey" where
  "program_of allAccs ix =
     (case js_nth allAccs (ci_programIdIndex ix) of None \<Rightarrow> Inl (Throw TypeError) | Some k \<Rightarrow> Inr k)"

section \<open>signTransaction: which instructions\<close>

definition ALLOWED :: "string list" where
  "ALLOWED = [''setCurrentRewardsV0'', ''distributeRewardsV0'', ''distributeCompressionRewardsV0'',
     ''distributeCustomDestinationV0'', ''initializeRecipientV0'', ''initializeCompressionRecipientV0'',
     ''setCurrentRewardsWrapperV0'', ''setCurrentRewardsWrapperV1'']"

definition isSetRewards :: "string \<Rightarrow> bool" where
  "isSetRewards name \<longleftrightarrow>
     name = ''setCurrentRewardsV0'' \<or> name = ''setCurrentRewardsWrapperV0'' \<or> name = ''setCurrentRewardsWrapperV1''"

text \<open>The state of the first loop: the instructions to validate, and the assets of new recipients.\<close>

record scan_state =
  ss_setRewardIxs :: "compiled_instruction list"
  ss_mints :: "(pubkey \<times> pubkey) \<rightharpoonup> pubkey"

definition decode_ix :: "oracle_env \<Rightarrow> pubkey \<Rightarrow> bytes \<Rightarrow> decoded_ix option" where
  "decode_ix env programId data = (if programId = oe_LD_PID env then oe_ldDecode env data else oe_roDecode env data)"

definition scan_init_recipient ::
  "oracle_env \<Rightarrow> pubkey list \<Rightarrow> compiled_instruction \<Rightarrow> scan_state \<Rightarrow> stop + scan_state" where
  "scan_init_recipient env allAccs ix st =
     (let L = oe_layout env
      in ebind (acc_at allAccs ix (il_initRecipient_recipient L)) (\<lambda>recipient.
         ebind (acc_at allAccs ix (il_initRecipient_lazyDistributor L)) (\<lambda>lazyDist.
           Inr (st\<lparr>ss_mints := (ss_mints st)((recipient, lazyDist) := acc_opt allAccs ix (il_initRecipient_mint L))\<rparr>))))"

definition scan_init_compression ::
  "oracle_env \<Rightarrow> pubkey list \<Rightarrow> compiled_instruction \<Rightarrow> decoded_ix \<Rightarrow> scan_state \<Rightarrow> stop + scan_state" where
  "scan_init_compression env allAccs ix decoded st =
     (let L = oe_layout env
      in ebind (acc_at allAccs ix (il_initCompression_recipient L)) (\<lambda>recipient.
         ebind (acc_at allAccs ix (il_initCompression_lazyDistributor L)) (\<lambda>lazyDist.
         ebind (acc_at allAccs ix (il_initCompression_payer L)) (\<lambda>payer.
           if \<not> oe_willPayRecipient env \<and> payer = oe_oracle env
           then Inl (Refuse ''Cannot set this oracle as the payer'')
           else
             ebind (acc_at allAccs ix (il_initCompression_merkleTree L)) (\<lambda>merkleTree.
               Inr (st\<lparr>ss_mints := (ss_mints st)((recipient, lazyDist) \<mapsto>
                 oe_getLeafAssetId env merkleTree (dc_index decoded))\<rparr>))))))"

definition scan_ix ::
  "oracle_env \<Rightarrow> pubkey list \<Rightarrow> scan_state \<Rightarrow> compiled_instruction \<Rightarrow> stop + scan_state" where
  "scan_ix env allAccs st ix =
     ebind (program_of allAccs ix) (\<lambda>programId.
       if programId = oe_CB_PID env then Inr st
       else if \<not> (programId = oe_LD_PID env \<or> programId = oe_RO_PID env)
       then Inl (Refuse ''Invalid instructions in transaction'')
       else
         (case decode_ix env programId (ci_data ix) of
            None \<Rightarrow> Inl (Refuse ''Invalid instructions in transaction'')
          | Some decoded \<Rightarrow>
              if dc_name decoded \<notin> set ALLOWED then Inl (Refuse ''Invalid instructions in transaction'')
              else
                let st1 = (if isSetRewards (dc_name decoded)
                           then st\<lparr>ss_setRewardIxs := ss_setRewardIxs st @ [ix]\<rparr> else st)
                in ebind (if dc_name decoded = ''initializeRecipientV0''
                          then scan_init_recipient env allAccs ix st1 else Inr st1) (\<lambda>st2.
                   if dc_name decoded = ''initializeCompressionRecipientV0''
                   then scan_init_compression env allAccs ix decoded st2 else Inr st2)))"

section \<open>signTransaction: which amounts\<close>

text \<open>What the first part of the second loop finds out about a set-rewards instruction.\<close>

record claim =
  cl_recipient :: "pubkey option"
  cl_lazyDist :: "pubkey option"
  cl_proposed :: nat
  cl_keyToAsset :: "pubkey option"
  cl_entityKey :: "bytes option"

definition decoded_rewards :: "decoded_ix option \<Rightarrow> stop + nat" where
  "decoded_rewards d = (case d of None \<Rightarrow> Inl (Throw TypeError) | Some dc \<Rightarrow> Inr (dc_currentRewards dc))"

definition wrapper_claim :: "oracle_env \<Rightarrow> pubkey list \<Rightarrow> compiled_instruction \<Rightarrow> stop + claim" where
  "wrapper_claim env allAccs ix =
     (let L = oe_layout env
      in ebind (decoded_rewards (oe_roDecode env (ci_data ix))) (\<lambda>proposed.
         ebind (acc_at allAccs ix (il_wrapper_keyToAsset L)) (\<lambda>keyToAssetK.
         ebind (lift_throw (oe_fetchKeyToAsset env keyToAssetK)) (\<lambda>kta.
           if oe_keyToAssetKey env (ka_entityKey kta) \<noteq> keyToAssetK
           then Inl (Refuse ''RPC lied about the entity key for this asset.'')
           else Inr \<lparr>cl_recipient = acc_opt allAccs ix (il_wrapper_recipient L),
                     cl_lazyDist = acc_opt allAccs ix (il_wrapper_lazyDistributor L), cl_proposed = proposed,
                     cl_keyToAsset = Some keyToAssetK, cl_entityKey = Some (ka_entityKey kta)\<rparr>))))"

definition direct_claim :: "oracle_env \<Rightarrow> pubkey list \<Rightarrow> compiled_instruction \<Rightarrow> stop + claim" where
  "direct_claim env allAccs ix =
     (let L = oe_layout env
      in ebind (decoded_rewards (oe_ldDecode env (ci_data ix))) (\<lambda>proposed.
           Inr \<lparr>cl_recipient = acc_opt allAccs ix (il_setRewards_recipient L),
                cl_lazyDist = acc_opt allAccs ix (il_setRewards_lazyDistributor L), cl_proposed = proposed,
                cl_keyToAsset = None, cl_entityKey = None\<rparr>))"

text \<open>\<open>None\<close>: the instruction is for neither branch, \<open>recipient\<close> and \<open>lazyDist\<close> stay undefined.\<close>

definition claim_of :: "oracle_env \<Rightarrow> pubkey list \<Rightarrow> compiled_instruction \<Rightarrow> stop + claim option" where
  "claim_of env allAccs ix =
     (let L = oe_layout env
      in ebind (acc_at allAccs ix (il_wrapper_oracle L)) (\<lambda>wrapperOracle.
         ebind (program_of allAccs ix) (\<lambda>programId.
         if wrapperOracle = oe_oracle env \<and> programId = oe_RO_PID env
         then ebind (wrapper_claim env allAccs ix) (\<lambda>c. Inr (Some c))
         else
           ebind (acc_at allAccs ix (il_setRewards_oracle L)) (\<lambda>oracle.
           if oracle = oe_oracle env \<and> programId = oe_LD_PID env
           then ebind (direct_claim env allAccs ix) (\<lambda>c. Inr (Some c))
           else Inr None))))"

text \<open>The rewards the database has: by entity key for the wrapper, by asset for the direct form.\<close>

definition actual_rewards ::
  "oracle_env \<Rightarrow> ((pubkey \<times> pubkey) \<rightharpoonup> pubkey) \<Rightarrow> claim \<Rightarrow> pubkey \<Rightarrow> pubkey \<Rightarrow> stop + nat" where
  "actual_rewards env mints c recipient lazyDist =
     ebind (case mints (recipient, lazyDist) of
              Some m \<Rightarrow> Inr m
            | None \<Rightarrow>
                ebind (lift_throw (oe_fetchRecipientAsset env recipient)) (\<lambda>r.
                  case r of None \<Rightarrow> Inl (Refuse (''Recipient doesn'' @ [CHR 0x27] @ ''t exist'')) | Some a \<Rightarrow> Inr a)) (\<lambda>mint.
     ebind (case cl_keyToAsset c of
              None \<Rightarrow> Inr ''b58''
            | Some k \<Rightarrow> ebind (lift_throw (oe_fetchKeyToAsset env k)) (\<lambda>kta. Inr (ka_keySerialization kta))) (\<lambda>keySerialization.
     case cl_entityKey c of
       Some entityKey \<Rightarrow> lift_throw (oe_getCurrentRewardsByEntity env (oe_decodeEntityKey env entityKey keySerialization))
     | None \<Rightarrow> lift_throw (oe_getCurrentRewards env mint)))"

definition check_set_rewards ::
  "oracle_env \<Rightarrow> pubkey list \<Rightarrow> ((pubkey \<times> pubkey) \<rightharpoonup> pubkey) \<Rightarrow> unit \<Rightarrow> compiled_instruction \<Rightarrow> stop + unit" where
  "check_set_rewards env allAccs mints u ix =
     ebind (claim_of env allAccs ix) (\<lambda>oc.
       case oc of
         None \<Rightarrow> Inl (Refuse ''Invalid lazy distributor'')
       | Some c \<Rightarrow>
           (case (cl_lazyDist c, cl_recipient c) of
              (Some lazyDist, Some recipient) \<Rightarrow>
                if lazyDist \<noteq> oe_lazyDistributor env then Inl (Refuse ''Invalid lazy distributor'')
                else
                  ebind (actual_rewards env mints c recipient lazyDist) (\<lambda>currentRewards.
                    if cl_proposed c > currentRewards
                    then Inl (Refuse (''Invalid amount, '' @ nat_str (cl_proposed c) @
                           '' is greater than actual rewards '' @ nat_str currentRewards))
                    else Inr ())
            | _ \<Rightarrow> Inl (Refuse ''Invalid lazy distributor'')))"

section \<open>signTransaction\<close>

text \<open>The answer: the transaction, and whether it carries the oracle's signature.\<close>

datatype sign_result = Refused string | Approved wire_tx bool

definition resolve_accounts :: "oracle_env \<Rightarrow> bytes \<Rightarrow> stop + (wire_tx \<times> pubkey list)" where
  "resolve_accounts env data =
     ebind (lift_throw (oe_deserialize env data)) (\<lambda>tx.
     ebind (lift_throw (emap (oe_getAddressLookupTable env) (wt_tableLookups tx))) (\<lambda>luts.
     ebind (lift_throw (oe_getAccountKeys env tx (List.map_filter id luts))) (\<lambda>allAccs.
       Inr (tx, allAccs))))"

definition sign_checked :: "oracle_env \<Rightarrow> wire_tx \<Rightarrow> pubkey list \<Rightarrow> stop + (wire_tx \<times> bool)" where
  "sign_checked env tx allAccs =
     ebind (efold (scan_ix env allAccs) \<lparr>ss_setRewardIxs = [], ss_mints = (\<lambda>_. None)\<rparr> (wt_instructions tx)) (\<lambda>st.
     ebind (efold (check_set_rewards env allAccs (ss_mints st)) () (ss_setRewardIxs st)) (\<lambda>_.
       if js_nth allAccs 0 = Some (oe_oracle env)
       then Inl (Refuse ''Cannot set this oracle as the fee payer'')
       else
         (case oe_sign env tx of
            Inr _ \<Rightarrow> Inr (tx, True)
          | Inl (Err m) \<Rightarrow>
              if js_includes m ''Cannot sign with non signer key'' then Inr (tx, False) else Inl (Throw (Err m))
          | Inl e \<Rightarrow> Inl (Throw e))))"

definition signTransaction :: "oracle_env \<Rightarrow> bytes \<Rightarrow> js_error + sign_result" where
  "signTransaction env data =
     (case ebind (resolve_accounts env data) (\<lambda>(tx, allAccs). sign_checked env tx allAccs) of
        Inr (tx, signedByUs) \<Rightarrow> Inr (Approved tx signedByUs)
      | Inl (Refuse m) \<Rightarrow> Inr (Refused m)
      | Inl (Throw e) \<Rightarrow> Inl e)"

section \<open>The signing handlers\<close>

text \<open>What a handler sends; a reply that is sent twice is a list of two.\<close>

datatype body =
    ErrorBody string
  | MessageBody string
  | SignedBody "wire_tx list"
  | RewardsBody "(string \<times> string) option"
  | CurrentRewardsBody nat
  | BulkRewardsBody "(string \<times> nat) list"
  | CountBody nat

type_synonym reply = "nat \<times> body"

definition signTransactionHandler :: "oracle_env \<Rightarrow> bytes option \<Rightarrow> js_error + reply list" where
  "signTransactionHandler env transaction =
     (case transaction of
        None \<Rightarrow> Inr [(400, ErrorBody ''No transaction field'')]
      | Some data \<Rightarrow>
          ebind (signTransaction env data) (\<lambda>result.
            case result of
              Refused m \<Rightarrow> Inr [(400, ErrorBody (if m = [] then ''Error signing transaction'' else m))]
            | Approved tx _ \<Rightarrow> Inr [(200, SignedBody [tx])]))"

fun js_message :: "js_error \<Rightarrow> string" where
  "js_message (Err m) = m"
| "js_message (Rejected m) = m"
| "js_message _ = []"

definition sign_or_message :: "oracle_env \<Rightarrow> bytes \<Rightarrow> sign_result" where
  "sign_or_message env data = (case signTransaction env data of Inr r \<Rightarrow> r | Inl e \<Rightarrow> Refused (js_message e))"

fun first_refused :: "nat \<Rightarrow> sign_result list \<Rightarrow> (nat \<times> string) option" where
  "first_refused i [] = None"
| "first_refused i (Refused m # rs) = Some (i, m)"
| "first_refused i (Approved _ _ # rs) = first_refused (Suc i) rs"

fun approved_txs :: "sign_result list \<Rightarrow> wire_tx list" where
  "approved_txs [] = []"
| "approved_txs (Approved tx _ # rs) = tx # approved_txs rs"
| "approved_txs (Refused _ # rs) = approved_txs rs"

definition signBulkTransactionsHandler :: "oracle_env \<Rightarrow> bytes list option \<Rightarrow> reply list" where
  "signBulkTransactionsHandler env transactions =
     (case transactions of
        None \<Rightarrow> [(400, ErrorBody ''No transactions field'')]
      | Some txs \<Rightarrow>
          let results = map (sign_or_message env) txs
          in case first_refused 0 results of
               Some (i, m) \<Rightarrow>
                 [(400, ErrorBody (if m = [] then ''Error signing transaction index: '' @ nat_str i
                    else m @ [CHR 0x0A, CHR 0x0A] @ ''Transaction index: '' @ nat_str i))]
             | None \<Rightarrow> [(200, SignedBody (approved_txs results))])"

section \<open>The rewards handlers\<close>

text \<open>The database, as the handlers use it.\<close>

record oracle_db =
  db_getRewardsByOwner :: "string \<Rightarrow> js_error + (string \<times> string)"
  db_getRewardsByDestination :: "string \<Rightarrow> js_error + (string \<times> string)"
  db_getActiveDevices :: "string option \<Rightarrow> js_error + nat"
  db_getBulkRewards :: "string list \<Rightarrow> js_error + (string \<times> nat) list"

text \<open>A query parameter that is absent or empty is falsy.\<close>

definition falsy :: "string option \<Rightarrow> bool" where
  "falsy x \<longleftrightarrow> x = None \<or> x = Some []"

definition getRewardsHandler :: "oracle_db \<Rightarrow> string option \<Rightarrow> string option \<Rightarrow> js_error + reply list" where
  "getRewardsHandler db owner destination =
     (if \<not> falsy owner then
        ebind (db_getRewardsByOwner db (the owner)) (\<lambda>rewards. Inr [(200, RewardsBody (Some rewards))])
      else if \<not> falsy destination then
        ebind (db_getRewardsByDestination db (the destination)) (\<lambda>rewards. Inr [(200, RewardsBody (Some rewards))])
      else Inr [(400, ErrorBody ''Must provide owner or destination''), (400, RewardsBody None)])"

definition getActiveIotDevicesHandler :: "oracle_db \<Rightarrow> js_error + reply list" where
  "getActiveIotDevicesHandler db = ebind (db_getActiveDevices db (Some ''iot'')) (\<lambda>n. Inr [(200, CountBody n)])"

definition getActiveMobileDevicesHandler :: "oracle_db \<Rightarrow> js_error + reply list" where
  "getActiveMobileDevicesHandler db = ebind (db_getActiveDevices db (Some ''mobile'')) (\<lambda>n. Inr [(200, CountBody n)])"

definition getActiveDevicesHandler :: "oracle_db \<Rightarrow> js_error + reply list" where
  "getActiveDevicesHandler db = ebind (db_getActiveDevices db None) (\<lambda>n. Inr [(200, CountBody n)])"

text \<open>
  \<open>deriveKey\<close> is \<open>keyToAssetKey\<close> with the key serialization of the query, \<open>validKey\<close> whether
  \<open>new PublicKey\<close> accepts the text.
\<close>

definition getCurrentRewardsHandler ::
  "oracle_env \<Rightarrow> (string \<Rightarrow> string \<Rightarrow> pubkey) \<Rightarrow> (string \<Rightarrow> bool) \<Rightarrow> string option \<Rightarrow> string option \<Rightarrow> string option
   \<Rightarrow> js_error + reply list" where
  "getCurrentRewardsHandler env deriveKey validKey assetId entityKey keySerialization =
     (let ser = (if falsy keySerialization then ''b58'' else the keySerialization)
      in if falsy assetId \<and> falsy entityKey
         then Inr [(400, ErrorBody ''Must provide either `entityKey` or `assetId` parameter'')]
         else
           ebind (if \<not> falsy entityKey
                  then ebind (oe_fetchKeyToAsset env (deriveKey (the entityKey) ser)) (\<lambda>kta. Inr (ka_asset kta))
                  else Inr (the assetId)) (\<lambda>asset.
             if \<not> validKey asset then Inr [(400, ErrorBody ''Invalid asset id'')]
             else ebind (oe_getCurrentRewards env asset) (\<lambda>r. Inr [(200, CurrentRewardsBody r)])))"

definition getAllRewardsHandler :: "oracle_db \<Rightarrow> string list option \<Rightarrow> js_error + reply list" where
  "getAllRewardsHandler db entityKeys =
     (case entityKeys of
        None \<Rightarrow> Inr [(400, ErrorBody ''No entityKeys field'')]
      | Some ks \<Rightarrow> ebind (db_getBulkRewards db ks) (\<lambda>rs. Inr [(200, BulkRewardsBody rs)]))"

section \<open>signHandler\<close>

text \<open>A message the oracle signs with its key, and the signed form that is sent.\<close>

record reward_message =
  rm_lazyDistributor :: pubkey
  rm_oracleIndex :: nat
  rm_currentRewards :: nat
  rm_asset :: pubkey

datatype sign_reply = NotFound | Failed500 | SignedMessages pubkey "reward_message list"

text \<open>\<open>new BN(undefined)\<close>, for an entity the database does not know, is 0.\<close>

definition signHandler ::
  "oracle_env \<Rightarrow> oracle_db \<Rightarrow> nat \<Rightarrow> (pubkey list \<Rightarrow> js_error + key_to_asset option list) \<Rightarrow> pubkey list \<Rightarrow> sign_reply" where
  "signHandler env db oracleIndex fetchMultiple keyToAssetKeys =
     (case fetchMultiple keyToAssetKeys of
        Inl _ \<Rightarrow> Failed500
      | Inr ktas \<Rightarrow>
          if None \<in> set ktas then NotFound
          else
            let keyToAssets = map the ktas;
                entityKeys = map (\<lambda>k. oe_decodeEntityKey env (ka_entityKey k) (ka_keySerialization k)) keyToAssets
            in case db_getBulkRewards db entityKeys of
                 Inl _ \<Rightarrow> Failed500
               | Inr rewards \<Rightarrow>
                   SignedMessages (oe_oracle env)
                     (map (\<lambda>(k, ek). \<lparr>rm_lazyDistributor = oe_lazyDistributor env, rm_oracleIndex = oracleIndex,
                        rm_currentRewards = (case map_of rewards ek of None \<Rightarrow> 0 | Some n \<Rightarrow> n),
                        rm_asset = ka_asset k\<rparr>) (zip keyToAssets entityKeys)))"

section \<open>Lemmas: what a signature implies\<close>

text \<open>The decoded instruction of a program the oracle looks at; \<open>None\<close> for ComputeBudget.\<close>

definition ix_decoded :: "oracle_env \<Rightarrow> pubkey list \<Rightarrow> compiled_instruction \<Rightarrow> decoded_ix option" where
  "ix_decoded env accs ix =
     (case js_nth accs (ci_programIdIndex ix) of
        None \<Rightarrow> None
      | Some p \<Rightarrow> if p = oe_CB_PID env then None else decode_ix env p (ci_data ix))"

definition allowed_ix :: "oracle_env \<Rightarrow> pubkey list \<Rightarrow> compiled_instruction \<Rightarrow> bool" where
  "allowed_ix env accs ix \<longleftrightarrow>
     (\<exists>p. js_nth accs (ci_programIdIndex ix) = Some p \<and>
        (p = oe_CB_PID env \<or>
         p \<in> {oe_LD_PID env, oe_RO_PID env} \<and> (\<exists>d. decode_ix env p (ci_data ix) = Some d \<and> dc_name d \<in> set ALLOWED)))"

definition sets_rewards :: "oracle_env \<Rightarrow> pubkey list \<Rightarrow> compiled_instruction \<Rightarrow> bool" where
  "sets_rewards env accs ix \<longleftrightarrow> (\<exists>d. ix_decoded env accs ix = Some d \<and> isSetRewards (dc_name d))"

definition oracle_pays_compression :: "oracle_env \<Rightarrow> pubkey list \<Rightarrow> compiled_instruction \<Rightarrow> bool" where
  "oracle_pays_compression env accs ix \<longleftrightarrow>
     (\<exists>d. ix_decoded env accs ix = Some d \<and> dc_name d = ''initializeCompressionRecipientV0'')
     \<and> acc_opt accs ix (il_initCompression_payer (oe_layout env)) = Some (oe_oracle env)"

lemma acc_at_Inr: "acc_at accs ix i = Inr k \<longleftrightarrow> acc_opt accs ix i = Some k"
  by (auto simp: acc_at_def acc_opt_def split: option.splits)

lemma program_of_Inr: "program_of accs ix = Inr p \<longleftrightarrow> js_nth accs (ci_programIdIndex ix) = Some p"
  by (auto simp: program_of_def split: option.splits)

lemma scan_init_ixs:
  "scan_init_recipient env accs ix st = Inr st' \<Longrightarrow> ss_setRewardIxs st' = ss_setRewardIxs st"
  "scan_init_compression env accs ix d st = Inr st' \<Longrightarrow>
     ss_setRewardIxs st' = ss_setRewardIxs st \<and>
     (oe_willPayRecipient env \<or> acc_opt accs ix (il_initCompression_payer (oe_layout env)) \<noteq> Some (oe_oracle env))"
  by (auto simp: scan_init_recipient_def scan_init_compression_def Let_def acc_at_Inr split: if_splits elim!: ebind_InrE)

lemma scan_ix_cases:
  assumes "scan_ix env accs st ix = Inr st'"
  obtains (cb) "js_nth accs (ci_programIdIndex ix) = Some (oe_CB_PID env)" and "st' = st"
    | (other) p d st1 st2 where "js_nth accs (ci_programIdIndex ix) = Some p" and "p \<noteq> oe_CB_PID env"
        and "p \<in> {oe_LD_PID env, oe_RO_PID env}" and "decode_ix env p (ci_data ix) = Some d"
        and "dc_name d \<in> set ALLOWED"
        and "st1 = (if isSetRewards (dc_name d) then st\<lparr>ss_setRewardIxs := ss_setRewardIxs st @ [ix]\<rparr> else st)"
        and "(if dc_name d = ''initializeRecipientV0'' then scan_init_recipient env accs ix st1 else Inr st1) = Inr st2"
        and "(if dc_name d = ''initializeCompressionRecipientV0'' then scan_init_compression env accs ix d st2 else Inr st2) = Inr st'"
proof -
  from assms obtain p where p: "js_nth accs (ci_programIdIndex ix) = Some p"
    by (auto simp: scan_ix_def program_of_Inr elim!: ebind_InrE)
  show thesis
  proof (cases "p = oe_CB_PID env")
    case True
    with assms p show thesis by (intro cb) (auto simp: scan_ix_def program_of_def)
  next
    case False
    from False assms p have pr: "p \<in> {oe_LD_PID env, oe_RO_PID env}"
      by (auto simp: scan_ix_def program_of_def split: if_splits)
    from False assms p obtain d where d: "decode_ix env p (ci_data ix) = Some d" "dc_name d \<in> set ALLOWED"
      by (auto simp: scan_ix_def program_of_def split: if_splits option.splits)
    let ?st1 = "if isSetRewards (dc_name d) then st\<lparr>ss_setRewardIxs := ss_setRewardIxs st @ [ix]\<rparr> else st"
    from assms p False pr d have "ebind (if dc_name d = ''initializeRecipientV0'' then scan_init_recipient env accs ix ?st1 else Inr ?st1)
        (\<lambda>st2. if dc_name d = ''initializeCompressionRecipientV0'' then scan_init_compression env accs ix d st2 else Inr st2) = Inr st'"
      by (auto simp: scan_ix_def program_of_def Let_def)
    then show thesis by (rule ebind_InrE) (rule other[OF p False pr d refl])
  qed
qed

lemma scan_ix_spec:
  assumes "scan_ix env accs st ix = Inr st'"
  shows "allowed_ix env accs ix
    \<and> ss_setRewardIxs st' = ss_setRewardIxs st @ (if sets_rewards env accs ix then [ix] else [])
    \<and> (oe_willPayRecipient env \<or> \<not> oracle_pays_compression env accs ix)"
  using assms
proof (cases rule: scan_ix_cases)
  case cb
  then show ?thesis by (simp add: allowed_ix_def sets_rewards_def ix_decoded_def oracle_pays_compression_def)
next
  case (other p d st1 st2)
  have d: "ix_decoded env accs ix = Some d" using other by (simp add: ix_decoded_def)
  have "ss_setRewardIxs st2 = ss_setRewardIxs st1" using other(7) by (auto dest: scan_init_ixs split: if_splits)
  moreover have "ss_setRewardIxs st' = ss_setRewardIxs st2" using other(8) by (auto dest: scan_init_ixs split: if_splits)
  moreover have "oe_willPayRecipient env \<or> \<not> oracle_pays_compression env accs ix"
    using other(8) d by (auto simp: oracle_pays_compression_def dest: scan_init_ixs)
  ultimately show ?thesis using other d by (auto simp: allowed_ix_def sets_rewards_def)
qed

lemma scan_spec:
  assumes "efold (scan_ix env accs) st ixs = Inr st'"
  shows "(\<forall>ix \<in> set ixs. allowed_ix env accs ix \<and> (oe_willPayRecipient env \<or> \<not> oracle_pays_compression env accs ix))
    \<and> ss_setRewardIxs st' = ss_setRewardIxs st @ filter (sets_rewards env accs) ixs"
  using assms
proof (induction ixs arbitrary: st)
  case Nil
  then show ?case by simp
next
  case (Cons ix ixs)
  from Cons.prems obtain u where u: "scan_ix env accs st ix = Inr u" "efold (scan_ix env accs) u ixs = Inr st'"
    by (auto elim: ebind_InrE)
  from Cons.IH[OF u(2)] scan_ix_spec[OF u(1)] show ?case by auto
qed

lemma efold_unit: "efold f () xs = Inr u \<Longrightarrow> x \<in> set xs \<Longrightarrow> f () x = Inr ()"
  by (induction xs) (auto elim!: ebind_InrE)

text \<open>
  A set-rewards instruction the oracle may sign: it names this oracle and its lazy distributor, and
  its amount is at most what the database has. The wrapper's amount is looked up by the entity key
  whose derived address is the instruction's key-to-asset account; the direct form's by an asset.
\<close>

definition covered_wrapper :: "oracle_env \<Rightarrow> pubkey list \<Rightarrow> compiled_instruction \<Rightarrow> bool" where
  "covered_wrapper env accs ix \<longleftrightarrow>
     js_nth accs (ci_programIdIndex ix) = Some (oe_RO_PID env)
     \<and> acc_opt accs ix (il_wrapper_oracle (oe_layout env)) = Some (oe_oracle env)
     \<and> acc_opt accs ix (il_wrapper_lazyDistributor (oe_layout env)) = Some (oe_lazyDistributor env)
     \<and> (\<exists>d k kta n. oe_roDecode env (ci_data ix) = Some d
          \<and> acc_opt accs ix (il_wrapper_keyToAsset (oe_layout env)) = Some k
          \<and> oe_fetchKeyToAsset env k = Inr kta \<and> oe_keyToAssetKey env (ka_entityKey kta) = k
          \<and> oe_getCurrentRewardsByEntity env (oe_decodeEntityKey env (ka_entityKey kta) (ka_keySerialization kta)) = Inr n
          \<and> dc_currentRewards d \<le> n)"

definition covered_direct :: "oracle_env \<Rightarrow> pubkey list \<Rightarrow> compiled_instruction \<Rightarrow> bool" where
  "covered_direct env accs ix \<longleftrightarrow>
     js_nth accs (ci_programIdIndex ix) = Some (oe_LD_PID env)
     \<and> acc_opt accs ix (il_setRewards_oracle (oe_layout env)) = Some (oe_oracle env)
     \<and> acc_opt accs ix (il_setRewards_lazyDistributor (oe_layout env)) = Some (oe_lazyDistributor env)
     \<and> (\<exists>d asset n. oe_ldDecode env (ci_data ix) = Some d \<and> oe_getCurrentRewards env asset = Inr n
          \<and> dc_currentRewards d \<le> n)"

lemma lift_throw_Inr [simp]: "lift_throw r = Inr x \<longleftrightarrow> r = Inr x"
  by (cases r) (simp_all add: lift_throw_def)

lemma decoded_rewards_Inr: "decoded_rewards d = Inr n \<longleftrightarrow> (\<exists>dc. d = Some dc \<and> n = dc_currentRewards dc)"
  by (auto simp: decoded_rewards_def split: option.splits)

lemma claim_of_cases:
  assumes "claim_of env accs ix = Inr (Some c)"
  shows "js_nth accs (ci_programIdIndex ix) = Some (oe_RO_PID env)
      \<and> acc_opt accs ix (il_wrapper_oracle (oe_layout env)) = Some (oe_oracle env)
      \<and> wrapper_claim env accs ix = Inr c
    \<or> js_nth accs (ci_programIdIndex ix) = Some (oe_LD_PID env)
      \<and> acc_opt accs ix (il_setRewards_oracle (oe_layout env)) = Some (oe_oracle env)
      \<and> direct_claim env accs ix = Inr c"
  using assms by (auto simp: claim_of_def Let_def acc_at_Inr program_of_Inr split: if_splits elim!: ebind_InrE)

lemma actual_rewards_entity:
  assumes "actual_rewards env mints c r l = Inr n" and "cl_entityKey c = Some ek" and "cl_keyToAsset c = Some k"
  shows "\<exists>kta. oe_fetchKeyToAsset env k = Inr kta
    \<and> oe_getCurrentRewardsByEntity env (oe_decodeEntityKey env ek (ka_keySerialization kta)) = Inr n"
  using assms by (auto simp: actual_rewards_def elim!: ebind_InrE)

lemma actual_rewards_direct:
  assumes "actual_rewards env mints c r l = Inr n" and "cl_entityKey c = None"
  shows "\<exists>asset. oe_getCurrentRewards env asset = Inr n"
  using assms by (auto simp: actual_rewards_def elim!: ebind_InrE)

lemma check_covered:
  assumes "check_set_rewards env accs mints () ix = Inr ()"
  shows "covered_wrapper env accs ix \<or> covered_direct env accs ix"
proof -
  from assms obtain c r n where c: "claim_of env accs ix = Inr (Some c)"
    and l: "cl_lazyDist c = Some (oe_lazyDistributor env)"
    and a: "actual_rewards env mints c r (oe_lazyDistributor env) = Inr n" and le: "cl_proposed c \<le> n"
    by (auto simp: check_set_rewards_def split: option.splits if_splits elim!: ebind_InrE)
  from claim_of_cases[OF c] show ?thesis
  proof (elim disjE conjE)
    assume p: "js_nth accs (ci_programIdIndex ix) = Some (oe_RO_PID env)"
      "acc_opt accs ix (il_wrapper_oracle (oe_layout env)) = Some (oe_oracle env)"
      and w: "wrapper_claim env accs ix = Inr c"
    from w obtain d k kta where w': "oe_roDecode env (ci_data ix) = Some d"
      "acc_opt accs ix (il_wrapper_keyToAsset (oe_layout env)) = Some k" "oe_fetchKeyToAsset env k = Inr kta"
      "oe_keyToAssetKey env (ka_entityKey kta) = k" "cl_proposed c = dc_currentRewards d"
      "cl_lazyDist c = acc_opt accs ix (il_wrapper_lazyDistributor (oe_layout env))"
      "cl_entityKey c = Some (ka_entityKey kta)" "cl_keyToAsset c = Some k"
      by (auto simp: wrapper_claim_def Let_def acc_at_Inr decoded_rewards_Inr split: if_splits elim!: ebind_InrE)
    from actual_rewards_entity[OF a w'(7,8)] w' p l le show ?thesis
      by (intro disjI1) (auto simp: covered_wrapper_def)
  next
    assume p: "js_nth accs (ci_programIdIndex ix) = Some (oe_LD_PID env)"
      "acc_opt accs ix (il_setRewards_oracle (oe_layout env)) = Some (oe_oracle env)"
      and w: "direct_claim env accs ix = Inr c"
    from w obtain d where w': "oe_ldDecode env (ci_data ix) = Some d" "cl_proposed c = dc_currentRewards d"
      "cl_lazyDist c = acc_opt accs ix (il_setRewards_lazyDistributor (oe_layout env))" "cl_entityKey c = None"
      by (auto simp: direct_claim_def Let_def decoded_rewards_Inr elim!: ebind_InrE)
    from actual_rewards_direct[OF a w'(4)] w' p l le show ?thesis
      by (intro disjI2) (auto simp: covered_direct_def)
  qed
qed

text \<open>What the oracle's approval of a transaction guarantees.\<close>

definition approved_ok :: "oracle_env \<Rightarrow> wire_tx \<Rightarrow> pubkey list \<Rightarrow> bool" where
  "approved_ok env tx accs \<longleftrightarrow>
     (\<forall>ix \<in> set (wt_instructions tx). allowed_ix env accs ix
        \<and> (sets_rewards env accs ix \<longrightarrow> covered_wrapper env accs ix \<or> covered_direct env accs ix)
        \<and> (oe_willPayRecipient env \<or> \<not> oracle_pays_compression env accs ix))
     \<and> js_nth accs 0 \<noteq> Some (oe_oracle env)"

lemma sign_checked_ok:
  assumes "sign_checked env tx accs = Inr (tx', s)"
  shows "tx' = tx \<and> approved_ok env tx accs"
proof -
  from assms obtain st u where f: "efold (scan_ix env accs) \<lparr>ss_setRewardIxs = [], ss_mints = (\<lambda>_. None)\<rparr> (wt_instructions tx) = Inr st"
    and c: "efold (check_set_rewards env accs (ss_mints st)) () (ss_setRewardIxs st) = Inr u"
    and n: "js_nth accs 0 \<noteq> Some (oe_oracle env)" and t: "tx' = tx"
    by (auto simp: sign_checked_def split: if_splits sum.splits js_error.splits elim!: ebind_InrE)
  note sp = scan_spec[OF f]
  have "covered_wrapper env accs ix \<or> covered_direct env accs ix"
    if "ix \<in> set (wt_instructions tx)" "sets_rewards env accs ix" for ix
    using that sp by (intro check_covered[OF efold_unit[OF c]]) auto
  with sp n t show ?thesis by (simp add: approved_ok_def)
qed


section \<open>Examples\<close>

text \<open>
  The account positions of the deployed programs, and a decoder for the examples: the first data byte
  is the instruction, the second its amount.
\<close>

definition deployed_layout :: idl_layout where
  "deployed_layout = \<lparr>il_initRecipient_lazyDistributor = 1, il_initRecipient_mint = 3, il_initRecipient_recipient = 2,
     il_initCompression_lazyDistributor = 1, il_initCompression_payer = 0, il_initCompression_merkleTree = 3,
     il_initCompression_recipient = 2, il_setRewards_oracle = 3, il_setRewards_lazyDistributor = 1,
     il_setRewards_recipient = 2, il_wrapper_oracle = 0, il_wrapper_lazyDistributor = 1, il_wrapper_recipient = 2,
     il_wrapper_keyToAsset = 3\<rparr>"

definition demo_decode :: "bytes \<Rightarrow> decoded_ix option" where
  "demo_decode data =
     (case data of
        [n, amount] \<Rightarrow>
          Some \<lparr>dc_name = (if n = 1 then ''setCurrentRewardsV0'' else if n = 2 then ''initializeRecipientV0''
                           else if n = 3 then ''distributeRewardsV0'' else ''updateLazyDistributorV0''),
                dc_index = 0, dc_currentRewards = unat amount\<rparr>
      | _ \<Rightarrow> None)"

definition demo_env :: "wire_tx \<Rightarrow> oracle_env" where
  "demo_env tx = \<lparr>oe_oracle = ''oracle'', oe_lazyDistributor = ''ld'', oe_willPayRecipient = False,
     oe_layout = deployed_layout, oe_CB_PID = ''CB'', oe_LD_PID = ''LDP'', oe_RO_PID = ''ROP'',
     oe_deserialize = (\<lambda>_. Inr tx), oe_getAddressLookupTable = (\<lambda>_. Inr None),
     oe_getAccountKeys = (\<lambda>tx _. Inr (wt_staticKeys tx)), oe_ldDecode = demo_decode, oe_roDecode = (\<lambda>_. None),
     oe_getLeafAssetId = (\<lambda>t _. t), oe_fetchKeyToAsset = (\<lambda>_. Inl Timeout), oe_keyToAssetKey = (\<lambda>_. ''k''),
     oe_decodeEntityKey = (\<lambda>_ _. ''e''), oe_fetchRecipientAsset = (\<lambda>_. Inr (Some ''asset'')),
     oe_getCurrentRewardsByEntity = (\<lambda>_. Inr 0), oe_getCurrentRewards = (\<lambda>_. Inr 100), oe_sign = (\<lambda>_. Inr ())\<rparr>"

definition demo_tx :: "nat list \<Rightarrow> bytes \<Rightarrow> wire_tx" where
  "demo_tx accounts data = \<lparr>wt_staticKeys = [''user'', ''ld'', ''rec'', ''oracle'', ''LDP'', ''other''],
     wt_tableLookups = [],
     wt_instructions = [\<lparr>ci_programIdIndex = 4, ci_accountKeyIndexes = accounts, ci_data = data\<rparr>]\<rparr>"

lemmas demo_oracle_defs = demo_env_def demo_tx_def deployed_layout_def demo_decode_def signTransaction_def
  resolve_accounts_def sign_checked_def scan_ix_def program_of_def decode_ix_def ALLOWED_def isSetRewards_def
  scan_init_recipient_def check_set_rewards_def claim_of_def direct_claim_def decoded_rewards_def
  actual_rewards_def acc_at_def acc_opt_def js_nth_def lift_throw_def List.map_filter_simps Let_def

lemma demo_signs: "signTransaction (demo_env (demo_tx [0, 1, 2, 3] [1, 50])) [] = Inr (Approved (demo_tx [0, 1, 2, 3] [1, 50]) True)"
  by (simp add: demo_oracle_defs)


text \<open>
  The guard against paying is incomplete: configured not to pay for recipients, the oracle signs
  a \<open>setCurrentRewardsV0\<close> and an \<open>initializeRecipientV0\<close> whose payer account (position 0) is the oracle
  itself, so its signature lets it be charged for them.
\<close>

theorem oracle_can_be_made_payer:
  "signTransaction (demo_env (demo_tx [3, 1, 2, 3] [1, 50])) [] = Inr (Approved (demo_tx [3, 1, 2, 3] [1, 50]) True)
   \<and> signTransaction (demo_env (demo_tx [3, 1, 2, 5] [2, 0])) [] = Inr (Approved (demo_tx [3, 1, 2, 5] [2, 0]) True)
   \<and> \<not> oe_willPayRecipient (demo_env (demo_tx [3, 1, 2, 3] [1, 50]))"
  by (simp add: demo_oracle_defs)

text \<open>
  With several oracles the protocol cannot complete: a transaction that also sets rewards for
  another oracle is never approved, so no oracle signs the combined transaction the clients form.
\<close>

theorem signTransaction_rejects_other_oracles:
  assumes "resolve_accounts env data = Inr (tx, accs)" and "ix \<in> set (wt_instructions tx)" and "sets_rewards env accs ix"
    and "acc_opt accs ix (il_wrapper_oracle (oe_layout env)) \<noteq> Some (oe_oracle env)"
    and "acc_opt accs ix (il_setRewards_oracle (oe_layout env)) \<noteq> Some (oe_oracle env)"
  shows "signTransaction env data \<noteq> Inr (Approved tx' s)"
proof
  assume "signTransaction env data = Inr (Approved tx' s)"
  then obtain tx0 accs0 where r: "resolve_accounts env data = Inr (tx0, accs0)"
    and c: "sign_checked env tx0 accs0 = Inr (tx', s)"
    by (auto simp: signTransaction_def split: sum.splits stop.splits prod.splits elim!: ebind_InrE)
  from r assms(1) have "tx0 = tx" "accs0 = accs" by auto
  with sign_checked_ok[OF c] assms(2-5) show False
    by (auto simp: approved_ok_def covered_wrapper_def covered_direct_def)
qed

theorem signTransaction_rejects_other_oracles_witness:
  "signTransaction (demo_env (demo_tx [0, 1, 2, 5] [1, 50])) [] \<noteq> Inr (Approved (demo_tx [0, 1, 2, 5] [1, 50]) True)"
proof (rule signTransaction_rejects_other_oracles)
  show "resolve_accounts (demo_env (demo_tx [0, 1, 2, 5] [1, 50])) [] =
      Inr (demo_tx [0, 1, 2, 5] [1, 50], wt_staticKeys (demo_tx [0, 1, 2, 5] [1, 50]))"
    by (simp add: demo_oracle_defs)
  show "\<lparr>ci_programIdIndex = 4, ci_accountKeyIndexes = [0, 1, 2, 5], ci_data = [1, 50]\<rparr>
      \<in> set (wt_instructions (demo_tx [0, 1, 2, 5] [1, 50]))"
    by (simp add: demo_tx_def)
qed (simp_all add: demo_oracle_defs sets_rewards_def ix_decoded_def)

section \<open>Lemmas: the handlers\<close>

lemma first_refused_None: "first_refused i rs = None \<longleftrightarrow> (\<forall>r \<in> set rs. \<exists>tx s. r = Approved tx s)"
  by (induction i rs rule: first_refused.induct) auto

text \<open>
  C27. Bulk signing is all or nothing: a 200 answer carries one transaction for each request, in
  order, each one approved on its own by \<open>signTransaction\<close>; a request that is refused or throws makes
  the whole answer a 400.
\<close>

theorem signBulk_all_or_nothing:
  "(\<exists>txs. signBulkTransactionsHandler env (Some datas) = [(200, SignedBody txs)]
      \<and> list_all2 (\<lambda>data tx. \<exists>s. signTransaction env data = Inr (Approved tx s)) datas txs)
   \<or> (\<exists>m. signBulkTransactionsHandler env (Some datas) = [(400, ErrorBody m)]
      \<and> (\<exists>data \<in> set datas. \<forall>tx s. signTransaction env data \<noteq> Inr (Approved tx s)))"
proof (cases "first_refused 0 (map (sign_or_message env) datas)")
  case None
  then have all: "\<forall>data \<in> set datas. \<exists>tx s. sign_or_message env data = Approved tx s"
    unfolding first_refused_None by auto
  have "list_all2 (\<lambda>data tx. \<exists>s. signTransaction env data = Inr (Approved tx s)) datas
      (approved_txs (map (sign_or_message env) datas))"
    using all
  proof (induction datas)
    case (Cons data datas)
    then obtain tx s where "sign_or_message env data = Approved tx s" by auto
    moreover from this have "signTransaction env data = Inr (Approved tx s)"
      by (auto simp: sign_or_message_def split: sum.splits)
    ultimately show ?case using Cons by auto
  qed simp
  with None show ?thesis by (intro disjI1) (simp add: signBulkTransactionsHandler_def)
next
  case (Some im)
  obtain i m where im: "im = (i, m)" by (cases im)
  from Some have "\<not> (\<forall>r \<in> set (map (sign_or_message env) datas). \<exists>tx s. r = Approved tx s)"
    using first_refused_None[of 0 "map (sign_or_message env) datas"] by simp
  then obtain data where d: "data \<in> set datas" "\<forall>tx s. sign_or_message env data \<noteq> Approved tx s" by auto
  then have "\<forall>tx s. signTransaction env data \<noteq> Inr (Approved tx s)"
    by (auto simp: sign_or_message_def)
  with d(1) Some im show ?thesis by (intro disjI2) (auto simp: signBulkTransactionsHandler_def)
qed

text \<open>
  Every message \<open>signHandler\<close> signs states the database's reward for the entity of its asset, for
  this distributor; there is one for each requested key, in order.
\<close>

theorem signHandler_messages:
  assumes "signHandler env db oi fetchMultiple keys = SignedMessages o' ms"
  shows "\<exists>ktas rewards. fetchMultiple keys = Inr (map Some ktas)
    \<and> db_getBulkRewards db (map (\<lambda>k. oe_decodeEntityKey env (ka_entityKey k) (ka_keySerialization k)) ktas) = Inr rewards
    \<and> list_all2 (\<lambda>k m. rm_asset m = ka_asset k \<and> rm_lazyDistributor m = oe_lazyDistributor env \<and> rm_oracleIndex m = oi
         \<and> rm_currentRewards m = (case map_of rewards (oe_decodeEntityKey env (ka_entityKey k) (ka_keySerialization k)) of
              None \<Rightarrow> 0 | Some n \<Rightarrow> n)) ktas ms"
proof -
  from assms obtain os where f: "fetchMultiple keys = Inr os" "None \<notin> set os"
    by (auto simp: signHandler_def split: sum.splits if_splits)
  have os: "os = map Some (map the os)" using f(2) by (induction os) auto
  let ?ek = "\<lambda>k. oe_decodeEntityKey env (ka_entityKey k) (ka_keySerialization k)"
  from assms f obtain rewards where r: "db_getBulkRewards db (map ?ek (map the os)) = Inr rewards"
    and ms: "ms = map (\<lambda>(k, ek). \<lparr>rm_lazyDistributor = oe_lazyDistributor env, rm_oracleIndex = oi,
        rm_currentRewards = (case map_of rewards ek of None \<Rightarrow> 0 | Some n \<Rightarrow> n), rm_asset = ka_asset k\<rparr>)
          (zip (map the os) (map ?ek (map the os)))"
    by (auto simp: signHandler_def Let_def split: sum.splits)
  have "list_all2 (\<lambda>k m. rm_asset m = ka_asset k \<and> rm_lazyDistributor m = oe_lazyDistributor env \<and> rm_oracleIndex m = oi
         \<and> rm_currentRewards m = (case map_of rewards (?ek k) of None \<Rightarrow> 0 | Some n \<Rightarrow> n)) (map the os) ms"
    unfolding ms by (auto simp: list_all2_conv_all_nth)
  moreover have "fetchMultiple keys = Inr (map Some (map the os))" using f(1) os by (simp only:)
  ultimately show ?thesis using r by blast
qed

definition demo_db :: oracle_db where
  "demo_db = \<lparr>db_getRewardsByOwner = (\<lambda>_. Inr (''9'', ''3'')), db_getRewardsByDestination = (\<lambda>_. Inr (''9'', ''3'')),
     db_getActiveDevices = (\<lambda>_. Inr 0), db_getBulkRewards = (\<lambda>_. Inr [(''e'', 42)])\<rparr>"

definition demo_kta :: key_to_asset where
  "demo_kta = \<lparr>ka_address = ''k'', ka_asset = ''a'', ka_entityKey = [1], ka_keySerialization = ''b58''\<rparr>"

theorem signHandler_messages_witness:
  "\<exists>ms. signHandler (demo_env (demo_tx [] [])) demo_db 0 (\<lambda>_. Inr [Some demo_kta]) [''k''] = SignedMessages ''oracle'' ms
     \<and> length ms = 1 \<and> list_all (\<lambda>m. rm_lazyDistributor m = ''ld'') ms"
proof -
  obtain ms where ms: "signHandler (demo_env (demo_tx [] [])) demo_db 0 (\<lambda>_. Inr [Some demo_kta]) [''k''] = SignedMessages ''oracle'' ms"
    by (simp add: signHandler_def demo_env_def demo_db_def)
  from signHandler_messages[OF ms] obtain ktas where k: "(Inr [Some demo_kta] :: js_error + key_to_asset option list) = Inr (map Some ktas)"
    and l: "list_all2 (\<lambda>k m. rm_lazyDistributor m = oe_lazyDistributor (demo_env (demo_tx [] []))) ktas ms"
    by (elim exE conjE) (erule that, erule list_all2_mono, simp)
  from k have "ktas = [demo_kta]" by auto
  with l have "length ms = 1 \<and> list_all (\<lambda>m. rm_lazyDistributor m = ''ld'') ms"
    by (auto simp: list_all2_Cons1 demo_env_def)
  with ms show ?thesis by blast
qed

text \<open>
  \<open>getRewardsHandler\<close> answers a request with neither owner nor destination twice: after the 400 it
  goes on and sends the (null) rewards as well; every other answer of the rewards handlers is sent once.
\<close>

theorem getRewardsHandler_sends_twice:
  "getRewardsHandler db owner destination = Inr replies \<longrightarrow>
     (length replies = 2 \<longleftrightarrow> falsy owner \<and> falsy destination) \<and> length replies \<in> {1, 2}"
  by (auto simp: getRewardsHandler_def split: if_splits elim!: ebind_InrE)

theorem getRewardsHandler_sends_twice_witness:
  "\<exists>replies. getRewardsHandler demo_db None (Some []) = Inr replies \<and> length replies = 2"
proof -
  have "\<exists>replies. getRewardsHandler demo_db None (Some []) = Inr replies"
    by (simp add: getRewardsHandler_def falsy_def)
  then show ?thesis using getRewardsHandler_sends_twice[of demo_db None "Some []"] by (auto simp: falsy_def)
qed

end
