(* ===== verification/Oracle_Tasks.thy ===== *)
theory Oracle_Tasks
  imports Oracle_Server
begin

text \<open>
  \<^verbatim>\<open>packages/distributor-oracle/src/server.ts\<close>: the claim tasks the oracle builds and signs for the
  task queue, for one hotspot (\<open>handleKta\<close>) and for a wallet or destination
  (\<open>handleTuktukWalletOrDestination\<close>), with their handlers. The instruction builders are third-party
  or generated code; an instruction is represented by the call that builds it.
\<close>

section \<open>Instructions and accounts\<close>

datatype task_ix =
    Memo string pubkey
  | InitializeCompressionRecipient pubkey pubkey
  | InitializeRecipient pubkey pubkey pubkey
  | SetCurrentRewardsWrapperV2 nat nat pubkey pubkey pubkey
  | DistributeCustomDestination pubkey pubkey pubkey
  | DistributeCompressionRewards pubkey pubkey
  | DistributeRewards pubkey pubkey pubkey pubkey
  | Transfer pubkey pubkey number
  | RequeueEntityClaimV1 pubkey pubkey
  | RequeueWalletClaimV0 nat pubkey

record asset =
  as_owner :: pubkey
  as_burnt :: bool
  as_compressed :: bool

text \<open>A row of the key-to-asset table.\<close>

record kta_row =
  kr_address :: pubkey
  kr_asset :: pubkey
  kr_encodedEntityKey :: string

text \<open>The chain, the database and the key derivations.\<close>

record task_env =
  te_claimPayer :: "pubkey \<Rightarrow> pubkey \<Rightarrow> pubkey"
  te_recipientKey :: "pubkey \<Rightarrow> pubkey"
  te_fetchRecipientDestination :: "pubkey \<Rightarrow> js_error + pubkey option"
  te_lamports :: "pubkey \<Rightarrow> js_error + nat option"
  te_ata :: "pubkey \<Rightarrow> pubkey"
  te_rewardsByEntity :: "string \<Rightarrow> js_error + nat"
  te_oracleIndex :: nat
  te_minCrankReward :: "pubkey \<Rightarrow> js_error + nat"
  te_getAsset :: "pubkey \<Rightarrow> js_error + asset option"
  te_keyToAssetForAsset :: "asset \<Rightarrow> pubkey"
  te_findKta :: "pubkey \<Rightarrow> js_error + kta_row option"
  te_rewardableEntities :: "pubkey \<Rightarrow> nat \<Rightarrow> js_error + (pubkey list \<times> nat)"
  te_rewardableByDestination :: "pubkey \<Rightarrow> nat \<Rightarrow> js_error + (pubkey list \<times> nat)"
  te_isKey :: "string \<Rightarrow> bool"

definition DEFAULT_KEY :: pubkey where
  "DEFAULT_KEY = replicate 32 (CHR ''1'')"

definition LAMPORTS_PER_SOL :: number where
  "LAMPORTS_PER_SOL = 1000000000"

definition MIN_RENT :: number where
  "MIN_RENT = fmul (rnd (89088 / 100000000)) LAMPORTS_PER_SOL"

definition RECIPIENT_RENT :: number where
  "RECIPIENT_RENT = fmul (rnd (228288 / 100000000)) LAMPORTS_PER_SOL"

definition ATA_RENT :: number where
  "ATA_RENT = fmul (rnd (2039 / 1000000)) LAMPORTS_PER_SOL"

section \<open>handleKta\<close>

definition neededBalance :: "bool \<Rightarrow> bool \<Rightarrow> number" where
  "neededBalance ataExists recipientExists =
     fadd (fadd (if \<not> ataExists \<or> \<not> recipientExists then MIN_RENT else 0)
            (if recipientExists then 0 else RECIPIENT_RENT))
       (if ataExists then 0 else ATA_RENT)"

text \<open>\<open>distributeIx\<close>: to the custom destination if one is set, else to the owner.\<close>

definition distributeIx :: "asset \<Rightarrow> kta_row \<Rightarrow> pubkey \<Rightarrow> pubkey \<Rightarrow> pubkey option \<Rightarrow> task_ix" where
  "distributeIx ast kta wallet recipient destination =
     (case destination of
        Some dest \<Rightarrow>
          if dest \<noteq> DEFAULT_KEY then DistributeCustomDestination wallet recipient dest
          else if as_compressed ast then DistributeCompressionRewards (kr_asset kta) wallet
          else DistributeRewards wallet recipient (as_owner ast) (kr_asset kta)
      | None \<Rightarrow>
          if as_compressed ast then DistributeCompressionRewards (kr_asset kta) wallet
          else DistributeRewards wallet recipient (as_owner ast) (kr_asset kta))"

definition initIxs :: "asset \<Rightarrow> kta_row \<Rightarrow> pubkey \<Rightarrow> pubkey \<Rightarrow> pubkey option \<Rightarrow> task_ix list" where
  "initIxs ast kta wallet recipient destination =
     (case destination of
        Some _ \<Rightarrow> []
      | None \<Rightarrow> if as_compressed ast then [InitializeCompressionRecipient (kr_asset kta) wallet]
                else [InitializeRecipient recipient (kr_asset kta) wallet])"

text \<open>Who receives the rewards: the custom destination, or the owner.\<close>

definition payee :: "asset \<Rightarrow> pubkey option \<Rightarrow> pubkey" where
  "payee ast destination =
     (case destination of None \<Rightarrow> as_owner ast | Some d \<Rightarrow> if d = DEFAULT_KEY then as_owner ast else d)"

text \<open>
  The instructions of the task. \<open>te_fetchRecipientDestination\<close> is \<open>None\<close> without a recipient account and
  else its destination.
\<close>

definition handleKta :: "task_env \<Rightarrow> asset \<Rightarrow> kta_row \<Rightarrow> pubkey \<Rightarrow> js_error + task_ix list" where
  "handleKta te ast kta taskQueue =
     (let wallet = te_claimPayer te taskQueue (as_owner ast);
          recipient = te_recipientKey te (kr_asset kta)
      in ebind (te_fetchRecipientDestination te recipient) (\<lambda>destination.
         ebind (te_lamports te wallet) (\<lambda>info.
           let balance = (case info of None \<Rightarrow> 0 | Some l \<Rightarrow> l);
               ata = te_ata te (payee ast destination)
           in ebind (te_lamports te ata) (\<lambda>ataInfo.
              if of_nat balance < neededBalance (ataInfo \<noteq> None) (destination \<noteq> None)
              then Inr [Memo (''Couldn'' @ [CHR 0x27] @ ''t claim rewards due to insufficient balance'') wallet]
              else if as_burnt ast
              then Inr [Memo (''Couldn'' @ [CHR 0x27] @ ''t claim rewards due to burnt hotspot'') wallet]
              else
                ebind (te_rewardsByEntity te (kr_encodedEntityKey kta)) (\<lambda>rewards.
                  Inr (initIxs ast kta wallet recipient destination @
                       [SetCurrentRewardsWrapperV2 rewards (te_oracleIndex te) recipient wallet (kr_address kta),
                        distributeIx ast kta wallet recipient destination]))))))"

text \<open>What the task handlers answer.\<close>

datatype task_reply = TaskOk "task_ix list" | TaskStatus nat string

text \<open>
  \<open>tuktukAssetHandler\<close> and \<open>tuktukKtaHandler\<close>: they return the promise of \<open>handleKta\<close> without awaiting
  it, so its rejection is not caught by their \<open>catch\<close>.
\<close>

definition tuktukAssetHandler :: "task_env \<Rightarrow> pubkey \<Rightarrow> pubkey \<Rightarrow> js_error + task_reply" where
  "tuktukAssetHandler te assetId taskQueue =
     (case te_getAsset te assetId of
        Inl _ \<Rightarrow> Inr (TaskStatus 500 ''Request failed'')
      | Inr None \<Rightarrow> Inr (TaskStatus 404 ''Asset not found'')
      | Inr (Some ast) \<Rightarrow>
          (case te_findKta te (te_keyToAssetForAsset te ast) of
             Inl _ \<Rightarrow> Inr (TaskStatus 500 ''Request failed'')
           | Inr None \<Rightarrow> Inr (TaskStatus 404 ''Key to asset not found'')
           | Inr (Some kta) \<Rightarrow> ebind (handleKta te ast kta taskQueue) (\<lambda>ixs. Inr (TaskOk ixs))))"

definition tuktukKtaHandler :: "task_env \<Rightarrow> pubkey \<Rightarrow> pubkey \<Rightarrow> js_error + task_reply" where
  "tuktukKtaHandler te keyToAssetKey taskQueue =
     (case te_findKta te keyToAssetKey of
        Inl _ \<Rightarrow> Inr (TaskStatus 500 ''Request failed'')
      | Inr None \<Rightarrow> Inr (TaskStatus 404 ''Key to asset not found'')
      | Inr (Some kta) \<Rightarrow>
          (case te_getAsset te (kr_asset kta) of
             Inl _ \<Rightarrow> Inr (TaskStatus 500 ''Request failed'')
           | Inr None \<Rightarrow> Inr (TaskStatus 404 ''Asset not found'')
           | Inr (Some ast) \<Rightarrow> ebind (handleKta te ast kta taskQueue) (\<lambda>ixs. Inr (TaskOk ixs))))"

section \<open>handleTuktukWalletOrDestination\<close>

definition crankFees :: "nat \<Rightarrow> pubkey list \<Rightarrow> number" where
  "crankFees minCrankReward entities = fmul (of_nat minCrankReward) (of_nat (length entities + 1))"

definition handleTuktukWalletOrDestination ::
  "task_env \<Rightarrow> pubkey \<Rightarrow> pubkey list \<Rightarrow> nat \<Rightarrow> pubkey \<Rightarrow> pubkey \<Rightarrow> js_error + task_ix list" where
  "handleTuktukWalletOrDestination te wallet entities nextBatchNumber taskQueue task =
     (if \<not> te_isKey te wallet then Inl (Err ''Invalid public key input'')
      else
        let customSignerWallet = te_claimPayer te taskQueue wallet
        in ebind (te_minCrankReward te taskQueue) (\<lambda>minCrankReward.
           ebind (te_lamports te customSignerWallet) (\<lambda>info.
             let balance = (case info of None \<Rightarrow> 0 | Some l \<Rightarrow> l);
                 fees = crankFees minCrankReward entities
             in if of_nat balance < fadd MIN_RENT fees
                then Inr [Memo ''Finished claiming rewards due to insufficient balance'' customSignerWallet]
                else Inr (Transfer customSignerWallet task fees #
                       map (\<lambda>e. RequeueEntityClaimV1 e wallet) entities @
                       (if length entities > 0 then [RequeueWalletClaimV0 nextBatchNumber wallet]
                        else [Memo ''Finished claiming rewards'' customSignerWallet])))))"

definition tuktukWalletHandler :: "task_env \<Rightarrow> pubkey \<Rightarrow> nat option \<Rightarrow> pubkey \<Rightarrow> pubkey \<Rightarrow> task_reply" where
  "tuktukWalletHandler te wallet batchNumber taskQueue task =
     (case ebind (if te_isKey te wallet
                  then te_rewardableEntities te wallet (case batchNumber of None \<Rightarrow> 0 | Some n \<Rightarrow> n)
                  else Inl (Err ''Invalid public key input'')) (\<lambda>(entities, nextBatchNumber).
            handleTuktukWalletOrDestination te wallet entities nextBatchNumber taskQueue task) of
        Inr ixs \<Rightarrow> TaskOk ixs
      | Inl _ \<Rightarrow> TaskStatus 500 ''Request failed'')"

definition tuktukDestinationHandler :: "task_env \<Rightarrow> pubkey \<Rightarrow> nat option \<Rightarrow> pubkey \<Rightarrow> pubkey \<Rightarrow> task_reply" where
  "tuktukDestinationHandler te wallet batchNumber taskQueue task =
     (case ebind (if te_isKey te wallet
                  then te_rewardableByDestination te wallet (case batchNumber of None \<Rightarrow> 0 | Some n \<Rightarrow> n)
                  else Inl (Err ''Invalid public key input'')) (\<lambda>(entities, nextBatchNumber).
            handleTuktukWalletOrDestination te wallet entities nextBatchNumber taskQueue task) of
        Inr ixs \<Rightarrow> TaskOk ixs
      | Inl _ \<Rightarrow> TaskStatus 500 ''Request failed'')"

section \<open>Lemmas\<close>

text \<open>Who pays for an instruction.\<close>

fun ix_payer :: "task_ix \<Rightarrow> pubkey option" where
  "ix_payer (Memo _ w) = Some w"
| "ix_payer (InitializeCompressionRecipient _ w) = Some w"
| "ix_payer (InitializeRecipient _ _ w) = Some w"
| "ix_payer (SetCurrentRewardsWrapperV2 _ _ _ w _) = Some w"
| "ix_payer (DistributeCustomDestination w _ _) = Some w"
| "ix_payer (DistributeCompressionRewards _ w) = Some w"
| "ix_payer (DistributeRewards w _ _ _) = Some w"
| "ix_payer (Transfer w _ _) = Some w"
| "ix_payer _ = None"

fun isSetRewardsIx :: "task_ix \<Rightarrow> bool" where
  "isSetRewardsIx (SetCurrentRewardsWrapperV2 _ _ _ _ _) = True"
| "isSetRewardsIx _ = False"

fun isDistribute :: "task_ix \<Rightarrow> bool" where
  "isDistribute (DistributeCustomDestination _ _ _) = True"
| "isDistribute (DistributeCompressionRewards _ _) = True"
| "isDistribute (DistributeRewards _ _ _ _) = True"
| "isDistribute _ = False"

lemma init_no_rewards:
  "list_all (\<lambda>ix. \<not> isSetRewardsIx ix \<and> \<not> isDistribute ix \<and> ix_payer ix = Some w) (initIxs ast kta w r d)"
  by (auto simp: initIxs_def split: option.splits)

lemma distributeIx_spec: "isDistribute (distributeIx ast kta w r d) \<and> ix_payer (distributeIx ast kta w r d) = Some w"
  by (auto simp: distributeIx_def split: option.splits)


definition demo_task_env :: task_env where
  "demo_task_env = \<lparr>te_claimPayer = (\<lambda>_ o'. ''payer''), te_recipientKey = (\<lambda>a. ''rec''),
     te_fetchRecipientDestination = (\<lambda>_. Inr (Some DEFAULT_KEY)), te_lamports = (\<lambda>_. Inr (Some 9000000)),
     te_ata = (\<lambda>o'. ''ata''), te_rewardsByEntity = (\<lambda>_. Inr 77), te_oracleIndex = 0,
     te_minCrankReward = (\<lambda>_. Inr 1000), te_getAsset = (\<lambda>_. Inr None), te_keyToAssetForAsset = (\<lambda>_. ''k''),
     te_findKta = (\<lambda>_. Inr None), te_rewardableEntities = (\<lambda>_ _. Inr ([''e1'', ''e2''], 1)),
     te_rewardableByDestination = (\<lambda>_ _. Inr ([], 0)), te_isKey = (\<lambda>_. True)\<rparr>"


text \<open>
  The task for a wallet or destination moves exactly the fees of its follow-ups, one for each
  entity and one more, and schedules each entity's claim once, in order; it schedules the next batch
  exactly when this one is not empty, so the chain of batches ends.
\<close>

theorem handleTuktukWallet_requeues:
  assumes "handleTuktukWalletOrDestination te wallet entities next tq task = Inr ixs"
  shows "(\<exists>m. ixs = [Memo m (te_claimPayer te tq wallet)])
    \<or> (\<exists>minReward rest. te_minCrankReward te tq = Inr minReward
        \<and> ixs = Transfer (te_claimPayer te tq wallet) task (crankFees minReward entities) # rest
        \<and> filter (\<lambda>ix. ix_payer ix = None) rest =
            map (\<lambda>e. RequeueEntityClaimV1 e wallet) entities
            @ (if entities = [] then [] else [RequeueWalletClaimV0 next wallet])
        \<and> (minReward * (length entities + 1) < 2 ^ 53
            \<longrightarrow> crankFees minReward entities = of_nat (minReward * (length entities + 1))))"
proof -
  have f: "crankFees m entities = of_nat (m * (length entities + 1))" if "m * (length entities + 1) < 2 ^ 53" for m
    using rnd_of_nat[OF that] by (simp add: crankFees_def fmul_def algebra_simps)
  have flt: "filter (\<lambda>ix. ix_payer ix = None) (map (\<lambda>e. RequeueEntityClaimV1 e wallet) entities) =
      map (\<lambda>e. RequeueEntityClaimV1 e wallet) entities"
    by (auto simp: filter_id_conv)
  from assms show ?thesis
    unfolding handleTuktukWalletOrDestination_def Let_def
    by (auto simp: flt f split: if_splits elim!: ebind_InrE)
qed

lemma demo_tuktuk:
  "\<exists>ixs. handleTuktukWalletOrDestination (demo_task_env\<lparr>te_lamports := (\<lambda>_. Inr None)\<rparr>) ''w'' [''e1''] 1 ''tq'' ''t'' = Inr ixs"
  by (simp add: handleTuktukWalletOrDestination_def demo_task_env_def Let_def)

theorem handleTuktukWallet_requeues_witness:
  "\<exists>ixs. handleTuktukWalletOrDestination (demo_task_env\<lparr>te_lamports := (\<lambda>_. Inr None)\<rparr>) ''w'' [''e1''] 1 ''tq'' ''t'' = Inr ixs
     \<and> ixs \<noteq> []"
  using demo_tuktuk handleTuktukWallet_requeues[of "demo_task_env\<lparr>te_lamports := (\<lambda>_. Inr None)\<rparr>" "''w''" "[''e1'']" 1 "''tq''" "''t''"]
  by fastforce

text \<open>
  A failure inside \<open>handleKta\<close> is not answered by the handlers' own 500: the promise is returned,
  not awaited, so the rejection leaves \<open>tuktukAssetHandler\<close> and \<open>tuktukKtaHandler\<close>; the wallet handlers,
  which await, always answer.
\<close>

theorem kta_handlers_let_errors_escape:
  assumes "te_getAsset te a = Inr (Some ast)" and "te_findKta te k = Inr (Some kta)"
    and "te_keyToAssetForAsset te ast = k" and "kr_asset kta = a" and "handleKta te ast kta tq = Inl e"
  shows "tuktukAssetHandler te a tq = Inl e \<and> tuktukKtaHandler te k tq = Inl e
    \<and> (\<exists>r. tuktukWalletHandler te w b tq t = r \<and> (case r of TaskOk _ \<Rightarrow> True | TaskStatus n _ \<Rightarrow> n = 500))"
  using assms by (auto simp: tuktukAssetHandler_def tuktukKtaHandler_def tuktukWalletHandler_def split: sum.splits)

theorem kta_handlers_let_errors_escape_witness:
  "tuktukKtaHandler (demo_task_env\<lparr>te_getAsset := (\<lambda>_. Inr (Some \<lparr>as_owner = ''o'', as_burnt = False, as_compressed = True\<rparr>)),
       te_findKta := (\<lambda>_. Inr (Some \<lparr>kr_address = ''k'', kr_asset = ''a'', kr_encodedEntityKey = ''e''\<rparr>)),
       te_fetchRecipientDestination := (\<lambda>_. Inl Timeout)\<rparr>) ''k'' ''tq'' = Inl Timeout"
  using kta_handlers_let_errors_escape[where te = "demo_task_env\<lparr>te_getAsset := (\<lambda>_. Inr (Some \<lparr>as_owner = ''o'', as_burnt = False, as_compressed = True\<rparr>)),
       te_findKta := (\<lambda>_. Inr (Some \<lparr>kr_address = ''k'', kr_asset = ''a'', kr_encodedEntityKey = ''e''\<rparr>)),
       te_fetchRecipientDestination := (\<lambda>_. Inl Timeout)\<rparr>" and a = "''a''" and k = "''k''" and tq = "''tq''" and e = Timeout]
  by (simp add: handleKta_def demo_task_env_def)

end
