(* ===== verification/Oracle_Client.thy ===== *)
theory Oracle_Client
  imports Tx_Batching
begin

text \<open>
  \<^verbatim>\<open>packages/distributor-oracle/src/client.ts\<close>: the client of the rewards oracles. Pending rewards from
  the median of the oracles' answers; the claim transactions, formed, batched, sent to each oracle for
  its signature and compared with what was sent. The instruction builders, the asset service, the
  accounts and the oracles' HTTP answers are parameters.
\<close>

section \<open>Pending rewards\<close>

text \<open>One oracle's bulk answer: the rewards by entity key, and the oracle's key.\<close>

type_synonym bulk_rewards = "(string \<times> nat) list \<times> pubkey"

text \<open>
  The sort compares by \<open>a.sub(b).toNumber()\<close>, which throws above 53 bits. The model throws when two
  answers differ by that much.
\<close>

definition sortRewards :: "nat list \<Rightarrow> js_error + nat list" where
  "sortRewards rs =
     (if rs \<noteq> [] \<and> (\<exists>a \<in> set rs. \<exists>b \<in> set rs. a - b \<ge> 2 ^ 53)
      then Inl (Err ''Number can only safely store up to 53 bits'') else Inr (sort rs))"

definition oracleMedian :: "bulk_rewards list \<Rightarrow> string \<Rightarrow> js_error + nat" where
  "oracleMedian oracleRewards entityKey =
     ebind (sortRewards (map (\<lambda>rew. case map_of (fst rew) entityKey of None \<Rightarrow> 0 | Some n \<Rightarrow> n) oracleRewards))
       (\<lambda>sorted. Inr (case js_nth sorted (length sorted div 2) of None \<Rightarrow> 0 | Some n \<Rightarrow> n))"

text \<open>The recipients with their total rewards so far, if the account exists.\<close>

type_synonym recipients = "(string \<times> nat option) list"

definition getPendingRewards :: "bulk_rewards list \<Rightarrow> recipients \<Rightarrow> js_error + (string \<times> int) list" where
  "getPendingRewards oracleRewards withRecipients =
     efold (\<lambda>acc (entityKey, totalRewards).
         ebind (oracleMedian oracleRewards entityKey) (\<lambda>median.
           Inr (obj_set acc entityKey (int median - int (case totalRewards of None \<Rightarrow> 0 | Some t \<Rightarrow> t)))))
       [] withRecipients"

definition getPendingAndLifetimeRewards ::
  "bulk_rewards list \<Rightarrow> recipients \<Rightarrow> js_error + (string \<times> (int \<times> nat)) list" where
  "getPendingAndLifetimeRewards oracleRewards withRecipients =
     efold (\<lambda>acc (entityKey, totalRewards).
         ebind (oracleMedian oracleRewards entityKey) (\<lambda>median.
           let t = (case totalRewards of None \<Rightarrow> 0 | Some t \<Rightarrow> t)
           in Inr (obj_set acc entityKey (int median - int t, t))))
       [] withRecipients"

section \<open>assertSameTx\<close>

type_synonym keys_of = "versioned_message \<Rightarrow> lut list \<Rightarrow> js_error + pubkey list"

fun sameKeys :: "nat list \<Rightarrow> nat list \<Rightarrow> js_error + unit" where
  "sameKeys (k # ks) (k1 # ks1) = (if k \<noteq> k1 then Inl (Err ''Key mismatch'') else sameKeys ks ks1)"
| "sameKeys _ _ = Inr ()"

definition sameIx :: "compiled_instruction \<Rightarrow> compiled_instruction \<Rightarrow> js_error + unit" where
  "sameIx i i1 =
     (if ci_programIdIndex i \<noteq> ci_programIdIndex i1 then Inl (Err ''Program id mismatch'')
      else if ci_data i \<noteq> ci_data i1 then Inl (Err ''Instruction data mismatch'')
      else if length (ci_accountKeyIndexes i) \<noteq> length (ci_accountKeyIndexes i1) then Inl (Err ''Key length mismatch'')
      else sameKeys (ci_accountKeyIndexes i) (ci_accountKeyIndexes i1))"

fun sameIxs :: "compiled_instruction list \<Rightarrow> compiled_instruction list \<Rightarrow> js_error + unit" where
  "sameIxs (i # is) (i1 # is1) = ebind (sameIx i i1) (\<lambda>_. sameIxs is is1)"
| "sameIxs _ _ = Inr ()"

fun sameAccounts :: "pubkey list \<Rightarrow> pubkey list \<Rightarrow> js_error + unit" where
  "sameAccounts (k # ks) (k1 # ks1) = (if k \<noteq> k1 then Inl (Err ''Account key mismatch'') else sameAccounts ks ks1)"
| "sameAccounts _ _ = Inr ()"

definition assertSameTx :: "keys_of \<Rightarrow> versioned_message \<Rightarrow> versioned_message \<Rightarrow> lut list \<Rightarrow> js_error + unit" where
  "assertSameTx keysOf tx tx1 luts =
     (if length (vm_compiledInstructions tx) \<noteq> length (vm_compiledInstructions tx1)
      then Inl (Err ''Extra instructions added by oracle'')
      else
        ebind (sameIxs (vm_compiledInstructions tx) (vm_compiledInstructions tx1)) (\<lambda>_.
        ebind (keysOf tx luts) (\<lambda>keys.
        ebind (keysOf tx1 luts) (\<lambda>keys1.
          if length keys1 \<noteq> length keys then Inl (Err ''Account keys do not match'')
          else sameAccounts keys keys1))))"

section \<open>formBulkTransactions\<close>

text \<open>The distributor account: its oracles' keys and URLs.\<close>

record distributor_acc =
  da_oracles :: "(pubkey \<times> string) list"

text \<open>
  The parameters: instruction builders (by the position of the asset), the wire form, and the answers
  of the oracles, by their URL.
\<close>

record claim_env =
  ce_initRecipient :: "nat \<Rightarrow> pubkey \<Rightarrow> js_error + instruction"
  ce_initRecipientV0 :: "js_error + instruction"
  ce_setRewards :: "nat \<Rightarrow> nat \<Rightarrow> nat \<Rightarrow> pubkey \<Rightarrow> js_error + instruction"
  ce_distributeCustom :: "nat \<Rightarrow> pubkey \<Rightarrow> js_error + instruction"
  ce_distributeCompression :: "nat \<Rightarrow> js_error + instruction"
  ce_distributeRewards :: "nat \<Rightarrow> js_error + instruction"
  ce_serialize :: "versioned_message \<Rightarrow> js_error + bytes"
  ce_deserialize :: "bytes \<Rightarrow> js_error + versioned_message"
  ce_keysOf :: keys_of
  ce_willPay :: "string \<Rightarrow> js_error + bool"
  ce_bulkSign :: "string \<Rightarrow> bytes list \<Rightarrow> js_error + bytes list"
  ce_sign :: "string \<Rightarrow> bytes \<Rightarrow> js_error + bytes"

definition default_key :: pubkey where
  "default_key = replicate 32 (CHR ''1'')"

text \<open>\<open>ixsPerAsset\<close>: an initialization for each asset without a recipient account.\<close>

definition initsFor ::
  "claim_env \<Rightarrow> pubkey \<Rightarrow> nat \<Rightarrow> pubkey option \<Rightarrow> js_error + instruction list" where
  "initsFor ce initPayer idx recipientAcc =
     (case recipientAcc of
        None \<Rightarrow> ebind (ce_initRecipient ce idx initPayer) (\<lambda>ix. Inr [ix])
      | Some _ \<Rightarrow> Inr [])"

fun setRewardIxs ::
  "claim_env \<Rightarrow> nat \<Rightarrow> string \<Rightarrow> nat \<Rightarrow> bulk_rewards list \<Rightarrow> js_error + instruction list" where
  "setRewardIxs ce idx entityKey oracleIdx [] = Inr []"
| "setRewardIxs ce idx entityKey oracleIdx ((currentRewards, oracleKey) # rest) =
     ebind (case map_of currentRewards entityKey of
              None \<Rightarrow> Inr []
            | Some n \<Rightarrow> ebind (ce_setRewards ce idx oracleIdx n oracleKey) (\<lambda>ix. Inr [ix])) (\<lambda>ixs.
     ebind (setRewardIxs ce idx entityKey (Suc oracleIdx) rest) (\<lambda>more. Inr (ixs @ more)))"

definition distributeFor :: "claim_env \<Rightarrow> nat \<Rightarrow> pubkey option \<Rightarrow> js_error + instruction" where
  "distributeFor ce idx recipientAcc =
     (case recipientAcc of
        Some dest \<Rightarrow> if dest \<noteq> default_key then ce_distributeCustom ce idx dest else ce_distributeCompression ce idx
      | None \<Rightarrow> ce_distributeCompression ce idx)"

text \<open>
  The instructions of one asset: \<open>recipientAcc\<close> is the destination of its recipient account, \<open>inits\<close>
  is \<open>ixsPerAsset[idx]\<close>, which throws when it is spread past the end.
\<close>

definition setAndDistribute ::
  "claim_env \<Rightarrow> bulk_rewards list \<Rightarrow> nat \<Rightarrow> instruction list option \<Rightarrow> pubkey option \<Rightarrow> string option
   \<Rightarrow> js_error + instruction list" where
  "setAndDistribute ce rewards idx inits recipientAcc keyToAsset =
     (case keyToAsset of
        None \<Rightarrow> Inr []
      | Some entityKey \<Rightarrow>
          ebind (setRewardIxs ce idx entityKey 0 rewards) (\<lambda>setIxs.
            if length setIxs = 0 then Inr []
            else ebind (distributeFor ce idx recipientAcc) (\<lambda>distributeIx.
              case inits of
                None \<Rightarrow> Inl TypeError
              | Some inits \<Rightarrow>
                  let ret = inits @ setIxs @ [distributeIx]
                  in if length ret > 1 then Inr ret else Inr [])))"

fun perAsset ::
  "(nat \<Rightarrow> 'a \<Rightarrow> js_error + 'b) \<Rightarrow> nat \<Rightarrow> 'a list \<Rightarrow> js_error + 'b list" where
  "perAsset f i [] = Inr []"
| "perAsset f i (x # xs) = ebind (f i x) (\<lambda>y. ebind (perAsset f (Suc i) xs) (\<lambda>ys. Inr (y # ys)))"

text \<open>Each oracle in turn signs what the previous one returned.\<close>

definition bulkSignAll :: "claim_env \<Rightarrow> string list \<Rightarrow> bytes list \<Rightarrow> js_error + bytes list" where
  "bulkSignAll ce urls sers = efold (\<lambda>s url. ce_bulkSign ce url s) sers urls"

text \<open>\<open>finalTxs.forEach\<close>: \<open>initialTxs[idx]\<close> is \<open>undefined\<close> past the end, and reading it throws.\<close>

fun assertAllSame :: "keys_of \<Rightarrow> lut list \<Rightarrow> versioned_message list \<Rightarrow> versioned_message list \<Rightarrow> js_error + unit" where
  "assertAllSame keysOf luts [] initials = Inr ()"
| "assertAllSame keysOf luts (f # fs) [] = Inl TypeError"
| "assertAllSame keysOf luts (f # fs) (i # is) =
     ebind (assertSameTx keysOf f i luts) (\<lambda>_. assertAllSame keysOf luts fs is)"

definition opt_nth :: "'a option list \<Rightarrow> nat \<Rightarrow> 'a option" where
  "opt_nth xs i = (case js_nth xs i of Some (Some x) \<Rightarrow> Some x | _ \<Rightarrow> None)"

text \<open>
  The function from the point where the accounts are known: the assets (their number), the asset
  service's answer (its length), the recipients' destinations and the entity keys. First the groups of
  instructions, one for each asset; then the transactions.
\<close>

definition bulkGroups ::
  "claim_env \<Rightarrow> distributor_acc \<Rightarrow> pubkey \<Rightarrow> bool \<Rightarrow> bulk_rewards list \<Rightarrow> nat \<Rightarrow> nat option
   \<Rightarrow> pubkey option list \<Rightarrow> string option list \<Rightarrow> js_error + instruction list list" where
  "bulkGroups ce distributor payer skipOracleSign rewards numAssets numAssetAccs recipientAccs keyToAssets =
     (if numAssets > 100 then Inl (Err ''Too many assets, max 100'')
      else if numAssetAccs \<noteq> Some numAssets then Inl (Err ''Assets not the same length as compressionAssetAccs'')
      else
        ebind (if skipOracleSign then Inr True
               else case da_oracles distributor of [] \<Rightarrow> Inl TypeError | (_, url) # _ \<Rightarrow> ce_willPay ce url) (\<lambda>willPay.
        ebind (if willPay \<and> None \<in> set recipientAccs
               then (case da_oracles distributor of [] \<Rightarrow> Inl TypeError | (key, _) # _ \<Rightarrow> Inr key) else Inr payer) (\<lambda>initPayer.
        ebind (perAsset (initsFor ce initPayer) 0 recipientAccs) (\<lambda>ixsPerAsset.
          emap (\<lambda>idx. setAndDistribute ce rewards idx (js_nth ixsPerAsset idx) (opt_nth recipientAccs idx)
                   (opt_nth keyToAssets idx)) [0..<numAssets]))))"

definition bulkArgs :: "number option \<Rightarrow> pubkey \<Rightarrow> batch_args" where
  "bulkArgs basePriorityFee lut =
     \<lparr>ba_computeUnitLimit = None, ba_basePriorityFee = basePriorityFee,
      ba_addressLookupTableAddresses = Some [lut], ba_computeScaleUp = None, ba_maxTxSize = 1232,
      ba_extraSigners = [], ba_useFirstEstimateForAll = False, ba_maxInstructionsPerTx = None,
      ba_loadedAccountsDataSizeLimit = None\<rparr>"

definition formBulkTransactions ::
  "web3 \<Rightarrow> connection \<Rightarrow> (nat \<Rightarrow> connection) \<Rightarrow> serializer \<Rightarrow> claim_env \<Rightarrow> distributor_acc \<Rightarrow> pubkey \<Rightarrow> pubkey
   \<Rightarrow> number option \<Rightarrow> pubkey \<Rightarrow> bool \<Rightarrow> bulk_rewards list \<Rightarrow> nat \<Rightarrow> nat option
   \<Rightarrow> pubkey option list \<Rightarrow> string option list \<Rightarrow> js_error + versioned_message list" where
  "formBulkTransactions w conn conns ser ce distributor walletKey payer basePriorityFee lut skipOracleSign rewards
     numAssets numAssetAccs recipientAccs keyToAssets =
     ebind (bulkGroups ce distributor payer skipOracleSign rewards numAssets numAssetAccs recipientAccs keyToAssets)
       (\<lambda>setAndDistributeIxs.
     ebind (batchInstructionsToTxsWithPriorityFee w conn conns ser (bulkArgs basePriorityFee lut) walletKey
              (map (\<lambda>g. Some (Group g)) setAndDistributeIxs)) (\<lambda>initialTxDrafts.
     ebind (emap (toVersionedTx conn) initialTxDrafts) (\<lambda>initialTxs.
     ebind (emap (ce_serialize ce) initialTxs) (\<lambda>serTxs.
     ebind (if skipOracleSign then Inr serTxs else bulkSignAll ce (map snd (da_oracles distributor)) serTxs) (\<lambda>serTxs'.
     ebind (emap (ce_deserialize ce) serTxs') (\<lambda>finalTxs.
     ebind (assertAllSame (ce_keysOf ce)
              (case initialTxDrafts of [] \<Rightarrow> [] | d # _ \<Rightarrow> (case dr_addressLookupTables d of None \<Rightarrow> [] | Some l \<Rightarrow> l))
              finalTxs initialTxs) (\<lambda>_.
       Inr finalTxs)))))))"

section \<open>formTransaction\<close>

definition signAll :: "claim_env \<Rightarrow> string list \<Rightarrow> bytes \<Rightarrow> js_error + bytes" where
  "signAll ce urls s = efold (\<lambda>b url. ce_sign ce url b) s urls"

fun setAllRewards :: "claim_env \<Rightarrow> nat \<Rightarrow> (nat \<times> pubkey) list \<Rightarrow> js_error + instruction list" where
  "setAllRewards ce idx [] = Inr []"
| "setAllRewards ce idx ((n, oracleKey) # rest) =
     ebind (ce_setRewards ce 0 idx n oracleKey) (\<lambda>ix. ebind (setAllRewards ce (Suc idx) rest) (\<lambda>ixs. Inr (ix # ixs)))"

text \<open>The initialization of a missing recipient; the subsidy question is asked of the first oracle.\<close>

definition claimInits ::
  "claim_env \<Rightarrow> distributor_acc \<Rightarrow> pubkey \<Rightarrow> bool \<Rightarrow> pubkey option \<Rightarrow> js_error + instruction list" where
  "claimInits ce distributor payer compressed recipientAcc =
     (case recipientAcc of
        Some _ \<Rightarrow> Inr []
      | None \<Rightarrow>
          (case da_oracles distributor of
             [] \<Rightarrow> Inl TypeError
           | (key, url) # _ \<Rightarrow>
               ebind (ce_willPay ce url) (\<lambda>willPay.
               ebind (if compressed then ce_initRecipient ce 0 (if willPay then key else payer)
                      else ce_initRecipientV0 ce) (\<lambda>ix. Inr [ix]))))"

definition claimDistribute :: "claim_env \<Rightarrow> bool \<Rightarrow> pubkey option \<Rightarrow> js_error + instruction" where
  "claimDistribute ce compressed recipientAcc =
     (case recipientAcc of
        Some dest \<Rightarrow>
          if dest \<noteq> default_key then ce_distributeCustom ce 0 dest
          else if compressed then ce_distributeCompression ce 0 else ce_distributeRewards ce 0
      | None \<Rightarrow> if compressed then ce_distributeCompression ce 0 else ce_distributeRewards ce 0)"

text \<open>\<open>assetAcc\<close>: whether the asset service knows the asset, and whether it is compressed.\<close>

definition formTransaction ::
  "web3 \<Rightarrow> connection \<Rightarrow> claim_env \<Rightarrow> distributor_acc \<Rightarrow> pubkey \<Rightarrow> number option \<Rightarrow> bool
   \<Rightarrow> (nat \<times> pubkey) list \<Rightarrow> pubkey option \<Rightarrow> pubkey option \<Rightarrow> (pubkey \<Rightarrow> js_error + bool option) \<Rightarrow> pubkey option
   \<Rightarrow> js_error + versioned_message" where
  "formTransaction w conn ce distributor payer basePriorityFee skipOracleSign rewards asset hotspot getAssetFn recipientAcc =
     (case (case asset of Some a \<Rightarrow> Some a | None \<Rightarrow> hotspot) of
        None \<Rightarrow> Inl (Err ''Must provide asset or hotspot'')
      | Some a \<Rightarrow>
      ebind (getAssetFn a) (\<lambda>assetAcc.
      case assetAcc of
        None \<Rightarrow> Inl (Err (''No asset with ID '' @ a))
      | Some compressed \<Rightarrow>
          ebind (claimInits ce distributor payer compressed recipientAcc) (\<lambda>inits.
          ebind (setAllRewards ce 0 rewards) (\<lambda>setIxs.
          ebind (claimDistribute ce compressed recipientAcc) (\<lambda>distributeIx.
          ebind (populateMissingDraftInfo conn
                   \<lparr>dr_recentBlockhash = None, dr_feePayer = payer, dr_instructions = inits @ setIxs @ [distributeIx],
                    dr_addressLookupTableAddresses = None, dr_addressLookupTables = None, dr_signers = []\<rparr>) (\<lambda>fullDraft.
          ebind (withPriorityFees w conn
                   \<lparr>fa_computeUnits = None, fa_instructions = dr_instructions fullDraft,
                    fa_basePriorityFee = basePriorityFee, fa_maxPriorityFee = MAX_PRIO_FEE,
                    fa_computeScaleUp = DEFAULT_COMPUTE_SCALE_UP, fa_loadedAccountsDataSizeLimit = None,
                    fa_feePayer = Some (dr_feePayer fullDraft), fa_recentBlockhash = dr_recentBlockhash fullDraft,
                    fa_addressLookupTableAddresses = dr_addressLookupTableAddresses fullDraft,
                    fa_addressLookupTables = dr_addressLookupTables fullDraft\<rparr>) (\<lambda>instructions.
          ebind (toVersionedTx conn (fullDraft\<lparr>dr_instructions := instructions\<rparr>)) (\<lambda>tx.
          ebind (ce_serialize ce tx) (\<lambda>serTx.
          ebind (if skipOracleSign then Inr serTx else signAll ce (map snd (da_oracles distributor)) serTx) (\<lambda>serTx'.
          ebind (ce_deserialize ce serTx') (\<lambda>finalTx.
          ebind (assertSameTx (ce_keysOf ce) finalTx tx []) (\<lambda>_. Inr finalTx))))))))))))"

section \<open>Lemmas: the median\<close>

lemma sorted_nth_le:
  assumes "sorted xs" and "length xs div 2 < length (filter (\<lambda>x. x \<le> hi) xs)"
  shows "xs ! (length xs div 2) \<le> (hi :: nat)"
proof (rule ccontr)
  let ?m = "length xs div 2"
  assume "\<not> xs ! ?m \<le> hi"
  then have gt: "hi < xs ! ?m" by simp
  have "xs ! (?m + i) > hi" if "i < length xs - ?m" for i
    using sorted_nth_mono[OF assms(1), of ?m "?m + i"] that gt by linarith
  then have "filter (\<lambda>x. x \<le> hi) (drop ?m xs) = []"
    by (auto simp: filter_empty_conv in_set_conv_nth not_le)
  moreover have "length (filter (\<lambda>x. x \<le> hi) (take ?m xs)) \<le> length (take ?m xs)" by (rule length_filter_le)
  moreover have "length (filter (\<lambda>x. x \<le> hi) xs) =
      length (filter (\<lambda>x. x \<le> hi) (take ?m xs)) + length (filter (\<lambda>x. x \<le> hi) (drop ?m xs))"
    by (metis append_take_drop_id filter_append length_append)
  ultimately show False using assms(2) by simp
qed

lemma sorted_nth_ge:
  assumes "sorted xs" and "length xs div 2 < length (filter (\<lambda>x. lo \<le> x) xs)"
  shows "(lo :: nat) \<le> xs ! (length xs div 2)"
proof (rule ccontr)
  let ?m = "length xs div 2"
  assume "\<not> lo \<le> xs ! ?m"
  then have gt: "xs ! ?m < lo" by simp
  have "length (filter (\<lambda>x. lo \<le> x) xs) \<le> length xs" by (rule length_filter_le)
  with assms(2) have m: "?m < length xs" by (rule order_less_le_trans)
  have "xs ! i < lo" if "i \<le> ?m" for i
    using sorted_nth_mono[OF assms(1) that m] gt by simp
  then have "filter (\<lambda>x. lo \<le> x) (take (Suc ?m) xs) = []"
    by (auto simp: filter_empty_conv in_set_conv_nth not_le)
  moreover have "length (filter (\<lambda>x. lo \<le> x) (drop (Suc ?m) xs)) \<le> length (drop (Suc ?m) xs)" by (rule length_filter_le)
  moreover have "length (filter (\<lambda>x. lo \<le> x) xs) =
      length (filter (\<lambda>x. lo \<le> x) (take (Suc ?m) xs)) + length (filter (\<lambda>x. lo \<le> x) (drop (Suc ?m) xs))"
    by (metis append_take_drop_id filter_append length_append)
  ultimately show False using assms(2) by simp
qed

text \<open>What an oracle says of an entity: its reward, or 0 if it does not mention it.\<close>

definition says :: "string \<Rightarrow> bulk_rewards \<Rightarrow> nat" where
  "says entityKey rew = (case map_of (fst rew) entityKey of None \<Rightarrow> 0 | Some n \<Rightarrow> n)"

lemma oracleMedian_bounds:
  assumes "oracleMedian rews ek = Inr m"
    and "length rews div 2 < length (filter (\<lambda>r. lo \<le> says ek r \<and> says ek r \<le> hi) rews)"
  shows "lo \<le> m \<and> m \<le> hi"
proof -
  let ?xs = "sort (map (says ek) rews)"
  have "rews \<noteq> []" using assms(2) by auto
  then have "length rews div 2 < length rews" by simp
  with assms(1) have m: "m = ?xs ! (length ?xs div 2)"
    by (auto simp: oracleMedian_def sortRewards_def says_def[abs_def] js_nth_def split: if_splits)
  have cnt: "length (filter P ?xs) = length (filter (\<lambda>r. P (says ek r)) rews)" for P
  proof -
    have "filter P ?xs = sort (filter P (map (says ek) rews))" by (simp only: filter_sort)
    then show ?thesis by (simp add: filter_map o_def)
  qed
  have le: "length (filter (\<lambda>r. lo \<le> says ek r \<and> says ek r \<le> hi) rews) \<le> length (filter Q rews)"
    if "\<And>r. lo \<le> says ek r \<and> says ek r \<le> hi \<Longrightarrow> Q r" for Q
    using that by (induction rews) (auto simp: le_Suc_eq)
  have "length ?xs div 2 < length (filter (\<lambda>x. x \<le> hi) ?xs)" "length ?xs div 2 < length (filter (\<lambda>x. lo \<le> x) ?xs)"
    unfolding cnt using assms(2) le by (simp_all add: order.strict_trans2)
  then show ?thesis unfolding m using sorted_nth_le[of ?xs hi] sorted_nth_ge[of ?xs lo] sorted_sort by blast
qed

lemma pending_fold:
  assumes "efold (\<lambda>acc (ek, t). ebind (oracleMedian rews ek) (\<lambda>m. Inr (obj_set acc ek (int m - int (case t of None \<Rightarrow> 0 | Some t \<Rightarrow> t)))))
      acc recs = Inr res"
    and "distinct (map fst recs)"
  shows "(\<forall>(ek, t) \<in> set recs. \<exists>m. oracleMedian rews ek = Inr m
        \<and> map_of res ek = Some (int m - int (case t of None \<Rightarrow> 0 | Some t \<Rightarrow> t)))
    \<and> (\<forall>k. k \<notin> fst ` set recs \<longrightarrow> map_of res k = map_of acc k)"
  using assms
proof (induction recs arbitrary: acc)
  case Nil
  then show ?case by simp
next
  case (Cons r recs)
  obtain ek t where r: "r = (ek, t)" by (cases r)
  from Cons.prems(1) obtain m where m: "oracleMedian rews ek = Inr m"
    and f: "efold (\<lambda>acc (ek, t). ebind (oracleMedian rews ek) (\<lambda>m. Inr (obj_set acc ek (int m - int (case t of None \<Rightarrow> 0 | Some t \<Rightarrow> t)))))
      (obj_set acc ek (int m - int (case t of None \<Rightarrow> 0 | Some t \<Rightarrow> t))) recs = Inr res"
    unfolding r by (auto elim!: ebind_InrE)
  from Cons.prems(2) have d: "distinct (map fst recs)" "ek \<notin> fst ` set recs" unfolding r by auto
  from Cons.IH[OF f d(1)] d(2) m show ?case unfolding r by auto
qed



section \<open>Lemmas: comparing transactions\<close>

lemma sameKeys_iff: "length ks = length ks1 \<Longrightarrow> sameKeys ks ks1 = Inr () \<longleftrightarrow> ks = ks1"
  by (induction ks ks1 rule: list_induct2) auto

lemma sameIx_iff: "sameIx i i1 = Inr () \<longleftrightarrow> i = i1"
  by (auto simp: sameIx_def sameKeys_iff)

lemma sameIxs_iff: "length is = length is1 \<Longrightarrow> sameIxs is is1 = Inr () \<longleftrightarrow> is = is1"
  by (induction "is" is1 rule: list_induct2) (auto simp: ebind_Inr_iff sameIx_iff)

lemma sameAccounts_iff: "length ks = length ks1 \<Longrightarrow> sameAccounts ks ks1 = Inr () \<longleftrightarrow> ks = ks1"
  by (induction ks ks1 rule: list_induct2) auto

lemma unit_Inr: "(r :: 'e + unit) = Inr u \<longleftrightarrow> r = Inr ()"
  by simp

lemma assertSameTx_iff:
  "assertSameTx keysOf tx tx1 luts = Inr () \<longleftrightarrow>
     vm_compiledInstructions tx = vm_compiledInstructions tx1 \<and> (\<exists>keys. keysOf tx luts = Inr keys \<and> keysOf tx1 luts = Inr keys)"
proof (cases "length (vm_compiledInstructions tx) = length (vm_compiledInstructions tx1)")
  case True
  have "(if length keys1 \<noteq> length keys then Inl (Err ''Account keys do not match'') else sameAccounts keys keys1) = Inr ()
      \<longleftrightarrow> keys = keys1" for keys keys1
    using sameAccounts_iff[of keys keys1] by auto
  with True show ?thesis
    by (auto simp: assertSameTx_def ebind_Inr_iff sameIxs_iff)
next
  case False
  then show ?thesis by (auto simp: assertSameTx_def)
qed

text \<open>
  C23. \<open>assertSameTx\<close> accepts exactly when the two transactions have the same compiled instructions and
  the same resolved account keys: an oracle cannot add, drop, reorder or change an instruction, its
  data or any account it touches.
\<close>

theorem assertSameTx_exact:
  "assertSameTx keysOf tx tx1 luts = Inr () \<longleftrightarrow>
     vm_compiledInstructions tx = vm_compiledInstructions tx1 \<and> (\<exists>keys. keysOf tx luts = Inr keys \<and> keysOf tx1 luts = Inr keys)"
  by (rule assertSameTx_iff)

definition same_content :: "keys_of \<Rightarrow> lut list \<Rightarrow> versioned_message \<Rightarrow> versioned_message \<Rightarrow> bool" where
  "same_content keysOf luts f i \<longleftrightarrow>
     vm_compiledInstructions f = vm_compiledInstructions i \<and> (\<exists>keys. keysOf f luts = Inr keys \<and> keysOf i luts = Inr keys)"

lemma assertSameTx_content: "assertSameTx keysOf f i luts = Inr u \<Longrightarrow> same_content keysOf luts f i"
  using assertSameTx_iff[of keysOf f i luts] by (simp add: same_content_def)

lemma assertAllSame_spec:
  "assertAllSame keysOf luts fs is = Inr u \<Longrightarrow>
     length fs \<le> length is \<and> list_all2 (same_content keysOf luts) fs (take (length fs) is)"
  by (induction keysOf luts fs "is" rule: assertAllSame.induct) (auto elim!: ebind_InrE dest: assertSameTx_content)

text \<open>
  The instructions a claim for one asset is made of: none, or an initialization exactly when its
  recipient account is missing, the rewards of each oracle that reports the entity, and one distribution.
\<close>

definition claim_group ::
  "claim_env \<Rightarrow> bulk_rewards list \<Rightarrow> pubkey option list \<Rightarrow> string option list \<Rightarrow> nat \<Rightarrow> instruction list \<Rightarrow> bool" where
  "claim_group ce rewards recs ktas idx g \<longleftrightarrow> g = [] \<or>
     (\<exists>inits sets dix ek. g = inits @ sets @ [dix] \<and> opt_nth ktas idx = Some ek \<and> sets \<noteq> []
        \<and> length inits = (if opt_nth recs idx = None then 1 else 0)
        \<and> setRewardIxs ce idx ek 0 rewards = Inr sets \<and> distributeFor ce idx (opt_nth recs idx) = Inr dix)"

lemma perAsset_nth:
  "perAsset f i xs = Inr ys \<Longrightarrow> length ys = length xs \<and> (\<forall>k < length xs. f (i + k) (xs ! k) = Inr (ys ! k))"
proof (induction f i xs arbitrary: ys rule: perAsset.induct)
  case (2 f i x xs)
  from "2.prems" obtain y zs where "f i x = Inr y" "perAsset f (Suc i) xs = Inr zs" "ys = y # zs"
    by (auto elim!: ebind_InrE)
  with "2.IH" show ?case by (auto simp: nth_Cons split: nat.splits)
qed simp

lemma setAndDistribute_group:
  assumes "setAndDistribute ce rewards idx inits (opt_nth recs idx) (opt_nth ktas idx) = Inr g"
    and "\<And>is. inits = Some is \<Longrightarrow> length is = (if opt_nth recs idx = None then 1 else 0)"
  shows "claim_group ce rewards recs ktas idx g"
proof (cases "g = []")
  case False
  with assms(1) obtain ek sets dix ns where "opt_nth ktas idx = Some ek" "setRewardIxs ce idx ek 0 rewards = Inr sets"
    "sets \<noteq> []" "distributeFor ce idx (opt_nth recs idx) = Inr dix" "inits = Some ns" "g = ns @ sets @ [dix]"
    by (auto simp: setAndDistribute_def Let_def split: option.splits if_splits elim!: ebind_InrE)
  with assms(2) show ?thesis unfolding claim_group_def by blast
qed (simp add: claim_group_def)

lemma inits_length:
  assumes "perAsset (initsFor ce p) 0 recs = Inr ixs" and "js_nth ixs idx = Some is"
  shows "length is = (if opt_nth recs idx = None then 1 else 0)"
proof -
  from perAsset_nth[OF assms(1)] assms(2) have "idx < length recs" "initsFor ce p idx (recs ! idx) = Inr is"
    by (auto simp: js_nth_Some_iff)
  then show ?thesis
    by (auto simp: initsFor_def opt_nth_def js_nth_def split: option.splits elim!: ebind_InrE)
qed

lemma bulkGroups_spec:
  assumes "bulkGroups ce distributor payer skip rewards n na recs ktas = Inr groups"
  shows "length groups = n \<and> n \<le> 100 \<and> (\<forall>idx < n. claim_group ce rewards recs ktas idx (groups ! idx))"
proof -
  from assms obtain p ixs where p: "perAsset (initsFor ce p) 0 recs = Inr ixs" and n: "n \<le> 100"
    and g: "emap (\<lambda>idx. setAndDistribute ce rewards idx (js_nth ixs idx) (opt_nth recs idx) (opt_nth ktas idx)) [0..<n] = Inr groups"
    unfolding bulkGroups_def by (auto split: if_splits elim!: ebind_InrE)
  have "claim_group ce rewards recs ktas idx (groups ! idx)" if "idx < n" for idx
    by (rule setAndDistribute_group[OF _ inits_length[OF p]]) (use emap_Inr_nth[OF g, of idx] that in simp_all)
  with n emap_Inr_length[OF g] show ?thesis by simp
qed


text \<open>
  An environment with one asset: the node compiles every transaction to an empty message, the oracle at
  \<open>honest\<close> returns what it is given and the oracle at \<open>lazy\<close> an empty list.
\<close>

definition demo_claim_env :: claim_env where
  "demo_claim_env = \<lparr>ce_initRecipient = (\<lambda>_ _. Inr (num_ix 1)), ce_initRecipientV0 = Inr (num_ix 1),
     ce_setRewards = (\<lambda>_ _ _ _. Inr (num_ix 2)), ce_distributeCustom = (\<lambda>_ _. Inr (num_ix 3)),
     ce_distributeCompression = (\<lambda>_. Inr (num_ix 3)), ce_distributeRewards = (\<lambda>_. Inr (num_ix 3)),
     ce_serialize = (\<lambda>_. Inr [7]),
     ce_deserialize = (\<lambda>_. Inr \<lparr>vm_staticAccountKeys = [], vm_compiledInstructions = []\<rparr>),
     ce_keysOf = (\<lambda>v _. Inr (vm_staticAccountKeys v)), ce_willPay = (\<lambda>_. Inr False),
     ce_bulkSign = (\<lambda>url txs. Inr (if url = ''lazy'' then [] else txs)), ce_sign = (\<lambda>_ b. Inr b)\<rparr>"

abbreviation (input) demo_form :: "string \<Rightarrow> js_error + versioned_message list" where
  "demo_form url \<equiv> formBulkTransactions solana_web3 demo_conn (\<lambda>_. demo_conn) demo_ser demo_claim_env
     \<lparr>da_oracles = [(''o1'', url)]\<rparr> ''me'' ''me'' None ''lut'' False [([(''e'', 5)], ''o1'')] 1 (Some 1) [Some default_key] [Some ''e'']"

lemma demo_measure_empty:
  "toVersionedTx demo_conn (mk_draft pr sg ixs) = Inr \<lparr>vm_staticAccountKeys = [], vm_compiledInstructions = []\<rparr>"
  by (simp add: demo_conn_def toVersionedTx_def mk_draft_def)

lemma demo_price: "\<exists>out. priceChunk solana_web3 (\<lambda>_. demo_conn) (batch_fee_args (bulkArgs None ''lut'') pr) n chunk = Inr out"
  by (auto simp: priceChunk_def withPriorityFees_def batch_fee_args_def bulkArgs_def nonzero_def simulateBudget_def
      populateMissingDraftInfo_def toVersionedTx_def demo_conn_def estimatePrioritizationFee_def Let_def
      default_pubkey_nonempty)

lemma demo_bulk_drafts:
  "\<exists>d. batchInstructionsToTxsWithPriorityFee solana_web3 demo_conn (\<lambda>_. demo_conn) demo_ser (bulkArgs None ''lut'') ''me''
    [Some (Group [num_ix 2, num_ix 3])] = Inr [d]
    \<and> toVersionedTx demo_conn d = Inr \<lparr>vm_staticAccountKeys = [], vm_compiledInstructions = []\<rparr>"
proof -
  let ?a = "bulkArgs None ''lut''"
  let ?pr = "\<lparr>pr_walletKey = ''me'', pr_blockhash = ''bh'', pr_luts = [], pr_lutAddresses = [''lut'']\<rparr> :: provider"
  obtain out where o: "priceChunk solana_web3 (\<lambda>_. demo_conn) (batch_fee_args ?a ?pr) 0 [num_ix 2, num_ix 3] = Inr out"
    using demo_price by blast
  have l: "getAddressLookupTableAccounts demo_conn [''lut''] = Inr []" "getLatestBlockhash demo_conn = Inr ''bh''"
    by (simp_all add: getAddressLookupTableAccounts_def demo_conn_def)
  have "batchInstructionsToTxsWithPriorityFee solana_web3 demo_conn (\<lambda>_. demo_conn) demo_ser ?a ''me''
      [Some (Group [num_ix 2, num_ix 3])] = Inr [mk_draft ?pr (chunk_signers [] [num_ix 2, num_ix 3]) out]"
    by (simp add: batchInstructionsToTxsWithPriorityFee_def l batch_run_def batch_step_def measure_probe_def
        demo_measure_empty demo_measure(2) tooManyIxs_def flushChunk_def o[unfolded bulkArgs_def] bulkArgs_def Let_def)
  then show ?thesis using demo_measure_empty by blast
qed

lemma demo_form_result:
  "demo_form url = Inr (if url = ''lazy'' then [] else [\<lparr>vm_staticAccountKeys = [], vm_compiledInstructions = []\<rparr>])"
proof -
  obtain d where d: "batchInstructionsToTxsWithPriorityFee solana_web3 demo_conn (\<lambda>_. demo_conn) demo_ser (bulkArgs None ''lut'') ''me''
    [Some (Group [num_ix 2, num_ix 3])] = Inr [d]"
    "toVersionedTx demo_conn d = Inr \<lparr>vm_staticAccountKeys = [], vm_compiledInstructions = []\<rparr>"
    using demo_bulk_drafts by blast
  have s: "setAndDistribute demo_claim_env [([(''e'', 5)], ''o1'')] 0 (Some []) (Some default_key) (Some ''e'') = Inr [num_ix 2, num_ix 3]"
    by (simp add: setAndDistribute_def demo_claim_env_def distributeFor_def)
  have f: "ce_willPay demo_claim_env = (\<lambda>_. Inr False)" "ce_serialize demo_claim_env = (\<lambda>_. Inr [7])"
    "ce_bulkSign demo_claim_env = (\<lambda>url txs. Inr (if url = ''lazy'' then [] else txs))"
    "ce_deserialize demo_claim_env = (\<lambda>_. Inr \<lparr>vm_staticAccountKeys = [], vm_compiledInstructions = []\<rparr>)"
    "ce_keysOf demo_claim_env = (\<lambda>v _. Inr (vm_staticAccountKeys v))"
    by (simp_all add: demo_claim_env_def)
  show ?thesis
    by (simp add: formBulkTransactions_def bulkGroups_def opt_nth_def js_nth_def f initsFor_def s d bulkSignAll_def assertSameTx_def)
qed


text \<open>
  The comparison runs over the transactions that came back, so an oracle that returns fewer is not
  noticed: one claim was formed, the oracle answers with an empty list, and the call succeeds with no
  transaction.
\<close>

theorem formBulkTransactions_misses_dropped:
  "formBulkTransactions solana_web3 demo_conn (\<lambda>_. demo_conn) demo_ser demo_claim_env
     \<lparr>da_oracles = [(''o1'', ''lazy'')]\<rparr> ''me'' ''me'' None ''lut'' False [([(''e'', 5)], ''o1'')] 1 (Some 1)
     [Some default_key] [Some ''e''] = Inr []"
  using demo_form_result[of "''lazy''"] by simp

lemma setAllRewards_length: "setAllRewards ce i rs = Inr ixs \<Longrightarrow> length ixs = length rs"
  by (induction ce i rs arbitrary: ixs rule: setAllRewards.induct) (auto elim!: ebind_InrE)

lemma claimInits_length:
  "claimInits ce distributor payer compressed recipientAcc = Inr inits \<Longrightarrow> length inits = (if recipientAcc = None then 1 else 0)"
  by (auto simp: claimInits_def split: option.splits list.splits elim!: ebind_InrE)



end
