(* ===== verification/Merkle_Tree.thy ===== *)
theory Merkle_Tree
  imports Prelude
begin

text \<open>
  \<^verbatim>\<open>packages/lazy-transactions-sdk/src/merkleTree.ts\<close>: the Merkle tree over the leaves of a set of lazy
  transactions. The nodes are objects that point at each other and are updated in place; the model keeps
  them in a heap, a list that grows at its end, and a reference is a position in it. The hash function and
  the conversions of public keys are parameters. The loops follow pointers: they are partial functions,
  and they are shown to return on every tree the constructor makes.
\<close>

section \<open>Nodes\<close>

type_synonym hash_fn = "bytes \<Rightarrow> bytes \<Rightarrow> bytes"

definition LEAF_BUFFER_LENGTH :: nat where
  "LEAF_BUFFER_LENGTH = 32"

record tree_node =
  tn_node :: bytes
  tn_left :: "nat option"
  tn_right :: "nat option"
  tn_parent :: "nat option"
  tn_level :: nat
  tn_id :: nat

record merkle_tree =
  mt_nodes :: "tree_node list"
  mt_leaves :: "nat list"
  mt_root :: bytes
  mt_depth :: nat

record merkle_proof =
  mp_leafIndex :: nat
  mp_leaf :: bytes
  mp_proof :: "bytes list"
  mp_root :: bytes

text \<open>\<open>emptyNode\<close> with its cache \<open>CACHE_EMPTY_NODE\<close>.\<close>

type_synonym empty_cache = "nat \<rightharpoonup> bytes"

fun emptyNode :: "hash_fn \<Rightarrow> empty_cache \<Rightarrow> nat \<Rightarrow> bytes \<times> empty_cache" where
  "emptyNode h cache 0 = (case cache 0 of Some b \<Rightarrow> (b, cache) | None \<Rightarrow> (replicate 32 0, cache))"
| "emptyNode h cache (Suc level) =
     (case cache (Suc level) of
        Some b \<Rightarrow> (b, cache)
      | None \<Rightarrow>
          (let (a, c1) = emptyNode h cache level;
               (b, c2) = emptyNode h c1 level;
               result = h a b
           in (result, c2(Suc level \<mapsto> result))))"

definition fresh_node :: "bytes \<Rightarrow> nat \<Rightarrow> nat \<Rightarrow> tree_node" where
  "fresh_node b level i = \<lparr>tn_node = b, tn_left = None, tn_right = None, tn_parent = None, tn_level = level, tn_id = i\<rparr>"

definition emptyTreeNode :: "hash_fn \<Rightarrow> empty_cache \<Rightarrow> nat \<Rightarrow> nat \<Rightarrow> tree_node \<times> empty_cache" where
  "emptyTreeNode h cache level i = (let (b, c) = emptyNode h cache level in (fresh_node b level i, c))"

section \<open>The constructor\<close>

fun buildLeaves :: "nat \<Rightarrow> bytes list \<Rightarrow> js_error + tree_node list" where
  "buildLeaves index [] = Inr []"
| "buildLeaves index (buffer # rest) =
     (if length buffer \<noteq> LEAF_BUFFER_LENGTH
      then Inl (Err (''Provided leaf has length: '' @ nat_str (length buffer) @
             '', but we need all leaves to be length '' @ nat_str LEAF_BUFFER_LENGTH))
      else ebind (buildLeaves (Suc index) rest) (\<lambda>nodes. Inr (fresh_node buffer 0 index # nodes)))"

record build_state =
  mb_nodes :: "tree_node list"
  mb_queue :: "nat list"
  mb_seqNum :: nat
  mb_cache :: empty_cache

text \<open>The body of the loop, entered with at least two nodes in the queue.\<close>

definition take_right :: "hash_fn \<Rightarrow> nat \<Rightarrow> nat \<Rightarrow> nat list \<Rightarrow> build_state \<Rightarrow> nat \<times> build_state" where
  "take_right h level next rest st =
     (if level \<noteq> tn_level (mb_nodes st ! next)
      then let (nd, c) = emptyTreeNode h (mb_cache st) level (mb_seqNum st)
           in (length (mb_nodes st),
               st\<lparr>mb_nodes := mb_nodes st @ [nd], mb_queue := next # rest, mb_seqNum := Suc (mb_seqNum st), mb_cache := c\<rparr>)
      else (next, st\<lparr>mb_queue := rest\<rparr>))"

definition join :: "hash_fn \<Rightarrow> nat \<Rightarrow> nat \<Rightarrow> nat \<Rightarrow> build_state \<Rightarrow> build_state" where
  "join h level left right st =
     (let nodes = mb_nodes st;
          p = length nodes;
          parent = \<lparr>tn_node = h (tn_node (nodes ! left)) (tn_node (nodes ! right)), tn_left = Some left,
                    tn_right = Some right, tn_parent = None, tn_level = level + 1, tn_id = mb_seqNum st\<rparr>;
          nodes1 = nodes[left := (nodes ! left)\<lparr>tn_parent := Some p\<rparr>];
          nodes2 = nodes1[right := (nodes1 ! right)\<lparr>tn_parent := Some p\<rparr>]
      in st\<lparr>mb_nodes := nodes2 @ [parent], mb_queue := mb_queue st @ [p], mb_seqNum := Suc (mb_seqNum st)\<rparr>)"

definition build_step :: "hash_fn \<Rightarrow> build_state \<Rightarrow> build_state" where
  "build_step h st =
     (case mb_queue st of
        left # next # rest \<Rightarrow>
          (let level = tn_level (mb_nodes st ! left);
               (right, st') = take_right h level next rest st
           in join h level left right st')
      | _ \<Rightarrow> st)"

partial_function (option) build_loop :: "hash_fn \<Rightarrow> build_state \<Rightarrow> build_state option" where
  "build_loop h st = (if length (mb_queue st) > 1 then build_loop h (build_step h st) else Some st)"

text \<open>\<open>new MerkleTree(leaves)\<close>: without leaves the queue is empty and reading its first node throws.\<close>

definition merkleTree :: "hash_fn \<Rightarrow> empty_cache \<Rightarrow> bytes list \<Rightarrow> (merkle_tree \<times> empty_cache) run" where
  "merkleTree h cache leaves =
     rbind (Some (buildLeaves 0 leaves)) (\<lambda>nodes.
       case build_loop h \<lparr>mb_nodes = nodes, mb_queue = [0..<length nodes], mb_seqNum = length leaves, mb_cache = cache\<rparr> of
         None \<Rightarrow> None
       | Some st \<Rightarrow>
           (case mb_queue st of
              [] \<Rightarrow> Some (Inl TypeError)
            | r # _ \<Rightarrow>
                Some (Inr (\<lparr>mt_nodes = mb_nodes st, mt_leaves = [0..<length nodes],
                            mt_root = tn_node (mb_nodes st ! r), mt_depth = tn_level (mb_nodes st ! r) + 1\<rparr>, mb_cache st))))"

section \<open>getProof\<close>

partial_function (option) proof_loop ::
  "hash_fn \<Rightarrow> tree_node list \<Rightarrow> bool \<Rightarrow> int \<Rightarrow> bool \<Rightarrow> tree_node \<Rightarrow> nat \<Rightarrow> tree_node list \<Rightarrow> tree_node list run" where
  "proof_loop h nodes minimize treeHeight check node height sofar =
     (case tn_parent node of
        None \<Rightarrow> Some (Inr sofar)
      | Some p \<Rightarrow>
          if minimize \<and> int height \<ge> treeHeight then Some (Inr sofar)
          else
            (case tn_left (nodes ! p) of
               None \<Rightarrow> Some (Inl TypeError)
             | Some l \<Rightarrow>
                 if tn_id (nodes ! l) = tn_id node then
                   (case tn_right (nodes ! p) of
                      None \<Rightarrow> Some (Inl TypeError)
                    | Some r \<Rightarrow>
                        if check \<and> h (tn_node node) (tn_node (nodes ! r)) \<noteq> tn_node (nodes ! p)
                        then Some (Inl (Err ''Invariant broken when hashing left node''))
                        else proof_loop h nodes minimize treeHeight check (nodes ! p) (Suc height) (sofar @ [nodes ! r]))
                 else if check \<and> h (tn_node (nodes ! l)) (tn_node node) \<noteq> tn_node (nodes ! p)
                   then Some (Inl (Err ''Invariant broken when hashing right node''))
                   else proof_loop h nodes minimize treeHeight check (nodes ! p) (Suc height) (sofar @ [nodes ! l])))"

definition getProof :: "hash_fn \<Rightarrow> merkle_tree \<Rightarrow> nat \<Rightarrow> bool \<Rightarrow> int \<Rightarrow> bool \<Rightarrow> merkle_proof run" where
  "getProof h t leafIndex minimizeProofHeight treeHeight check =
     (case js_nth (mt_leaves t) leafIndex of
        None \<Rightarrow> Some (Inl TypeError)
      | Some i \<Rightarrow>
          rbind (proof_loop h (mt_nodes t) minimizeProofHeight treeHeight check (mt_nodes t ! i) 0 []) (\<lambda>sofar.
            Some (Inr \<lparr>mp_leafIndex = leafIndex, mp_leaf = tn_node (mt_nodes t ! i), mp_proof = map tn_node sofar,
                       mp_root = mt_root t\<rparr>)))"

section \<open>updateLeaf\<close>

partial_function (option) update_loop :: "hash_fn \<Rightarrow> tree_node list \<Rightarrow> nat \<Rightarrow> (tree_node list \<times> nat) run" where
  "update_loop h nodes i =
     (case tn_parent (nodes ! i) of
        None \<Rightarrow> Some (Inr (nodes, i))
      | Some p \<Rightarrow>
          (case tn_left (nodes ! p) of
             None \<Rightarrow> Some (Inl TypeError)
           | Some l \<Rightarrow>
               (case tn_right (nodes ! p) of
                  None \<Rightarrow> Some (Inl TypeError)
                | Some r \<Rightarrow>
                    update_loop h
                      (nodes[p := (nodes ! p)\<lparr>tn_node := h (tn_node (nodes ! l)) (tn_node (nodes ! r))\<rparr>]) p)))"

definition updateLeaf :: "hash_fn \<Rightarrow> merkle_tree \<Rightarrow> nat \<Rightarrow> bytes \<Rightarrow> merkle_tree run" where
  "updateLeaf h t leafIndex newLeaf =
     (case js_nth (mt_leaves t) leafIndex of
        None \<Rightarrow> Some (Inl TypeError)
      | Some i \<Rightarrow>
          rbind (update_loop h ((mt_nodes t)[i := (mt_nodes t ! i)\<lparr>tn_node := newLeaf\<rparr>]) i) (\<lambda>(nodes, r).
            Some (Inr (t\<lparr>mt_nodes := nodes, mt_root := tn_node (nodes ! r)\<rparr>))))"

section \<open>verify\<close>

text \<open>
  The public keys of the client library: the buffer of a key made from bytes, a key from text, its text.
  The shift is JavaScript's: the number as a signed 32-bit integer, the distance modulo 32.
\<close>

record key_codec =
  kc_fromBytes :: "bytes \<Rightarrow> js_error + bytes"
  kc_fromString :: "string \<Rightarrow> js_error + bytes"
  kc_toString :: "bytes \<Rightarrow> string"

definition to_int32 :: "int \<Rightarrow> int" where
  "to_int32 x = (x + 2 ^ 31) mod 2 ^ 32 - 2 ^ 31"

definition js_shr :: "nat \<Rightarrow> nat \<Rightarrow> int" where
  "js_shr x i = to_int32 (int x) div 2 ^ (i mod 32)"

fun verify_loop :: "hash_fn \<Rightarrow> key_codec \<Rightarrow> nat \<Rightarrow> nat \<Rightarrow> bytes \<Rightarrow> bytes list \<Rightarrow> js_error + bytes" where
  "verify_loop h kc leafIndex i node [] = Inr node"
| "verify_loop h kc leafIndex i node (sib # sofar) =
     ebind (kc_fromBytes kc sib) (\<lambda>s.
       verify_loop h kc leafIndex (Suc i) (if even (js_shr leafIndex i) then h node s else h s node) sofar)"

definition verify :: "hash_fn \<Rightarrow> key_codec \<Rightarrow> string \<Rightarrow> merkle_proof \<Rightarrow> js_error + bool" where
  "verify h kc rootKey mp =
     ebind (kc_fromBytes kc (mp_leaf mp)) (\<lambda>leaf.
     ebind (verify_loop h kc (mp_leafIndex mp) 0 leaf (mp_proof mp)) (\<lambda>node.
     ebind (kc_fromBytes kc node) (\<lambda>n.
     ebind (kc_fromString kc rootKey) (\<lambda>r.
       if kc_toString kc n \<noteq> kc_toString kc r then Inl (Err ''Roots don't match!!!'') else Inr True))))"

section \<open>Specification\<close>

text \<open>
  The tree the constructor means: the leaves, continued with zero leaves, hashed in pairs. \<open>val h ls l k\<close>
  is the node at level \<open>l\<close> and position \<open>k\<close>; \<open>cnt n l\<close> is how many nodes of level \<open>l\<close> have a leaf below.
\<close>

fun val :: "hash_fn \<Rightarrow> bytes list \<Rightarrow> nat \<Rightarrow> nat \<Rightarrow> bytes" where
  "val h ls 0 k = (if k < length ls then ls ! k else replicate 32 0)"
| "val h ls (Suc l) k = h (val h ls l (2 * k)) (val h ls l (2 * k + 1))"

fun empty_hash :: "hash_fn \<Rightarrow> nat \<Rightarrow> bytes" where
  "empty_hash h 0 = replicate 32 0"
| "empty_hash h (Suc l) = h (empty_hash h l) (empty_hash h l)"

fun cnt :: "nat \<Rightarrow> nat \<Rightarrow> nat" where
  "cnt n 0 = n"
| "cnt n (Suc l) = (cnt n l + 1) div 2"

lemma cnt_le_iff: "cnt n l \<le> k \<longleftrightarrow> n \<le> k * 2 ^ l"
proof (induction l arbitrary: k)
  case (Suc l)
  have "cnt n (Suc l) \<le> k \<longleftrightarrow> cnt n l \<le> 2 * k" by auto
  with Suc show ?case by (simp add: mult.assoc mult.left_commute)
qed simp

lemma cnt_pos: "0 < n \<Longrightarrow> 0 < cnt n l"
  by (induction l) auto

lemma val_blank: "cnt (length ls) l \<le> k \<Longrightarrow> val h ls l k = empty_hash h l"
proof (induction l arbitrary: k)
  case (Suc l)
  then have "cnt (length ls) l \<le> 2 * k" by auto
  with Suc.IH[of "2 * k"] Suc.IH[of "2 * k + 1"] show ?case by simp
qed simp

lemma val_update:
  assumes "j \<noteq> i div 2 ^ l"
  shows "val h (ls[i := x]) l j = val h ls l j"
  using assms
proof (induction l arbitrary: j)
  case (Suc l)
  have "2 * j \<noteq> i div 2 ^ l" "2 * j + 1 \<noteq> i div 2 ^ l"
    using Suc.prems by (auto simp: power_Suc2 div_mult2_eq simp del: power_Suc)
  with Suc.IH show ?case by simp
qed auto

text \<open>The cache only ever holds hashes of empty trees.\<close>

definition cache_ok :: "hash_fn \<Rightarrow> empty_cache \<Rightarrow> bool" where
  "cache_ok h c \<longleftrightarrow> (\<forall>l b. c l = Some b \<longrightarrow> b = empty_hash h l)"

lemma cache_ok_empty [simp]: "cache_ok h Map.empty"
  by (simp add: cache_ok_def)

lemma emptyNode_spec: "cache_ok h c \<Longrightarrow> emptyNode h c l = (b, c') \<Longrightarrow> b = empty_hash h l \<and> cache_ok h c'"
proof (induction h c l arbitrary: b c' rule: emptyNode.induct)
  case (1 h cache)
  then have "cache 0 = Some b \<Longrightarrow> b = empty_hash h 0" unfolding cache_ok_def by blast
  with 1 show ?case by (auto split: option.splits)
next
  case (2 h cache level)
  show ?case
  proof (cases "cache (Suc level)")
    case None
    obtain a c1 where a: "emptyNode h cache level = (a, c1)" by fastforce
    obtain d c2 where d: "emptyNode h c1 level = (d, c2)" by fastforce
    from 2(1)[OF None "2.prems"(1) a] have a': "a = empty_hash h level" "cache_ok h c1" by auto
    from 2(2)[OF None a[symmetric] refl a'(2) d] have d': "d = empty_hash h level" "cache_ok h c2" by auto
    show ?thesis using "2.prems"(2) None a d a' d' by (auto simp: cache_ok_def Let_def split: if_splits)
  next
    case (Some d)
    with "2.prems" have "b = d" "c' = cache" "d = empty_hash h (Suc level)" unfolding cache_ok_def
      by (auto simp del: empty_hash.simps)
    with "2.prems"(1) show ?thesis by simp
  qed
qed

section \<open>The heap\<close>

text \<open>
  Each node of the heap stands for a place in the tree, its label. A node has the value of its place; its
  children stand for the two places below or it has none (a leaf or a blank); its parent has it as a
  child, and only the nodes in \<open>Q\<close> have no parent.
\<close>

type_synonym labels = "(nat \<times> nat) list"

definition node_at :: "hash_fn \<Rightarrow> bytes list \<Rightarrow> labels \<Rightarrow> nat \<Rightarrow> tree_node \<Rightarrow> bool" where
  "node_at h ls lab i nd \<longleftrightarrow>
     tn_id nd = i \<and> tn_level nd = fst (lab ! i) \<and> tn_node nd = val h ls (fst (lab ! i)) (snd (lab ! i))"

definition children_ok :: "nat \<Rightarrow> labels \<Rightarrow> nat \<Rightarrow> tree_node \<Rightarrow> bool" where
  "children_ok n lab p nd \<longleftrightarrow>
     (tn_left nd = None \<and> tn_right nd = None \<and> (fst (lab ! p) = 0 \<or> cnt n (fst (lab ! p)) \<le> snd (lab ! p)))
     \<or> (\<exists>a b l k. tn_left nd = Some a \<and> tn_right nd = Some b \<and> a < p \<and> b < p
          \<and> lab ! p = (Suc l, k) \<and> lab ! a = (l, 2 * k) \<and> lab ! b = (l, 2 * k + 1))"

definition parent_ok :: "tree_node list \<Rightarrow> nat set \<Rightarrow> nat \<Rightarrow> bool" where
  "parent_ok nodes Q i \<longleftrightarrow>
     (case tn_parent (nodes ! i) of
        None \<Rightarrow> i \<in> Q
      | Some p \<Rightarrow> i \<notin> Q \<and> i < p \<and> p < length nodes \<and> tn_left (nodes ! p) \<noteq> None
          \<and> (tn_left (nodes ! p) = Some i \<or> tn_right (nodes ! p) = Some i))"

definition heap_ok :: "hash_fn \<Rightarrow> bytes list \<Rightarrow> tree_node list \<Rightarrow> labels \<Rightarrow> nat set \<Rightarrow> bool" where
  "heap_ok h ls nodes lab Q \<longleftrightarrow>
     length lab = length nodes \<and> distinct lab
     \<and> (\<forall>i < length nodes. node_at h ls lab i (nodes ! i) \<and> children_ok (length ls) lab i (nodes ! i) \<and> parent_ok nodes Q i)"

lemma node_at_append [simp]: "i < length lab \<Longrightarrow> node_at h ls (lab @ xs) i nd = node_at h ls lab i nd"
  by (simp add: node_at_def nth_append)

lemma children_ok_mono:
  assumes "\<And>a. a \<le> i \<Longrightarrow> lab' ! a = lab ! a" and "children_ok n lab i nd"
  shows "children_ok n lab' i nd"
proof (cases "tn_left nd")
  case None
  with assms show ?thesis by (simp add: children_ok_def)
next
  case (Some a)
  with assms(2) obtain b l k where *: "tn_right nd = Some b" "a < i" "b < i" "lab ! i = (Suc l, k)"
    "lab ! a = (l, 2 * k)" "lab ! b = (l, 2 * k + 1)"
    unfolding children_ok_def by auto
  moreover have "lab' ! i = lab ! i" "lab' ! a = lab ! a" "lab' ! b = lab ! b" using assms(1) * by simp_all
  ultimately show ?thesis using Some unfolding children_ok_def by auto
qed

lemma children_ok_append [simp]:
  "i < length lab \<Longrightarrow> children_ok n (lab @ xs) i nd = children_ok n lab i nd"
  using children_ok_mono[of i "lab @ xs" lab n nd] children_ok_mono[of i lab "lab @ xs" n nd]
  by (auto simp: nth_append)

lemma heap_okD:
  assumes "heap_ok h ls nodes lab Q"
  shows "length lab = length nodes" and "distinct lab"
    and "i < length nodes \<Longrightarrow> node_at h ls lab i (nodes ! i)"
    and "i < length nodes \<Longrightarrow> children_ok (length ls) lab i (nodes ! i)"
    and "i < length nodes \<Longrightarrow> parent_ok nodes Q i"
  using assms by (simp_all add: heap_ok_def)

lemma heap_okI:
  assumes "length lab = length nodes" and "distinct lab"
    and "\<And>i. i < length nodes \<Longrightarrow> node_at h ls lab i (nodes ! i)"
    and "\<And>i. i < length nodes \<Longrightarrow> children_ok (length ls) lab i (nodes ! i)"
    and "\<And>i. i < length nodes \<Longrightarrow> parent_ok nodes Q i"
  shows "heap_ok h ls nodes lab Q"
  using assms by (simp add: heap_ok_def)

lemma heap_ok_pad:
  assumes ok: "heap_ok h ls nodes lab Q" and blank: "cnt (length ls) l \<le> k" and new: "(l, k) \<notin> set lab"
  shows "heap_ok h ls (nodes @ [fresh_node (empty_hash h l) l (length nodes)]) (lab @ [(l, k)]) (insert (length nodes) Q)"
proof (rule heap_okI)
  note [simp] = heap_okD(1,2)[OF ok]
  let ?nd = "fresh_node (empty_hash h l) l (length nodes)"
  show "length (lab @ [(l, k)]) = length (nodes @ [?nd])" "distinct (lab @ [(l, k)])" using new by simp_all
  fix i
  assume "i < length (nodes @ [?nd])"
  then consider (old) "i < length nodes" | (pad) "i = length nodes" by fastforce
  note c = this
  show "node_at h ls (lab @ [(l, k)]) i ((nodes @ [?nd]) ! i)"
    using c
  proof cases
    case pad
    then show ?thesis using val_blank[OF blank] by (simp add: node_at_def fresh_node_def nth_append)
  qed (use heap_okD(3)[OF ok] in \<open>simp add: nth_append\<close>)
  show "children_ok (length ls) (lab @ [(l, k)]) i ((nodes @ [?nd]) ! i)"
    using c
  proof cases
    case pad
    then show ?thesis using blank by (simp add: children_ok_def fresh_node_def nth_append)
  qed (use heap_okD(4)[OF ok] in \<open>simp add: nth_append\<close>)
  show "parent_ok (nodes @ [?nd]) (insert (length nodes) Q) i"
    using c
  proof cases
    case old
    then show ?thesis using heap_okD(5)[OF ok old] by (auto simp: parent_ok_def nth_append split: option.splits)
  qed (simp add: parent_ok_def fresh_node_def)
qed

lemma join_nth:
  assumes "left < length (mb_nodes st)" and "right < length (mb_nodes st)" and "left \<noteq> right"
  shows "mb_nodes (join h level left right st) ! i =
    (if i < length (mb_nodes st) then
       if i = left \<or> i = right then (mb_nodes st ! i)\<lparr>tn_parent := Some (length (mb_nodes st))\<rparr> else mb_nodes st ! i
     else [\<lparr>tn_node = h (tn_node (mb_nodes st ! left)) (tn_node (mb_nodes st ! right)), tn_left = Some left,
            tn_right = Some right, tn_parent = None, tn_level = level + 1, tn_id = mb_seqNum st\<rparr>] ! (i - length (mb_nodes st)))"
  using assms by (auto simp: join_def Let_def nth_append nth_list_update)

lemma join_length [simp]: "length (mb_nodes (join h level left right st)) = Suc (length (mb_nodes st))"
  by (simp add: join_def Let_def)

lemma heap_ok_join:
  assumes ok: "heap_ok h ls (mb_nodes st) lab Q" and lr: "left \<in> Q" "right \<in> Q" "left < length lab" "right < length lab"
    and lab: "lab ! left = (l, 2 * k)" "lab ! right = (l, 2 * k + 1)" and new: "(Suc l, k) \<notin> set lab"
    and seq: "mb_seqNum st = length (mb_nodes st)"
  shows "heap_ok h ls (mb_nodes (join h l left right st)) (lab @ [(Suc l, k)])
    (insert (length (mb_nodes st)) (Q - {left, right}))"
proof (rule heap_okI)
  let ?n = "length (mb_nodes st)" and ?N = "mb_nodes (join h l left right st)"
  note [simp] = heap_okD(1,2)[OF ok]
  have ne: "left \<noteq> right" using lab by auto
  have lt: "left < ?n" "right < ?n" using lr by simp_all
  note nth = join_nth[OF lt ne, of h l]
  show "length (lab @ [(Suc l, k)]) = length ?N" "distinct (lab @ [(Suc l, k)])" using new by simp_all
  fix i
  assume "i < length ?N"
  then consider (old) "i < ?n" | (new) "i = ?n" by fastforce
  note c = this
  have vals: "tn_node (mb_nodes st ! left) = val h ls l (2 * k)" "tn_node (mb_nodes st ! right) = val h ls l (2 * k + 1)"
    using heap_okD(3)[OF ok lt(1)] heap_okD(3)[OF ok lt(2)] lab by (simp_all add: node_at_def)
  show "node_at h ls (lab @ [(Suc l, k)]) i (?N ! i)"
    using c
  proof cases
    case old
    then show ?thesis using heap_okD(3)[OF ok old] by (simp add: nth) (auto simp: node_at_def)
  next
    case new
    then show ?thesis using vals seq by (simp add: nth) (simp add: node_at_def nth_append)
  qed
  show "children_ok (length ls) (lab @ [(Suc l, k)]) i (?N ! i)"
    using c
  proof cases
    case old
    then show ?thesis using heap_okD(4)[OF ok old] by (simp add: nth) (auto simp: children_ok_def)
  next
    case new
    then show ?thesis using lt lab by (simp add: nth) (simp add: children_ok_def nth_append)
  qed
  show "parent_ok ?N (insert ?n (Q - {left, right})) i"
    using c
  proof cases
    case old
    then show ?thesis using heap_okD(5)[OF ok old] lt
      by (auto simp: parent_ok_def nth split: option.splits)
  qed (simp add: parent_ok_def nth)
qed

section \<open>The constructor builds the tree\<close>

text \<open>
  In the middle of level \<open>l\<close>, \<open>j\<close> of its nodes are joined: the queue holds the rest of the level and the
  parents made so far.
\<close>

definition build_inv :: "hash_fn \<Rightarrow> bytes list \<Rightarrow> nat \<Rightarrow> nat \<Rightarrow> labels \<Rightarrow> build_state \<Rightarrow> bool" where
  "build_inv h ls l j lab st \<longleftrightarrow>
     even j \<and> j < cnt (length ls) l \<and> (l = 0 \<or> 1 < cnt (length ls) (l - 1))
     \<and> heap_ok h ls (mb_nodes st) lab (set (mb_queue st))
     \<and> map ((!) lab) (mb_queue st) = map (Pair l) [j..<cnt (length ls) l] @ map (Pair (Suc l)) [0..<j div 2]
     \<and> set (mb_queue st) \<subseteq> {..<length (mb_nodes st)}
     \<and> (\<forall>(l', k') \<in> set lab. l' \<le> Suc l \<and> (l' = l \<longrightarrow> k' < cnt (length ls) l) \<and> (l' = Suc l \<longrightarrow> k' < j div 2))
     \<and> mb_seqNum st = length (mb_nodes st) \<and> cache_ok h (mb_cache st)
     \<and> length ls \<le> length lab \<and> (\<forall>i < length ls. lab ! i = (0, i))"

lemma join_sel [simp]:
  "mb_queue (join h level left right st) = mb_queue st @ [length (mb_nodes st)]"
  "mb_seqNum (join h level left right st) = Suc (mb_seqNum st)"
  "mb_cache (join h level left right st) = mb_cache st"
  by (simp_all add: join_def Let_def)

lemma map_nth_append:
  "\<forall>i \<in> set q. i < length lab \<Longrightarrow> map ((!) (lab @ xs)) q = map ((!) lab) q"
  by (simp add: nth_append)

lemma build_step_pair:
  assumes inv: "build_inv h ls l j lab st" and j: "j + 1 < cnt (length ls) l"
  shows "build_inv h ls (if j + 2 < cnt (length ls) l then l else Suc l) (if j + 2 < cnt (length ls) l then j + 2 else 0)
    (lab @ [(Suc l, j div 2)]) (build_step h st)"
proof -
  let ?c = "cnt (length ls) l"
  from inv have ok: "heap_ok h ls (mb_nodes st) lab (set (mb_queue st))"
    and q: "map ((!) lab) (mb_queue st) = map (Pair l) [j..<?c] @ map (Pair (Suc l)) [0..<j div 2]"
    and ev: "even j" and sub: "set (mb_queue st) \<subseteq> {..<length (mb_nodes st)}"
    and fresh: "\<forall>(l', k') \<in> set lab. l' \<le> Suc l \<and> (l' = l \<longrightarrow> k' < ?c) \<and> (l' = Suc l \<longrightarrow> k' < j div 2)"
    and rest: "mb_seqNum st = length (mb_nodes st)" "cache_ok h (mb_cache st)" "length ls \<le> length lab"
      "\<forall>i < length ls. lab ! i = (0, i)"
    unfolding build_inv_def by blast+
  note len = heap_okD(1)[OF ok]
  have "[j..<?c] = j # Suc j # [j + 2..<?c]" using j by (simp add: upt_conv_Cons)
  with q obtain left "next" qs where st: "mb_queue st = left # next # qs" "lab ! left = (l, j)" "lab ! next = (l, j + 1)"
    and qs: "map ((!) lab) qs = map (Pair l) [j + 2..<?c] @ map (Pair (Suc l)) [0..<j div 2]"
    by (auto simp: map_eq_Cons_conv)
  have dist: "distinct (mb_queue st)"
    using q by (intro distinct_map[THEN iffD1, THEN conjunct1, of "(!) lab"]) (auto simp: distinct_map inj_on_def)
  have lt: "left < length lab" "next < length lab" "\<forall>i \<in> set qs. i < length lab" using st sub len by auto
  have lev: "tn_level (mb_nodes st ! left) = l" "tn_level (mb_nodes st ! next) = l"
    using heap_okD(3)[OF ok, of left] heap_okD(3)[OF ok, of "next"] lt len st by (simp_all add: node_at_def)
  let ?st = "st\<lparr>mb_queue := qs\<rparr>"
  have step: "build_step h st = join h l left next ?st" by (simp add: build_step_def st lev take_right_def)
  have new: "(Suc l, j div 2) \<notin> set lab" using fresh by auto
  have "heap_ok h ls (mb_nodes (join h l left next ?st)) (lab @ [(Suc l, j div 2)])
      (insert (length (mb_nodes ?st)) (set (mb_queue st) - {left, next}))"
    using ok st lt ev new rest by (intro heap_ok_join) auto
  moreover have "insert (length (mb_nodes ?st)) (set (mb_queue st) - {left, next}) = set (mb_queue (build_step h st))"
    using dist by (auto simp: st step)
  ultimately have ok': "heap_ok h ls (mb_nodes (build_step h st)) (lab @ [(Suc l, j div 2)]) (set (mb_queue (build_step h st)))"
    by (simp add: step)
  have q': "map ((!) (lab @ [(Suc l, j div 2)])) (mb_queue (build_step h st)) =
      map (Pair l) [j + 2..<?c] @ map (Pair (Suc l)) [0..<Suc (j div 2)]"
    using lt qs len by (simp add: step map_nth_append) (simp add: nth_append)
  have leaves: "\<forall>i < length ls. (lab @ [(Suc l, j div 2)]) ! i = (0, i)" using rest(3,4) by (simp add: nth_append)
  have sub': "set (mb_queue (build_step h st)) \<subseteq> {..<length (mb_nodes (build_step h st))}"
    using sub st(1) by (auto simp: step)
  show ?thesis
  proof (cases "j + 2 < ?c")
    case True
    then show ?thesis
      using inv ok' q' fresh leaves sub' ev rest by (auto simp: build_inv_def step)
  next
    case False
    with j ev have c: "?c = j + 2" "cnt (length ls) (Suc l) = Suc (j div 2)" by auto
    then show ?thesis
      using inv ok' q' fresh leaves sub' rest j by (auto simp: build_inv_def step)
  qed
qed

lemma build_step_pad:
  assumes inv: "build_inv h ls l j lab st" and j: "j + 1 = cnt (length ls) l" and "0 < j"
  shows "build_inv h ls (Suc l) 0 (lab @ [(l, j + 1), (Suc l, j div 2)]) (build_step h st)"
proof -
  from inv j have ok: "heap_ok h ls (mb_nodes st) lab (set (mb_queue st))"
    and q: "map ((!) lab) (mb_queue st) = (l, j) # map (Pair (Suc l)) [0..<j div 2]"
    and ev: "even j" and sub: "set (mb_queue st) \<subseteq> {..<length (mb_nodes st)}"
    and fresh: "\<forall>(l', k') \<in> set lab. l' \<le> Suc l \<and> (l' = l \<longrightarrow> k' < j + 1) \<and> (l' = Suc l \<longrightarrow> k' < j div 2)"
    and rest: "mb_seqNum st = length (mb_nodes st)" "cache_ok h (mb_cache st)" "length ls \<le> length lab"
      "\<forall>i < length ls. lab ! i = (0, i)"
    unfolding build_inv_def j[symmetric] by auto
  note len = heap_okD(1)[OF ok]
  from ev \<open>0 < j\<close> have up: "[0..<j div 2] = 0 # [1..<j div 2]" by (auto simp: upt_conv_Cons elim: evenE)
  with q obtain left "next" qs where st: "mb_queue st = left # next # qs" "lab ! left = (l, j)" "lab ! next = (Suc l, 0)"
    by (auto simp: map_eq_Cons_conv)
  have qs: "map ((!) lab) (next # qs) = map (Pair (Suc l)) [0..<j div 2]" using q by (simp add: st)
  have dist: "distinct (mb_queue st)"
    using q by (intro distinct_map[THEN iffD1, THEN conjunct1, of "(!) lab"]) (auto simp: distinct_map inj_on_def)
  have lt: "left < length lab" "next < length lab" "\<forall>i \<in> set (next # qs). i < length lab" using st sub len by auto
  have lev: "tn_level (mb_nodes st ! left) = l" "tn_level (mb_nodes st ! next) = Suc l"
    using heap_okD(3)[OF ok, of left] heap_okD(3)[OF ok, of "next"] lt len st by (simp_all add: node_at_def)
  obtain c where e: "emptyNode h (mb_cache st) l = (empty_hash h l, c)" and c: "cache_ok h c"
    using emptyNode_spec[OF rest(2)] by (cases "emptyNode h (mb_cache st) l") blast
  let ?n = "length (mb_nodes st)"
  let ?st = "st\<lparr>mb_nodes := mb_nodes st @ [fresh_node (empty_hash h l) l ?n], mb_queue := next # qs,
      mb_seqNum := Suc ?n, mb_cache := c\<rparr>"
  have step: "build_step h st = join h l left ?n ?st"
    by (simp add: build_step_def st lev take_right_def emptyTreeNode_def e rest)
  have ok1: "heap_ok h ls (mb_nodes ?st) (lab @ [(l, j + 1)]) (insert ?n (set (mb_queue st)))"
    using heap_ok_pad[OF ok, of l "j + 1"] j fresh by auto
  have "heap_ok h ls (mb_nodes (join h l left ?n ?st)) ((lab @ [(l, j + 1)]) @ [(Suc l, j div 2)])
      (insert (length (mb_nodes ?st)) (insert ?n (set (mb_queue st)) - {left, ?n}))"
    using ok1 st lt ev fresh len by (intro heap_ok_join) (auto simp: nth_append)
  moreover have "insert (length (mb_nodes ?st)) (insert ?n (set (mb_queue st)) - {left, ?n}) = set (mb_queue (build_step h st))"
    using dist sub by (auto simp: st step)
  ultimately have ok': "heap_ok h ls (mb_nodes (build_step h st)) (lab @ [(l, j + 1), (Suc l, j div 2)]) (set (mb_queue (build_step h st)))"
    by (simp add: step)
  have q': "map ((!) (lab @ [(l, j + 1), (Suc l, j div 2)])) (mb_queue (build_step h st)) = map (Pair (Suc l)) [0..<Suc (j div 2)]"
    using lt(3) qs len by (simp add: step map_nth_append nth_append)
  have leaves: "\<forall>i < length ls. (lab @ [(l, j + 1), (Suc l, j div 2)]) ! i = (0, i)" using rest(3,4) by (simp add: nth_append)
  have sub': "set (mb_queue (build_step h st)) \<subseteq> {..<length (mb_nodes (build_step h st))}"
    using sub st(1) by (auto simp: step)
  have "cnt (length ls) (Suc l) = Suc (j div 2)" using j ev by auto
  then show ?thesis
    using inv ok' q' fresh leaves sub' rest c j \<open>0 < j\<close> by (auto simp: build_inv_def step)
qed

lemma build_loop_returns:
  assumes "build_inv h ls l j lab st"
  shows "\<exists>st' lab' L. build_loop h st = Some st' \<and> build_inv h ls L 0 lab' st' \<and> cnt (length ls) L = 1"
  using assms
proof (induction "3 * cnt (length ls) l - j" arbitrary: l j lab st rule: less_induct)
  case (less l j lab st)
  let ?c = "cnt (length ls) l"
  from less.prems have j: "even j" "j < ?c"
    and q: "map ((!) lab) (mb_queue st) = map (Pair l) [j..<?c] @ map (Pair (Suc l)) [0..<j div 2]"
    unfolding build_inv_def by auto
  from arg_cong[OF q, of length] have lq: "length (mb_queue st) = ?c - j + j div 2" by simp
  show ?case
  proof (cases "?c = 1")
    case True
    with j lq have "length (mb_queue st) = 1" "j = 0" by auto
    with less.prems True show ?thesis by (intro exI[of _ st]) (subst build_loop.simps, auto)
  next
    case False
    with j have c: "1 < ?c" by simp
    from j False have big: "1 < length (mb_queue st)" unfolding lq by (auto elim!: evenE)
    then have loop: "build_loop h st = build_loop h (build_step h st)" by (subst build_loop.simps) simp
    consider (next2) "j + 2 < ?c" | (last2) "j + 2 = ?c" | (last1) "j + 1 = ?c" using j by linarith
    then show ?thesis
    proof cases
      case next2
      with less.hyps[OF _ build_step_pair[OF less.prems], unfolded loop[symmetric]] show ?thesis by auto
    next
      case last2
      with less.hyps[OF _ build_step_pair[OF less.prems], unfolded loop[symmetric]] show ?thesis by auto
    next
      case last1
      with c have "0 < j" by simp
      with less.hyps[OF _ build_step_pad[OF less.prems last1], unfolded loop[symmetric]] last1 j(1) show ?thesis
        by (auto elim!: evenE)
    qed
  qed
qed

lemma buildLeaves_Inr:
  "\<forall>b \<in> set ls. length b = 32 \<Longrightarrow> buildLeaves i ls = Inr (map2 (\<lambda>b j. fresh_node b 0 j) ls [i..<i + length ls])"
proof (induction ls arbitrary: i)
  case (Cons b ls)
  have "[i..<i + length (b # ls)] = i # [Suc i..<Suc i + length ls]" by (simp add: upt_conv_Cons del: upt_Suc)
  with Cons show ?case by (simp add: LEAF_BUFFER_LENGTH_def)
qed simp

lemma buildLeaves_length: "buildLeaves i ls = Inr nodes \<Longrightarrow> \<forall>b \<in> set ls. length b = 32"
  by (induction i ls arbitrary: nodes rule: buildLeaves.induct)
    (auto simp: LEAF_BUFFER_LENGTH_def split: if_splits elim!: ebind_InrE)

lemma build_inv_init:
  assumes "ls \<noteq> []" and "cache_ok h cache" and "nodes = map2 (\<lambda>b j. fresh_node b 0 j) ls [0..<length ls]"
  shows "build_inv h ls 0 0 (map (Pair 0) [0..<length ls])
    \<lparr>mb_nodes = nodes, mb_queue = [0..<length ls], mb_seqNum = length ls, mb_cache = cache\<rparr>"
proof -
  have len: "length nodes = length ls" using assms(3) by simp
  have nth: "nodes ! i = fresh_node (ls ! i) 0 i" if "i < length ls" for i using assms(3) that by simp
  have "heap_ok h ls nodes (map (Pair 0) [0..<length ls]) {0..<length ls}"
    by (rule heap_okI)
      (simp_all add: len nth distinct_map inj_on_def node_at_def children_ok_def parent_ok_def fresh_node_def)
  then show ?thesis using assms(1,2) len by (auto simp: build_inv_def map_nth)
qed

text \<open>A tree that stands for a list of leaves.\<close>

definition tree_shape :: "hash_fn \<Rightarrow> bytes list \<Rightarrow> labels \<Rightarrow> nat \<Rightarrow> nat \<Rightarrow> merkle_tree \<Rightarrow> bool" where
  "tree_shape h ls lab L r t \<longleftrightarrow>
     heap_ok h ls (mt_nodes t) lab {r} \<and> r < length (mt_nodes t) \<and> lab ! r = (L, 0)
     \<and> mt_leaves t = [0..<length ls] \<and> length ls \<le> length lab \<and> (\<forall>i < length ls. lab ! i = (0, i))
     \<and> mt_root t = val h ls L 0 \<and> mt_depth t = Suc L \<and> length ls \<le> 2 ^ L \<and> (L = 0 \<or> 2 ^ (L - 1) < length ls)"

definition represents :: "hash_fn \<Rightarrow> merkle_tree \<Rightarrow> bytes list \<Rightarrow> bool" where
  "represents h t ls \<longleftrightarrow> (\<exists>lab L r. tree_shape h ls lab L r t)"

lemma tree_shape_final:
  assumes inv: "build_inv h ls L 0 lab st" and one: "cnt (length ls) L = 1" and q: "mb_queue st = r # qs"
  shows "qs = [] \<and> tree_shape h ls lab L r \<lparr>mt_nodes = mb_nodes st, mt_leaves = [0..<length ls],
      mt_root = tn_node (mb_nodes st ! r), mt_depth = tn_level (mb_nodes st ! r) + 1\<rparr>"
proof -
  from inv one have m: "map ((!) lab) (mb_queue st) = [(L, 0)]" by (simp add: build_inv_def)
  with q have qs: "qs = []" and r: "lab ! r = (L, 0)" by auto
  from inv q qs have ok: "heap_ok h ls (mb_nodes st) lab {r}" and lt: "r < length (mb_nodes st)"
    and lv: "length ls \<le> length lab" "\<forall>i < length ls. lab ! i = (0, i)"
    by (simp_all add: build_inv_def)
  have v: "tn_node (mb_nodes st ! r) = val h ls L 0" "tn_level (mb_nodes st ! r) = L"
    using heap_okD(3)[OF ok lt] r by (simp_all add: node_at_def)
  have "length ls \<le> 2 ^ L" using cnt_le_iff[of "length ls" L 1] one by simp
  moreover have "L = 0 \<or> 2 ^ (L - 1) < length ls"
    using inv cnt_le_iff[of "length ls" "L - 1" 1] by (auto simp: build_inv_def)
  ultimately show ?thesis using ok lt r lv v qs by (simp add: tree_shape_def)
qed

lemma merkleTree_spec:
  assumes "ls \<noteq> []" and "\<forall>b \<in> set ls. length b = 32" and "cache_ok h cache"
  shows "\<exists>t c L. merkleTree h cache ls = Some (Inr (t, c)) \<and> represents h t ls \<and> cache_ok h c
    \<and> mt_root t = val h ls L 0 \<and> mt_depth t = L + 1 \<and> length ls \<le> 2 ^ L \<and> (L = 0 \<or> 2 ^ (L - 1) < length ls)"
proof -
  let ?nodes = "map2 (\<lambda>b j. fresh_node b 0 j) ls [0..<length ls]"
  let ?st = "\<lparr>mb_nodes = ?nodes, mb_queue = [0..<length ls], mb_seqNum = length ls, mb_cache = cache\<rparr>"
  have b: "buildLeaves 0 ls = Inr ?nodes" using buildLeaves_Inr[OF assms(2), of 0] by simp
  obtain st lab L where st: "build_loop h ?st = Some st" "build_inv h ls L 0 lab st" "cnt (length ls) L = 1"
    using build_loop_returns[OF build_inv_init[OF assms(1,3) refl]] by blast
  from st(2,3) have "map ((!) lab) (mb_queue st) = [(L, 0)]" by (simp add: build_inv_def)
  then obtain r where q: "mb_queue st = [r]" by auto
  let ?t = "\<lparr>mt_nodes = mb_nodes st, mt_leaves = [0..<length ls],
      mt_root = tn_node (mb_nodes st ! r), mt_depth = tn_level (mb_nodes st ! r) + 1\<rparr>"
  have s: "tree_shape h ls lab L r ?t" using tree_shape_final[OF st(2,3) q] by simp
  have "merkleTree h cache ls = Some (Inr (?t, mb_cache st))"
    by (simp add: merkleTree_def b st(1) q)
  moreover have "cache_ok h (mb_cache st)" using st(2) by (simp add: build_inv_def)
  moreover have "mt_root ?t = val h ls L 0 \<and> mt_depth ?t = L + 1 \<and> length ls \<le> 2 ^ L \<and> (L = 0 \<or> 2 ^ (L - 1) < length ls)"
    using s unfolding tree_shape_def by simp
  ultimately show ?thesis using s unfolding represents_def by blast
qed

section \<open>Walking up\<close>

lemma parent_cases:
  assumes ok: "heap_ok h ls nodes lab Q" and i: "i < length nodes" "i \<notin> Q" and lab: "lab ! i = (l, k)"
  obtains p a b where "tn_parent (nodes ! i) = Some p" and "i < p" and "p < length nodes"
    and "tn_left (nodes ! p) = Some a" and "tn_right (nodes ! p) = Some b" and "a < length nodes" and "b < length nodes"
    and "lab ! p = (Suc l, k div 2)" and "lab ! a = (l, 2 * (k div 2))" and "lab ! b = (l, 2 * (k div 2) + 1)"
    and "i = (if even k then a else b)" and "a \<noteq> b"
proof -
  from heap_okD(5)[OF ok i(1)] i(2) obtain p where p: "tn_parent (nodes ! i) = Some p" "i < p" "p < length nodes"
    "tn_left (nodes ! p) \<noteq> None" "tn_left (nodes ! p) = Some i \<or> tn_right (nodes ! p) = Some i"
    by (auto simp: parent_ok_def split: option.splits)
  from heap_okD(4)[OF ok p(3)] p(4) obtain a b m k' where c: "tn_left (nodes ! p) = Some a" "tn_right (nodes ! p) = Some b"
    "a < p" "b < p" "lab ! p = (Suc m, k')" "lab ! a = (m, 2 * k')" "lab ! b = (m, 2 * k' + 1)"
    unfolding children_ok_def by blast
  from p(5) c lab have "m = l" "k' = k div 2" "i = (if even k then a else b)" by auto
  with c p show thesis by (intro that[of p a b]) auto
qed

lemma root_no_parent:
  assumes "heap_ok h ls nodes lab Q" and "i < length nodes" and "i \<in> Q"
  shows "tn_parent (nodes ! i) = None"
  using heap_okD(5)[OF assms(1,2)] assms(3) by (auto simp: parent_ok_def split: option.splits)

text \<open>Every walk ends at the root.\<close>

lemma level_le:
  assumes ok: "heap_ok h ls nodes lab {r}" and r: "lab ! r = (L, 0)" and i: "i < length nodes" "lab ! i = (l, k)"
  shows "l \<le> L \<and> k div 2 ^ (L - l) = 0 \<and> (i \<noteq> r \<longrightarrow> l < L)"
  using i
proof (induction "length nodes - i" arbitrary: i l k rule: less_induct)
  case (less i l k)
  show ?case
  proof (cases "i = r")
    case False
    obtain p where p: "i < p" "p < length nodes" "lab ! p = (Suc l, k div 2)"
      using parent_cases[OF ok less.prems(1) _ less.prems(2)] False by (metis singletonD)
    with less.hyps[of p "Suc l" "k div 2"] have "Suc l \<le> L" "k div 2 div 2 ^ (L - Suc l) = 0" by auto
    moreover have "k div 2 ^ Suc m = k div 2 div 2 ^ m" for m by (simp add: div_mult2_eq)
    ultimately show ?thesis by (simp add: Suc_diff_le less_eq_Suc_le flip: Suc_diff_Suc)
  qed (use r less.prems in simp)
qed

section \<open>Proofs\<close>

definition sib :: "nat \<Rightarrow> nat" where
  "sib k = (if even k then k + 1 else k - 1)"

fun path_sibs :: "hash_fn \<Rightarrow> bytes list \<Rightarrow> nat \<Rightarrow> nat \<Rightarrow> nat \<Rightarrow> bytes list" where
  "path_sibs h ls l k 0 = []"
| "path_sibs h ls l k (Suc n) = val h ls l (sib k) # path_sibs h ls (Suc l) (k div 2) n"

lemma length_path_sibs [simp]: "length (path_sibs h ls l k n) = n"
  by (induction n arbitrary: l k) auto

lemma val_parent:
  "val h ls (Suc l) (k div 2) = (if even k then h (val h ls l k) (val h ls l (sib k)) else h (val h ls l (sib k)) (val h ls l k))"
  by (auto simp: sib_def elim!: evenE oddE)

definition proof_len :: "bool \<Rightarrow> int \<Rightarrow> nat \<Rightarrow> nat \<Rightarrow> nat" where
  "proof_len minimize treeHeight height n = (if minimize then min n (nat (treeHeight - int height)) else n)"

lemma proof_len_Suc:
  "\<not> (minimize \<and> treeHeight \<le> int height) \<Longrightarrow>
     proof_len minimize treeHeight height (Suc n) = Suc (proof_len minimize treeHeight (Suc height) n)"
  by (auto simp: proof_len_def)

lemma proof_loop_spec:
  assumes ok: "heap_ok h ls nodes lab {r}" and r: "lab ! r = (L, 0)"
    and i: "i < length nodes" "lab ! i = (l, k)"
  shows "\<exists>sibs. proof_loop h nodes mi th chk (nodes ! i) ht sofar = Some (Inr (sofar @ sibs))
    \<and> map tn_node sibs = path_sibs h ls l k (proof_len mi th ht (L - l))"
  using i
proof (induction "length nodes - i" arbitrary: i l k ht sofar rule: less_induct)
  case (less i l k)
  note at = heap_okD(3)[OF ok]
  show ?case
  proof (cases "i = r \<or> mi \<and> th \<le> int ht")
    case True
    then have "proof_len mi th ht (L - l) = 0" using r less.prems by (auto simp: proof_len_def)
    moreover have "proof_loop h nodes mi th chk (nodes ! i) ht sofar = Some (Inr sofar)"
      using True root_no_parent[OF ok less.prems(1)] by (subst proof_loop.simps) (auto split: option.splits)
    ultimately show ?thesis by simp
  next
    case False
    obtain p a b where p: "tn_parent (nodes ! i) = Some p" "i < p" "p < length nodes"
      "tn_left (nodes ! p) = Some a" "tn_right (nodes ! p) = Some b" "a < length nodes" "b < length nodes"
      "lab ! p = (Suc l, k div 2)" "lab ! a = (l, 2 * (k div 2))" "lab ! b = (l, 2 * (k div 2) + 1)"
      "i = (if even k then a else b)" "a \<noteq> b"
      using parent_cases[OF ok less.prems(1) _ less.prems(2)] False by (metis singletonD)
    let ?s = "if even k then b else a"
    have s: "?s < length nodes" "lab ! ?s = (l, sib k)" using p by (auto simp: sib_def elim!: oddE)
    have v: "tn_node (nodes ! i) = val h ls l k" "tn_node (nodes ! p) = val h ls (Suc l) (k div 2)"
      "tn_node (nodes ! ?s) = val h ls l (sib k)" "tn_id (nodes ! i) = i" "tn_id (nodes ! a) = a"
      using at[OF less.prems(1)] at[OF p(3)] at[OF s(1)] at[OF p(6)] less.prems(2) p(8) s(2) by (simp_all only: node_at_def fst_conv snd_conv)
    have "proof_loop h nodes mi th chk (nodes ! i) ht sofar = proof_loop h nodes mi th chk (nodes ! p) (Suc ht) (sofar @ [nodes ! ?s])"
      using p(1,4,5,11,12) v False val_parent[of h ls l k] by (subst proof_loop.simps) (auto split: if_splits)
    moreover obtain sibs where "proof_loop h nodes mi th chk (nodes ! p) (Suc ht) (sofar @ [nodes ! ?s]) = Some (Inr ((sofar @ [nodes ! ?s]) @ sibs))"
      "map tn_node sibs = path_sibs h ls (Suc l) (k div 2) (proof_len mi th (Suc ht) (L - Suc l))"
      using less.hyps[of p "Suc l" "k div 2" "Suc ht" "sofar @ [nodes ! ?s]"] p(2,3,8) by (auto simp: diff_less_mono2)
    moreover have "L - l = Suc (L - Suc l)" using level_le[OF ok r less.prems] False by auto
    ultimately show ?thesis using v(3) False by (intro exI[of _ "(nodes ! ?s) # sibs"]) (simp add: proof_len_Suc)
  qed
qed

lemma getProof_spec:
  assumes "tree_shape h ls lab L r t" and "i < length ls"
  shows "getProof h t i mi th chk = Some (Inr \<lparr>mp_leafIndex = i, mp_leaf = ls ! i,
      mp_proof = path_sibs h ls 0 i (proof_len mi th 0 L), mp_root = mt_root t\<rparr>)"
proof -
  from assms have ok: "heap_ok h ls (mt_nodes t) lab {r}" and r: "lab ! r = (L, 0)" and lv: "mt_leaves t = [0..<length ls]"
    and i: "i < length (mt_nodes t)" "lab ! i = (0, i)"
    by (auto simp: tree_shape_def heap_okD(1))
  from proof_loop_spec[OF ok r i, of mi th chk 0 "[]"] obtain sibs where
    p: "proof_loop h (mt_nodes t) mi th chk (mt_nodes t ! i) 0 [] = Some (Inr sibs)"
      "map tn_node sibs = path_sibs h ls 0 i (proof_len mi th 0 L)" by auto
  have "tn_node (mt_nodes t ! i) = ls ! i" using heap_okD(3)[OF ok i(1)] i(2) assms(2) by (simp add: node_at_def)
  with p assms(2) show ?thesis by (simp add: getProof_def lv js_nth_def)
qed

text \<open>What is used of the hash (its length) and of the client library's keys.\<close>

definition hash32 :: "hash_fn \<Rightarrow> bool" where
  "hash32 h \<longleftrightarrow> (\<forall>a b. length (h a b) = 32)"

definition codec_ok :: "key_codec \<Rightarrow> bool" where
  "codec_ok kc \<longleftrightarrow>
     (\<forall>b. length b = 32 \<longrightarrow> kc_fromBytes kc b = Inr b \<and> kc_fromString kc (kc_toString kc b) = Inr b)
     \<and> (\<forall>b c. kc_fromBytes kc b = Inr c \<longrightarrow> length c = 32)"

lemma length_val: "hash32 h \<Longrightarrow> \<forall>b \<in> set ls. length b = 32 \<Longrightarrow> length (val h ls l k) = 32"
  by (cases l) (auto simp: hash32_def)

lemma js_shr_even: "x < 2 ^ 31 \<Longrightarrow> i < 32 \<Longrightarrow> even (js_shr x i) \<longleftrightarrow> even (x div 2 ^ i)"
proof -
  assume x: "x < 2 ^ 31" and i: "i < 32"
  then have "int x + 2 ^ 31 < 2 ^ 32" by (simp flip: of_nat_less_iff)
  then have "to_int32 (int x) = int x" unfolding to_int32_def by simp
  moreover have "int x div 2 ^ i = int (x div 2 ^ i)" by (simp add: zdiv_int)
  ultimately show ?thesis using i by (simp add: js_shr_def)
qed

lemma div_pow_Suc: "(i :: nat) div 2 ^ l div 2 = i div 2 ^ Suc l"
  by (simp only: power_Suc2 div_mult2_eq)

lemma verify_loop_complete:
  assumes "hash32 h" and "codec_ok kc" and "\<forall>b \<in> set ls. length b = 32" and "idx < 2 ^ 31" and "l + n \<le> 32"
  shows "verify_loop h kc idx l (val h ls l (idx div 2 ^ l)) (path_sibs h ls l (idx div 2 ^ l) n) = Inr (val h ls (l + n) (idx div 2 ^ (l + n)))"
  using assms(5)
proof (induction n arbitrary: l)
  case (Suc n)
  let ?k = "idx div 2 ^ l"
  have s: "kc_fromBytes kc (val h ls l (sib ?k)) = Inr (val h ls l (sib ?k))"
    using assms(2) length_val[OF assms(1,3)] by (simp add: codec_ok_def)
  from Suc have e: "even (js_shr idx l) \<longleftrightarrow> even ?k" using js_shr_even[OF assms(4)] by simp
  have d: "?k div 2 = idx div 2 ^ Suc l" by (rule div_pow_Suc)
  show ?case
    using Suc.IH[of "Suc l"] Suc.prems val_parent[of h ls l ?k] unfolding d
    by (simp add: s e d del: val.simps power_Suc split: if_splits)
qed simp

lemma getProof_verifies:
  assumes "hash32 h" and "codec_ok kc" and "\<forall>b \<in> set ls. length b = 32"
    and "represents h t ls" and "i < length ls" and "length ls \<le> 2 ^ 31"
  shows "\<exists>mp. getProof h t i False (- 1) True = Some (Inr mp) \<and> mp_leaf mp = ls ! i \<and> mp_leafIndex mp = i
    \<and> length (mp_proof mp) + 1 = mt_depth t \<and> verify h kc (kc_toString kc (mt_root t)) mp = Inr True"
proof -
  obtain lab L r where t: "tree_shape h ls lab L r t" using assms(4) unfolding represents_def by blast
  let ?mp = "\<lparr>mp_leafIndex = i, mp_leaf = ls ! i, mp_proof = path_sibs h ls 0 i L, mp_root = mt_root t\<rparr>"
  have g: "getProof h t i False (- 1) True = Some (Inr ?mp)" using getProof_spec[OF t assms(5)] by (simp add: proof_len_def)
  from t have L: "length ls \<le> 2 ^ L" "L = 0 \<or> 2 ^ (L - 1) < length ls" "mt_root t = val h ls L 0" "mt_depth t = Suc L"
    by (simp_all add: tree_shape_def)
  have "(2 :: nat) ^ (L - 1) < 2 ^ 31" if "L \<noteq> 0" using L(2) assms(6) that by linarith
  then have L31: "L \<le> 31" using power_less_imp_less_exp[of "2 :: nat" "L - 1" 31] by (cases "L = 0") auto
  have i31: "i < 2 ^ 31" using assms(5,6) by simp
  have i0: "i div 2 ^ L = 0" using assms(5) L(1) by simp
  have leaf: "ls ! i = val h ls 0 i" using assms(5) by simp
  have "verify_loop h kc i 0 (ls ! i) (path_sibs h ls 0 i L) = Inr (mt_root t)"
    using verify_loop_complete[OF assms(1-3) i31, of 0 L] L31 i0 L(3) leaf by simp
  moreover have "length (ls ! i) = 32" "length (mt_root t) = 32"
    using assms(3,5) length_val[OF assms(1,3)] L(3) by auto
  ultimately have "verify h kc (kc_toString kc (mt_root t)) ?mp = Inr True"
    using assms(2) by (simp add: verify_def codec_ok_def)
  with g L(4) show ?thesis by simp
qed

section \<open>Soundness of verify\<close>

text \<open>
  The pairs a verification hashes, and the pair of the tree at the same place. A proof of a wrong leaf
  yields a pair that differs from the tree's and has the same hash.
\<close>

fun hashed_pairs :: "hash_fn \<Rightarrow> key_codec \<Rightarrow> nat \<Rightarrow> nat \<Rightarrow> bytes \<Rightarrow> bytes list \<Rightarrow> (bytes \<times> bytes) list" where
  "hashed_pairs h kc idx i node [] = []"
| "hashed_pairs h kc idx i node (sb # rest) =
     (case kc_fromBytes kc sb of
        Inl _ \<Rightarrow> []
      | Inr s \<Rightarrow> (let p = (if even (js_shr idx i) then (node, s) else (s, node))
                 in p # hashed_pairs h kc idx (Suc i) (h (fst p) (snd p)) rest))"

definition tree_pair :: "hash_fn \<Rightarrow> bytes list \<Rightarrow> nat \<Rightarrow> nat \<Rightarrow> bytes \<times> bytes" where
  "tree_pair h ls l k = (val h ls l (2 * (k div 2)), val h ls l (2 * (k div 2) + 1))"

definition collides :: "hash_fn \<Rightarrow> bytes \<times> bytes \<Rightarrow> bytes \<times> bytes \<Rightarrow> bool" where
  "collides h p q \<longleftrightarrow> p \<noteq> q \<and> h (fst p) (snd p) = h (fst q) (snd q)"

lemma verify_loop_sound:
  assumes "idx < 2 ^ 31" and "l + length sofar \<le> 32"
    and "verify_loop h kc idx l node sofar = Inr (val h ls (l + length sofar) (idx div 2 ^ (l + length sofar)))"
  shows "node = val h ls l (idx div 2 ^ l)
    \<or> (\<exists>d < length sofar. collides h (hashed_pairs h kc idx l node sofar ! d) (tree_pair h ls (l + d) (idx div 2 ^ (l + d))))"
  using assms(2,3)
proof (induction sofar arbitrary: l node)
  case (Cons sb rest)
  let ?k = "idx div 2 ^ l"
  from Cons.prems(2) obtain s where s: "kc_fromBytes kc sb = Inr s" by (auto elim: ebind_InrE)
  have e: "even (js_shr idx l) \<longleftrightarrow> even ?k" using js_shr_even[OF assms(1)] Cons.prems(1) by simp
  let ?p = "if even ?k then (node, s) else (s, node)"
  have hp: "hashed_pairs h kc idx l node (sb # rest) = ?p # hashed_pairs h kc idx (Suc l) (h (fst ?p) (snd ?p)) rest"
    by (simp add: s e)
  have "verify_loop h kc idx (Suc l) (h (fst ?p) (snd ?p)) rest = Inr (val h ls (Suc l + length rest) (idx div 2 ^ (Suc l + length rest)))"
    using Cons.prems(2) by (simp add: s e split: if_splits)
  from Cons.IH[OF _ this] Cons.prems(1) consider
    (same) "h (fst ?p) (snd ?p) = val h ls (Suc l) (idx div 2 ^ Suc l)"
    | (later) d where "d < length rest"
        "collides h (hashed_pairs h kc idx (Suc l) (h (fst ?p) (snd ?p)) rest ! d) (tree_pair h ls (Suc l + d) (idx div 2 ^ (Suc l + d)))"
    by auto
  then show ?case
  proof cases
    case same
    have tp: "h (fst (tree_pair h ls l ?k)) (snd (tree_pair h ls l ?k)) = val h ls (Suc l) (idx div 2 ^ Suc l)"
      unfolding div_pow_Suc[symmetric] by (simp add: tree_pair_def)
    show ?thesis
    proof (cases "?p = tree_pair h ls l ?k")
      case True
      then have "node = val h ls l ?k" by (auto simp: tree_pair_def split: if_splits elim!: evenE oddE)
      then show ?thesis ..
    next
      case False
      with same tp have "collides h (hashed_pairs h kc idx l node (sb # rest) ! 0) (tree_pair h ls (l + 0) (idx div 2 ^ (l + 0)))"
        unfolding hp collides_def by (simp only: nth_Cons_0 add_0_right simp_thms)
      then show ?thesis by (intro disjI2 exI[of _ 0]) simp
    qed
  next
    case later
    then show ?thesis unfolding hp by (intro disjI2 exI[of _ "Suc d"]) simp
  qed
qed simp

section \<open>Updates\<close>

text \<open>The heap while an update walks up: the values of the new leaves up to level \<open>l\<close>, of the old above.\<close>

definition revalued :: "hash_fn \<Rightarrow> bytes list \<Rightarrow> bytes list \<Rightarrow> labels \<Rightarrow> nat \<Rightarrow> tree_node list \<Rightarrow> tree_node list \<Rightarrow> bool" where
  "revalued h ls ls' lab l nodes0 nodes \<longleftrightarrow>
     length nodes = length nodes0
     \<and> (\<forall>q < length nodes0. nodes ! q =
          (nodes0 ! q)\<lparr>tn_node := val h (if fst (lab ! q) \<le> l then ls' else ls) (fst (lab ! q)) (snd (lab ! q))\<rparr>)"

lemma revalued_sel:
  assumes "revalued h ls ls' lab l nodes0 nodes" and "q < length nodes0"
  shows "tn_parent (nodes ! q) = tn_parent (nodes0 ! q)" "tn_left (nodes ! q) = tn_left (nodes0 ! q)"
    "tn_right (nodes ! q) = tn_right (nodes0 ! q)" "tn_id (nodes ! q) = tn_id (nodes0 ! q)"
    "tn_level (nodes ! q) = tn_level (nodes0 ! q)"
    "tn_node (nodes ! q) = val h (if fst (lab ! q) \<le> l then ls' else ls) (fst (lab ! q)) (snd (lab ! q))"
  using assms by (simp_all add: revalued_def)

lemma revalued_step:
  assumes ok: "heap_ok h ls nodes0 lab Q" and rev: "revalued h ls (ls[i := x]) lab l nodes0 nodes"
    and p: "p < length nodes0" "lab ! p = (Suc l, i div 2 ^ Suc l)" and v: "v = val h (ls[i := x]) (Suc l) (i div 2 ^ Suc l)"
  shows "revalued h ls (ls[i := x]) lab (Suc l) nodes0 (nodes[p := (nodes ! p)\<lparr>tn_node := v\<rparr>])"
proof -
  note d = heap_okD(1,2)[OF ok]
  have "nodes[p := (nodes ! p)\<lparr>tn_node := v\<rparr>] ! q =
      (nodes0 ! q)\<lparr>tn_node := val h (if fst (lab ! q) \<le> Suc l then ls[i := x] else ls) (fst (lab ! q)) (snd (lab ! q))\<rparr>"
    if q: "q < length nodes0" for q
  proof (cases "q = p")
    case True
    then show ?thesis using rev p v by (simp add: revalued_def del: val.simps power_Suc)
  next
    case False
    have "val h (ls[i := x]) (Suc l) (snd (lab ! q)) = val h ls (Suc l) (snd (lab ! q))" if "fst (lab ! q) = Suc l"
    proof (rule val_update)
      show "snd (lab ! q) \<noteq> i div 2 ^ Suc l"
        using that p False q d nth_eq_iff_index_eq[OF d(2), of q p] by (metis prod.collapse)
    qed
    then show ?thesis using False rev q by (auto simp: revalued_def le_Suc_eq simp del: val.simps)
  qed
  then show ?thesis using rev by (simp add: revalued_def)
qed

lemma revalued_heap_ok:
  assumes ok: "heap_ok h ls nodes0 lab Q" and rev: "revalued h ls ls' lab L nodes0 nodes" and "length ls' = length ls"
    and "\<And>q. q < length nodes0 \<Longrightarrow> fst (lab ! q) \<le> L"
  shows "heap_ok h ls' nodes lab Q"
proof (rule heap_okI)
  have len: "length nodes = length nodes0" using rev by (simp add: revalued_def)
  then show "length lab = length nodes" "distinct lab" using heap_okD(1,2)[OF ok] by simp_all
  fix q
  assume "q < length nodes"
  then have q: "q < length nodes0" using len by simp
  note sel = revalued_sel[OF rev q]
  show "node_at h ls' lab q (nodes ! q)"
    using heap_okD(3)[OF ok q] assms(4)[OF q] by (simp add: node_at_def sel)
  show "children_ok (length ls') lab q (nodes ! q)"
    using heap_okD(4)[OF ok q] assms(3) by (simp add: children_ok_def sel)
  show "parent_ok nodes Q q"
    using heap_okD(5)[OF ok q] revalued_sel(2,3)[OF rev] len by (auto simp: parent_ok_def sel split: option.splits)
qed

lemma update_loop_spec:
  assumes ok: "heap_ok h ls nodes0 lab {r}" and r: "lab ! r = (L, 0)"
    and q: "q < length nodes0" "lab ! q = (l, i div 2 ^ l)" and rev: "revalued h ls (ls[i := x]) lab l nodes0 nodes"
  shows "\<exists>nodes'. update_loop h nodes q = Some (Inr (nodes', r)) \<and> revalued h ls (ls[i := x]) lab L nodes0 nodes'"
  using q rev
proof (induction "length nodes0 - q" arbitrary: q l nodes rule: less_induct)
  case (less q l nodes)
  note sel = revalued_sel[OF less.prems(3)]
  show ?case
  proof (cases "q = r")
    case True
    then show ?thesis using root_no_parent[OF ok less.prems(1)] less.prems r
      by (intro exI[of _ nodes]) (subst update_loop.simps, simp add: sel)
  next
    case False
    then have nr: "q \<notin> {r}" by simp
    obtain p a b where p: "tn_parent (nodes0 ! q) = Some p" "q < p" "p < length nodes0"
      "tn_left (nodes0 ! p) = Some a" "tn_right (nodes0 ! p) = Some b" "a < length nodes0" "b < length nodes0"
      "lab ! p = (Suc l, i div 2 ^ l div 2)" "lab ! a = (l, 2 * (i div 2 ^ l div 2))" "lab ! b = (l, 2 * (i div 2 ^ l div 2) + 1)"
      using parent_cases[OF ok less.prems(1) nr less.prems(2)] .
    let ?v = "h (tn_node (nodes ! a)) (tn_node (nodes ! b))"
    have lab: "lab ! p = (Suc l, i div 2 ^ Suc l)" using p(8) div_pow_Suc by simp
    have v: "?v = val h (ls[i := x]) (Suc l) (i div 2 ^ Suc l)"
      unfolding div_pow_Suc[symmetric] by (simp add: sel p)
    have "update_loop h nodes q = update_loop h (nodes[p := (nodes ! p)\<lparr>tn_node := ?v\<rparr>]) p"
      using less.prems(1) p by (subst update_loop.simps) (simp add: sel)
    moreover note less.hyps[OF _ p(3) lab revalued_step[OF ok less.prems(3) p(3) lab v]]
    ultimately show ?thesis using p(2,3) by (auto simp: diff_less_mono2)
  qed
qed

lemma updateLeaf_spec:
  assumes "represents h t ls" and "i < length ls"
  shows "\<exists>t'. updateLeaf h t i x = Some (Inr t') \<and> represents h t' (ls[i := x]) \<and> mt_depth t' = mt_depth t"
proof -
  obtain lab L r where t: "tree_shape h ls lab L r t" using assms(1) unfolding represents_def by blast
  then have ok: "heap_ok h ls (mt_nodes t) lab {r}" and r: "r < length (mt_nodes t)" "lab ! r = (L, 0)"
    and lv: "mt_leaves t = [0..<length ls]" and i: "i < length (mt_nodes t)" "lab ! i = (0, i div 2 ^ 0)"
    using assms(2) by (auto simp: tree_shape_def heap_okD(1))
  note d = heap_okD(1,2)[OF ok]
  let ?n = "(mt_nodes t)[i := (mt_nodes t ! i)\<lparr>tn_node := x\<rparr>]"
  have "?n ! q = (mt_nodes t ! q)\<lparr>tn_node := val h (if fst (lab ! q) \<le> 0 then ls[i := x] else ls) (fst (lab ! q)) (snd (lab ! q))\<rparr>"
    if q: "q < length (mt_nodes t)" for q
  proof (cases "q = i")
    case True
    then show ?thesis using i assms(2) by simp
  next
    case False
    have "lab ! q \<noteq> (0, i)" using i False q d nth_eq_iff_index_eq[OF d(2), of q i] by simp
    then have "snd (lab ! q) \<noteq> i" if "fst (lab ! q) = 0" using that by (cases "lab ! q") simp
    then have "val h (if fst (lab ! q) \<le> 0 then ls[i := x] else ls) (fst (lab ! q)) (snd (lab ! q)) = tn_node (mt_nodes t ! q)"
      using heap_okD(3)[OF ok q] by (auto simp: node_at_def)
    then show ?thesis using False by simp
  qed
  then have "revalued h ls (ls[i := x]) lab 0 (mt_nodes t) ?n" by (simp add: revalued_def)
  from update_loop_spec[OF ok r(2) i this] obtain nodes where u: "update_loop h ?n i = Some (Inr (nodes, r))"
    "revalued h ls (ls[i := x]) lab L (mt_nodes t) nodes" by blast
  have le: "fst (lab ! q) \<le> L" if "q < length (mt_nodes t)" for q
    using level_le[OF ok r(2) that, of "fst (lab ! q)" "snd (lab ! q)"] by simp
  have ok': "heap_ok h (ls[i := x]) nodes lab {r}" by (rule revalued_heap_ok[OF ok u(2) _ le]) simp_all
  have "tn_node (nodes ! r) = val h (ls[i := x]) L 0" "length nodes = length (mt_nodes t)"
    using revalued_sel(6)[OF u(2) r(1)] r(2) u(2) by (simp_all add: revalued_def)
  with t ok' have "tree_shape h (ls[i := x]) lab L r (t\<lparr>mt_nodes := nodes, mt_root := tn_node (nodes ! r)\<rparr>)"
    by (simp add: tree_shape_def)
  then show ?thesis using u(1) assms(2) by (auto simp: updateLeaf_def lv js_nth_def represents_def)
qed

section \<open>The interface\<close>

text \<open>
  What the users of a tree rely on: it stands for a list, a valid update changes one element, and every
  element has a proof that is accepted.
\<close>

fun run_updates :: "('t \<Rightarrow> nat \<Rightarrow> 'a \<Rightarrow> 't run) \<Rightarrow> 't \<Rightarrow> (nat \<times> 'a) list \<Rightarrow> 't run" where
  "run_updates upd t [] = Some (Inr t)"
| "run_updates upd t ((i, x) # us) = rbind (upd t i x) (\<lambda>t'. run_updates upd t' us)"

locale leaf_store =
  fixes repr :: "'t \<Rightarrow> 'a list \<Rightarrow> bool" and valid :: "'a \<Rightarrow> bool" and upd :: "'t \<Rightarrow> nat \<Rightarrow> 'a \<Rightarrow> 't run"
  assumes upd_ok: "repr t ls \<Longrightarrow> i < length ls \<Longrightarrow> valid x \<Longrightarrow> \<exists>t'. upd t i x = Some (Inr t') \<and> repr t' (ls[i := x])"
begin

lemma upds_ok:
  assumes "repr t ls" and "\<forall>(i, x) \<in> set us. i < length ls \<and> valid x"
  shows "\<exists>t'. run_updates upd t us = Some (Inr t') \<and> repr t' (foldl (\<lambda>ls (i, x). ls[i := x]) ls us)"
  using assms
proof (induction us arbitrary: t ls)
  case (Cons u us)
  obtain i x where u: "u = (i, x)" by (cases u)
  from upd_ok[OF Cons.prems(1), of i x] Cons.prems(2) u obtain t' where "upd t i x = Some (Inr t')" "repr t' (ls[i := x])" by auto
  with Cons.IH[of t' "ls[i := x]"] Cons.prems(2) u show ?case by auto
qed simp

end

locale authenticated_list = leaf_store repr valid upd
  for repr :: "'t \<Rightarrow> 'a list \<Rightarrow> bool" and valid :: "'a \<Rightarrow> bool" and upd :: "'t \<Rightarrow> nat \<Rightarrow> 'a \<Rightarrow> 't run" +
  fixes prove :: "'t \<Rightarrow> nat \<Rightarrow> 'p run" and accepts :: "'t \<Rightarrow> 'p \<Rightarrow> nat \<Rightarrow> 'a \<Rightarrow> bool"
  assumes prove_ok: "repr t ls \<Longrightarrow> i < length ls \<Longrightarrow> \<exists>p. prove t i = Some (Inr p) \<and> accepts t p i (ls ! i)"
begin

lemma prove_after_upds:
  assumes "repr t ls" and "\<forall>(i, x) \<in> set us. i < length ls \<and> valid x"
  shows "\<exists>t'. run_updates upd t us = Some (Inr t')
    \<and> (\<forall>i < length ls. \<exists>p. prove t' i = Some (Inr p) \<and> accepts t' p i (foldl (\<lambda>ls (i, x). ls[i := x]) ls us ! i))"
proof -
  have len: "length (foldl (\<lambda>ls (i, x). ls[i := x]) ls us) = length ls"
    by (induction us arbitrary: ls) (auto split: prod.splits)
  from upds_ok[OF assms] prove_ok len show ?thesis by metis
qed

end

definition merkle_repr :: "hash_fn \<Rightarrow> key_codec \<Rightarrow> merkle_tree \<Rightarrow> bytes list \<Rightarrow> bool" where
  "merkle_repr h kc t ls \<longleftrightarrow>
     hash32 h \<and> codec_ok kc \<and> represents h t ls \<and> (\<forall>b \<in> set ls. length b = 32) \<and> length ls \<le> 2 ^ 31"

definition merkle_accepts :: "hash_fn \<Rightarrow> key_codec \<Rightarrow> merkle_tree \<Rightarrow> merkle_proof \<Rightarrow> nat \<Rightarrow> bytes \<Rightarrow> bool" where
  "merkle_accepts h kc t mp i leaf \<longleftrightarrow>
     mp_leaf mp = leaf \<and> mp_leafIndex mp = i \<and> length (mp_proof mp) + 1 = mt_depth t
     \<and> verify h kc (kc_toString kc (mt_root t)) mp = Inr True"

interpretation mtree: authenticated_list "merkle_repr h kc" "\<lambda>b. length b = 32" "updateLeaf h"
  "\<lambda>t i. getProof h t i False (- 1) True" "merkle_accepts h kc" for h kc
proof unfold_locales
  fix t ls i x
  assume "merkle_repr h kc t ls" "i < length ls" "length (x :: bytes) = 32"
  then show "\<exists>t'. updateLeaf h t i x = Some (Inr t') \<and> merkle_repr h kc t' (ls[i := x])"
    using updateLeaf_spec[of h t ls i x] unfolding merkle_repr_def
    by (auto dest!: set_update_subset_insert[THEN subsetD])
next
  fix t ls i
  assume "merkle_repr h kc t ls" "i < length ls"
  then show "\<exists>p. getProof h t i False (- 1) True = Some (Inr p) \<and> merkle_accepts h kc t p i (ls ! i)"
    using getProof_verifies[of h kc ls t i] unfolding merkle_repr_def merkle_accepts_def by blast
qed

section \<open>Properties\<close>

text \<open>A hash and a key codec for the witnesses.\<close>

definition sum_hash :: hash_fn where
  "sum_hash a b = replicate 32 (sum_list a + 3 * sum_list b + 1)"

definition text_codec :: key_codec where
  "text_codec = \<lparr>kc_fromBytes = (\<lambda>b. if length b = 32 then Inr b else Inl (Err ''Invalid public key input'')),
     kc_fromString = (\<lambda>s. Inr (map (\<lambda>c. word_of_nat (of_char c)) s)),
     kc_toString = map (\<lambda>w. char_of (unat w))\<rparr>"

definition three_leaves :: "bytes list" where
  "three_leaves = [replicate 32 1, replicate 32 2, replicate 32 3]"

lemma sum_hash32 [simp]: "hash32 sum_hash"
  by (simp add: hash32_def sum_hash_def)

lemma text_codec_ok [simp]: "codec_ok text_codec"
proof -
  have "word_of_nat (of_char (char_of (unat w) :: char)) = w" for w :: byte
  proof -
    have "unat w < 256" using unsigned_less[of w] by (simp add: unat_arith_simps)
    then show ?thesis by simp
  qed
  then show ?thesis by (simp add: codec_ok_def text_codec_def o_def)
qed

lemma three_leaves_ok: "three_leaves \<noteq> []" "\<forall>b \<in> set three_leaves. length b = 32" "length three_leaves = 3"
  by (simp_all add: three_leaves_def)

text \<open>
  C31. The constructor returns for every non-empty list of 32-byte leaves, with a tree over exactly
  these leaves: its root is the hash of the leaves padded with zero leaves to the next power of two,
  whatever the cache of empty hashes holds, and its depth is the least that fits them.
\<close>

theorem merkleTree_builds:
  assumes "ls \<noteq> []" and "\<forall>b \<in> set ls. length b = 32" and "cache_ok h cache"
  shows "\<exists>t c L. merkleTree h cache ls = Some (Inr (t, c)) \<and> represents h t ls \<and> cache_ok h c
    \<and> mt_root t = val h ls L 0 \<and> mt_depth t = L + 1 \<and> length ls \<le> 2 ^ L \<and> (L = 0 \<or> 2 ^ (L - 1) < length ls)"
  by (rule merkleTree_spec[OF assms])

theorem merkleTree_builds_witness:
  "\<exists>t c L. merkleTree sum_hash Map.empty three_leaves = Some (Inr (t, c)) \<and> represents sum_hash t three_leaves
    \<and> mt_root t = val sum_hash three_leaves L 0 \<and> mt_depth t = L + 1 \<and> 3 \<le> (2 :: nat) ^ L"
  using merkleTree_builds[OF three_leaves_ok(1,2) cache_ok_empty[of sum_hash]] three_leaves_ok(3) by auto

text \<open>
  C28. Proofs are complete, also after updates: a tree the constructor made and any sequence of
  \<open>updateLeaf\<close> calls with 32-byte leaves changed gives, for every leaf, a proof of its current value with
  one node for each level (\<open>getProof\<close>'s own checks pass), and \<open>verify\<close> accepts it against the current root.
\<close>

theorem merkle_proofs_after_updates:
  assumes "hash32 h" and "codec_ok kc" and "cache_ok h cache" and "merkleTree h cache ls = Some (Inr (t, c))"
    and "length ls \<le> 2 ^ 31" and "\<forall>(i, x) \<in> set us. i < length ls \<and> length x = 32"
  shows "\<exists>t'. run_updates (updateLeaf h) t us = Some (Inr t')
    \<and> (\<forall>i < length ls. \<exists>mp. getProof h t' i False (- 1) True = Some (Inr mp)
        \<and> mp_leaf mp = foldl (\<lambda>ls (i, x). ls[i := x]) ls us ! i \<and> mp_leafIndex mp = i
        \<and> length (mp_proof mp) + 1 = mt_depth t' \<and> verify h kc (kc_toString kc (mt_root t')) mp = Inr True)"
proof -
  have ls: "ls \<noteq> []" "\<forall>b \<in> set ls. length b = 32"
    using assms(4) buildLeaves_length[of 0 ls]
    by (auto simp: merkleTree_def build_loop.simps elim!: rbind_InrE split: option.splits)
  then have "merkle_repr h kc t ls"
    using merkleTree_spec[OF ls assms(3)] assms by (auto simp: merkle_repr_def)
  from mtree.prove_after_upds[OF this assms(6)] show ?thesis unfolding merkle_accepts_def .
qed

lemma three_built:
  obtains t c where "merkleTree sum_hash Map.empty three_leaves = Some (Inr (t, c))" and "represents sum_hash t three_leaves"
  using merkleTree_spec[OF three_leaves_ok(1,2) cache_ok_empty[of sum_hash]] by blast

theorem merkle_proofs_after_updates_witness:
  "\<exists>t c t' mp. merkleTree sum_hash Map.empty three_leaves = Some (Inr (t, c))
    \<and> run_updates (updateLeaf sum_hash) t [(1, replicate 32 9)] = Some (Inr t')
    \<and> getProof sum_hash t' 1 False (- 1) True = Some (Inr mp) \<and> mp_leaf mp = replicate 32 9
    \<and> verify sum_hash text_codec (kc_toString text_codec (mt_root t')) mp = Inr True"
proof -
  obtain t c where t: "merkleTree sum_hash Map.empty three_leaves = Some (Inr (t, c))" using three_built .
  have f: "foldl (\<lambda>ls (i, x). ls[i := x]) three_leaves [(1, replicate 32 9)] ! 1 = replicate 32 9"
    by (simp add: three_leaves_def)
  have "\<forall>(i, x) \<in> set [(1, replicate 32 (9 :: byte))]. i < length three_leaves \<and> length x = 32"
    by (simp add: three_leaves_def)
  from merkle_proofs_after_updates[OF sum_hash32 text_codec_ok cache_ok_empty t _ this] obtain t' where
    u: "run_updates (updateLeaf sum_hash) t [(1, replicate 32 9)] = Some (Inr t')"
    and p: "\<forall>i < length three_leaves. \<exists>mp. getProof sum_hash t' i False (- 1) True = Some (Inr mp)
        \<and> mp_leaf mp = foldl (\<lambda>ls (i, x). ls[i := x]) three_leaves [(1, replicate 32 9)] ! i
        \<and> mp_leafIndex mp = i \<and> length (mp_proof mp) + 1 = mt_depth t'
        \<and> verify sum_hash text_codec (kc_toString text_codec (mt_root t')) mp = Inr True"
    using three_leaves_ok(3) by auto
  from p[rule_format, of 1] f three_leaves_ok(3) obtain mp where "getProof sum_hash t' 1 False (- 1) True = Some (Inr mp)"
    "mp_leaf mp = replicate 32 9" "verify sum_hash text_codec (kc_toString text_codec (mt_root t')) mp = Inr True" by auto
  with t u show ?thesis by blast
qed

text \<open>
  C29. Proofs are sound: when \<open>verify\<close> accepts a proof of the tree's height for a position of the tree
  against the tree's root, the leaf it proves is the tree's leaf at that position, or the verification
  itself hashed a pair that differs from the tree's pair at that place and has the same hash, which is a
  collision of the hash function found by running it.
\<close>

theorem verify_sound:
  assumes "hash32 h" and "codec_ok kc" and "\<forall>b \<in> set ls. length b = 32" and "represents h t ls"
    and "length ls \<le> 2 ^ 31" and "mp_leafIndex mp < length ls" and "length (mp_proof mp) + 1 = mt_depth t"
    and "verify h kc (kc_toString kc (mt_root t)) mp = Inr True"
  shows "kc_fromBytes kc (mp_leaf mp) = Inr (ls ! mp_leafIndex mp)
    \<or> (\<exists>leaf d. kc_fromBytes kc (mp_leaf mp) = Inr leaf \<and> d < length (mp_proof mp)
        \<and> collides h (hashed_pairs h kc (mp_leafIndex mp) 0 leaf (mp_proof mp) ! d)
            (tree_pair h ls d (mp_leafIndex mp div 2 ^ d)))"
proof -
  let ?i = "mp_leafIndex mp"
  obtain lab L r where t: "tree_shape h ls lab L r t" using assms(4) unfolding represents_def by blast
  then have L: "length ls \<le> 2 ^ L" "L = 0 \<or> 2 ^ (L - 1) < length ls" "mt_root t = val h ls L 0" "length (mp_proof mp) = L"
    using assms(7) by (simp_all add: tree_shape_def)
  have "(2 :: nat) ^ (L - 1) < 2 ^ 31" if "L \<noteq> 0" using L(2) assms(5) that by linarith
  then have L31: "L \<le> 31" using power_less_imp_less_exp[of "2 :: nat" "L - 1" 31] by (cases "L = 0") auto
  from assms(8) obtain leaf node n c where v: "kc_fromBytes kc (mp_leaf mp) = Inr leaf"
    "verify_loop h kc ?i 0 leaf (mp_proof mp) = Inr node" "kc_fromBytes kc node = Inr n"
    "kc_fromString kc (kc_toString kc (mt_root t)) = Inr c" "kc_toString kc n = kc_toString kc c"
    unfolding verify_def by (auto split: if_splits elim!: ebind_InrE)
  have root32: "length (mt_root t) = 32" using length_val[OF assms(1,3)] L(3) by simp
  have n32: "length n = 32" "length leaf = 32" using assms(2) v(1,3) unfolding codec_ok_def by blast+
  have "n = mt_root t" using assms(2) v(4,5) root32 n32 unfolding codec_ok_def by (metis sum.inject(2))
  moreover have "length node = 32"
  proof (cases "mp_proof mp" rule: rev_cases)
    case Nil
    then show ?thesis using v(2) n32 by simp
  next
    case (snoc ps p)
    have "verify_loop h kc i j nd (ps @ [p]) = Inr node \<Longrightarrow> length node = 32" for i j nd
      using assms(1) by (induction ps arbitrary: j nd) (auto simp: hash32_def split: if_splits elim!: ebind_InrE)
    with snoc v(2) show ?thesis by simp
  qed
  ultimately have node: "node = val h ls L 0" using assms(2) v(3) L(3) unfolding codec_ok_def by auto
  have "?i div 2 ^ L = 0" using assms(6) L(1) by simp
  with v(2) node L(4) have "verify_loop h kc ?i 0 leaf (mp_proof mp)
      = Inr (val h ls (0 + length (mp_proof mp)) (?i div 2 ^ (0 + length (mp_proof mp))))" by simp
  from verify_loop_sound[OF _ _ this] assms(5,6) L(4) L31 v(1) show ?thesis by auto
qed

theorem verify_sound_witness:
  "\<exists>t mp. represents sum_hash t three_leaves \<and> verify sum_hash text_codec (kc_toString text_codec (mt_root t)) mp = Inr True
    \<and> mp_leafIndex mp = 1
    \<and> (kc_fromBytes text_codec (mp_leaf mp) = Inr (three_leaves ! mp_leafIndex mp)
       \<or> (\<exists>leaf d. kc_fromBytes text_codec (mp_leaf mp) = Inr leaf \<and> d < length (mp_proof mp)
        \<and> collides sum_hash (hashed_pairs sum_hash text_codec (mp_leafIndex mp) 0 leaf (mp_proof mp) ! d)
            (tree_pair sum_hash three_leaves d (mp_leafIndex mp div 2 ^ d))))"
proof -
  obtain t c where t: "represents sum_hash t three_leaves" using three_built .
  have l: "1 < length three_leaves" "length three_leaves \<le> 2 ^ 31" using three_leaves_ok(3) by simp_all
  from getProof_verifies[OF sum_hash32 text_codec_ok three_leaves_ok(2) t l] obtain mp where
    mp: "mp_leafIndex mp = 1" "length (mp_proof mp) + 1 = mt_depth t"
      "verify sum_hash text_codec (kc_toString text_codec (mt_root t)) mp = Inr True" by blast
  from verify_sound[OF sum_hash32 text_codec_ok three_leaves_ok(2) t l(2) _ mp(2,3)] mp(1) l(1) t mp(3) show ?thesis by metis
qed

lemma height_unique:
  assumes "n \<le> 2 ^ L" "L = 0 \<or> 2 ^ (L - 1) < n" "n \<le> 2 ^ M" "M = 0 \<or> 2 ^ (M - 1) < (n :: nat)" "0 < n"
  shows "L = M"
proof -
  have "A \<le> B" if a: "A = 0 \<or> 2 ^ (A - 1) < n" and b: "n \<le> 2 ^ B" for A B
  proof (cases "A = 0")
    case False
    with a b have "(2 :: nat) ^ (A - 1) < 2 ^ B" by linarith
    then have "A - 1 < B" by (rule power_less_imp_less_exp[rotated]) simp
    then show ?thesis by simp
  qed simp
  with assms show ?thesis by (simp add: le_antisym)
qed

text \<open>
  Updating in place is rebuilding: after \<open>updateLeaf\<close> the tree has the root and the depth of the tree
  the constructor makes of the changed leaves.
\<close>

theorem updateLeaf_rebuilds:
  assumes "cache_ok h cache" and "represents h t ls" and "\<forall>b \<in> set ls. length b = 32" and "i < length ls" and "length x = 32"
  shows "\<exists>t' t2 c. updateLeaf h t i x = Some (Inr t') \<and> merkleTree h cache (ls[i := x]) = Some (Inr (t2, c))
    \<and> mt_root t' = mt_root t2 \<and> mt_depth t' = mt_depth t2"
proof -
  obtain t' where u: "updateLeaf h t i x = Some (Inr t')" "represents h t' (ls[i := x])"
    using updateLeaf_spec[OF assms(2,4)] by blast
  have "ls[i := x] \<noteq> []" "\<forall>b \<in> set (ls[i := x]). length b = 32"
    using assms(3-5) by (auto dest!: set_update_subset_insert[THEN subsetD])
  from merkleTree_spec[OF this assms(1)] obtain t2 c L where m: "merkleTree h cache (ls[i := x]) = Some (Inr (t2, c))"
    "mt_root t2 = val h (ls[i := x]) L 0" "mt_depth t2 = L + 1" "length ls \<le> 2 ^ L" "L = 0 \<or> 2 ^ (L - 1) < length ls"
    by auto
  from u(2) obtain lab M r where "tree_shape h (ls[i := x]) lab M r t'" unfolding represents_def by blast
  then have s: "mt_root t' = val h (ls[i := x]) M 0" "mt_depth t' = M + 1" "length ls \<le> 2 ^ M" "M = 0 \<or> 2 ^ (M - 1) < length ls"
    by (simp_all add: tree_shape_def)
  have "L = M" using assms(4) by (intro height_unique[OF m(4,5) s(3,4)]) auto
  with u(1) m s show ?thesis by auto
qed

theorem updateLeaf_rebuilds_witness:
  "\<exists>t t' t2 c. represents sum_hash t three_leaves \<and> updateLeaf sum_hash t 2 (replicate 32 7) = Some (Inr t')
    \<and> merkleTree sum_hash Map.empty [replicate 32 1, replicate 32 2, replicate 32 7] = Some (Inr (t2, c))
    \<and> mt_root t' = mt_root t2"
proof -
  obtain t c where t: "represents sum_hash t three_leaves" using three_built .
  have l: "2 < length three_leaves" "length (replicate 32 (7 :: byte)) = 32" using three_leaves_ok(3) by simp_all
  have e: "three_leaves[2 := replicate 32 7] = [replicate 32 1, replicate 32 2, replicate 32 7]"
    by (simp add: three_leaves_def numeral_2_eq_2)
  from updateLeaf_rebuilds[OF cache_ok_empty t three_leaves_ok(2) l, unfolded e] t show ?thesis by blast
qed

end
