(* ===== verification/Lazy_Transactions.thy ===== *)
theory Lazy_Transactions
  imports Merkle_Tree Bulk_Send
begin

text \<open>
  \<^verbatim>\<open>packages/lazy-transactions-sdk/src/index.ts\<close>: lazy transactions, compiled against their own account
  lists and committed to by a Merkle tree. Compilation, the leaves, the canopy (the top of the tree that
  is stored on chain), the transactions that write it, and the bitmap of executed transactions. The hash,
  the layout encoder, program addresses and the instruction builder are parameters.
\<close>

section \<open>Accounts\<close>

text \<open>
  The record \<open>accounts\<close> is filled in the order of first use. The code stores and updates the first
  \<open>AccountMeta\<close> object it meets for a key; within one transaction every object of a key is merged into
  that one, so the model works on values (objects shared between transactions are taken as copies).
\<close>

definition touch_program :: "(pubkey \<times> account_meta) list \<Rightarrow> pubkey \<Rightarrow> (pubkey \<times> account_meta) list" where
  "touch_program accs pid =
     (if map_of accs pid = None
      then obj_set accs pid \<lparr>am_pubkey = pid, am_isSigner = False, am_isWritable = False\<rparr> else accs)"

definition touch_key ::
  "pubkey \<Rightarrow> pubkey list \<Rightarrow> (pubkey \<times> account_meta) list \<Rightarrow> account_meta \<Rightarrow> (pubkey \<times> account_meta) list" where
  "touch_key lazySigner nonSigners accs key =
     (let pk = am_pubkey key;
          isLazyTransactions = (pk = lazySigner);
          acc = (case map_of accs pk of None \<Rightarrow> key | Some a \<Rightarrow> a)
      in obj_set accs pk
           (acc\<lparr>am_isSigner := (if isLazyTransactions then False else if pk \<in> set nonSigners then False
                                else am_isSigner acc \<or> am_isSigner key),
                am_isWritable := isLazyTransactions \<or> am_isWritable acc \<or> am_isWritable key\<rparr>))"

definition touch_ix ::
  "pubkey \<Rightarrow> pubkey list \<Rightarrow> (pubkey \<times> account_meta) list \<Rightarrow> instruction \<Rightarrow> (pubkey \<times> account_meta) list" where
  "touch_ix lazySigner nonSigners accs ix = foldl (touch_key lazySigner nonSigners) (touch_program accs (ix_programId ix)) (ix_keys ix)"

definition getAccounts :: "pubkey \<Rightarrow> instruction list \<Rightarrow> pubkey list \<Rightarrow> account_meta list" where
  "getAccounts lazySigner instructions mapToNonSigners =
     map snd (foldl (touch_ix lazySigner mapToNonSigners) [] instructions)"

section \<open>Compilation\<close>

text \<open>
  \<open>Buffer.from\<close> keeps the low byte of each index, and 0 for \<open>undefined\<close>.
\<close>

record lazy_ix =
  li_programIdIndex :: "nat option"
  li_accounts :: bytes
  li_data :: bytes

definition accountIndicesByKey :: "account_meta list \<Rightarrow> pubkey \<rightharpoonup> nat" where
  "accountIndicesByKey accounts = foldl (\<lambda>m (i, a). m(am_pubkey a \<mapsto> i)) Map.empty (enumerate 0 accounts)"

definition index_byte :: "nat option \<Rightarrow> byte" where
  "index_byte i = (case i of None \<Rightarrow> 0 | Some n \<Rightarrow> word_of_nat n)"

definition getCompiledInstructions :: "account_meta list \<Rightarrow> instruction list \<Rightarrow> lazy_ix list" where
  "getCompiledInstructions accounts instructions =
     map (\<lambda>ix. \<lparr>li_programIdIndex = accountIndicesByKey accounts (ix_programId ix),
                li_accounts = map (\<lambda>key. index_byte (accountIndicesByKey accounts (am_pubkey key))) (ix_keys ix),
                li_data = ix_data ix\<rparr>) instructions"

definition numBytesCompiledTx :: "lazy_ix \<Rightarrow> nat" where
  "numBytesCompiledTx ci = 1 + 4 * 2 + length (li_accounts ci) + length (li_data ci)"

record compiled_tx =
  ct_accounts :: "account_meta list"
  ct_instructions :: "lazy_ix list"
  ct_index :: nat
  ct_signerSeeds :: "bytes list list"

record lazy_tx =
  lz_instructions :: "instruction list"
  lz_signerSeeds :: "bytes list list"

text \<open>
  The parameters: program addresses, the bytes of a key, the layout encoder (it fills a buffer of
  \<open>numBytesCompiledTx\<close> bytes), and the hashes of a buffer and of two nodes.
\<close>

record lazy_env =
  le_createProgramAddress :: "bytes list \<Rightarrow> js_error + pubkey"
  le_keyBytes :: "pubkey \<Rightarrow> bytes"
  le_encode :: "lazy_ix \<Rightarrow> nat \<Rightarrow> js_error + bytes"
  le_keccak :: "bytes \<Rightarrow> bytes"

definition ixToBin :: "lazy_env \<Rightarrow> lazy_ix \<Rightarrow> js_error + bytes" where
  "ixToBin le ct = le_encode le ct (numBytesCompiledTx ct)"

definition node_hash :: "lazy_env \<Rightarrow> hash_fn" where
  "node_hash le left right = le_keccak le (left @ right)"

definition toLeaf :: "lazy_env \<Rightarrow> compiled_tx \<Rightarrow> js_error + bytes" where
  "toLeaf le tx =
     ebind (emap (ixToBin le) (ct_instructions tx)) (\<lambda>ixBuffers.
       if ct_index tx \<ge> 2 ^ 32 then Inl RangeError
       else Inr (le_keccak le (concat (map (\<lambda>a. le_keyBytes le (am_pubkey a)) (ct_accounts tx))
                   @ concat ixBuffers @ concat (map concat (ct_signerSeeds tx)) @ u32le (ct_index tx))))"

fun compile_from :: "lazy_env \<Rightarrow> pubkey \<Rightarrow> nat \<Rightarrow> lazy_tx list \<Rightarrow> js_error + compiled_tx list" where
  "compile_from le lazySigner index [] = Inr []"
| "compile_from le lazySigner index (tx # txs) =
     ebind (emap (le_createProgramAddress le) (lz_signerSeeds tx)) (\<lambda>mapToNonSigners.
     let accounts = getAccounts lazySigner (lz_instructions tx) mapToNonSigners;
         compiled = \<lparr>ct_accounts = accounts, ct_instructions = getCompiledInstructions accounts (lz_instructions tx),
                     ct_index = index, ct_signerSeeds = map (drop 2) (lz_signerSeeds tx)\<rparr>
     in ebind (compile_from le lazySigner (Suc index) txs) (\<lambda>rest. Inr (compiled # rest)))"

definition compileNoMerkle :: "lazy_env \<Rightarrow> pubkey \<Rightarrow> lazy_tx list \<Rightarrow> js_error + compiled_tx list" where
  "compileNoMerkle le lazySigner transactions = compile_from le lazySigner 0 transactions"

definition compile :: "lazy_env \<Rightarrow> empty_cache \<Rightarrow> pubkey \<Rightarrow> lazy_tx list \<Rightarrow> (merkle_tree \<times> compiled_tx list) run" where
  "compile le cache lazySigner transactions =
     rbind (Some (compileNoMerkle le lazySigner transactions)) (\<lambda>compiledTransactions.
     rbind (Some (emap (toLeaf le) compiledTransactions)) (\<lambda>leaves.
     rbind (merkleTree (node_hash le) cache leaves) (\<lambda>(merkleTree, _).
       Some (Inr (merkleTree, compiledTransactions)))))"

section \<open>The canopy\<close>

definition js_shl1 :: "nat \<Rightarrow> int" where
  "js_shl1 n = to_int32 (2 ^ (n mod 32))"

definition getCanopySize :: "nat \<Rightarrow> int" where
  "getCanopySize canopyDepth = 1 + max ((js_shl1 (canopyDepth + 1) - 2) * 32) 0"

partial_function (option) find_root :: "tree_node list \<Rightarrow> nat \<Rightarrow> nat option" where
  "find_root nodes i = (case tn_parent (nodes ! i) of None \<Rightarrow> Some i | Some p \<Rightarrow> find_root nodes p)"

definition below :: "tree_node list \<Rightarrow> tree_node \<Rightarrow> nat option \<Rightarrow> tree_node list" where
  "below nodes cur child =
     (case child of
        Some p \<Rightarrow> [nodes ! p]
      | None \<Rightarrow>
          if tn_level cur \<ge> 1
          then [\<lparr>tn_node = replicate 32 0, tn_left = None, tn_right = None, tn_parent = Some (tn_id cur),
                 tn_level = tn_level cur - 1, tn_id = 0\<rparr>]
          else [])"

partial_function (option) canopy_loop ::
  "tree_node list \<Rightarrow> nat \<Rightarrow> int \<Rightarrow> tree_node list \<Rightarrow> tree_node list \<Rightarrow> tree_node list option" where
  "canopy_loop nodes maxLevel cacheDepth q canopy =
     (case q of
        [] \<Rightarrow> Some canopy
      | cur # rest \<Rightarrow>
          if int maxLevel - int (tn_level cur) > cacheDepth then Some canopy
          else canopy_loop nodes maxLevel cacheDepth
                 ((rest @ below nodes cur (tn_left cur)) @ below nodes cur (tn_right cur)) (canopy @ [cur]))"

definition getCanopy :: "merkle_tree \<Rightarrow> int \<Rightarrow> tree_node list run" where
  "getCanopy t cacheDepth =
     (case js_nth (mt_leaves t) 0 of
        None \<Rightarrow> Some (Inl TypeError)
      | Some i \<Rightarrow>
          (case find_root (mt_nodes t) i of
             None \<Rightarrow> None
           | Some r \<Rightarrow>
               (case canopy_loop (mt_nodes t) (tn_level (mt_nodes t ! r)) cacheDepth [mt_nodes t ! r] [] of
                  None \<Rightarrow> None
                | Some canopy \<Rightarrow> Some (Inr (tl canopy)))))"

text \<open>The writes of \<open>fillCanopy\<close>: thirty nodes at a time, each chunk at its offset.\<close>

definition canopy_writes :: "tree_node list \<Rightarrow> js_error + (nat \<times> bytes) list" where
  "canopy_writes canopy =
     ebind (chunks canopy 30) (\<lambda>cs.
       Inr (map (\<lambda>(index, leaves). (32 * 30 * index, concat (map tn_node leaves))) (enumerate 0 cs)))"

definition fillCanopy ::
  "(nat \<Rightarrow> connection) \<Rightarrow> (nat \<Rightarrow> nat \<Rightarrow> js_error + (string \<times> nat)) \<Rightarrow> wallet
   \<Rightarrow> (nat \<Rightarrow> bytes list \<Rightarrow> nat \<Rightarrow> bool \<Rightarrow> string list run)
   \<Rightarrow> pubkey \<Rightarrow> (nat \<Rightarrow> bytes \<Rightarrow> js_error + instruction) \<Rightarrow> js_error + unit \<Rightarrow> merkle_tree
   \<Rightarrow> tree_node list option \<Rightarrow> int \<Rightarrow> unit run" where
  "fillCanopy conns latest wl raw walletKey setCanopyV0 fetchAcc tree canopy cacheDepth =
     rbind (case canopy of Some c \<Rightarrow> Some (Inr c) | None \<Rightarrow> getCanopy tree cacheDepth) (\<lambda>canopy.
     rbind (Some fetchAcc) (\<lambda>_.
     rbind (Some (canopy_writes canopy)) (\<lambda>writes.
     rbind (Some (emap (\<lambda>(offset, bytes). ebind (setCanopyV0 offset bytes) (\<lambda>ix.
         Inr \<lparr>dr_recentBlockhash = None, dr_feePayer = walletKey, dr_instructions = [ix],
              dr_addressLookupTableAddresses = None, dr_addressLookupTables = None, dr_signers = []\<rparr>)) writes)) (\<lambda>txs.
     rbind (bulkSendTransactions conns latest wl raw txs 10 [] TX_BATCH_SIZE) (\<lambda>_. Some (Inr ()))))))"

section \<open>Executed transactions\<close>

definition isExecuted :: "bytes \<Rightarrow> nat \<Rightarrow> bool" where
  "isExecuted executed index =
     (case js_nth executed (index div 8) of None \<Rightarrow> False | Some byte \<Rightarrow> bit byte (index mod 8))"

definition getBitmapLen :: "nat \<Rightarrow> int" where
  "getBitmapLen maxDepth = \<lceil>of_int (js_shl1 maxDepth) / (8 :: rat)\<rceil>"

text \<open>The bitmap of a tree of depth \<open>d\<close> has a bit for each of its leaves; bits beyond the buffer are unset.\<close>

lemma isExecuted_out_of_range: "8 * length executed \<le> index \<Longrightarrow> \<not> isExecuted executed index"
  by (auto simp: isExecuted_def js_nth_def)

lemma getBitmapLen_covers:
  assumes "d < 31" and "index < 2 ^ d"
  shows "int (index div 8) < getBitmapLen d"
proof -
  have "(2 :: int) ^ d \<le> 2 ^ 30" by (rule power_increasing) (use assms(1) in simp_all)
  then have "js_shl1 d = 2 ^ d" using assms(1) unfolding js_shl1_def to_int32_def by simp
  then have l: "getBitmapLen d = \<lceil>2 ^ d / (8 :: rat)\<rceil>" by (simp add: getBitmapLen_def)
  have "rat_of_nat (index div 8) * 8 \<le> rat_of_nat index" by (metis div_times_less_eq_dividend of_nat_le_iff of_nat_mult of_nat_numeral)
  also have "\<dots> < 2 ^ d" using assms(2) by (metis of_nat_less_iff of_nat_numeral of_nat_power)
  finally have "rat_of_nat (index div 8) < 2 ^ d / 8" by simp
  then show ?thesis unfolding l by (simp add: less_ceiling_iff)
qed

section \<open>Lemmas: accounts\<close>

text \<open>What the account list says of a key: the union of what its uses ask for.\<close>

definition merged :: "pubkey \<Rightarrow> pubkey list \<Rightarrow> account_meta list \<Rightarrow> pubkey \<Rightarrow> account_meta" where
  "merged lazySigner nonSigners uses k =
     \<lparr>am_pubkey = k,
      am_isSigner = (k \<noteq> lazySigner \<and> k \<notin> set nonSigners \<and> (\<exists>u \<in> set uses. am_pubkey u = k \<and> am_isSigner u)),
      am_isWritable = (\<exists>u \<in> set uses. am_pubkey u = k \<and> (k = lazySigner \<or> am_isWritable u))\<rparr>"

definition accs_inv :: "pubkey \<Rightarrow> pubkey list \<Rightarrow> pubkey set \<Rightarrow> account_meta list \<Rightarrow> (pubkey \<times> account_meta) list \<Rightarrow> bool" where
  "accs_inv lazySigner nonSigners pids uses accs \<longleftrightarrow>
     distinct (map fst accs)
     \<and> (\<forall>k. map_of accs k = (if k \<in> pids \<union> am_pubkey ` set uses then Some (merged lazySigner nonSigners uses k) else None))"

lemma merged_unused: "k \<notin> am_pubkey ` set uses \<Longrightarrow> merged l ns uses k = \<lparr>am_pubkey = k, am_isSigner = False, am_isWritable = False\<rparr>"
  by (auto simp: merged_def)

lemma merged_other: "am_pubkey u \<noteq> k \<Longrightarrow> merged l ns (uses @ [u]) k = merged l ns uses k"
  by (auto simp: merged_def)

lemma merged_first:
  assumes "am_pubkey u \<notin> am_pubkey ` set uses"
  shows "merged l ns (uses @ [u]) (am_pubkey u) =
    \<lparr>am_pubkey = am_pubkey u, am_isSigner = (am_pubkey u \<noteq> l \<and> am_pubkey u \<notin> set ns \<and> am_isSigner u),
     am_isWritable = (am_pubkey u = l \<or> am_isWritable u)\<rparr>"
  using assms by (auto simp: merged_def image_iff)

lemma touch_program_inv:
  assumes "accs_inv l ns pids uses accs"
  shows "accs_inv l ns (insert pid pids) uses (touch_program accs pid)"
  using assms merged_unused[of pid uses l ns]
  by (auto simp: accs_inv_def touch_program_def distinct_obj_set split: if_splits)

lemma touch_key_inv:
  assumes "accs_inv l ns pids uses accs"
  shows "accs_inv l ns pids (uses @ [key]) (touch_key l ns accs key)"
proof -
  let ?k = "am_pubkey key"
  have d: "distinct (map fst accs)" and m: "\<And>k. map_of accs k = (if k \<in> pids \<union> am_pubkey ` set uses then Some (merged l ns uses k) else None)"
    using assms by (simp_all add: accs_inv_def)
  have "map_of (touch_key l ns accs key) = (map_of accs)(?k \<mapsto> merged l ns (uses @ [key]) ?k)"
  proof (cases "?k \<in> pids \<union> am_pubkey ` set uses")
    case True
    then show ?thesis using m[of ?k] by (auto simp: touch_key_def Let_def merged_def)
  next
    case False
    then have "merged l ns (uses @ [key]) ?k = key\<lparr>am_isSigner := (if ?k = l then False else if ?k \<in> set ns then False
        else am_isSigner key \<or> am_isSigner key), am_isWritable := ?k = l \<or> am_isWritable key \<or> am_isWritable key\<rparr>"
      by (simp add: merged_first)
    then show ?thesis using m[of ?k] False by (simp add: touch_key_def)
  qed
  then show ?thesis
    using d m merged_other[of key] by (auto simp: accs_inv_def touch_key_def Let_def distinct_obj_set)
qed

lemma touch_keys_inv:
  "accs_inv l ns pids uses accs \<Longrightarrow> accs_inv l ns pids (uses @ keys) (foldl (touch_key l ns) accs keys)"
proof (induction keys arbitrary: uses accs)
  case (Cons key keys)
  from Cons.IH[OF touch_key_inv[OF Cons.prems]] show ?case by simp
qed simp

lemma touch_ixs_inv:
  assumes "accs_inv l ns pids uses accs"
  shows "accs_inv l ns (pids \<union> ix_programId ` set ixs) (uses @ concat (map ix_keys ixs)) (foldl (touch_ix l ns) accs ixs)"
  using assms
proof (induction ixs arbitrary: pids uses accs)
  case (Cons ix ixs)
  have "accs_inv l ns (insert (ix_programId ix) pids) (uses @ ix_keys ix) (touch_ix l ns accs ix)"
    unfolding touch_ix_def by (intro touch_keys_inv touch_program_inv Cons.prems)
  from Cons.IH[OF this] show ?case by simp
qed simp

lemma getAccounts_spec:
  shows "distinct (map am_pubkey (getAccounts l ixs ns))"
    and "am_pubkey ` set (getAccounts l ixs ns) = ix_programId ` set ixs \<union> am_pubkey ` set (concat (map ix_keys ixs))"
    and "a \<in> set (getAccounts l ixs ns) \<Longrightarrow> a = merged l ns (concat (map ix_keys ixs)) (am_pubkey a)"
proof -
  let ?accs = "foldl (touch_ix l ns) [] ixs" and ?uses = "concat (map ix_keys ixs)"
  have "accs_inv l ns {} [] []" by (simp add: accs_inv_def)
  from touch_ixs_inv[OF this, of ixs] have d: "distinct (map fst ?accs)"
    and m: "\<And>k. map_of ?accs k = (if k \<in> ix_programId ` set ixs \<union> am_pubkey ` set ?uses then Some (merged l ns ?uses k) else None)"
    by (simp_all add: accs_inv_def)
  have mem: "a = merged l ns ?uses k \<and> k \<in> ix_programId ` set ixs \<union> am_pubkey ` set ?uses" if "(k, a) \<in> set ?accs" for k a
    using map_of_is_SomeI[OF d that] m[of k] by (auto split: if_splits)
  then have key: "am_pubkey a = k" if "(k, a) \<in> set ?accs" for k a using that by (fastforce simp: merged_def)
  then have e: "map am_pubkey (map snd ?accs) = map fst ?accs" by (auto intro!: map_cong)
  show "distinct (map am_pubkey (getAccounts l ixs ns))" unfolding getAccounts_def e by (rule d)
  show "am_pubkey ` set (getAccounts l ixs ns) = ix_programId ` set ixs \<union> am_pubkey ` set ?uses"
  proof
    show "am_pubkey ` set (getAccounts l ixs ns) \<subseteq> ix_programId ` set ixs \<union> am_pubkey ` set ?uses"
      using mem key by (fastforce simp: getAccounts_def)
    show "ix_programId ` set ixs \<union> am_pubkey ` set ?uses \<subseteq> am_pubkey ` set (getAccounts l ixs ns)"
    proof
      fix k
      assume "k \<in> ix_programId ` set ixs \<union> am_pubkey ` set ?uses"
      with m[of k] have "(k, merged l ns ?uses k) \<in> set ?accs" by (auto intro: map_of_SomeD)
      then show "k \<in> am_pubkey ` set (getAccounts l ixs ns)" by (force simp: getAccounts_def merged_def image_iff)
    qed
  qed
  show "a = merged l ns ?uses (am_pubkey a)" if "a \<in> set (getAccounts l ixs ns)"
    using that mem key by (fastforce simp: getAccounts_def)
qed

section \<open>Lemmas: compilation\<close>

lemma indices_other:
  "k \<notin> am_pubkey ` set accounts \<Longrightarrow> foldl (\<lambda>m (i, a). m(am_pubkey a \<mapsto> i)) m0 (enumerate n accounts) k = m0 k"
  by (induction accounts arbitrary: m0 n) auto

lemma indices_nth:
  "distinct (map am_pubkey accounts) \<Longrightarrow> i < length accounts \<Longrightarrow>
     foldl (\<lambda>m (i, a). m(am_pubkey a \<mapsto> i)) m0 (enumerate n accounts) (am_pubkey (accounts ! i)) = Some (n + i)"
proof (induction accounts arbitrary: m0 n i)
  case (Cons a accounts)
  show ?case
  proof (cases i)
    case 0
    then show ?thesis
      using indices_other[of "am_pubkey a" accounts "m0(am_pubkey a \<mapsto> n)" "Suc n"] Cons.prems
      by (simp del: fun_upd_apply add: fun_upd_same)
  next
    case (Suc j)
    then show ?thesis using Cons by simp
  qed
qed simp

lemma accountIndices_nth:
  assumes "distinct (map am_pubkey accounts)" and "i < length accounts"
  shows "accountIndicesByKey accounts (am_pubkey (accounts ! i)) = Some i"
  using indices_nth[OF assms, of Map.empty 0] by (simp add: accountIndicesByKey_def)

text \<open>A compiled instruction resolves, against the account list, to the instruction it was compiled from.\<close>

definition resolves :: "account_meta list \<Rightarrow> lazy_ix \<Rightarrow> instruction \<Rightarrow> bool" where
  "resolves accounts li ix \<longleftrightarrow>
     (\<exists>p. li_programIdIndex li = Some p \<and> map_option am_pubkey (js_nth accounts p) = Some (ix_programId ix))
     \<and> map (\<lambda>b. map_option am_pubkey (js_nth accounts (unat b))) (li_accounts li) = map (\<lambda>k. Some (am_pubkey k)) (ix_keys ix)
     \<and> li_data li = ix_data ix"

lemma accountIndices_resolve:
  assumes "distinct (map am_pubkey accounts)" and "k \<in> am_pubkey ` set accounts"
  obtains i where "accountIndicesByKey accounts k = Some i" and "i < length accounts" and "am_pubkey (accounts ! i) = k"
  using assms accountIndices_nth[OF assms(1)] by (auto simp: in_set_conv_nth)

lemma compiled_resolves:
  assumes "length (getAccounts l ixs ns) \<le> 256"
  shows "list_all2 (resolves (getAccounts l ixs ns)) (getCompiledInstructions (getAccounts l ixs ns) ixs) ixs"
proof -
  let ?accs = "getAccounts l ixs ns"
  have "resolves ?accs \<lparr>li_programIdIndex = accountIndicesByKey ?accs (ix_programId ix),
      li_accounts = map (\<lambda>key. index_byte (accountIndicesByKey ?accs (am_pubkey key))) (ix_keys ix), li_data = ix_data ix\<rparr> ix"
    if ix: "ix \<in> set ixs" for ix
  proof -
    have "ix_programId ix \<in> am_pubkey ` set ?accs" using getAccounts_spec(2)[of l ixs ns] ix by auto
    then obtain p where p: "accountIndicesByKey ?accs (ix_programId ix) = Some p" "p < length ?accs" "am_pubkey (?accs ! p) = ix_programId ix"
      using accountIndices_resolve[OF getAccounts_spec(1)] by metis
    have "map_option am_pubkey (js_nth ?accs (unat (index_byte (accountIndicesByKey ?accs (am_pubkey key))))) = Some (am_pubkey key)"
      if "key \<in> set (ix_keys ix)" for key
    proof -
      have "am_pubkey key \<in> am_pubkey ` set ?accs" using getAccounts_spec(2)[of l ixs ns] ix that by auto
      then obtain i where i: "accountIndicesByKey ?accs (am_pubkey key) = Some i" "i < length ?accs" "am_pubkey (?accs ! i) = am_pubkey key"
        using accountIndices_resolve[OF getAccounts_spec(1)] by metis
      then have "unat (index_byte (Some i)) = i" using assms by (simp add: index_byte_def unat_byte_of_nat)
      with i show ?thesis by (simp add: js_nth_def)
    qed
    with p show ?thesis by (simp add: resolves_def js_nth_def)
  qed
  then show ?thesis by (auto simp: getCompiledInstructions_def list_all2_conv_all_nth)
qed

section \<open>Lemmas: the canopy\<close>

text \<open>
  A node in the queue stands for a place: a node of the heap, or a zero node where the tree has a blank.
\<close>

definition slot_ok :: "bytes list \<Rightarrow> tree_node list \<Rightarrow> labels \<Rightarrow> nat \<times> nat \<Rightarrow> tree_node \<Rightarrow> bool" where
  "slot_ok ls nodes lab lk nd \<longleftrightarrow>
     tn_level nd = fst lk
     \<and> ((\<exists>q < length nodes. nd = nodes ! q \<and> lab ! q = lk)
        \<or> tn_left nd = None \<and> tn_right nd = None \<and> cnt (length ls) (fst lk) \<le> snd lk \<and> tn_node nd = replicate 32 0)"

lemma cnt_below: "cnt n (Suc l) \<le> k \<Longrightarrow> cnt n l \<le> 2 * k"
  by auto

lemma slot_below:
  assumes ok: "heap_ok h ls nodes lab Q" and s: "slot_ok ls nodes lab (Suc l, k) nd"
  obtains x y where "below nodes nd (tn_left nd) = [x]" "below nodes nd (tn_right nd) = [y]"
    "slot_ok ls nodes lab (l, 2 * k) x" "slot_ok ls nodes lab (l, 2 * k + 1) y"
proof (cases "tn_left nd")
  case None
  have blank: "tn_right nd = None \<and> cnt (length ls) (Suc l) \<le> k"
    using s heap_okD(4)[OF ok] None unfolding slot_ok_def children_ok_def by fastforce
  let ?z = "\<lparr>tn_node = replicate 32 0, tn_left = None, tn_right = None, tn_parent = Some (tn_id nd), tn_level = l, tn_id = 0\<rparr>"
  have "tn_level nd = Suc l" using s by (simp add: slot_ok_def)
  with None blank have "below nodes nd (tn_left nd) = [?z]" "below nodes nd (tn_right nd) = [?z]" by (simp_all add: below_def)
  moreover have "slot_ok ls nodes lab (l, j) ?z" if "2 * k \<le> j" for j
    using cnt_below[of "length ls" l k] blank that by (simp add: slot_ok_def)
  ultimately show thesis using that by simp
next
  case (Some a)
  with s obtain q where q: "q < length nodes" "nd = nodes ! q" "lab ! q = (Suc l, k)" by (auto simp: slot_ok_def)
  with heap_okD(4)[OF ok q(1)] Some obtain b where b: "tn_right nd = Some b" "a < q" "b < q" "lab ! a = (l, 2 * k)" "lab ! b = (l, 2 * k + 1)"
    unfolding children_ok_def by auto
  have "slot_ok ls nodes lab (l, 2 * k) (nodes ! a)" "slot_ok ls nodes lab (l, 2 * k + 1) (nodes ! b)"
    using b q heap_okD(3)[OF ok, of a] heap_okD(3)[OF ok, of b] by (auto simp: slot_ok_def node_at_def)
  with Some b show thesis using that by (simp add: below_def)
qed

lemma slot_leaf:
  assumes "heap_ok h ls nodes lab Q" and "slot_ok ls nodes lab (0, k) nd"
  shows "below nodes nd (tn_left nd) = [] \<and> below nodes nd (tn_right nd) = []"
proof -
  have "tn_left nd = None \<and> tn_right nd = None"
    using assms(2) heap_okD(4)[OF assms(1)] unfolding slot_ok_def children_ok_def by fastforce
  with assms(2) show ?thesis by (simp add: below_def slot_ok_def)
qed

lemma canopy_level:
  assumes ok: "heap_ok h ls nodes lab Q" and d: "int L - int (Suc l) \<le> d"
    and "list_all2 (slot_ok ls nodes lab) (map (Pair (Suc l)) [j..<m]) xs"
    and "list_all2 (slot_ok ls nodes lab) (map (Pair l) [0..<2 * j]) ys" and "j \<le> m"
  shows "\<exists>zs. canopy_loop nodes L d (xs @ ys) acc = canopy_loop nodes L d zs (acc @ xs)
    \<and> list_all2 (slot_ok ls nodes lab) (map (Pair l) [0..<2 * m]) zs"
  using assms(3-)
proof (induction xs arbitrary: j ys acc rule: list.induct)
  case Nil
  then have "j = m" using list_all2_lengthD[OF Nil.prems(1)] by simp
  with Nil show ?case by auto
next
  case (Cons x xs)
  from Cons.prems(1) have jm: "j < m" using list_all2_lengthD[OF Cons.prems(1)] by simp
  with Cons.prems(1) have x: "slot_ok ls nodes lab (Suc l, j) x"
    and xs: "list_all2 (slot_ok ls nodes lab) (map (Pair (Suc l)) [Suc j..<m]) xs"
    by (simp_all add: upt_conv_Cons)
  obtain u v where uv: "below nodes x (tn_left x) = [u]" "below nodes x (tn_right x) = [v]"
    "slot_ok ls nodes lab (l, 2 * j) u" "slot_ok ls nodes lab (l, 2 * j + 1) v"
    using slot_below[OF ok x] .
  have ys: "list_all2 (slot_ok ls nodes lab) (map (Pair l) [0..<2 * Suc j]) (ys @ [u, v])"
    using Cons.prems(2) uv(3,4) by (simp add: list_all2_appendI)
  have "canopy_loop nodes L d ((x # xs) @ ys) acc = canopy_loop nodes L d (xs @ (ys @ [u, v])) (acc @ [x])"
    using d x uv(1,2) by (subst canopy_loop.simps) (simp add: slot_ok_def)
  with Cons.IH[OF xs ys, of "acc @ [x]"] jm show ?case by auto
qed

lemma canopy_leaves:
  assumes ok: "heap_ok h ls nodes lab Q" and "list_all2 (slot_ok ls nodes lab) (map (Pair 0) ks) xs" and "int L \<le> d"
  shows "canopy_loop nodes L d xs acc = Some (acc @ xs)"
  using assms(2)
proof (induction xs arbitrary: ks acc rule: list.induct)
  case Nil
  then show ?case by (subst canopy_loop.simps) simp
next
  case (Cons x xs)
  then obtain k ks' where k: "slot_ok ls nodes lab (0, k) x" "list_all2 (slot_ok ls nodes lab) (map (Pair 0) ks') xs"
    by (auto simp: list_all2_Cons2 map_eq_Cons_conv)
  have "canopy_loop nodes L d (x # xs) acc = canopy_loop nodes L d xs (acc @ [x])"
    using slot_leaf[OF ok k(1)] k(1) assms(3) by (subst canopy_loop.simps) (simp add: slot_ok_def)
  with Cons.IH[OF k(2)] show ?case by simp
qed

text \<open>The places of the canopy in the order of the walk: level by level from the one given.\<close>

fun places :: "nat \<Rightarrow> nat \<Rightarrow> nat \<Rightarrow> (nat \<times> nat) list" where
  "places l m 0 = map (Pair l) [0..<m]"
| "places l m (Suc n) = map (Pair l) [0..<m] @ (case l of 0 \<Rightarrow> [] | Suc l' \<Rightarrow> places l' (2 * m) n)"

lemma canopy_loop_spec:
  assumes ok: "heap_ok h ls nodes lab Q" and "list_all2 (slot_ok ls nodes lab) (map (Pair l) [0..<m]) xs"
    and "l \<le> L" and "int L - int l + int n = d" and "0 < m"
  shows "\<exists>ys. canopy_loop nodes L d xs acc = Some (acc @ ys) \<and> list_all2 (slot_ok ls nodes lab) (places l m n) ys"
  using assms(2-)
proof (induction n arbitrary: l m xs acc)
  case 0
  show ?case
  proof (cases l)
    case 0
    then show ?thesis using canopy_leaves[OF ok, of "[0..<m]" xs L d acc] "0.prems" by auto
  next
    case (Suc l')
    from canopy_level[OF ok, of L l' d 0 m xs "[]" acc] "0.prems" Suc obtain zs where
      z: "canopy_loop nodes L d xs acc = canopy_loop nodes L d zs (acc @ xs)"
        "list_all2 (slot_ok ls nodes lab) (map (Pair l') [0..<2 * m]) zs" by auto
    from z(2) \<open>0 < m\<close> obtain z' zs' where "zs = z' # zs'" "slot_ok ls nodes lab (l', 0) z'"
      by (cases zs) (auto simp: upt_conv_Cons)
    then have "canopy_loop nodes L d zs (acc @ xs) = Some (acc @ xs)"
      using "0.prems" Suc by (subst canopy_loop.simps) (simp add: slot_ok_def)
    with z(1) "0.prems" show ?thesis by auto
  qed
next
  case (Suc n)
  show ?case
  proof (cases l)
    case 0
    then show ?thesis using canopy_leaves[OF ok, of "[0..<m]" xs L d acc] Suc.prems by auto
  next
    case (Suc l')
    from canopy_level[OF ok, of L l' d 0 m xs "[]" acc] Suc.prems Suc obtain zs where
      z: "canopy_loop nodes L d xs acc = canopy_loop nodes L d zs (acc @ xs)"
        "list_all2 (slot_ok ls nodes lab) (map (Pair l') [0..<2 * m]) zs" by auto
    from Suc.IH[OF z(2), of "acc @ xs"] Suc.prems Suc obtain ys where
      "canopy_loop nodes L d zs (acc @ xs) = Some ((acc @ xs) @ ys)" "list_all2 (slot_ok ls nodes lab) (places l' (2 * m) n) ys" by auto
    with z(1) Suc.prems(1) Suc show ?thesis by (auto intro: list_all2_appendI)
  qed
qed

lemma places_nth:
  "e \<le> n \<Longrightarrow> e \<le> l \<Longrightarrow> k < m * 2 ^ e \<Longrightarrow> m * (2 ^ e - 1) + k < length (places l m n) \<and> places l m n ! (m * (2 ^ e - 1) + k) = (l - e, k)"
proof (induction n arbitrary: e l m)
  case (Suc n)
  show ?case
  proof (cases e)
    case 0
    then show ?thesis using Suc.prems by (simp add: nth_append)
  next
    case (Suc e')
    with Suc.prems obtain l' where l: "l = Suc l'" by (cases l) auto
    have a: "m * (2 ^ e - 1) + k = m + (2 * m * (2 ^ e' - 1) + k)"
      unfolding Suc by (cases "(2 :: nat) ^ e'") (simp_all add: algebra_simps)
    show ?thesis using Suc.IH[of e' l' "2 * m"] Suc.prems Suc l unfolding a by (simp add: nth_append)
  qed
qed simp

lemma length_places: "n \<le> l \<Longrightarrow> length (places l m n) = m * (2 ^ Suc n - 1)"
proof (induction n arbitrary: l m)
  case (Suc n)
  then obtain l' where "l = Suc l'" by (cases l) auto
  with Suc show ?case by (simp add: algebra_simps diff_mult_distrib2)
qed simp

lemma find_root_spec:
  assumes ok: "heap_ok h ls nodes lab {r}" and "i < length nodes"
  shows "find_root nodes i = Some r"
  using assms(2)
proof (induction "length nodes - i" arbitrary: i rule: less_induct)
  case (less i)
  show ?case
  proof (cases "i = r")
    case True
    then show ?thesis using root_no_parent[OF ok less.prems] by (subst find_root.simps) simp
  next
    case False
    then have "i \<notin> {r}" by simp
    then obtain p where "tn_parent (nodes ! i) = Some p" "i < p" "p < length nodes"
      by (rule parent_cases[OF ok less.prems _ prod.collapse[symmetric]])
    with less.hyps[of p] show ?thesis by (subst find_root.simps) (simp add: diff_less_mono2)
  qed
qed

lemma slot_value:
  assumes "heap_ok h ls nodes lab Q" and "slot_ok ls nodes lab (l, k) nd"
  shows "tn_node nd = val h ls l k \<or> tn_node nd = replicate 32 0 \<and> val h ls l k = empty_hash h l"
proof (cases "\<exists>q < length nodes. nd = nodes ! q \<and> lab ! q = (l, k)")
  case True
  then obtain q where "q < length nodes" "nd = nodes ! q" "lab ! q = (l, k)" by blast
  with heap_okD(3)[OF assms(1), of q] show ?thesis by (simp add: node_at_def)
next
  case False
  with assms(2) have "cnt (length ls) l \<le> k" "tn_node nd = replicate 32 0" unfolding slot_ok_def fst_conv snd_conv by blast+
  with val_blank[of ls l k h] show ?thesis by simp
qed

lemma getCanopy_spec:
  assumes "tree_shape h ls lab L r t" and "ls \<noteq> []" and "d \<le> L"
  shows "\<exists>canopy. getCanopy t (int d) = Some (Inr canopy)
    \<and> list_all2 (slot_ok ls (mt_nodes t) lab) (tl (places L 1 d)) canopy"
proof -
  from assms have ok: "heap_ok h ls (mt_nodes t) lab {r}" and r: "r < length (mt_nodes t)" "lab ! r = (L, 0)"
    and lv: "mt_leaves t = [0..<length ls]" and i: "0 < length (mt_nodes t)"
    by (auto simp: tree_shape_def heap_okD(1))
  have lev: "tn_level (mt_nodes t ! r) = L" using heap_okD(3)[OF ok r(1)] r(2) by (simp add: node_at_def)
  have "list_all2 (slot_ok ls (mt_nodes t) lab) (map (Pair L) [0..<1]) [mt_nodes t ! r]"
    using r lev by (auto simp: slot_ok_def)
  from canopy_loop_spec[OF ok this, of L d "int d" "[]"] obtain ys where
    y: "canopy_loop (mt_nodes t) L (int d) [mt_nodes t ! r] [] = Some ys" "list_all2 (slot_ok ls (mt_nodes t) lab) (places L 1 d) ys"
    by auto
  have "list_all2 (slot_ok ls (mt_nodes t) lab) (tl (places L 1 d)) (tl ys)"
    using y(2) by (cases "places L 1 d"; cases ys) auto
  moreover have "getCanopy t (int d) = Some (Inr (tl ys))"
    using find_root_spec[OF ok i] y(1) assms(2) by (simp add: getCanopy_def lv js_nth_def lev)
  ultimately show ?thesis by blast
qed

section \<open>Properties\<close>

text \<open>
  The canopy is the top of the tree, in the order the program reads it: for every cached depth \<open>e\<close>
  and position \<open>k\<close>, entry \<open>2 ^ e + k - 2\<close> holds the tree's node at that place, or zeros where that node is
  the root of an empty subtree (which the program replaces by the hash of an empty subtree of that
  level); there are \<open>2 ^ (d + 1) - 2\<close> entries, for which \<open>getCanopySize\<close> leaves room.
\<close>

theorem getCanopy_correct:
  assumes "represents h t ls" and "ls \<noteq> []" and "d < mt_depth t" and "d < 30"
  shows "\<exists>canopy. getCanopy t (int d) = Some (Inr canopy) \<and> length canopy = 2 ^ (d + 1) - 2
    \<and> getCanopySize d = 1 + 32 * int (length canopy)
    \<and> (\<forall>e k. 1 \<le> e \<and> e \<le> d \<and> k < 2 ^ e \<longrightarrow>
        (let nd = canopy ! (2 ^ e + k - 2); v = val h ls (mt_depth t - 1 - e) k
         in tn_node nd = v \<or> tn_node nd = replicate 32 0 \<and> v = empty_hash h (mt_depth t - 1 - e)))"
proof -
  obtain lab L r where t: "tree_shape h ls lab L r t" using assms(1) unfolding represents_def by blast
  then have ok: "heap_ok h ls (mt_nodes t) lab {r}" and L: "mt_depth t = Suc L" by (simp_all add: tree_shape_def)
  from assms(3) L have d: "d \<le> L" by simp
  obtain canopy where c: "getCanopy t (int d) = Some (Inr canopy)"
    "list_all2 (slot_ok ls (mt_nodes t) lab) (tl (places L 1 d)) canopy"
    using getCanopy_spec[OF t assms(2) d] by blast
  have len: "length canopy = 2 ^ (d + 1) - 2" using list_all2_lengthD[OF c(2)] length_places[OF d, of 1] by simp
  have "(2 :: int) ^ (d + 1) \<le> 2 ^ 30" by (rule power_increasing) (use assms(4) in simp_all)
  moreover have "(d + 1) mod 32 = d + 1" using assms(4) by simp
  ultimately have "js_shl1 (d + 1) = 2 ^ (d + 1)" unfolding js_shl1_def to_int32_def by simp
  moreover have "int (2 ^ (d + 1) - 2) = 2 ^ (d + 1) - 2" by (simp add: of_nat_diff)
  ultimately have size: "getCanopySize d = 1 + 32 * int (length canopy)" unfolding getCanopySize_def len by simp
  have "slot_ok ls (mt_nodes t) lab (L - e, k) (canopy ! (2 ^ e + k - 2))" if e: "1 \<le> e" "e \<le> d" "k < 2 ^ e" for e k
  proof -
    have p: "(2 ^ e - 1) + k < length (places L 1 d)" "places L 1 d ! ((2 ^ e - 1) + k) = (L - e, k)"
      using places_nth[of e d L k 1] e d by simp_all
    have "(2 :: nat) ^ 1 \<le> 2 ^ e" by (rule power_increasing) (use e in simp_all)
    then have s: "(2 ^ e - 1) + k = Suc (2 ^ e + k - 2)" by simp
    have "2 ^ e + k - 2 < length canopy" using p(1) list_all2_lengthD[OF c(2)] unfolding s by simp
    from list_all2_nthD2[OF c(2) this] p s show ?thesis by (simp add: nth_tl)
  qed
  with slot_value[OF ok] c(1) len size L show ?thesis by (intro exI[of _ canopy]) (simp add: Let_def)
qed

theorem getCanopy_correct_witness:
  "\<exists>t canopy. represents sum_hash t three_leaves \<and> getCanopy t 1 = Some (Inr canopy) \<and> length canopy = 2
    \<and> tn_node (canopy ! 0) \<in> {val sum_hash three_leaves (mt_depth t - 2) 0, replicate 32 0}"
proof -
  obtain t c L where t: "represents sum_hash t three_leaves" and L: "mt_depth t = L + 1" "3 \<le> (2 :: nat) ^ L"
    using merkleTree_spec[OF three_leaves_ok(1,2) cache_ok_empty[of sum_hash]] three_leaves_ok(3) by auto
  then have d: "1 < mt_depth t" by (cases L) auto
  from getCanopy_correct[OF t three_leaves_ok(1) d] obtain canopy where
    c: "getCanopy t (int 1) = Some (Inr canopy)" "length canopy = 2 ^ (1 + 1) - 2"
    and e: "\<forall>e k. 1 \<le> e \<and> e \<le> 1 \<and> k < 2 ^ e \<longrightarrow>
        (let nd = canopy ! (2 ^ e + k - 2); v = val sum_hash three_leaves (mt_depth t - 1 - e) k
         in tn_node nd = v \<or> tn_node nd = replicate 32 0 \<and> v = empty_hash sum_hash (mt_depth t - 1 - e))" by auto
  from e[rule_format, of 1 0] have "tn_node (canopy ! 0) \<in> {val sum_hash three_leaves (mt_depth t - 2) 0, replicate 32 0}"
    by (auto simp: Let_def numeral_2_eq_2)
  with t c show ?thesis by auto
qed

text \<open>What the writes leave in the canopy account: each puts its bytes at its offset.\<close>

definition write_at :: "bytes \<Rightarrow> nat \<times> bytes \<Rightarrow> bytes" where
  "write_at buf w = take (fst w) buf @ snd w @ drop (fst w + length (snd w)) buf"

lemma length_concat_nodes: "\<forall>nd \<in> set nds. length (tn_node nd) = 32 \<Longrightarrow> length (concat (map tn_node nds)) = 32 * length nds"
  by (induction nds) auto

lemma chop_writes:
  assumes "\<forall>nd \<in> set nds. length (tn_node nd) = 32" and "length buf = 960 * i + 32 * length nds"
  shows "foldl write_at buf (map (\<lambda>(index, leaves). (960 * index, concat (map tn_node leaves))) (enumerate i (chop 30 nds)))
    = take (960 * i) buf @ concat (map tn_node nds)"
  using assms
proof (induction "30 :: nat" nds arbitrary: i buf rule: chop.induct)
  case (2 x xs)
  let ?nds = "x # xs" and ?c = "take 30 (x # xs)" and ?r = "drop 30 (x # xs)"
  have tr: "\<forall>nd \<in> set ?c. length (tn_node nd) = 32" and r: "\<forall>nd \<in> set ?r. length (tn_node nd) = 32"
    using "2.prems"(1) set_take_subset[of 30 ?nds] set_drop_subset[of 30 ?nds] by blast+
  note c = length_concat_nodes[OF tr]
  let ?buf = "write_at buf (960 * i, concat (map tn_node ?c))"
  have cat: "concat (map tn_node ?c) @ concat (map tn_node ?r) = concat (map tn_node ?nds)"
    by (simp only: concat_append[symmetric] map_append[symmetric] append_take_drop_id)
  show ?case
  proof (cases "length ?nds \<le> 30")
    case True
    then have e: "?c = ?nds" "?r = []" by simp_all
    have "foldl write_at buf (map (\<lambda>(index, leaves). (960 * index, concat (map tn_node leaves))) (enumerate i (chop 30 ?nds))) = ?buf"
      using e(2) by simp
    also have "\<dots> = take (960 * i) buf @ concat (map tn_node ?nds)"
      using "2.prems"(2) length_concat_nodes[OF "2.prems"(1)] unfolding e(1) write_at_def by simp
    finally show ?thesis .
  next
    case False
    then have full: "length ?c = 30" by simp
    have b: "length ?buf = 960 * Suc i + 32 * length ?r" and tk: "take (960 * Suc i) ?buf = take (960 * i) buf @ concat (map tn_node ?c)"
      using "2.prems"(2) c full False unfolding write_at_def by simp_all
    have "foldl write_at buf (map (\<lambda>(index, leaves). (960 * index, concat (map tn_node leaves))) (enumerate i (chop 30 ?nds)))
      = foldl write_at ?buf (map (\<lambda>(index, leaves). (960 * index, concat (map tn_node leaves))) (enumerate (Suc i) (chop 30 ?r)))"
      by simp
    also have "\<dots> = take (960 * Suc i) ?buf @ concat (map tn_node ?r)" by (rule "2.hyps"[OF _ r b]) simp
    also have "\<dots> = take (960 * i) buf @ concat (map tn_node ?nds)" unfolding tk append_assoc cat ..
    finally show ?thesis .
  qed
qed simp

text \<open>
  \<open>fillCanopy\<close>'s writes leave exactly the canopy in the account: applied to an account of its length,
  whatever it held, they give the canopy's nodes one after the other; and no write is longer than thirty
  nodes.
\<close>

theorem canopy_writes_fill:
  assumes "\<forall>nd \<in> set canopy. length (tn_node nd) = 32" and "length buf = 32 * length canopy"
  shows "\<exists>ws. canopy_writes canopy = Inr ws \<and> foldl write_at buf ws = concat (map tn_node canopy)
    \<and> (\<forall>w \<in> set ws. length (snd w) \<le> 960)"
proof -
  let ?ws = "map (\<lambda>(index, leaves). (32 * 30 * index, concat (map tn_node leaves))) (enumerate 0 (chop 30 canopy))"
  have w: "canopy_writes canopy = Inr ?ws" by (simp add: canopy_writes_def chunks_chop)
  have "length (snd w) \<le> 960" if "w \<in> set ?ws" for w
  proof -
    from that obtain c where c: "c \<in> set (chop 30 canopy)" "snd w = concat (map tn_node c)"
      by (auto simp: enumerate_eq_zip dest: set_zip_rightD)
    have "\<forall>nd \<in> set c. nd \<in> set canopy" using c(1) concat_chop[of 30 canopy] by (metis UN_I set_concat zero_less_numeral)
    with assms(1) c(2) have "length (snd w) = 32 * length c" by (simp add: length_concat_nodes)
    with chop_bounds[OF _ c(1)] show ?thesis by simp
  qed
  moreover have "foldl write_at buf ?ws = concat (map tn_node canopy)"
    using chop_writes[OF assms(1), of buf 0] assms(2) by simp
  ultimately show ?thesis using w by blast
qed

theorem canopy_writes_fill_witness:
  "\<exists>ws. canopy_writes [fresh_node (replicate 32 1) 0 0, fresh_node (replicate 32 2) 0 1] = Inr ws
    \<and> foldl write_at (replicate 64 0) ws = replicate 32 1 @ replicate 32 2"
  using canopy_writes_fill[of "[fresh_node (replicate 32 1) 0 0, fresh_node (replicate 32 2) 0 1]" "replicate 64 0"]
  by (auto simp: fresh_node_def)

text \<open>What the compiled form of a transaction says of it.\<close>

definition compiled_as :: "lazy_env \<Rightarrow> pubkey \<Rightarrow> nat \<Rightarrow> lazy_tx \<Rightarrow> compiled_tx \<Rightarrow> bool" where
  "compiled_as le lazySigner i tx ct \<longleftrightarrow>
     ct_index ct = i \<and> ct_signerSeeds ct = map (drop 2) (lz_signerSeeds tx)
     \<and> (\<exists>ns. emap (le_createProgramAddress le) (lz_signerSeeds tx) = Inr ns
          \<and> (\<forall>a \<in> set (ct_accounts ct). a = merged lazySigner ns (concat (map ix_keys (lz_instructions tx))) (am_pubkey a)))
     \<and> distinct (map am_pubkey (ct_accounts ct))
     \<and> am_pubkey ` set (ct_accounts ct) =
          ix_programId ` set (lz_instructions tx) \<union> am_pubkey ` set (concat (map ix_keys (lz_instructions tx)))
     \<and> (length (ct_accounts ct) \<le> 256 \<longrightarrow> list_all2 (resolves (ct_accounts ct)) (ct_instructions ct) (lz_instructions tx))"

lemma compiled_asI:
  assumes "emap (le_createProgramAddress le) (lz_signerSeeds tx) = Inr ns"
  shows "compiled_as le lazySigner i tx
    \<lparr>ct_accounts = getAccounts lazySigner (lz_instructions tx) ns,
     ct_instructions = getCompiledInstructions (getAccounts lazySigner (lz_instructions tx) ns) (lz_instructions tx),
     ct_index = i, ct_signerSeeds = map (drop 2) (lz_signerSeeds tx)\<rparr>"
  unfolding compiled_as_def compiled_tx.simps
  by (intro conjI impI exI[of _ ns] ballI refl assms getAccounts_spec compiled_resolves)

lemma compile_from_spec:
  "compile_from le lazySigner n txs = Inr cts \<Longrightarrow> list_all2 (\<lambda>(i, tx) ct. compiled_as le lazySigner i tx ct) (enumerate n txs) cts"
  by (induction le lazySigner n txs arbitrary: cts rule: compile_from.induct)
    (auto simp: Let_def compiled_asI elim!: ebind_InrE)

text \<open>
  C32. Compilation keeps every transaction: it is compiled at its own position; its account list names
  every program and key it uses once, each writable and signing exactly as its uses ask (the lazy signer
  always writable and never signing, addresses derived from its seeds never signing); and with at most
  256 accounts each compiled instruction resolves to the program, keys and data it was compiled from.
\<close>

theorem compileNoMerkle_resolves:
  assumes "compileNoMerkle le lazySigner txs = Inr cts"
  shows "length cts = length txs \<and> (\<forall>i < length txs. compiled_as le lazySigner i (txs ! i) (cts ! i))"
proof -
  have l: "list_all2 (\<lambda>(i, tx) ct. compiled_as le lazySigner i tx ct) (enumerate 0 txs) cts"
    using compile_from_spec assms unfolding compileNoMerkle_def by blast
  have "length cts = length txs" using list_all2_lengthD[OF l] by simp
  moreover have "compiled_as le lazySigner i (txs ! i) (cts ! i)" if "i < length txs" for i
    using list_all2_nthD[OF l, of i] that by (simp add: nth_enumerate_eq)
  ultimately show ?thesis by simp
qed

text \<open>An environment for the witnesses: program addresses are their first seed, a key its first bytes.\<close>

definition demo_lazy_env :: lazy_env where
  "demo_lazy_env = \<lparr>le_createProgramAddress = (\<lambda>seeds. Inr (map (\<lambda>w. char_of (unat w)) (concat seeds))),
     le_keyBytes = (\<lambda>k. take 32 (map (\<lambda>c. word_of_nat (of_char c)) k @ replicate 32 0)),
     le_encode = (\<lambda>ix n. Inr (replicate n 0)), le_keccak = (\<lambda>b. replicate 32 (sum_list b))\<rparr>"

definition demo_lazy_tx :: lazy_tx where
  "demo_lazy_tx = \<lparr>lz_instructions = [\<lparr>ix_programId = ''prog'', ix_keys =
       [\<lparr>am_pubkey = ''lazy'', am_isSigner = True, am_isWritable = False\<rparr>,
        \<lparr>am_pubkey = ''user'', am_isSigner = True, am_isWritable = False\<rparr>], ix_data = [7]\<rparr>], lz_signerSeeds = []\<rparr>"

lemma demo_compiled:
  "compileNoMerkle demo_lazy_env ''lazy'' [demo_lazy_tx] = Inr
     [\<lparr>ct_accounts = [\<lparr>am_pubkey = ''prog'', am_isSigner = False, am_isWritable = False\<rparr>,
        \<lparr>am_pubkey = ''lazy'', am_isSigner = False, am_isWritable = True\<rparr>,
        \<lparr>am_pubkey = ''user'', am_isSigner = True, am_isWritable = False\<rparr>],
       ct_instructions = [\<lparr>li_programIdIndex = Some 0, li_accounts = [1, 2], li_data = [7]\<rparr>],
       ct_index = 0, ct_signerSeeds = []\<rparr>]"
  by (simp add: compileNoMerkle_def demo_lazy_tx_def getAccounts_def touch_ix_def touch_program_def touch_key_def
      getCompiledInstructions_def accountIndicesByKey_def index_byte_def Let_def)

theorem compileNoMerkle_resolves_witness:
  "\<exists>cts. compileNoMerkle demo_lazy_env ''lazy'' [demo_lazy_tx] = Inr cts
    \<and> length cts = 1 \<and> compiled_as demo_lazy_env ''lazy'' 0 demo_lazy_tx (cts ! 0)"
  using compileNoMerkle_resolves[OF demo_compiled] demo_compiled by auto

lemma keccak_hash32: "(\<And>b. length (le_keccak le b) = 32) \<Longrightarrow> hash32 (node_hash le)"
  by (simp add: hash32_def node_hash_def)

lemma toLeaf_length: "(\<And>b. length (le_keccak le b) = 32) \<Longrightarrow> toLeaf le ct = Inr b \<Longrightarrow> length b = 32"
  by (auto simp: toLeaf_def split: if_splits elim!: ebind_InrE)

text \<open>
  C30. Every compiled lazy transaction can be proved: whenever each transaction compiles and encodes,
  \<open>compile\<close> returns a tree, and for each compiled transaction the tree gives a
  proof of its own leaf that verifies against the committed root.
\<close>

theorem compile_provable:
  assumes "\<And>b. length (le_keccak le b) = 32" and "codec_ok kc" and "cache_ok (node_hash le) cache"
    and "compileNoMerkle le lazySigner txs = Inr cts" and "emap (toLeaf le) cts = Inr leaves"
    and "txs \<noteq> []" and "length txs \<le> 2 ^ 31"
  shows "\<exists>t. compile le cache lazySigner txs = Some (Inr (t, cts))
    \<and> (\<forall>i < length txs. \<exists>mp. getProof (node_hash le) t i False (- 1) True = Some (Inr mp)
        \<and> Inr (mp_leaf mp) = toLeaf le (cts ! i) \<and> verify (node_hash le) kc (kc_toString kc (mt_root t)) mp = Inr True)"
proof -
  have len: "length cts = length txs"
    using list_all2_lengthD[OF compile_from_spec[of le lazySigner 0 txs cts]] assms(4) by (simp add: compileNoMerkle_def)
  have leaf: "toLeaf le (cts ! i) = Inr (leaves ! i)" if "i < length cts" for i using emap_Inr_nth[OF assms(5) that] .
  have l32: "\<forall>b \<in> set leaves. length b = 32" "leaves \<noteq> []" "length leaves = length txs"
    using emap_Inr_length[OF assms(5)] toLeaf_length[OF assms(1) leaf] len assms(6) by (auto simp: in_set_conv_nth)
  obtain t c where t: "merkleTree (node_hash le) cache leaves = Some (Inr (t, c))" "represents (node_hash le) t leaves"
    using merkleTree_spec[OF l32(2,1) assms(3)] by blast
  have "compile le cache lazySigner txs = Some (Inr (t, cts))" by (simp add: compile_def assms(4,5) t)
  moreover have "\<exists>mp. getProof (node_hash le) t i False (- 1) True = Some (Inr mp)
        \<and> Inr (mp_leaf mp) = toLeaf le (cts ! i) \<and> verify (node_hash le) kc (kc_toString kc (mt_root t)) mp = Inr True"
    if "i < length txs" for i
    using getProof_verifies[OF keccak_hash32[OF assms(1)] assms(2) l32(1) t(2), of i] leaf[of i] that l32(3) len assms(7) by auto
  ultimately show ?thesis by blast
qed

theorem compile_provable_witness:
  "\<exists>t cts mp. compile demo_lazy_env Map.empty ''lazy'' [demo_lazy_tx] = Some (Inr (t, cts))
    \<and> getProof (node_hash demo_lazy_env) t 0 False (- 1) True = Some (Inr mp)
    \<and> Inr (mp_leaf mp) = toLeaf demo_lazy_env (cts ! 0)
    \<and> verify (node_hash demo_lazy_env) text_codec (kc_toString text_codec (mt_root t)) mp = Inr True"
proof -
  have k: "length (le_keccak demo_lazy_env b) = 32" for b by (simp add: demo_lazy_env_def)
  have "\<exists>leaves. emap (toLeaf demo_lazy_env) [\<lparr>ct_accounts = [\<lparr>am_pubkey = ''prog'', am_isSigner = False, am_isWritable = False\<rparr>,
        \<lparr>am_pubkey = ''lazy'', am_isSigner = False, am_isWritable = True\<rparr>,
        \<lparr>am_pubkey = ''user'', am_isSigner = True, am_isWritable = False\<rparr>],
       ct_instructions = [\<lparr>li_programIdIndex = Some 0, li_accounts = [1, 2], li_data = [7]\<rparr>],
       ct_index = 0, ct_signerSeeds = []\<rparr>] = Inr leaves"
    by (simp add: toLeaf_def ixToBin_def demo_lazy_env_def)
  then obtain leaves where l: "emap (toLeaf demo_lazy_env) [\<lparr>ct_accounts = [\<lparr>am_pubkey = ''prog'', am_isSigner = False, am_isWritable = False\<rparr>,
        \<lparr>am_pubkey = ''lazy'', am_isSigner = False, am_isWritable = True\<rparr>,
        \<lparr>am_pubkey = ''user'', am_isSigner = True, am_isWritable = False\<rparr>],
       ct_instructions = [\<lparr>li_programIdIndex = Some 0, li_accounts = [1, 2], li_data = [7]\<rparr>],
       ct_index = 0, ct_signerSeeds = []\<rparr>] = Inr leaves" by blast
  from compile_provable[OF k text_codec_ok cache_ok_empty demo_compiled l] show ?thesis by fastforce
qed

end
