(* ===== verification/Account_Cache.thy ===== *)
theory Account_Cache
  imports Prelude
begin

text \<open>
  \<^verbatim>\<open>packages/account-fetch-cache/src\<close>: the cache in front of the RPC node. Requests are collected for a
  short delay, sent as one batch, and shared; results are cached while they are watched; accounts that
  do not exist are polled; websocket notifications refresh the cache.

  The code is asynchronous. A call runs to its first \<open>await\<close> and goes on when what it awaits is settled, so
  a call is a task with a program counter, and the event loop is the function \<open>handle\<close>: a new call, the
  timer, an answer of the node, the resumption of a task, a notification, a disposal. Any order of events
  is considered. Promises are the batchers' results; the arrays of active batchers are objects, because an
  iteration over one goes on while it is pushed to and is not touched by the filtered copies.
\<close>

section \<open>Data\<close>

record account_info =
  ai_owner :: pubkey
  ai_lamports :: nat
  ai_executable :: bool
  ai_data :: bytes

text \<open>
  A cached object: \<open>pa_ref\<close> is its identity, which \<open>!=\<close> compares, and \<open>pa_info\<close> is \<open>None\<close> when the field is
  undefined (or falsy).
\<close>

record parsed =
  pa_ref :: nat
  pa_pubkey :: pubkey
  pa_account :: account_info
  pa_info :: "string option"

text \<open>An account as the node sends it, and the answer to one request.\<close>

record raw_account =
  ra_owner :: string
  ra_lamports :: nat
  ra_executable :: bool
  ra_data :: "string list"

datatype rpc_answer =
    Rpc_throws js_error
  | Rpc_error string
  | Rpc_no_value
  | Rpc_value "raw_account option list"

text \<open>
  What the cache is given: the parsers (functions are compared by identity, so a parser is a number, and
  \<open>ce_parse\<close> is what calling it does: it throws, returns undefined, or builds a new object), the decoders of
  the client library, and the connection's websocket: \<open>ce_onAccountChange n\<close> is the outcome of the \<open>n\<close>-th
  subscription, \<open>ce_remove\<close> what removing one throws; the second pair is of the usable connection the
  code makes when the first is not implemented.
\<close>

record cache_env =
  ce_parse :: "nat \<Rightarrow> pubkey \<Rightarrow> account_info \<Rightarrow> js_error + (pubkey \<times> account_info \<times> string option) option"
  ce_newKey :: "string \<Rightarrow> js_error + pubkey"
  ce_base64 :: "string \<Rightarrow> bytes"
  ce_onAccountChange :: "nat \<Rightarrow> js_error + nat"
  ce_remove :: "js_error option"
  ce_usable_onAccountChange :: "nat \<Rightarrow> js_error + nat"

section \<open>getMultipleAccounts\<close>

definition decode_account :: "cache_env \<Rightarrow> raw_account \<Rightarrow> js_error + account_info" where
  "decode_account env acc =
     ebind (if ra_owner acc = [] then Inr [] else ce_newKey env (ra_owner acc)) (\<lambda>owner.
       case js_nth (ra_data acc) 0 of
         None \<Rightarrow> Inl TypeError
       | Some d \<Rightarrow> Inr \<lparr>ai_owner = owner, ai_lamports = ra_lamports acc, ai_executable = ra_executable acc,
                        ai_data = ce_base64 env d\<rparr>)"

definition getMultipleAccountsCore :: "(pubkey list \<Rightarrow> rpc_answer) \<Rightarrow> pubkey list \<Rightarrow> js_error + raw_account option list" where
  "getMultipleAccountsCore rpc keys =
     (case rpc keys of
        Rpc_throws e \<Rightarrow> Inl e
      | Rpc_error m \<Rightarrow> Inl (Err (''failed to get info about account '' @ m))
      | Rpc_value array \<Rightarrow> Inr array
      | Rpc_no_value \<Rightarrow> Inl (Err []))"

definition MAX_CHUNK_SIZE :: nat where
  "MAX_CHUNK_SIZE = 99"

definition process_account :: "cache_env \<Rightarrow> raw_account option \<Rightarrow> js_error + account_info option" where
  "process_account env acc = (case acc of None \<Rightarrow> Inr None | Some a \<Rightarrow> ebind (decode_account env a) (\<lambda>o'. Inr (Some o')))"

fun accounts_from :: "cache_env \<Rightarrow> (pubkey list \<Rightarrow> rpc_answer) \<Rightarrow> pubkey list \<Rightarrow> js_error + account_info option list" where
  "accounts_from env rpc [] = Inr []"
| "accounts_from env rpc (k # ks) =
     ebind (getMultipleAccountsCore rpc (take MAX_CHUNK_SIZE (k # ks))) (\<lambda>res.
     ebind (emap (process_account env) res) (\<lambda>processedArray.
     ebind (accounts_from env rpc (drop (MAX_CHUNK_SIZE - 1) ks)) (\<lambda>array. Inr (processedArray @ array))))"

definition getMultipleAccounts ::
  "cache_env \<Rightarrow> (pubkey list \<Rightarrow> rpc_answer) \<Rightarrow> pubkey list \<Rightarrow> js_error + (pubkey list \<times> account_info option list)" where
  "getMultipleAccounts env rpc keys = ebind (accounts_from env rpc keys) (\<lambda>array. Inr (keys, array))"

section \<open>MapAccountCache\<close>

text \<open>The interface \<open>AccountCache\<close> as the cache relies on it, and the class that implements it.\<close>

locale account_cache =
  fixes get :: "'c \<Rightarrow> pubkey \<Rightarrow> parsed option option"
    and has :: "'c \<Rightarrow> pubkey \<Rightarrow> bool"
    and set :: "'c \<Rightarrow> pubkey \<Rightarrow> parsed option \<Rightarrow> 'c"
    and delete :: "'c \<Rightarrow> pubkey \<Rightarrow> 'c"
  assumes has_get: "has c k \<longleftrightarrow> get c k \<noteq> None"
    and get_set: "get (set c k v) k' = (if k' = k then Some v else get c k')"
    and get_delete: "get (delete c k) k' = (if k' = k then None else get c k')"
begin

lemma has_set: "has (set c k v) k' \<longleftrightarrow> k' = k \<or> has c k'"
  by (simp add: has_get get_set)

lemma has_delete: "has (delete c k) k' \<longleftrightarrow> k' \<noteq> k \<and> has c k'"
  by (simp add: has_get get_delete)

end

type_synonym map_cache = "pubkey \<rightharpoonup> parsed option"

definition mac_get :: "map_cache \<Rightarrow> pubkey \<Rightarrow> parsed option option" where
  "mac_get c k = c k"

definition mac_has :: "map_cache \<Rightarrow> pubkey \<Rightarrow> bool" where
  "mac_has c k \<longleftrightarrow> c k \<noteq> None"

definition mac_set :: "map_cache \<Rightarrow> pubkey \<Rightarrow> parsed option \<Rightarrow> map_cache" where
  "mac_set c k v = c(k \<mapsto> v)"

definition mac_delete :: "map_cache \<Rightarrow> pubkey \<Rightarrow> map_cache" where
  "mac_delete c k = c(k := None)"

interpretation mac: account_cache mac_get mac_has mac_set mac_delete
  by unfold_locales (simp_all add: mac_get_def mac_has_def mac_set_def mac_delete_def)

lemmas mac_laws [simp] = mac.get_set mac.has_set mac.get_delete mac.has_delete

section \<open>Batchers\<close>

text \<open>
  \<open>bt_result\<close> is the value the promise is settled with. The constructor binds \<open>reject\<close> to the body of
  \<open>resolve\<close>, so a failure settles it with the error as its value; \<open>entries\<close> is what indexing and spreading
  the value by addresses give, nothing for an error. \<open>bt_pending\<close>: the request is under way.
\<close>

datatype settled =
    Accounts "pubkey \<rightharpoonup> account_info"
  | An_error js_error

fun entries :: "settled \<Rightarrow> pubkey \<rightharpoonup> account_info" where
  "entries (Accounts m) = m"
| "entries (An_error e) = Map.empty"

record batcher =
  bt_inFlight :: bool
  bt_currentBatch :: "pubkey list"
  bt_result :: "settled option"
  bt_pending :: bool

definition newBatcher :: batcher where
  "newBatcher = \<lparr>bt_inFlight = False, bt_currentBatch = [], bt_result = None, bt_pending = False\<rparr>"

definition batcher_add :: "pubkey list \<Rightarrow> batcher \<Rightarrow> batcher" where
  "batcher_add keys b = b\<lparr>bt_currentBatch := js_set (bt_currentBatch b @ keys)\<rparr>"

definition batcher_start :: "batcher \<Rightarrow> batcher" where
  "batcher_start b = b\<lparr>bt_inFlight := True, bt_pending := bt_currentBatch b \<noteq> []\<rparr>"

definition batcher_resolve :: "settled \<Rightarrow> batcher \<Rightarrow> batcher" where
  "batcher_resolve v b = (if bt_result b = None then b\<lparr>bt_result := Some v\<rparr> else b)"

definition batcher_reject :: "js_error \<Rightarrow> batcher \<Rightarrow> batcher" where
  "batcher_reject e b = batcher_resolve (An_error e) b"

section \<open>Tasks\<close>

text \<open>
  Where a call of \<open>search\<close> is suspended: inside \<open>awaitAllInFlight\<close> (the array it iterates over, the index of
  the batcher it awaits, the results so far), after it, at the batcher it added its key to, after
  \<open>search\<close> returned into its caller, after \<open>searchAndWatch\<close> returned into its caller, or settled. \<open>after\<close> is
  the caller.
\<close>

type_synonym results = "pubkey \<rightharpoonup> account_info"

datatype pc =
    Loop nat nat results
  | Joined results
  | Own nat
  | Searched "js_error + parsed option"
  | Watched "parsed option"
  | Settled "js_error + parsed option"

datatype after =
    Plain
  | Query
  | Watch
  | Requery nat "parsed option option"
  | Refetch

record task =
  tk_key :: pubkey
  tk_parser :: "nat option"
  tk_static :: bool
  tk_force :: bool
  tk_after :: after
  tk_pc :: pc

text \<open>
  A slot of the array \<open>searchMultiple\<close> fills: a hole of \<open>new Array\<close>, undefined, null, a parsed account or an
  account as it came from a batch.
\<close>

datatype slot =
    Hole
  | Undefined
  | Null
  | Parsed parsed
  | Raw account_info

datatype mpc =
    MLoop nat nat results
  | MJoined results
  | MOwn nat "slot list" "pubkey list" "pubkey \<rightharpoonup> nat"
  | MSearched "js_error + slot list"
  | MSettled "js_error + slot list"

record mtask =
  mk_keys :: "pubkey list"
  mk_parser :: "nat option"
  mk_static :: bool
  mk_force :: bool
  mk_watch :: bool
  mk_pc :: mpc

datatype cache_event =
    CacheUpdate pubkey bool "nat option"
  | CacheDelete pubkey

section \<open>State\<close>

text \<open>
  The fields of \<open>AccountFetchCache\<close>, with the objects they point to: the batchers ever made, the arrays
  (\<open>ac_active\<close> names the one in \<open>activeBatches\<close>), whether the polling interval runs, the live websocket subscriptions (on the usable
  connection or not, id, key), the number of objects and subscriptions made, and the tasks.
\<close>

record cache_state =
  ac_watchers :: "pubkey \<rightharpoonup> int"
  ac_listeners :: "pubkey \<rightharpoonup> nat"
  ac_statics :: "pubkey set"
  ac_missing :: "(pubkey \<times> nat option) list"
  ac_cache :: map_cache
  ac_parsers :: "(pubkey \<times> nat) list"
  ac_timeout :: bool
  ac_interval :: bool
  ac_emitted :: "cache_event list"
  ac_batchers :: "batcher list"
  ac_arrays :: "nat list list"
  ac_active :: nat
  ac_objects :: nat
  ac_live :: "(bool \<times> nat \<times> pubkey) list"
  ac_subs :: nat
  ac_usable_subs :: nat
  ac_usable :: bool
  ac_tasks :: "task list"
  ac_multis :: "mtask list"
  ac_unchanged :: "pubkey list list"

definition accountFetchCache :: cache_state where
  "accountFetchCache =
     \<lparr>ac_watchers = Map.empty, ac_listeners = Map.empty, ac_statics = {}, ac_missing = [], ac_cache = Map.empty,
      ac_parsers = [], ac_timeout = False, ac_interval = True, ac_emitted = [], ac_batchers = [newBatcher], ac_arrays = [[0]],
      ac_active = 0, ac_objects = 0, ac_live = [], ac_subs = 0, ac_usable_subs = 0, ac_usable = False,
      ac_tasks = [], ac_multis = [], ac_unchanged = []\<rparr>"

definition activeBatches :: "cache_state \<Rightarrow> nat list" where
  "activeBatches s = ac_arrays s ! ac_active s"

definition result_of :: "cache_state \<Rightarrow> nat \<Rightarrow> settled option" where
  "result_of s b = (case js_nth (ac_batchers s) b of None \<Rightarrow> None | Some bt \<Rightarrow> bt_result bt)"

section \<open>The cache and its parsers\<close>

definition updateCache :: "pubkey \<Rightarrow> parsed option \<Rightarrow> cache_state \<Rightarrow> cache_state" where
  "updateCache k d s = s\<lparr>ac_cache := mac_set (ac_cache s) k d\<rparr>"

definition updateCacheAndRaiseUpdated :: "pubkey \<Rightarrow> parsed option \<Rightarrow> cache_state \<Rightarrow> cache_state" where
  "updateCacheAndRaiseUpdated k d s =
     (let isNew = (\<not> mac_has (ac_cache s) k);
          s' = updateCache k d s
      in s'\<lparr>ac_emitted := ac_emitted s' @ [CacheUpdate k isNew (map_of (ac_parsers s') k)]\<rparr>)"

text \<open>A new object with the given content.\<close>

definition new_parsed :: "pubkey \<Rightarrow> account_info \<Rightarrow> string option \<Rightarrow> cache_state \<Rightarrow> parsed \<times> cache_state" where
  "new_parsed k a i s =
     (\<lparr>pa_ref = ac_objects s, pa_pubkey = k, pa_account = a, pa_info = i\<rparr>, s\<lparr>ac_objects := Suc (ac_objects s)\<rparr>)"

definition registerParser :: "cache_env \<Rightarrow> pubkey \<Rightarrow> nat option \<Rightarrow> cache_state \<Rightarrow> (js_error + unit) \<times> cache_state" where
  "registerParser env k parser s =
     (case parser of
        None \<Rightarrow> (Inr (), s)
      | Some p \<Rightarrow>
          if map_of (ac_parsers s) k \<noteq> None then (Inr (), s)
          else
            (let s1 = s\<lparr>ac_parsers := obj_set (ac_parsers s) k p\<rparr>
             in case mac_get (ac_cache s1) k of
                  Some (Some cached) \<Rightarrow>
                    (case ce_parse env p (pa_pubkey cached) (pa_account cached) of
                       Inl e \<Rightarrow> (Inl e, s1)
                     | Inr None \<Rightarrow> (Inr (), s1)
                     | Inr (Some (k', a, i)) \<Rightarrow>
                         (let (parsed, s2) = new_parsed k' a i s1 in (Inr (), updateCache k (Some parsed) s2)))
                | _ \<Rightarrow> (Inr (), s1)))"

definition getParsed :: "cache_env \<Rightarrow> pubkey \<Rightarrow> account_info \<Rightarrow> nat option \<Rightarrow> cache_state \<Rightarrow> (js_error + parsed) \<times> cache_state" where
  "getParsed env k obj parser s =
     (case registerParser env k parser s of
        (Inl e, s1) \<Rightarrow> (Inl e, s1)
      | (Inr _, s1) \<Rightarrow>
          (case (case map_of (ac_parsers s1) k of Some p \<Rightarrow> ce_parse env p k obj | None \<Rightarrow> Inr (Some (k, obj, None))) of
             Inl e \<Rightarrow> (Inl e, s1)
           | Inr None \<Rightarrow> (let (r, s2) = new_parsed k obj None s1 in (Inr r, s2))
           | Inr (Some (k', a, i)) \<Rightarrow> (let (r, s2) = new_parsed k' a i s1 in (Inr r, s2))))"

definition byParser :: "nat \<Rightarrow> cache_state \<Rightarrow> pubkey list" where
  "byParser p s = map fst (filter (\<lambda>(k, p'). p' = p) (ac_parsers s))"

definition set_static :: "pubkey \<Rightarrow> bool \<Rightarrow> cache_state \<Rightarrow> cache_state" where
  "set_static k isStatic s =
     s\<lparr>ac_statics := (if isStatic then insert k (ac_statics s) else ac_statics s - {k})\<rparr>"

section \<open>Batches\<close>

definition last_batch :: "cache_state \<Rightarrow> nat option" where
  "last_batch s = js_nth (activeBatches s) (length (activeBatches s) - 1)"

definition push_batcher :: "cache_state \<Rightarrow> cache_state" where
  "push_batcher s =
     s\<lparr>ac_batchers := ac_batchers s @ [newBatcher],
       ac_arrays := (ac_arrays s)[ac_active s := activeBatches s @ [length (ac_batchers s)]]\<rparr>"

definition change_batcher :: "nat \<Rightarrow> (batcher \<Rightarrow> batcher) \<Rightarrow> cache_state \<Rightarrow> cache_state" where
  "change_batcher b f s = s\<lparr>ac_batchers := (ac_batchers s)[b := f (ac_batchers s ! b)]\<rparr>"

text \<open>\<open>this.activeBatches = this.activeBatches.filter((q) => q != batcher)\<close>.\<close>

definition drop_batch :: "nat \<Rightarrow> cache_state \<Rightarrow> cache_state" where
  "drop_batch b s = s\<lparr>ac_arrays := ac_arrays s @ [filter (\<lambda>q. q \<noteq> b) (activeBatches s)], ac_active := length (ac_arrays s)\<rparr>"

text \<open>\<open>fetchBatch\<close> up to the request, and what it does with the answer.\<close>

definition fetchBatch :: "cache_state \<Rightarrow> cache_state" where
  "fetchBatch s =
     (case last_batch s of
        None \<Rightarrow> push_batcher s
      | Some b \<Rightarrow> change_batcher b batcher_start (push_batcher s))"

definition grouped :: "pubkey list \<Rightarrow> account_info option list \<Rightarrow> results" where
  "grouped keys array =
     foldl (\<lambda>acc (index, key). case js_nth array index of Some (Some account) \<Rightarrow> acc(key \<mapsto> account) | _ \<Rightarrow> acc)
       Map.empty (enumerate 0 keys)"

definition batch_answer :: "cache_env \<Rightarrow> (pubkey list \<Rightarrow> rpc_answer) \<Rightarrow> pubkey list \<Rightarrow> settled" where
  "batch_answer env rpc keys =
     (case getMultipleAccounts env rpc keys of Inl e \<Rightarrow> An_error e | Inr (ks, array) \<Rightarrow> Accounts (grouped ks array))"

definition fetched :: "cache_env \<Rightarrow> nat \<Rightarrow> (pubkey list \<Rightarrow> rpc_answer) \<Rightarrow> cache_state \<Rightarrow> cache_state" where
  "fetched env b rpc s =
     (if b < length (ac_batchers s) \<and> bt_pending (ac_batchers s ! b)
      then drop_batch b
             (change_batcher b
                (\<lambda>bt. (case batch_answer env rpc (bt_currentBatch bt) of
                         An_error e \<Rightarrow> batcher_reject e bt
                       | Accounts m \<Rightarrow> batcher_resolve (Accounts m) bt)\<lparr>bt_pending := False\<rparr>) s)
      else s)"

definition addToBatch :: "pubkey list \<Rightarrow> cache_state \<Rightarrow> (js_error + nat) \<times> cache_state" where
  "addToBatch ids s =
     (case last_batch s of
        None \<Rightarrow> (Inl TypeError, s)
      | Some b \<Rightarrow> (Inr b, (change_batcher b (batcher_add ids) s)\<lparr>ac_timeout := True\<rparr>))"

definition timer_fires :: "cache_state \<Rightarrow> cache_state" where
  "timer_fires s = (if ac_timeout s then fetchBatch (s\<lparr>ac_timeout := False\<rparr>) else s)"

definition flush :: "cache_state \<Rightarrow> cache_state" where
  "flush s = fetchBatch (s\<lparr>ac_timeout := False\<rparr>)"

text \<open>The next batcher of array \<open>a\<close> from index \<open>i\<close> on that \<open>awaitAllInFlight\<close> awaits.\<close>

definition next_in_flight :: "cache_state \<Rightarrow> nat \<Rightarrow> nat \<Rightarrow> nat option" where
  "next_in_flight s a i =
     find (\<lambda>j. bt_inFlight (ac_batchers s ! (ac_arrays s ! a ! j))) [i..<length (ac_arrays s ! a)]"

text \<open>One turn of the loop of \<open>awaitAllInFlight\<close> after the awaited batcher is settled with \<open>v\<close>.\<close>

definition joined_batch :: "nat \<Rightarrow> nat \<Rightarrow> results \<Rightarrow> settled \<Rightarrow> cache_state \<Rightarrow> results \<times> cache_state" where
  "joined_batch a j results v s = (entries v ++ results, drop_batch (ac_arrays s ! a ! j) s)"

section \<open>Watching\<close>

text \<open>\<open>e.toString().includes("not implemented")\<close>.\<close>

fun not_implemented :: "js_error \<Rightarrow> bool" where
  "not_implemented (Err m) = js_includes m ''not implemented''"
| "not_implemented (Rejected m) = js_includes m ''not implemented''"
| "not_implemented e = False"

text \<open>The subscription of \<open>watch\<close>: on the connection, or on the usable connection made for it.\<close>

definition subscribe :: "cache_env \<Rightarrow> pubkey \<Rightarrow> cache_state \<Rightarrow> (js_error + unit) \<times> cache_state" where
  "subscribe env k s =
     (let s1 = s\<lparr>ac_subs := Suc (ac_subs s)\<rparr>
      in case ce_onAccountChange env (ac_subs s) of
           Inr i \<Rightarrow> (Inr (), s1\<lparr>ac_listeners := (ac_listeners s)(k \<mapsto> i), ac_live := ac_live s @ [(False, i, k)]\<rparr>)
         | Inl e \<Rightarrow>
             if not_implemented e
             then (let s2 = s1\<lparr>ac_usable := True, ac_usable_subs := Suc (ac_usable_subs s)\<rparr>
                   in case ce_usable_onAccountChange env (ac_usable_subs s) of
                        Inr i \<Rightarrow> (Inr (), s2\<lparr>ac_listeners := (ac_listeners s)(k \<mapsto> i), ac_live := ac_live s @ [(True, i, k)]\<rparr>)
                      | Inl e' \<Rightarrow> (Inl e', s2))
             else (Inl e, s1))"

definition watch :: "cache_env \<Rightarrow> pubkey \<Rightarrow> nat option \<Rightarrow> bool \<Rightarrow> cache_state \<Rightarrow> (js_error + unit) \<times> cache_state" where
  "watch env k parser exists s =
     (let isStatic = (k \<in> ac_statics s);
          count = (case ac_watchers s k of None \<Rightarrow> 0 | Some n \<Rightarrow> n) + 1;
          s1 = s\<lparr>ac_watchers := (ac_watchers s)(k \<mapsto> count)\<rparr>
      in if exists \<and> \<not> isStatic
         then (if ac_listeners s1 k = None then subscribe env k s1 else (Inr (), s1))
         else if \<not> exists
         then (Inr (), s1\<lparr>ac_missing := obj_set (ac_missing s1) k
                           (case parser of Some p \<Rightarrow> Some p
                            | None \<Rightarrow> (case map_of (ac_missing s1) k of Some p \<Rightarrow> p | None \<Rightarrow> None))\<rparr>)
         else (Inr (), s1))"

definition removeListener :: "bool \<Rightarrow> nat \<Rightarrow> cache_state \<Rightarrow> cache_state" where
  "removeListener usable i s = s\<lparr>ac_live := filter (\<lambda>(u, j, k). (u, j) \<noteq> (usable, i)) (ac_live s)\<rparr>"

text \<open>
  The disposer \<open>watch\<close> returns. A subscription id is tested for truth, so the id 0 counts as none; the
  count of an address that was never watched is \<open>NaN\<close>, which is not \<open>\<le> 0\<close>, and no disposer exists for it.
\<close>

definition dispose :: "cache_env \<Rightarrow> pubkey \<Rightarrow> cache_state \<Rightarrow> (js_error + unit) \<times> cache_state" where
  "dispose env k s =
     (case ac_watchers s k of
        None \<Rightarrow> (Inr (), s)
      | Some n \<Rightarrow>
          (let newCount = n - 1;
               s1 = s\<lparr>ac_watchers := (ac_watchers s)(k \<mapsto> newCount)\<rparr>
           in if newCount \<le> 0
              then (let (r, s2) =
                          (case ac_listeners s1 k of
                             Some i \<Rightarrow>
                               if i \<noteq> 0
                               then (let s2 = s1\<lparr>ac_listeners := (ac_listeners s1)(k := None)\<rparr>
                                     in case ce_remove env of
                                          None \<Rightarrow> (Inr (), removeListener False i s2)
                                        | Some e \<Rightarrow>
                                            if not_implemented e
                                            then if ac_usable s2 then (Inr (), removeListener True i s2) else (Inl TypeError, s2)
                                            else (Inr (), s2))
                               else (Inr (), s1)
                           | None \<Rightarrow> (Inr (), s1))
                    in case r of
                         Inl e \<Rightarrow> (Inl e, s2)
                       | Inr _ \<Rightarrow> (Inr (), s2\<lparr>ac_missing := obj_delete (ac_missing s2) k\<rparr>))
              else (Inr (), s1)))"

definition onAccountChange :: "cache_env \<Rightarrow> pubkey \<Rightarrow> account_info \<Rightarrow> cache_state \<Rightarrow> cache_state" where
  "onAccountChange env k account s =
     (case getParsed env k account None s of
        (Inl e, s1) \<Rightarrow> s1
      | (Inr parsed, s1) \<Rightarrow> updateCacheAndRaiseUpdated k (Some parsed) s1)"

text \<open>The websocket calls the listeners of the live subscriptions of a key.\<close>

definition notify :: "cache_env \<Rightarrow> pubkey \<Rightarrow> account_info \<Rightarrow> cache_state \<Rightarrow> cache_state" where
  "notify env k account s =
     foldl (\<lambda>s' _. onAccountChange env k account s') s (filter (\<lambda>(u, i, k'). k' = k) (ac_live s))"

definition deleteAccount :: "cache_env \<Rightarrow> pubkey \<Rightarrow> cache_state \<Rightarrow> (js_error + bool) \<times> cache_state" where
  "deleteAccount env k s =
     (let (r, s1) =
            (case ac_listeners s k of
               Some i \<Rightarrow>
                 if i \<noteq> 0
                 then (case ce_remove env of
                         Some e \<Rightarrow> (Inl e, s)
                       | None \<Rightarrow> (Inr (), (removeListener False i s)\<lparr>ac_listeners := (ac_listeners s)(k := None)\<rparr>))
                 else (Inr (), s)
             | None \<Rightarrow> (Inr (), s))
      in case r of
           Inl e \<Rightarrow> (Inl e, s1)
         | Inr _ \<Rightarrow>
             if mac_has (ac_cache s1) k
             then (Inr True, s1\<lparr>ac_cache := mac_delete (ac_cache s1) k, ac_emitted := ac_emitted s1 @ [CacheDelete k]\<rparr>)
             else (Inr False, s1))"

section \<open>search and its callers\<close>

definition in_flight_from :: "cache_state \<Rightarrow> nat \<Rightarrow> nat \<Rightarrow> results \<Rightarrow> pc" where
  "in_flight_from s a i results = (case next_in_flight s a i of None \<Rightarrow> Joined results | Some j \<Rightarrow> Loop a j results)"

text \<open>\<open>search\<close> up to its first \<open>await\<close>.\<close>

definition search_begin ::
  "cache_env \<Rightarrow> pubkey \<Rightarrow> nat option \<Rightarrow> bool \<Rightarrow> bool \<Rightarrow> cache_state \<Rightarrow> pc \<times> cache_state" where
  "search_begin env k parser isStatic forceRequery s =
     (case registerParser env k parser s of
        (Inl e, s1) \<Rightarrow> (Searched (Inl e), s1)
      | (Inr _, s1) \<Rightarrow>
          (let s2 = set_static k isStatic s1
           in case (if forceRequery then addToBatch [k] s2 else (Inr 0, s2)) of
                (Inl e, s3) \<Rightarrow> (Searched (Inl e), s3)
              | (Inr _, s3) \<Rightarrow>
                  if \<not> forceRequery \<and> mac_has (ac_cache s3) k
                  then (Searched (Inr (case mac_get (ac_cache s3) k of Some r \<Rightarrow> r | None \<Rightarrow> None)), s3)
                  else (in_flight_from s3 (ac_active s3) 0 Map.empty, s3)))"

text \<open>\<open>search\<close> once the account's data is there.\<close>

definition search_end :: "cache_env \<Rightarrow> task \<Rightarrow> account_info \<Rightarrow> cache_state \<Rightarrow> pc \<times> cache_state" where
  "search_end env t data s =
     (case getParsed env (tk_key t) data (tk_parser t) s of
        (Inl e, s1) \<Rightarrow> (Searched (Inl e), s1)
      | (Inr result, s1) \<Rightarrow>
          (Searched (Inr (Some result)),
           if tk_static t \<and> pa_info result \<noteq> None then updateCacheAndRaiseUpdated (tk_key t) (Some result) s1 else s1))"

text \<open>\<open>searchAndWatch\<close> after \<open>search\<close>; objects are compared by identity.\<close>

definition same_object :: "parsed option option \<Rightarrow> parsed option \<Rightarrow> bool" where
  "same_object cacheEntry data =
     (case (cacheEntry, data) of
        (Some (Some c), Some d) \<Rightarrow> pa_ref c = pa_ref d
      | (Some (Some c), None) \<Rightarrow> False
      | (_, Some d) \<Rightarrow> False
      | (_, None) \<Rightarrow> True)"

definition watch_result :: "cache_env \<Rightarrow> task \<Rightarrow> parsed option \<Rightarrow> cache_state \<Rightarrow> (js_error + unit) \<times> cache_state" where
  "watch_result env t data s =
     (case watch env (tk_key t) (tk_parser t) (data \<noteq> None) s of
        (Inl e, s1) \<Rightarrow> (Inl e, s1)
      | (Inr _, s1) \<Rightarrow>
          (let cacheEntry = mac_get (ac_cache s1) (tk_key t)
           in if \<not> mac_has (ac_cache s1) (tk_key t) \<or> \<not> same_object cacheEntry data
              then (Inr (), (if tk_force t then updateCacheAndRaiseUpdated else updateCache) (tk_key t) data s1)
              else (Inr (), s1)))"

text \<open>
  Whether a requeried account changed, from the cached value before (absent or null counts as nothing).
\<close>

definition account_changed :: "parsed option option \<Rightarrow> parsed option \<Rightarrow> bool" where
  "account_changed prevAccount found =
     (case (prevAccount, found) of
        (Some (Some p), Some f) \<Rightarrow> ai_data (pa_account f) \<noteq> ai_data (pa_account p)
      | (Some (Some p), None) \<Rightarrow> True
      | (_, Some f) \<Rightarrow> True
      | (_, None) \<Rightarrow> False)"

text \<open>The callers after \<open>search\<close> settled, and after \<open>searchAndWatch\<close> did.\<close>

definition after_search :: "cache_env \<Rightarrow> task \<Rightarrow> js_error + parsed option \<Rightarrow> cache_state \<Rightarrow> pc \<times> cache_state" where
  "after_search env t r s =
     (case tk_after t of
        Plain \<Rightarrow> (Settled r, s)
      | Query \<Rightarrow> (Settled (if r = Inr None then Inl (Err ''Account not found'') else r), s)
      | aft \<Rightarrow>
          (case r of
             Inl e \<Rightarrow> (Settled (Inl e), s)
           | Inr data \<Rightarrow>
               (case watch_result env t data s of
                  (Inl e, s1) \<Rightarrow> (Settled (Inl e), s1)
                | (Inr _, s1) \<Rightarrow> (if aft = Watch then Settled (Inr data) else Watched data, s1))))"

definition after_watch :: "cache_env \<Rightarrow> task \<Rightarrow> parsed option \<Rightarrow> cache_state \<Rightarrow> pc \<times> cache_state" where
  "after_watch env t found s =
     (case dispose env (tk_key t) s of
        (Inl e, s1) \<Rightarrow> (Settled (Inl e), s1)
      | (Inr _, s1) \<Rightarrow>
          (case tk_after t of
             Requery g prevAccount \<Rightarrow>
               (let s2 = (if account_changed prevAccount found then s1
                          else s1\<lparr>ac_unchanged := (ac_unchanged s1)[g := ac_unchanged s1 ! g @ [tk_key t]]\<rparr>);
                    s3 = (if found \<noteq> None then s2\<lparr>ac_missing := obj_delete (ac_missing s2) (tk_key t)\<rparr> else s2)
                in (Settled (Inr found), s3))
           | _ \<Rightarrow> (Settled (Inr found), s1)))"

definition resume_pc :: "cache_env \<Rightarrow> task \<Rightarrow> cache_state \<Rightarrow> pc \<times> cache_state" where
  "resume_pc env t s =
     (case tk_pc t of
        Loop a j results \<Rightarrow>
          (case result_of s (ac_arrays s ! a ! j) of
             None \<Rightarrow> (tk_pc t, s)
           | Some v \<Rightarrow>
               (let (results', s') = joined_batch a j results v s in (in_flight_from s' a (Suc j) results', s')))
      | Joined results \<Rightarrow>
          (case results (tk_key t) of
             Some data \<Rightarrow> search_end env t data s
           | None \<Rightarrow>
               (case addToBatch [tk_key t] s of
                  (Inl e, s') \<Rightarrow> (Searched (Inl e), s')
                | (Inr b, s') \<Rightarrow> (Own b, s')))
      | Own b \<Rightarrow>
          (case result_of s b of
             None \<Rightarrow> (tk_pc t, s)
           | Some v \<Rightarrow>
               (case entries v (tk_key t) of None \<Rightarrow> (Searched (Inr None), s) | Some data \<Rightarrow> search_end env t data s))
      | Searched r \<Rightarrow> after_search env t r s
      | Watched data \<Rightarrow> after_watch env t data s
      | Settled r \<Rightarrow> (tk_pc t, s))"

definition resume :: "cache_env \<Rightarrow> nat \<Rightarrow> cache_state \<Rightarrow> cache_state" where
  "resume env i s =
     (case js_nth (ac_tasks s) i of
        None \<Rightarrow> s
      | Some t \<Rightarrow>
          (let (p, s') = resume_pc env t s in s'\<lparr>ac_tasks := (ac_tasks s')[i := t\<lparr>tk_pc := p\<rparr>]\<rparr>))"

text \<open>The call: a new task, run to its first \<open>await\<close>.\<close>

definition begin_search ::
  "cache_env \<Rightarrow> after \<Rightarrow> pubkey \<Rightarrow> nat option \<Rightarrow> bool \<Rightarrow> bool \<Rightarrow> cache_state \<Rightarrow> cache_state" where
  "begin_search env aft k parser isStatic forceRequery s =
     (let (p, s') = search_begin env k parser isStatic forceRequery s
      in s'\<lparr>ac_tasks := ac_tasks s' @ [\<lparr>tk_key = k, tk_parser = parser, tk_static = isStatic, tk_force = forceRequery,
                                       tk_after = aft, tk_pc = p\<rparr>]\<rparr>)"

definition search :: "cache_env \<Rightarrow> pubkey \<Rightarrow> nat option \<Rightarrow> bool \<Rightarrow> bool \<Rightarrow> cache_state \<Rightarrow> cache_state" where
  "search env = begin_search env Plain"

definition query :: "cache_env \<Rightarrow> pubkey \<Rightarrow> nat option \<Rightarrow> cache_state \<Rightarrow> cache_state" where
  "query env k parser = begin_search env Query k parser False False"

definition searchAndWatch :: "cache_env \<Rightarrow> pubkey \<Rightarrow> nat option \<Rightarrow> bool \<Rightarrow> bool \<Rightarrow> cache_state \<Rightarrow> cache_state" where
  "searchAndWatch env = begin_search env Watch"

definition getWriteableAccounts :: "instruction list \<Rightarrow> pubkey list" where
  "getWriteableAccounts instructions = map am_pubkey (filter am_isWritable (concat (map ix_keys instructions)))"

definition missing_parser :: "cache_state \<Rightarrow> pubkey \<Rightarrow> nat option" where
  "missing_parser s k = (case map_of (ac_missing s) k of Some p \<Rightarrow> p | None \<Rightarrow> None)"

definition requeryMissingByAccount :: "cache_env \<Rightarrow> pubkey list \<Rightarrow> cache_state \<Rightarrow> cache_state" where
  "requeryMissingByAccount env accounts s =
     (let g = length (ac_unchanged s)
      in foldl (\<lambda>s' k. begin_search env (Requery g (mac_get (ac_cache s') k)) k (missing_parser s' k) (k \<in> ac_statics s') True s')
           (s\<lparr>ac_unchanged := ac_unchanged s @ [[]]\<rparr>) accounts)"

definition requeryMissing :: "cache_env \<Rightarrow> instruction list \<Rightarrow> cache_state \<Rightarrow> cache_state" where
  "requeryMissing env instructions = requeryMissingByAccount env (js_set (getWriteableAccounts instructions))"

definition fetchMissing :: "cache_env \<Rightarrow> cache_state \<Rightarrow> cache_state" where
  "fetchMissing env s =
     foldl (\<lambda>s' k. begin_search env Refetch k (missing_parser s' k) (k \<in> ac_statics s') True s') s (map fst (ac_missing s))"

section \<open>searchMultiple\<close>

definition m_in_flight_from :: "cache_state \<Rightarrow> nat \<Rightarrow> nat \<Rightarrow> results \<Rightarrow> mpc" where
  "m_in_flight_from s a i results = (case next_in_flight s a i of None \<Rightarrow> MJoined results | Some j \<Rightarrow> MLoop a j results)"

text \<open>The first pass over the keys: the result so far, the keys to fetch and the map of their indexes.\<close>

definition first_pass_step ::
  "cache_env \<Rightarrow> mtask \<Rightarrow> results \<Rightarrow> nat \<times> pubkey \<Rightarrow> (slot list \<times> pubkey list \<times> (pubkey \<rightharpoonup> nat)) \<Rightarrow> cache_state \<Rightarrow>
     (js_error + (slot list \<times> pubkey list \<times> (pubkey \<rightharpoonup> nat))) \<times> cache_state" where
  "first_pass_step env m inflight = (\<lambda>(index, k) (result, keysToFetch, indexMap) s.
     (case registerParser env k (mk_parser m) s of
        (Inl e, s1) \<Rightarrow> (Inl e, s1)
      | (Inr _, s1) \<Rightarrow>
          (let s2 = set_static k (mk_static m) s1
           in (Inr (if \<not> mk_force m \<and> mac_has (ac_cache s2) k
                    then (result[index := (case mac_get (ac_cache s2) k of Some (Some p) \<Rightarrow> Parsed p | _ \<Rightarrow> Null)], keysToFetch, indexMap)
                    else (case inflight k of
                            Some a \<Rightarrow> (result[index := Raw a], keysToFetch, indexMap)
                          | None \<Rightarrow> (result, keysToFetch @ [k], indexMap(k \<mapsto> index)))), s2))))"

fun first_pass ::
  "cache_env \<Rightarrow> mtask \<Rightarrow> results \<Rightarrow> (nat \<times> pubkey) list \<Rightarrow> (slot list \<times> pubkey list \<times> (pubkey \<rightharpoonup> nat)) \<Rightarrow> cache_state \<Rightarrow>
     (js_error + (slot list \<times> pubkey list \<times> (pubkey \<rightharpoonup> nat))) \<times> cache_state" where
  "first_pass env m inflight [] acc s = (Inr acc, s)"
| "first_pass env m inflight (x # xs) acc s =
     (case first_pass_step env m inflight x acc s of
        (Inl e, s1) \<Rightarrow> (Inl e, s1)
      | (Inr acc', s1) \<Rightarrow> first_pass env m inflight xs acc' s1)"

text \<open>The second pass, over the fetched keys.\<close>

fun second_pass ::
  "cache_env \<Rightarrow> mtask \<Rightarrow> results \<Rightarrow> (pubkey \<rightharpoonup> nat) \<Rightarrow> pubkey list \<Rightarrow> slot list \<Rightarrow> cache_state \<Rightarrow> (js_error + slot list) \<times> cache_state" where
  "second_pass env m accounts indexMap [] result s = (Inr result, s)"
| "second_pass env m accounts indexMap (k # ks) result s =
     (let index = the (indexMap k)
      in case accounts k of
           None \<Rightarrow> second_pass env m accounts indexMap ks (result[index := Undefined]) s
         | Some account \<Rightarrow>
             (case getParsed env k account (mk_parser m) s of
                (Inl e, s1) \<Rightarrow> (Inl e, s1)
              | (Inr parsed, s1) \<Rightarrow>
                  second_pass env m accounts indexMap ks (result[index := Parsed parsed])
                    (if mk_static m \<and> pa_info parsed \<noteq> None then updateCache k (Some parsed) s1 else s1)))"

text \<open>\<open>searchMultipleAndWatch\<close> after \<open>searchMultiple\<close>: a slot that is not an account has no key to read.\<close>

fun watch_slots :: "cache_env \<Rightarrow> mtask \<Rightarrow> slot list \<Rightarrow> cache_state \<Rightarrow> (js_error + unit) \<times> cache_state" where
  "watch_slots env m [] s = (Inr (), s)"
| "watch_slots env m (Raw a # slots) s = (Inl TypeError, s)"
| "watch_slots env m (Parsed p # slots) s =
     (let k = pa_pubkey p;
          s1 = (if \<not> mac_has (ac_cache s) k \<or> \<not> same_object (mac_get (ac_cache s) k) (Some p)
                then updateCache k (Some p) s else s)
      in case watch env k (mk_parser m) True s1 of
           (Inl e, s2) \<Rightarrow> (Inl e, s2)
         | (Inr _, s2) \<Rightarrow> watch_slots env m slots s2)"
| "watch_slots env m (_ # slots) s = watch_slots env m slots s"

definition m_resume_pc :: "cache_env \<Rightarrow> mtask \<Rightarrow> cache_state \<Rightarrow> mpc \<times> cache_state" where
  "m_resume_pc env m s =
     (case mk_pc m of
        MLoop a j results \<Rightarrow>
          (case result_of s (ac_arrays s ! a ! j) of
             None \<Rightarrow> (mk_pc m, s)
           | Some v \<Rightarrow>
               (let (results', s') = joined_batch a j results v s in (m_in_flight_from s' a (Suc j) results', s')))
      | MJoined results \<Rightarrow>
          (case first_pass env m results (enumerate 0 (mk_keys m)) (replicate (length (mk_keys m)) Hole, [], Map.empty) s of
             (Inl e, s1) \<Rightarrow> (MSearched (Inl e), s1)
           | (Inr (result, keysToFetch, indexMap), s1) \<Rightarrow>
               if keysToFetch = [] then (MSearched (Inr result), s1)
               else (case addToBatch keysToFetch s1 of
                       (Inl e, s2) \<Rightarrow> (MSearched (Inl e), s2)
                     | (Inr b, s2) \<Rightarrow> (MOwn b result keysToFetch indexMap, s2)))
      | MOwn b result keysToFetch indexMap \<Rightarrow>
          (case result_of s b of
             None \<Rightarrow> (mk_pc m, s)
           | Some v \<Rightarrow>
               (let (r, s1) = second_pass env m (entries v) indexMap keysToFetch result s in (MSearched r, s1)))
      | MSearched r \<Rightarrow>
          (case r of
             Inl e \<Rightarrow> (MSettled (Inl e), s)
           | Inr slots \<Rightarrow>
               if mk_watch m
               then (case watch_slots env m slots s of
                       (Inl e, s1) \<Rightarrow> (MSettled (Inl e), s1)
                     | (Inr _, s1) \<Rightarrow> (MSettled (Inr slots), s1))
               else (MSettled (Inr slots), s))
      | MSettled r \<Rightarrow> (mk_pc m, s))"

definition m_resume :: "cache_env \<Rightarrow> nat \<Rightarrow> cache_state \<Rightarrow> cache_state" where
  "m_resume env i s =
     (case js_nth (ac_multis s) i of
        None \<Rightarrow> s
      | Some m \<Rightarrow>
          (let (p, s') = m_resume_pc env m s in s'\<lparr>ac_multis := (ac_multis s')[i := m\<lparr>mk_pc := p\<rparr>]\<rparr>))"

definition begin_multiple :: "bool \<Rightarrow> pubkey list \<Rightarrow> nat option \<Rightarrow> bool \<Rightarrow> bool \<Rightarrow> cache_state \<Rightarrow> cache_state" where
  "begin_multiple wat ks parser isStatic forceRequery s =
     s\<lparr>ac_multis := ac_multis s @ [\<lparr>mk_keys = ks, mk_parser = parser, mk_static = isStatic, mk_force = forceRequery,
         mk_watch = wat, mk_pc = m_in_flight_from s (ac_active s) 0 Map.empty\<rparr>]\<rparr>"

definition searchMultiple :: "pubkey list \<Rightarrow> nat option \<Rightarrow> bool \<Rightarrow> bool \<Rightarrow> cache_state \<Rightarrow> cache_state" where
  "searchMultiple = begin_multiple False"

definition searchMultipleAndWatch :: "pubkey list \<Rightarrow> nat option \<Rightarrow> bool \<Rightarrow> bool \<Rightarrow> cache_state \<Rightarrow> cache_state" where
  "searchMultipleAndWatch = begin_multiple True"

section \<open>The event loop\<close>

definition close :: "cache_state \<Rightarrow> cache_state" where
  "close s =
     foldl (\<lambda>s' b. change_batcher b (batcher_reject (Err ''AccountFetchCache closed'')) s') (s\<lparr>ac_interval := False\<rparr>)
       (activeBatches s)"

datatype event =
    Search pubkey "nat option" bool bool
  | Query_for pubkey "nat option"
  | SearchAndWatch pubkey "nat option" bool bool
  | SearchMultiple "pubkey list" "nat option" bool bool
  | SearchMultipleAndWatch "pubkey list" "nat option" bool bool
  | RequeryMissing "instruction list"
  | RequeryByAccount "pubkey list"
  | Interval
  | Timer
  | Flush
  | Fetched nat "pubkey list \<Rightarrow> rpc_answer"
  | Resume nat
  | Resume_multiple nat
  | Notify pubkey account_info
  | Dispose pubkey
  | Delete pubkey
  | Register pubkey nat
  | Close

fun handle :: "cache_env \<Rightarrow> event \<Rightarrow> cache_state \<Rightarrow> cache_state" where
  "handle env (Search k p st f) s = search env k p st f s"
| "handle env (Query_for k p) s = query env k p s"
| "handle env (SearchAndWatch k p st f) s = searchAndWatch env k p st f s"
| "handle env (SearchMultiple ks p st f) s = searchMultiple ks p st f s"
| "handle env (SearchMultipleAndWatch ks p st f) s = searchMultipleAndWatch ks p st f s"
| "handle env (RequeryMissing ixs) s = requeryMissing env ixs s"
| "handle env (RequeryByAccount ks) s = requeryMissingByAccount env ks s"
| "handle env Interval s = (if ac_interval s then fetchMissing env s else s)"
| "handle env Timer s = timer_fires s"
| "handle env Flush s = flush s"
| "handle env (Fetched b rpc) s = fetched env b rpc s"
| "handle env (Resume i) s = resume env i s"
| "handle env (Resume_multiple i) s = m_resume env i s"
| "handle env (Notify k a) s = notify env k a s"
| "handle env (Dispose k) s = snd (dispose env k s)"
| "handle env (Delete k) s = snd (deleteAccount env k s)"
| "handle env (Register k p) s = snd (registerParser env k (Some p) s)"
| "handle env Close s = close s"

definition run_events :: "cache_env \<Rightarrow> event list \<Rightarrow> cache_state \<Rightarrow> cache_state" where
  "run_events env evs s = foldl (\<lambda>s ev. handle env ev s) s evs"

end
