(* ===== verification/Account_Cache_Runs.thy ===== *)
theory Account_Cache_Runs
  imports Account_Cache
begin

text \<open>
  What holds of every run of the account cache: the batches are well formed and no request is lost, so
  that every call settles once calls stop; an empty flush breaks this for good; a failed request cannot be
  told from an answer that nothing exists; whatever is cached or returned was reported by the node for that
  key; and subscriptions follow the watchers.
\<close>

named_theorems same_rules \<open>operations that leave the batches and tasks alone\<close>

section \<open>Runs and their invariants\<close>

lemma run_events_simps [simp]:
  "run_events env [] s = s"
  "run_events env (ev # evs) s = run_events env evs (handle env ev s)"
  "run_events env (evs @ evs') s = run_events env evs' (run_events env evs s)"
  by (simp_all add: run_events_def)

lemma result_of_eq: "result_of s b = (if b < length (ac_batchers s) then bt_result (ac_batchers s ! b) else None)"
  by (simp add: result_of_def js_nth_def)

section \<open>What leaves the batches alone\<close>

definition same_batches :: "cache_state \<Rightarrow> cache_state \<Rightarrow> bool" where
  "same_batches s s' \<longleftrightarrow> ac_batchers s' = ac_batchers s \<and> ac_arrays s' = ac_arrays s \<and> ac_active s' = ac_active s
     \<and> ac_timeout s' = ac_timeout s \<and> ac_interval s' = ac_interval s"

definition same_tasks :: "cache_state \<Rightarrow> cache_state \<Rightarrow> bool" where
  "same_tasks s s' \<longleftrightarrow> ac_tasks s' = ac_tasks s \<and> ac_multis s' = ac_multis s"

definition same :: "cache_state \<Rightarrow> cache_state \<Rightarrow> bool" where
  "same s s' \<longleftrightarrow> same_batches s s' \<and> same_tasks s s'"

lemmas same_defs = same_def same_batches_def same_tasks_def

lemma same_refl [simp, intro]: "same s s"
  by (simp add: same_defs)

lemma same_trans [trans]: "same s s' \<Longrightarrow> same s' s'' \<Longrightarrow> same s s''"
  by (simp add: same_defs)

lemma same_updateCache [simp]:
  "same s (updateCache k d s') \<longleftrightarrow> same s s'"
  "same (updateCache k d s) s' \<longleftrightarrow> same s s'"
  by (simp_all add: same_defs updateCache_def)

lemma same_updateCacheAndRaiseUpdated [simp]:
  "same s (updateCacheAndRaiseUpdated k d s') \<longleftrightarrow> same s s'"
  by (simp add: same_defs updateCacheAndRaiseUpdated_def updateCache_def Let_def)

lemma same_set_static [simp]:
  "same s (set_static k b s') \<longleftrightarrow> same s s'"
  "same (set_static k b s) s' \<longleftrightarrow> same s s'"
  by (simp_all add: same_defs set_static_def)

lemma same_registerParser [same_rules]: "registerParser env k p s = (r, s') \<Longrightarrow> same s s'"
  by (auto simp: registerParser_def same_defs updateCache_def new_parsed_def Let_def
      split: option.splits if_splits sum.splits prod.splits)

lemma same_getParsed [same_rules]: "getParsed env k a p s = (r, s') \<Longrightarrow> same s s'"
  unfolding getParsed_def
  by (auto simp: same_defs new_parsed_def Let_def dest!: same_registerParser split: option.splits if_splits sum.splits prod.splits)

lemma same_watch [same_rules]: "watch env k p e s = (r, s') \<Longrightarrow> same s s'"
  by (auto simp: watch_def subscribe_def same_defs Let_def split: option.splits if_splits sum.splits prod.splits)

lemma same_dispose [same_rules]: "dispose env k s = (r, s') \<Longrightarrow> same s s'"
  by (auto simp: dispose_def removeListener_def same_defs Let_def split: option.splits if_splits sum.splits prod.splits)

lemma same_deleteAccount [same_rules]: "deleteAccount env k s = (r, s') \<Longrightarrow> same s s'"
  by (auto simp: deleteAccount_def removeListener_def same_defs Let_def split: option.splits if_splits sum.splits prod.splits)

lemma same_onAccountChange [same_rules]: "same s (onAccountChange env k a s)"
  unfolding onAccountChange_def
  by (auto split: prod.splits sum.splits dest!: same_getParsed)

lemma same_notify [same_rules]: "same s (notify env k a s)"
proof -
  have "same s (foldl (\<lambda>s' _. onAccountChange env k a s') s xs)" for xs :: "(bool \<times> nat \<times> pubkey) list"
    by (induction xs arbitrary: s) (auto intro: same_trans same_onAccountChange)
  then show ?thesis by (simp add: notify_def)
qed

lemma same_watch_result [same_rules]: "watch_result env t d s = (r, s') \<Longrightarrow> same s s'"
  unfolding watch_result_def
  by (auto simp: Let_def split: prod.splits sum.splits if_splits dest!: same_watch)

lemma same_search_end [same_rules]: "search_end env t d s = (p, s') \<Longrightarrow> same s s'"
  unfolding search_end_def
  by (auto split: prod.splits sum.splits if_splits dest!: same_getParsed)

lemma same_after_search [same_rules]:
  assumes "after_search env t r s = (p, s')"
  shows "same s s'"
proof (cases r)
  case (Inl e)
  with assms show ?thesis by (cases "tk_after t") (auto simp: after_search_def)
next
  case (Inr d)
  obtain y s1 where g: "watch_result env t d s = (y, s1)" by fastforce
  with assms Inr same_watch_result[OF g] show ?thesis by (cases "tk_after t"; cases y) (auto simp: after_search_def)
qed

lemma same_after_watch [same_rules]:
  assumes "after_watch env t d s = (p, s')"
  shows "same s s'"
proof -
  obtain y s1 where g: "dispose env (tk_key t) s = (y, s1)" by fastforce
  with assms same_dispose[OF g] show ?thesis
    by (cases "tk_after t"; cases y) (auto simp: after_watch_def Let_def same_defs split: if_splits)
qed

lemma same_first_pass_step [same_rules]:
  assumes "first_pass_step env m r x acc s = (q, s')"
  shows "same s s'"
proof -
  obtain i k res ks im where x: "x = (i, k)" "acc = (res, ks, im)" by (metis surj_pair)
  obtain y s1 where g: "registerParser env k (mk_parser m) s = (y, s1)" by fastforce
  with assms same_registerParser[OF g] show ?thesis by (cases y) (auto simp: first_pass_step_def x Let_def)
qed

lemma same_first_pass [same_rules]: "first_pass env m r xs acc s = (q, s') \<Longrightarrow> same s s'"
proof (induction xs arbitrary: acc s)
  case (Cons x xs)
  obtain y s1 where g: "first_pass_step env m r x acc s = (y, s1)" by fastforce
  with Cons have "same s1 s'" by (cases y) auto
  with same_first_pass_step[OF g] show ?case by (rule same_trans)
qed simp

lemma same_second_pass [same_rules]: "second_pass env m as im ks res s = (q, s') \<Longrightarrow> same s s'"
proof (induction ks arbitrary: res s)
  case (Cons k ks)
  show ?case
  proof (cases "as k")
    case None
    with Cons show ?thesis by (simp add: Let_def)
  next
    case (Some a)
    obtain r s1 where g: "getParsed env k a (mk_parser m) s = (r, s1)" by fastforce
    note same_getParsed[OF g]
    moreover have "same s1 s'"
    proof (cases r)
      case (Inl e)
      with Cons.prems Some g show ?thesis by (simp add: Let_def)
    next
      case (Inr p)
      from Cons.IH[of "res[the (im k) := Parsed p]" "if mk_static m \<and> pa_info p \<noteq> None then updateCache k (Some p) s1 else s1"]
        Cons.prems Some g Inr show ?thesis by (simp add: Let_def split: if_splits)
    qed
    ultimately show ?thesis by (rule same_trans)
  qed
qed simp

lemma same_watch_slots [same_rules]: "watch_slots env m slots s = (q, s') \<Longrightarrow> same s s'"
proof (induction slots arbitrary: s)
  case (Cons x slots)
  show ?case
  proof (cases x)
    case (Parsed p)
    let ?s = "if \<not> mac_has (ac_cache s) (pa_pubkey p) \<or> \<not> same_object (mac_get (ac_cache s) (pa_pubkey p)) (Some p)
      then updateCache (pa_pubkey p) (Some p) s else s"
    obtain y s1 where g: "watch env (pa_pubkey p) (mk_parser m) True ?s = (y, s1)" by fastforce
    have "same s1 s'" using Cons Parsed g by (cases y) (auto simp: Let_def)
    moreover have "same s s1" using same_watch[OF g] by (simp split: if_splits)
    ultimately show ?thesis by (metis same_trans)
  qed (use Cons in auto)
qed simp

section \<open>The batches\<close>

text \<open>
  The well-formedness of the batches: the last active batcher is the only one that is not in flight, it has
  keys exactly when the timer runs, and one in flight has keys and is either being fetched or settled,
  except for those in \<open>D\<close>, which were flushed with no key.
\<close>

definition batch_ok :: "batcher \<Rightarrow> bool" where
  "batch_ok b \<longleftrightarrow> (bt_inFlight b \<longrightarrow> bt_currentBatch b \<noteq> [] \<and> (bt_pending b \<or> bt_result b \<noteq> None))
     \<and> (bt_pending b \<longrightarrow> bt_inFlight b)"

definition dead_batcher :: batcher where
  "dead_batcher = \<lparr>bt_inFlight = True, bt_currentBatch = [], bt_result = None, bt_pending = False\<rparr>"

definition batches_ok :: "nat set \<Rightarrow> cache_state \<Rightarrow> bool" where
  "batches_ok D s \<longleftrightarrow> ac_active s < length (ac_arrays s) \<and> activeBatches s \<noteq> []
     \<and> (\<forall>a < length (ac_arrays s). \<forall>b \<in> set (ac_arrays s ! a). b < length (ac_batchers s))
     \<and> (\<forall>b \<in> D. b \<in> set (activeBatches s) \<and> ac_batchers s ! b = dead_batcher)
     \<and> (\<forall>b < length (ac_batchers s). ac_interval s \<and> \<not> bt_inFlight (ac_batchers s ! b) \<longrightarrow> bt_result (ac_batchers s ! b) = None)
     \<and> (\<forall>b < length (ac_batchers s). (b \<in> D \<or> batch_ok (ac_batchers s ! b))
          \<and> (bt_inFlight (ac_batchers s ! b) \<longleftrightarrow> b \<noteq> last (activeBatches s)))
     \<and> (bt_currentBatch (ac_batchers s ! last (activeBatches s)) \<noteq> [] \<longleftrightarrow> ac_timeout s)"

text \<open>How the batches may change: batchers and arrays are only added to, and requests are not forgotten.\<close>

definition grows :: "cache_state \<Rightarrow> cache_state \<Rightarrow> bool" where
  "grows s s' \<longleftrightarrow> ac_interval s' = ac_interval s \<and> length (ac_batchers s) \<le> length (ac_batchers s') \<and> length (ac_arrays s) \<le> length (ac_arrays s')
     \<and> (\<forall>b < length (ac_batchers s).
          (bt_inFlight (ac_batchers s ! b) \<longrightarrow> bt_inFlight (ac_batchers s' ! b))
          \<and> (bt_currentBatch (ac_batchers s ! b) \<noteq> [] \<longrightarrow> bt_currentBatch (ac_batchers s' ! b) \<noteq> [])
          \<and> (bt_result (ac_batchers s ! b) \<noteq> None \<longrightarrow> bt_result (ac_batchers s' ! b) = bt_result (ac_batchers s ! b)))
     \<and> (\<forall>a < length (ac_arrays s). \<exists>bs. ac_arrays s' ! a = ac_arrays s ! a @ bs)"

fun pc_ok :: "cache_state \<Rightarrow> pc \<Rightarrow> bool" where
  "pc_ok s (Loop a j r) \<longleftrightarrow> a < length (ac_arrays s) \<and> j < length (ac_arrays s ! a)
     \<and> (let b = ac_arrays s ! a ! j in b < length (ac_batchers s) \<and> bt_inFlight (ac_batchers s ! b))"
| "pc_ok s (Own b) \<longleftrightarrow> b < length (ac_batchers s) \<and> bt_currentBatch (ac_batchers s ! b) \<noteq> []"
| "pc_ok s _ \<longleftrightarrow> True"

text \<open>A call of \<open>searchMultiple\<close> waits for batches as one of \<open>search\<close> does.\<close>

fun pc_of :: "mpc \<Rightarrow> pc" where
  "pc_of (MLoop a j r) = Loop a j r"
| "pc_of (MJoined r) = Joined r"
| "pc_of (MOwn b res ks im) = Own b"
| "pc_of (MSearched r) = Searched (Inr None)"
| "pc_of (MSettled r) = Settled (Inr None)"

definition runs_ok :: "nat set \<Rightarrow> bool \<Rightarrow> cache_state \<Rightarrow> bool" where
  "runs_ok D iv s \<longleftrightarrow> ac_interval s = iv \<and> batches_ok D s \<and> (\<forall>t \<in> set (ac_tasks s). pc_ok s (tk_pc t))
     \<and> (\<forall>m \<in> set (ac_multis s). pc_ok s (pc_of (mk_pc m)))"

lemma grows_refl [simp, intro]: "grows s s"
  by (simp add: grows_def)

lemma grows_trans [trans]: "grows s s' \<Longrightarrow> grows s' s'' \<Longrightarrow> grows s s''"
  unfolding grows_def by (smt (verit, best) append_assoc order.strict_trans2 order.trans)

lemma grows_interval: "grows s s' \<Longrightarrow> ac_interval s' = ac_interval s"
  by (simp add: grows_def)

lemma same_grows: "same s s' \<Longrightarrow> grows s s'"
  by (simp add: same_defs grows_def)

lemma same_batches_ok: "same s s' \<Longrightarrow> batches_ok D s \<Longrightarrow> batches_ok D s'"
  by (simp add: same_defs batches_ok_def activeBatches_def)

lemma pc_ok_grows: "grows s s' \<Longrightarrow> pc_ok s p \<Longrightarrow> pc_ok s' p"
  unfolding grows_def by (cases p) (auto simp: Let_def nth_append dest!: spec)

lemma batches_okD:
  assumes "batches_ok D s"
  shows "last_batch s = Some (last (activeBatches s))"
    and "last (activeBatches s) < length (ac_batchers s)"
    and "\<not> bt_inFlight (ac_batchers s ! last (activeBatches s))"
    and "ac_active s < length (ac_arrays s)" and "last (activeBatches s) \<notin> D"
proof -
  show "last_batch s = Some (last (activeBatches s))"
    using assms by (simp add: batches_ok_def last_batch_def js_nth_def last_conv_nth)
  show l: "last (activeBatches s) < length (ac_batchers s)"
    using assms last_in_set[of "activeBatches s"] unfolding batches_ok_def activeBatches_def by blast
  show f: "\<not> bt_inFlight (ac_batchers s ! last (activeBatches s))" using assms l unfolding batches_ok_def by blast
  show "ac_active s < length (ac_arrays s)" using assms by (simp add: batches_ok_def)
  show "last (activeBatches s) \<notin> D" using assms f by (auto simp: batches_ok_def dead_batcher_def)
qed

lemma addToBatch_ok:
  assumes "batches_ok D s" and "ids \<noteq> []"
  obtains b s' where "addToBatch ids s = (Inr b, s')" and "batches_ok D s'" and "grows s s'" and "same_tasks s s'"
    and "pc_ok s' (Own b)" and "ac_timeout s'" and "ac_arrays s' = ac_arrays s"
    and "\<And>c. bt_pending (ac_batchers s' ! c) = bt_pending (ac_batchers s ! c)" and "length (ac_batchers s') = length (ac_batchers s)"
proof -
  let ?l = "last (activeBatches s)"
  let ?s = "(change_batcher ?l (batcher_add ids) s)\<lparr>ac_timeout := True\<rparr>"
  note l = batches_okD[OF assms(1)]
  have a: "activeBatches ?s = activeBatches s" by (simp add: activeBatches_def change_batcher_def)
  have ne: "js_set (xs @ ids) \<noteq> []" for xs using assms(2) by (metis append_is_Nil_conv set_empty set_js_set)
  define s1 where "s1 = ?s"
  have bs: "ac_batchers s1 ! c = (if c = ?l then batcher_add ids (ac_batchers s ! c) else ac_batchers s ! c)" for c
    using l(2) by (cases "c = ?l") (simp_all add: s1_def change_batcher_def)
  have "length (ac_batchers s1) = length (ac_batchers s)" "ac_arrays s1 = ac_arrays s" "ac_active s1 = ac_active s"
    "activeBatches s1 = activeBatches s" "ac_timeout s1" "ac_interval s1 = ac_interval s"
    by (simp_all add: s1_def change_batcher_def activeBatches_def)
  then have "batches_ok D s1"
    using assms(1) l ne unfolding batches_ok_def by (auto simp: bs batcher_add_def batch_ok_def)
  then have ok: "batches_ok D ?s" by (simp add: s1_def)
  have g: "grows s ?s" using l(2) ne by (auto simp: grows_def change_batcher_def batcher_add_def nth_list_update)
  show thesis
  proof (rule that[OF _ ok g])
    show "addToBatch ids s = (Inr ?l, ?s)" by (simp add: addToBatch_def l(1))
    show "bt_pending (ac_batchers ?s ! c) = bt_pending (ac_batchers s ! c)" for c
      using l(2) by (simp add: change_batcher_def batcher_add_def nth_list_update)
  qed (use l ne in \<open>auto simp: same_tasks_def change_batcher_def batcher_add_def\<close>)
qed

text \<open>A flush kills the last batcher when nothing is queued.\<close>

lemma fetchBatch_ok:
  assumes "batches_ok D s" and "D' = (if ac_timeout s then D else insert (last (activeBatches s)) D)"
    and "ac_interval s \<or> ac_timeout s"
  shows "batches_ok D' (fetchBatch (s\<lparr>ac_timeout := False\<rparr>))" and "grows s (fetchBatch (s\<lparr>ac_timeout := False\<rparr>))"
    and "activeBatches (fetchBatch (s\<lparr>ac_timeout := False\<rparr>)) = activeBatches s @ [length (ac_batchers s)]"
proof -
  let ?l = "last (activeBatches s)" and ?n = "length (ac_batchers s)"
  let ?s = "fetchBatch (s\<lparr>ac_timeout := False\<rparr>)"
  note l = batches_okD[OF assms(1)]
  have act: "ac_active s < length (ac_arrays s)" "activeBatches s \<noteq> []" using assms(1) by (simp_all add: batches_ok_def)
  have s: "?s = (change_batcher ?l batcher_start (push_batcher s))\<lparr>ac_timeout := False\<rparr>"
    using l(1) by (simp add: fetchBatch_def last_batch_def activeBatches_def change_batcher_def push_batcher_def)
  show a: "activeBatches ?s = activeBatches s @ [?n]"
    unfolding s using act by (simp add: activeBatches_def change_batcher_def push_batcher_def)
  have b: "ac_batchers ?s ! c = (if c = ?n then newBatcher else if c = ?l then batcher_start (ac_batchers s ! c) else ac_batchers s ! c)"
    if "c \<le> ?n" for c using that l(2) unfolding s by (auto simp: change_batcher_def push_batcher_def nth_list_update nth_append)
  have len: "length (ac_batchers ?s) = Suc ?n" unfolding s by (simp add: change_batcher_def push_batcher_def)
  have arr: "ac_arrays ?s = (ac_arrays s)[ac_active s := activeBatches s @ [?n]]"
    unfolding s by (simp add: change_batcher_def push_batcher_def)
  have keys: "bt_currentBatch (ac_batchers s ! ?l) \<noteq> [] \<longleftrightarrow> ac_timeout s" using assms(1) by (simp add: batches_ok_def)
  note lD = l(5)
  have lok: "batch_ok (ac_batchers s ! ?l)" using assms(1) l(2) lD by (auto simp: batches_ok_def)
  have dead: "c \<in> set (activeBatches s @ [?n]) \<and> ac_batchers ?s ! c = dead_batcher" if c: "c \<in> D'" for c
  proof (cases "c \<in> D")
    case True
    then have "c \<in> set (activeBatches s)" "ac_batchers s ! c = dead_batcher" using assms(1) by (auto simp: batches_ok_def)
    moreover from this have "c < ?n" using assms(1) act(1) unfolding batches_ok_def activeBatches_def by blast
    ultimately show ?thesis using b[of c] True lD by auto
  next
    case False
    then have "c = ?l" "\<not> ac_timeout s" using c assms(2) by (auto split: if_splits)
    moreover from this have "bt_result (ac_batchers s ! ?l) = None" using assms(1,3) l(2,3) by (auto simp: batches_ok_def)
    ultimately show ?thesis using b[of c] l keys lok last_in_set[OF act(2)]
      by (cases "ac_batchers s ! ?l") (auto simp: batcher_start_def dead_batcher_def batch_ok_def)
  qed
  have "(c \<in> D' \<or> batch_ok (ac_batchers ?s ! c)) \<and> (bt_inFlight (ac_batchers ?s ! c) \<longleftrightarrow> c \<noteq> ?n)" if "c < Suc ?n" for c
  proof -
    consider "c = ?n" | "c = ?l" "c < ?n" | "c < ?n" "c \<noteq> ?l" using \<open>c < Suc ?n\<close> by (auto simp: less_Suc_eq)
    then show ?thesis
    proof cases
      case 2
      then show ?thesis using b[of c] keys lok assms(2) by (auto simp: batcher_start_def batch_ok_def)
    next
      case 3
      then have "(c \<in> D \<or> batch_ok (ac_batchers s ! c)) \<and> bt_inFlight (ac_batchers s ! c)" using assms(1) by (simp add: batches_ok_def)
      then show ?thesis using 3 b[of c] assms(2) by auto
    qed (use b[of c] in \<open>simp add: newBatcher_def batch_ok_def\<close>)
  qed
  moreover have "bt_result (ac_batchers ?s ! c) = None" if "c < Suc ?n" "ac_interval ?s" "\<not> bt_inFlight (ac_batchers ?s ! c)" for c
  proof -
    have "c = ?n" using that(1,3) b[of c] assms(1) by (auto simp: batches_ok_def batcher_start_def less_Suc_eq split: if_splits)
    then show ?thesis using b[of ?n] by (simp add: newBatcher_def)
  qed
  moreover have "\<forall>x < length (ac_arrays ?s). \<forall>c \<in> set (ac_arrays ?s ! x). c < Suc ?n"
    using assms(1) act unfolding arr batches_ok_def activeBatches_def by (auto simp: nth_list_update less_Suc_eq)
  moreover have "bt_currentBatch (ac_batchers ?s ! ?n) = []" using b[of ?n] by (simp add: newBatcher_def)
  moreover have "\<not> ac_timeout ?s" "ac_active ?s < length (ac_arrays ?s)" using act unfolding s
    by (simp_all add: change_batcher_def push_batcher_def)
  ultimately show "batches_ok D' ?s" using dead unfolding batches_ok_def a len by simp
  have "ac_interval ?s = ac_interval s" unfolding s by (simp add: change_batcher_def push_batcher_def)
  then show "grows s ?s" unfolding grows_def len arr using b act
    by (auto simp: batcher_start_def nth_list_update activeBatches_def)
qed

lemma drop_batch_ok:
  assumes "batches_ok D s" and "b < length (ac_batchers s)" and "bt_inFlight (ac_batchers s ! b)" and "b \<notin> D"
  shows "batches_ok D (drop_batch b s)" and "grows s (drop_batch b s)"
proof -
  let ?l = "last (activeBatches s)"
  have b: "b \<noteq> ?l" using batches_okD[OF assms(1)] assms(3) by auto
  have ne: "activeBatches s \<noteq> []" using assms(1) by (simp add: batches_ok_def)
  have a: "activeBatches (drop_batch b s) = filter (\<lambda>q. q \<noteq> b) (activeBatches s)"
    by (simp add: activeBatches_def drop_batch_def)
  have "filter (\<lambda>q. q \<noteq> b) (activeBatches s) \<noteq> [] \<and> last (filter (\<lambda>q. q \<noteq> b) (activeBatches s)) = ?l"
    using ne b by (induction "activeBatches s" rule: rev_induct) (auto simp: filter_empty_conv dest!: sym[of _ "activeBatches s"])
  with assms(1,4) show "batches_ok D (drop_batch b s)"
    unfolding batches_ok_def a by (auto simp: drop_batch_def nth_append activeBatches_def less_Suc_eq)
  show "grows s (drop_batch b s)" by (auto simp: grows_def drop_batch_def nth_append)
qed

lemma same_tasks_drop_batch [simp]: "same_tasks s (drop_batch b s)"
  by (simp add: same_tasks_def drop_batch_def)

lemma settle_ok:
  assumes "batches_ok D s" and "b < length (ac_batchers s)" and "b \<notin> D" and "bt_inFlight (ac_batchers s ! b) \<or> \<not> ac_interval s"
  shows "batches_ok D (change_batcher b (\<lambda>bt. (batcher_resolve v bt)\<lparr>bt_pending := False\<rparr>) s)"
    and "grows s (change_batcher b (\<lambda>bt. (batcher_resolve v bt)\<lparr>bt_pending := False\<rparr>) s)"
    and "batches_ok D (change_batcher b (batcher_resolve v) s)"
    and "grows s (change_batcher b (batcher_resolve v) s)"
proof -
  have a: "activeBatches (change_batcher b f s) = activeBatches s" for f
    by (simp add: activeBatches_def change_batcher_def)
  show "batches_ok D (change_batcher b (\<lambda>bt. (batcher_resolve v bt)\<lparr>bt_pending := False\<rparr>) s)"
    "batches_ok D (change_batcher b (batcher_resolve v) s)"
    using assms batches_okD[OF assms(1)] unfolding batches_ok_def a
    by (auto simp: change_batcher_def batcher_resolve_def nth_list_update batch_ok_def)
  show "grows s (change_batcher b (\<lambda>bt. (batcher_resolve v bt)\<lparr>bt_pending := False\<rparr>) s)"
    "grows s (change_batcher b (batcher_resolve v) s)"
    using assms(2) by (auto simp: grows_def change_batcher_def batcher_resolve_def nth_list_update)
qed

lemma fetched_eq:
  "fetched env b rpc s =
     (if b < length (ac_batchers s) \<and> bt_pending (ac_batchers s ! b)
      then drop_batch b (change_batcher b (\<lambda>bt. (batcher_resolve (batch_answer env rpc (bt_currentBatch (ac_batchers s ! b))) bt)\<lparr>bt_pending := False\<rparr>) s)
      else s)"
  by (auto simp: fetched_def change_batcher_def batcher_reject_def split: settled.splits)

lemma fetched_ok:
  assumes "batches_ok D s"
  shows "batches_ok D (fetched env b rpc s)" and "grows s (fetched env b rpc s)" and "same_tasks s (fetched env b rpc s)"
proof -
  have "batches_ok D (fetched env b rpc s) \<and> grows s (fetched env b rpc s)"
  proof (cases "b < length (ac_batchers s) \<and> bt_pending (ac_batchers s ! b)")
    case True
    let ?v = "batch_answer env rpc (bt_currentBatch (ac_batchers s ! b))"
    let ?s = "change_batcher b (\<lambda>bt. (batcher_resolve ?v bt)\<lparr>bt_pending := False\<rparr>) s"
    have nD: "b \<notin> D" using assms True by (auto simp: batches_ok_def dead_batcher_def)
    then have fl: "bt_inFlight (ac_batchers s ! b)" using assms True unfolding batches_ok_def batch_ok_def by blast
    then have "b < length (ac_batchers ?s)" "bt_inFlight (ac_batchers ?s ! b)"
      using True by (auto simp: change_batcher_def batcher_resolve_def)
    note drop_batch_ok[OF settle_ok(1)[OF assms conjunct1[OF True] nD disjI1[OF fl]] this nD]
    with True settle_ok(2)[OF assms conjunct1[OF True] nD disjI1[OF fl]] show ?thesis by (auto simp: fetched_eq intro: grows_trans)
  next
    case False
    with assms show ?thesis by (auto simp: fetched_eq)
  qed
  then show "batches_ok D (fetched env b rpc s)" "grows s (fetched env b rpc s)" by simp_all
  show "same_tasks s (fetched env b rpc s)" by (simp add: fetched_eq same_tasks_def drop_batch_def change_batcher_def)
qed

lemma close_ok:
  assumes "batches_ok {} s"
  shows "batches_ok {} (close s) \<and> grows (s\<lparr>ac_interval := False\<rparr>) (close s) \<and> same_tasks s (close s)"
proof -
  let ?f = "\<lambda>s' b. change_batcher b (batcher_reject (Err ''AccountFetchCache closed'')) s'"
  have "batches_ok {} s1 \<Longrightarrow> \<not> ac_interval s1 \<Longrightarrow> \<forall>b \<in> set bs. b < length (ac_batchers s1) \<Longrightarrow>
      batches_ok {} (foldl ?f s1 bs) \<and> grows s1 (foldl ?f s1 bs) \<and> same_tasks s1 (foldl ?f s1 bs)" for s1 bs
  proof (induction bs arbitrary: s1)
    case (Cons b bs)
    let ?v = "An_error (Err ''AccountFetchCache closed'')"
    have f: "?f s1 b = change_batcher b (batcher_resolve ?v) s1"
      by (simp add: change_batcher_def batcher_reject_def)
    have b: "b < length (ac_batchers s1)" using Cons.prems(3) by simp
    note ok = settle_ok(3,4)[OF Cons.prems(1) b _ disjI2[OF Cons.prems(2)], of ?v, simplified]
    have "batches_ok {} (foldl ?f (?f s1 b) bs) \<and> grows (?f s1 b) (foldl ?f (?f s1 b) bs) \<and> same_tasks (?f s1 b) (foldl ?f (?f s1 b) bs)"
      using Cons.prems ok(1) by (intro Cons.IH) (auto simp: change_batcher_def batcher_reject_def)
    moreover have "grows s1 (?f s1 b)" "same_tasks s1 (?f s1 b)"
      using ok(2) by (simp_all add: change_batcher_def same_tasks_def batcher_reject_def)
    ultimately show ?case by (auto intro: grows_trans simp: same_tasks_def)
  qed (simp add: same_tasks_def)
  from this[of "s\<lparr>ac_interval := False\<rparr>" "activeBatches s"] assms show ?thesis
    by (auto simp: close_def batches_ok_def activeBatches_def same_tasks_def)
qed

section \<open>Every step keeps the batches\<close>

lemma next_in_flight_Some:
  assumes "next_in_flight s a i = Some j"
  shows "i \<le> j" and "j < length (ac_arrays s ! a)" and "bt_inFlight (ac_batchers s ! (ac_arrays s ! a ! j))"
  using assms by (auto simp: next_in_flight_def find_Some_iff nth_upt)

lemma next_in_flight_ok:
  assumes "batches_ok D s" and "a < length (ac_arrays s)"
  shows "pc_ok s (in_flight_from s a i r)" and "pc_ok s (pc_of (m_in_flight_from s a i r))"
  using assms next_in_flight_Some[of s a i]
  by (auto simp: in_flight_from_def m_in_flight_from_def batches_ok_def Let_def split: option.splits)

definition step_ok :: "nat set \<Rightarrow> cache_state \<Rightarrow> pc \<Rightarrow> cache_state \<Rightarrow> bool" where
  "step_ok D s p s' \<longleftrightarrow> batches_ok D s' \<and> grows s s' \<and> pc_ok s' p \<and> same_tasks s s'"

lemma same_step_ok: "same s s' \<Longrightarrow> batches_ok D s \<Longrightarrow> pc_ok s' p \<Longrightarrow> step_ok D s p s'"
  by (auto simp: step_ok_def same_batches_ok same_grows same_def)

lemma step_ok_same: "same s s1 \<Longrightarrow> step_ok D s1 p s' \<Longrightarrow> step_ok D s p s'"
  by (auto simp: step_ok_def same_def same_tasks_def intro: grows_trans same_grows[unfolded same_def same_tasks_def])

lemma search_end_pc: "search_end env t d s = (p, s') \<Longrightarrow> \<exists>r. p = Searched r"
  by (auto simp: search_end_def split: prod.splits sum.splits)

lemma after_search_pc: "after_search env t r s = (p, s') \<Longrightarrow> (\<exists>r. p = Settled r) \<or> (\<exists>d. p = Watched d)"
  by (cases r; cases "tk_after t"; auto simp: after_search_def split: prod.splits sum.splits)

lemma after_watch_pc: "after_watch env t d s = (p, s') \<Longrightarrow> \<exists>r. p = Settled r"
  by (auto simp: after_watch_def Let_def split: prod.splits sum.splits after.splits)

lemma search_begin_ok:
  assumes "batches_ok D s" and "search_begin env k parser st force s = (p, s')"
  shows "step_ok D s p s'"
proof -
  obtain y s1 where g: "registerParser env k parser s = (y, s1)" by fastforce
  note s1 = same_registerParser[OF g]
  show ?thesis
  proof (cases y)
    case (Inl e)
    with assms g s1 show ?thesis by (auto simp: search_begin_def intro: same_step_ok)
  next
    case (Inr u)
    let ?s2 = "set_static k st s1"
    have s2: "same s ?s2" using s1 by simp
    then have ok2: "batches_ok D ?s2" using assms(1) by (rule same_batches_ok)
    have inf: "step_ok D ?s2 (in_flight_from s3 (ac_active s3) 0 Map.empty) s3"
      if "batches_ok D s3" "grows ?s2 s3" "same_tasks ?s2 s3" for s3
      using that next_in_flight_ok(1)[OF that(1) batches_okD(4)[OF that(1)]] by (simp add: step_ok_def)
    show ?thesis
    proof (cases force)
      case True
      obtain b s3 where a: "addToBatch [k] ?s2 = (Inr b, s3)" "batches_ok D s3" "grows ?s2 s3" "same_tasks ?s2 s3"
        using addToBatch_ok[OF ok2, of "[k]"] by (metis list.distinct(1))
      from inf[OF a(2-4)] assms(2) g Inr True a(1) step_ok_same[OF s2] show ?thesis
        by (auto simp: search_begin_def Let_def)
    next
      case False
      with inf[OF ok2] assms(2) g Inr step_ok_same[OF s2] same_step_ok[OF s2 assms(1)] show ?thesis
        by (auto simp: search_begin_def Let_def same_tasks_def split: if_splits)
    qed
  qed
qed

lemma joined_batch_ok:
  assumes "batches_ok D s" and "pc_ok s (Loop a j r)" and "result_of s (ac_arrays s ! a ! j) \<noteq> None"
  shows "batches_ok D (drop_batch (ac_arrays s ! a ! j) s)" and "grows s (drop_batch (ac_arrays s ! a ! j) s)"
    and "a < length (ac_arrays (drop_batch b s))"
proof -
  have "ac_arrays s ! a ! j \<notin> D" using assms(1,3) by (auto simp: batches_ok_def dead_batcher_def result_of_eq split: if_splits)
  then show "batches_ok D (drop_batch (ac_arrays s ! a ! j) s)" "grows s (drop_batch (ac_arrays s ! a ! j) s)"
    using drop_batch_ok[OF assms(1), of "ac_arrays s ! a ! j"] assms(2) by (auto simp: Let_def)
  show "a < length (ac_arrays (drop_batch b s))" using assms(2) by (simp add: drop_batch_def)
qed

lemma resume_pc_ok:
  assumes "batches_ok D s" and "pc_ok s (tk_pc t)" and "resume_pc env t s = (p, s')"
  shows "step_ok D s p s'"
proof (cases "tk_pc t")
  case (Loop a j r)
  show ?thesis
  proof (cases "result_of s (ac_arrays s ! a ! j)")
    case None
    with assms(3) Loop have "p = tk_pc t" "s' = s" by (auto simp: resume_pc_def)
    with assms(1,2) show ?thesis by (auto intro: same_step_ok)
  next
    case (Some v)
    note d = joined_batch_ok[OF assms(1) assms(2)[unfolded Loop] option.discI[OF Some]]
    with assms Loop Some next_in_flight_ok(1)[OF d(1,3)] show ?thesis
      by (auto simp: resume_pc_def joined_batch_def step_ok_def)
  qed
next
  case (Joined r)
  show ?thesis
  proof (cases "r (tk_key t)")
    case None
    obtain b s3 where a: "addToBatch [tk_key t] s = (Inr b, s3)" "batches_ok D s3" "grows s s3" "same_tasks s s3" "pc_ok s3 (Own b)"
      using addToBatch_ok[OF assms(1), of "[tk_key t]"] by (metis list.distinct(1))
    with assms(3) Joined None show ?thesis by (auto simp: resume_pc_def step_ok_def)
  next
    case (Some d)
    with assms Joined show ?thesis
      by (auto simp: resume_pc_def dest: search_end_pc intro!: same_step_ok[OF same_search_end])
  qed
next
  case (Own b)
  show ?thesis
  proof (cases "result_of s b")
    case None
    with assms(3) Own have "p = tk_pc t" "s' = s" by (auto simp: resume_pc_def)
    with assms(1,2) show ?thesis by (auto intro: same_step_ok)
  next
    case (Some v)
    with assms Own show ?thesis
      by (auto simp: resume_pc_def dest: search_end_pc same_search_end intro!: same_step_ok split: option.splits)
  qed
next
  case (Searched r)
  with assms same_after_search[of env t r s p s'] after_search_pc[of env t r s p s'] show ?thesis
    by (auto simp: resume_pc_def intro: same_step_ok)
next
  case (Watched d)
  with assms same_after_watch[of env t d s p s'] after_watch_pc[of env t d s p s'] show ?thesis
    by (auto simp: resume_pc_def intro: same_step_ok)
next
  case (Settled r)
  with assms(3) have "p = tk_pc t" "s' = s" by (auto simp: resume_pc_def)
  with assms(1,2) show ?thesis by (auto intro: same_step_ok)
qed

lemma m_resume_pc_ok:
  assumes "batches_ok D s" and "pc_ok s (pc_of (mk_pc m))" and "m_resume_pc env m s = (p, s')"
  shows "step_ok D s (pc_of p) s'"
proof (cases "mk_pc m")
  case (MLoop a j r)
  show ?thesis
  proof (cases "result_of s (ac_arrays s ! a ! j)")
    case None
    with assms(3) MLoop have "p = mk_pc m" "s' = s" by (auto simp: m_resume_pc_def)
    with assms(1,2) show ?thesis by (auto intro: same_step_ok)
  next
    case (Some v)
    have "pc_ok s (Loop a j r)" using assms(2) MLoop by simp
    note d = joined_batch_ok[OF assms(1) this option.discI[OF Some]]
    with assms MLoop Some next_in_flight_ok(2)[OF d(1,3)] show ?thesis
      by (auto simp: m_resume_pc_def joined_batch_def step_ok_def)
  qed
next
  case (MJoined r)
  let ?z = "(replicate (length (mk_keys m)) Hole, [], Map.empty)"
  obtain y s1 where f: "first_pass env m r (enumerate 0 (mk_keys m)) ?z s = (y, s1)" by fastforce
  note s1 = same_first_pass[OF f]
  show ?thesis
  proof (cases y)
    case (Inl e)
    with assms MJoined f s1 show ?thesis by (auto simp: m_resume_pc_def intro: same_step_ok)
  next
    case (Inr acc)
    obtain res ks im where acc: "acc = (res, ks, im)" by (metis surj_pair)
    show ?thesis
    proof (cases "ks = []")
      case True
      with assms MJoined f s1 Inr acc show ?thesis by (auto simp: m_resume_pc_def intro: same_step_ok)
    next
      case False
      obtain b s3 where a: "addToBatch ks s1 = (Inr b, s3)" "batches_ok D s3" "grows s1 s3" "same_tasks s1 s3" "pc_ok s3 (Own b)"
        using addToBatch_ok[OF same_batches_ok[OF s1 assms(1)] False] by metis
      then have "p = MOwn b res ks im" "s' = s3" using assms(3) MJoined f Inr acc False by (auto simp: m_resume_pc_def)
      with a show ?thesis by (intro step_ok_same[OF s1]) (simp add: step_ok_def)
    qed
  qed
next
  case (MOwn b res ks im)
  show ?thesis
  proof (cases "result_of s b")
    case None
    with assms(3) MOwn have "p = mk_pc m" "s' = s" by (auto simp: m_resume_pc_def)
    with assms(1,2) show ?thesis by (auto intro: same_step_ok)
  next
    case (Some v)
    obtain y s1 where f: "second_pass env m (entries v) im ks res s = (y, s1)" by fastforce
    with assms MOwn Some same_second_pass[OF f] show ?thesis by (auto simp: m_resume_pc_def intro: same_step_ok)
  qed
next
  case (MSearched r)
  show ?thesis
  proof (cases r)
    case (Inl e)
    with assms MSearched show ?thesis by (auto simp: m_resume_pc_def intro: same_step_ok)
  next
    case (Inr slots)
    obtain y s1 where f: "watch_slots env m slots s = (y, s1)" by fastforce
    with assms MSearched Inr same_watch_slots[OF f] show ?thesis
      by (cases y) (auto simp: m_resume_pc_def intro: same_step_ok split: if_splits)
  qed
next
  case (MSettled r)
  with assms(3) have "p = mk_pc m" "s' = s" by (auto simp: m_resume_pc_def)
  with assms(1,2) show ?thesis by (auto intro: same_step_ok)
qed

text \<open>What a step does to the state it leaves the other calls in.\<close>

lemma runs_ok_grows: "runs_ok D iv s \<Longrightarrow> batches_ok D s' \<Longrightarrow> grows s s' \<Longrightarrow> same_tasks s s' \<Longrightarrow> runs_ok D iv s'"
  by (auto simp: runs_ok_def same_tasks_def grows_interval intro: pc_ok_grows)

lemma runs_ok_same: "runs_ok D iv s \<Longrightarrow> same s s' \<Longrightarrow> runs_ok D iv s'"
  by (rule runs_ok_grows) (auto simp: runs_ok_def same_grows same_def intro: same_batches_ok[unfolded same_def])

lemma same_upd_tasks [simp]:
  "batches_ok D (s\<lparr>ac_tasks := ts\<rparr>) = batches_ok D s" "pc_ok (s\<lparr>ac_tasks := ts\<rparr>) p = pc_ok s p"
  "batches_ok D (s\<lparr>ac_multis := ms\<rparr>) = batches_ok D s" "pc_ok (s\<lparr>ac_multis := ms\<rparr>) p = pc_ok s p"
  "batches_ok D (s\<lparr>ac_unchanged := us\<rparr>) = batches_ok D s" "pc_ok (s\<lparr>ac_interval := x\<rparr>) p = pc_ok s p" "pc_ok (s\<lparr>ac_unchanged := us\<rparr>) p = pc_ok s p"
  by (cases p; simp add: batches_ok_def activeBatches_def)+

lemma runs_ok_task:
  assumes "runs_ok D iv s" and "step_ok D s (tk_pc t) s'" and "ts = (ac_tasks s)[i := t] \<or> ts = ac_tasks s @ [t]"
  shows "runs_ok D iv (s'\<lparr>ac_tasks := ts\<rparr>)"
  using assms runs_ok_grows[OF assms(1), of s'] set_update_subset_insert[of "ac_tasks s" i t]
  by (auto simp: runs_ok_def step_ok_def same_tasks_def)

lemma runs_ok_multi:
  assumes "runs_ok D iv s" and "step_ok D s (pc_of (mk_pc m)) s'" and "ms = (ac_multis s)[i := m] \<or> ms = ac_multis s @ [m]"
  shows "runs_ok D iv (s'\<lparr>ac_multis := ms\<rparr>)"
  using assms runs_ok_grows[OF assms(1), of s'] set_update_subset_insert[of "ac_multis s" i m]
  by (auto simp: runs_ok_def step_ok_def same_tasks_def)

lemma begin_search_ok:
  assumes "runs_ok D iv s"
  shows "runs_ok D iv (begin_search env aft k parser st force s)"
proof -
  obtain p s' where b: "search_begin env k parser st force s = (p, s')" by fastforce
  have ok: "step_ok D s p s'" using search_begin_ok[OF _ b] assms by (simp add: runs_ok_def)
  then have "ac_tasks s' = ac_tasks s" by (simp add: step_ok_def same_tasks_def)
  with ok b show ?thesis by (auto simp: begin_search_def intro!: runs_ok_task[OF assms])
qed

lemma foldl_keeps: "P s \<Longrightarrow> (\<And>s x. P s \<Longrightarrow> P (f s x)) \<Longrightarrow> P (foldl f s xs)"
  by (induction xs arbitrary: s) auto

lemma resume_ok:
  assumes "runs_ok D iv s"
  shows "runs_ok D iv (resume env i s)" and "runs_ok D iv (m_resume env i s)"
proof -
  have ok: "batches_ok D s" using assms by (simp add: runs_ok_def)
  show "runs_ok D iv (resume env i s)"
  proof (cases "js_nth (ac_tasks s) i")
    case None
    with assms show ?thesis by (simp add: resume_def)
  next
    case (Some t)
    obtain p s' where r: "resume_pc env t s = (p, s')" by fastforce
    have "t \<in> set (ac_tasks s)" using Some by (auto simp: js_nth_Some_iff)
    then have st: "step_ok D s p s'" using resume_pc_ok[OF ok _ r] assms by (simp add: runs_ok_def)
    then have "ac_tasks s' = ac_tasks s" by (simp add: step_ok_def same_tasks_def)
    with Some r st show ?thesis by (auto simp: resume_def intro!: runs_ok_task[OF assms])
  qed
  show "runs_ok D iv (m_resume env i s)"
  proof (cases "js_nth (ac_multis s) i")
    case None
    with assms show ?thesis by (simp add: m_resume_def)
  next
    case (Some m)
    obtain p s' where r: "m_resume_pc env m s = (p, s')" by fastforce
    have "m \<in> set (ac_multis s)" using Some by (auto simp: js_nth_Some_iff)
    then have st: "step_ok D s (pc_of p) s'" using m_resume_pc_ok[OF ok _ r] assms by (simp add: runs_ok_def)
    then have "ac_multis s' = ac_multis s" by (simp add: step_ok_def same_tasks_def)
    with Some r st show ?thesis by (auto simp: m_resume_def intro!: runs_ok_multi[OF assms])
  qed
qed

text \<open>The only event that can break the batches is a flush with nothing queued.\<close>

definition no_empty_flush :: "cache_state \<Rightarrow> event \<Rightarrow> bool" where
  "no_empty_flush s ev \<longleftrightarrow> (ev = Flush \<longrightarrow> ac_timeout s)"

definition flushed :: "cache_state \<Rightarrow> event \<Rightarrow> nat set \<Rightarrow> nat set" where
  "flushed s ev D = (if no_empty_flush s ev then D else insert (last (activeBatches s)) D)"

lemma fetchBatch_runs_ok:
  assumes "runs_ok D iv s" and "iv \<or> ac_timeout s"
  shows "runs_ok (flushed s Flush D) iv (fetchBatch (s\<lparr>ac_timeout := False\<rparr>))"
proof -
  let ?s = "fetchBatch (s\<lparr>ac_timeout := False\<rparr>)"
  have s: "batches_ok D s" "ac_interval s \<or> ac_timeout s" using assms by (auto simp: runs_ok_def)
  note ok = fetchBatch_ok[OF s(1) _ s(2), of "flushed s Flush D"]
  have "same_tasks s ?s"
    by (simp add: same_tasks_def fetchBatch_def change_batcher_def push_batcher_def split: option.splits)
  with ok(1,2) assms(1) grows_interval[of s ?s] show ?thesis
    by (auto simp: runs_ok_def flushed_def no_empty_flush_def same_tasks_def intro: pc_ok_grows[of s ?s])
qed

lemma handle_runs_ok:
  assumes "runs_ok D iv s" and "iv \<or> no_empty_flush s ev" and "ev = Close \<longrightarrow> D = {}"
  shows "runs_ok (flushed s ev D) (iv \<and> ev \<noteq> Close) (handle env ev s)"
proof -
  have ok: "batches_ok D s" using assms by (simp add: runs_ok_def)
  have begins: "runs_ok D iv (foldl (\<lambda>s' k. begin_search env (aft s' k) k (pr s' k) (st s' k) True s') s1 ks)" if "runs_ok D iv s1" for aft pr st s1 ks
    using that by (rule foldl_keeps) (rule begin_search_ok)
  have un: "runs_ok D iv (s\<lparr>ac_unchanged := us\<rparr>)" for us using assms(1) by (simp add: runs_ok_def)
  have multi: "runs_ok D iv (begin_multiple w ks p st f s)" for w ks p st f
    unfolding begin_multiple_def
    by (rule runs_ok_multi[OF assms(1) _ disjI2[OF refl]])
      (use ok next_in_flight_ok(2)[OF ok batches_okD(4)[OF ok]] in \<open>simp add: step_ok_def same_tasks_def\<close>)
  have fl: "flushed s ev D = D" if "ev \<noteq> Flush" using that by (simp add: flushed_def no_empty_flush_def)
  show ?thesis
  proof (cases ev)
    case (Fetched b rpc)
    with fl assms(1) fetched_ok[OF ok] show ?thesis by (simp add: runs_ok_grows[OF assms(1)])
  next
    case Close
    then have "batches_ok {} s" "D = {}" using assms(3) ok by simp_all
    moreover have "runs_ok {} False (s\<lparr>ac_interval := False\<rparr>)"
      using \<open>batches_ok {} s\<close> assms(1) by (auto simp: runs_ok_def batches_ok_def activeBatches_def)
    ultimately show ?thesis using close_ok[of s] runs_ok_grows[of "{}" False "s\<lparr>ac_interval := False\<rparr>" "close s"] Close
      by (simp add: flushed_def no_empty_flush_def same_tasks_def)
  next
    case Flush
    with fetchBatch_runs_ok[OF assms(1)] assms(2) show ?thesis by (auto simp: flush_def no_empty_flush_def)
  next
    case Timer
    with fl fetchBatch_runs_ok[OF assms(1)] assms(1) show ?thesis by (auto simp: timer_fires_def flushed_def no_empty_flush_def)
  qed (use assms fl multi begins[OF un] begins[OF assms(1)] begin_search_ok[OF assms(1)] resume_ok[OF assms(1)]
      runs_ok_same[OF assms(1)] same_notify same_dispose[OF prod.collapse[symmetric]]
      same_deleteAccount[OF prod.collapse[symmetric]] same_registerParser[OF prod.collapse[symmetric]] in
      \<open>auto simp: search_def query_def searchAndWatch_def searchMultiple_def searchMultipleAndWatch_def requeryMissing_def
        requeryMissingByAccount_def fetchMissing_def Let_def\<close>)
qed

definition well_run :: "cache_state \<Rightarrow> bool" where
  "well_run s \<longleftrightarrow> (\<exists>i. runs_ok {} i s)"

lemma handle_well_run: "well_run s \<Longrightarrow> no_empty_flush s ev \<Longrightarrow> well_run (handle env ev s)"
  unfolding well_run_def using handle_runs_ok[of "{}" _ s ev env] by (auto simp: flushed_def)

lemma accountFetchCache_runs_ok: "runs_ok {} True accountFetchCache"
  by (simp add: accountFetchCache_def runs_ok_def batches_ok_def activeBatches_def batch_ok_def newBatcher_def)

interpretation runs: event_system "handle env" no_empty_flush well_run for env
  by unfold_locales (rule handle_well_run)

section \<open>Every call settles\<close>

text \<open>
  The events the cache brings about by itself: the timer when it runs, an answer to a request that is under
  way, and the resumption of a call whose awaited promise is settled.
\<close>

fun ready :: "cache_state \<Rightarrow> pc \<Rightarrow> bool" where
  "ready s (Loop a j r) \<longleftrightarrow> result_of s (ac_arrays s ! a ! j) \<noteq> None"
| "ready s (Own b) \<longleftrightarrow> result_of s b \<noteq> None"
| "ready s (Settled r) \<longleftrightarrow> False"
| "ready s _ \<longleftrightarrow> True"

fun internal :: "cache_state \<Rightarrow> event \<Rightarrow> bool" where
  "internal s Timer \<longleftrightarrow> ac_timeout s"
| "internal s (Fetched b rpc) \<longleftrightarrow> b < length (ac_batchers s) \<and> bt_pending (ac_batchers s ! b)"
| "internal s (Resume i) \<longleftrightarrow> i < length (ac_tasks s) \<and> ready s (tk_pc (ac_tasks s ! i))"
| "internal s (Resume_multiple i) \<longleftrightarrow> i < length (ac_multis s) \<and> ready s (pc_of (mk_pc (ac_multis s ! i)))"
| "internal s _ \<longleftrightarrow> False"

fun is_settled :: "pc \<Rightarrow> bool" where
  "is_settled (Settled r) = True"
| "is_settled _ = False"

definition pcs :: "cache_state \<Rightarrow> pc list" where
  "pcs s = map tk_pc (ac_tasks s) @ map (\<lambda>m. pc_of (mk_pc m)) (ac_multis s)"

definition all_settled :: "cache_state \<Rightarrow> bool" where
  "all_settled s \<longleftrightarrow> (\<forall>p \<in> set (pcs s). is_settled p)"

lemma waits_progress:
  assumes "batches_ok {} s" and "pc_ok s p" and "\<not> is_settled p" and "\<not> ready s p"
  shows "\<exists>ev. internal s ev"
proof -
  have b: "\<exists>ev. internal s ev" if "b < length (ac_batchers s)" "bt_currentBatch (ac_batchers s ! b) \<noteq> []" "result_of s b = None" for b
  proof (cases "bt_inFlight (ac_batchers s ! b)")
    case True
    then have "bt_pending (ac_batchers s ! b)" using assms(1) that by (auto simp: batches_ok_def batch_ok_def result_of_eq)
    then have "internal s (Fetched b (\<lambda>_. Rpc_no_value))" using that by simp
    then show ?thesis by blast
  next
    case False
    then have "b = last (activeBatches s)" using assms(1) that by (auto simp: batches_ok_def)
    then have "internal s Timer" using assms(1) that by (auto simp: batches_ok_def)
    then show ?thesis by blast
  qed
  show ?thesis
  proof (cases p)
    case (Loop a j r)
    then show ?thesis using assms by (intro b[of "ac_arrays s ! a ! j"]) (auto simp: Let_def batches_ok_def batch_ok_def)
  qed (use assms b in auto)
qed

lemma progress:
  assumes "well_run s" and "\<not> all_settled s"
  shows "\<exists>ev. internal s ev"
proof -
  from assms(2) obtain i where i: "i < length (pcs s)" "\<not> is_settled (pcs s ! i)"
    by (auto simp: all_settled_def in_set_conv_nth)
  have ok: "pc_ok s (pcs s ! i)" using assms(1) nth_mem[OF i(1)] by (auto simp: well_run_def runs_ok_def pcs_def)
  show ?thesis
  proof (cases "ready s (pcs s ! i)")
    case True
    then have "internal s (Resume i) \<or> internal s (Resume_multiple (i - length (ac_tasks s)))"
      using i(1) by (auto simp: pcs_def nth_append split: if_splits)
    then show ?thesis by blast
  next
    case False
    with waits_progress[OF _ ok i(2)] assms(1) show ?thesis by (simp add: well_run_def runs_ok_def)
  qed
qed

text \<open>
  The work that is left: what each call still has to do, the requests under way, and the timers that can
  still be set, each of which makes every iteration over the active batchers one longer.
\<close>

fun adds :: "pc \<Rightarrow> nat" where
  "adds (Loop a j r) = 1"
| "adds (Joined r) = 1"
| "adds _ = 0"

fun rank :: "cache_state \<Rightarrow> pc \<Rightarrow> nat" where
  "rank s (Loop a j r) = length (ac_arrays s ! a) - j + 4"
| "rank s (Joined r) = 4"
| "rank s (Own b) = 3"
| "rank s (Searched r) = 2"
| "rank s (Watched d) = 1"
| "rank s (Settled r) = 0"

definition under_way :: "cache_state \<Rightarrow> nat" where
  "under_way s = sum_list (map (\<lambda>b. of_bool (bt_pending b)) (ac_batchers s))"

definition timers :: "cache_state \<Rightarrow> nat" where
  "timers s = sum_list (map adds (pcs s)) + of_bool (ac_timeout s)"

definition work :: "cache_state \<Rightarrow> nat" where
  "work s = (length (pcs s) + 2) * timers s + under_way s + sum_list (map (rank s) (pcs s))"

definition works :: "cache_state \<Rightarrow> pc \<Rightarrow> pc \<Rightarrow> cache_state \<Rightarrow> bool" where
  "works s p p' s' \<longleftrightarrow> (\<forall>a < length (ac_arrays s). ac_arrays s' ! a = ac_arrays s ! a) \<and> under_way s' = under_way s
     \<and> adds p' + of_bool (ac_timeout s') \<le> adds p + (of_bool (ac_timeout s) :: nat) \<and> rank s' p' < rank s p"

lemma same_works: "same s s' \<Longrightarrow> adds p' \<le> adds p \<Longrightarrow> rank s' p' < rank s p \<Longrightarrow> works s p p' s'"
  by (simp add: works_def same_defs under_way_def)

lemma works_same: "same s s1 \<Longrightarrow> works s1 p p' s' \<Longrightarrow> works s p p' s'"
  by (cases p) (auto simp: works_def same_defs under_way_def)

lemma under_way_change:
  assumes "b < length (ac_batchers s)" and "bt_pending (f (ac_batchers s ! b)) = bt_pending (ac_batchers s ! b)"
  shows "under_way (change_batcher b f s) = under_way s"
proof -
  have "map (\<lambda>b. of_bool (bt_pending b) :: nat) ((ac_batchers s)[b := f (ac_batchers s ! b)]) = map (\<lambda>b. of_bool (bt_pending b)) (ac_batchers s)"
    using assms by (simp add: map_update list_update_same_conv)
  then show ?thesis by (simp add: under_way_def change_batcher_def)
qed

lemma under_way_upd [simp]:
  "under_way (s\<lparr>ac_timeout := x\<rparr>) = under_way s" "under_way (drop_batch b s) = under_way s"
  "under_way (s\<lparr>ac_tasks := ts\<rparr>) = under_way s" "under_way (s\<lparr>ac_multis := ms\<rparr>) = under_way s"
  by (simp_all add: under_way_def drop_batch_def)

lemma addToBatch_works:
  assumes "batches_ok {} s" and "addToBatch ids s = (r, s')" and "adds p = 1" and "3 < rank s p"
  shows "works s p (Own b) s'"
  using assms batches_okD(1,2)[OF assms(1)]
  by (auto simp: works_def addToBatch_def under_way_change batcher_add_def) (simp add: change_batcher_def)

lemma loop_works:
  assumes "pc_ok s (Loop a j r)" and "s' = drop_batch b s"
  shows "works s (Loop a j r) (in_flight_from s' a (Suc j) r') s'"
    and "works s (Loop a j r) (pc_of (m_in_flight_from s' a (Suc j) r')) s'"
  using assms next_in_flight_Some[of s' a "Suc j"]
  by (auto simp: works_def in_flight_from_def m_in_flight_from_def drop_batch_def nth_append Let_def under_way_def split: option.splits)

lemma resume_pc_works:
  assumes "batches_ok {} s" and "pc_ok s (tk_pc t)" and "ready s (tk_pc t)" and "resume_pc env t s = (p, s')"
  shows "works s (tk_pc t) p s'"
proof (cases "tk_pc t")
  case (Loop a j r)
  with assms loop_works(1)[of s a j r s'] show ?thesis
    by (auto simp: resume_pc_def joined_batch_def split: option.splits)
next
  case (Joined r)
  show ?thesis
  proof (cases "r (tk_key t)")
    case None
    obtain q s1 where a: "addToBatch [tk_key t] s = (q, s1)" by fastforce
    moreover from a have "\<exists>b. q = Inr b" using batches_okD(1)[OF assms(1)] by (auto simp: addToBatch_def)
    ultimately show ?thesis using addToBatch_works[OF assms(1) a, of "Joined r"] assms(4) None Joined
      by (auto simp: resume_pc_def)
  next
    case (Some d)
    with assms(4) Joined search_end_pc[of env t d s p s'] same_search_end[of env t d s p s'] show ?thesis
      by (auto simp: resume_pc_def intro!: same_works)
  qed
next
  case (Own b)
  with assms show ?thesis
    by (auto simp: resume_pc_def dest: search_end_pc same_search_end intro!: same_works split: option.splits)
next
  case (Searched r)
  with assms same_after_search[of env t r s p s'] after_search_pc[of env t r s p s'] show ?thesis
    by (auto simp: resume_pc_def intro!: same_works)
next
  case (Watched d)
  with assms same_after_watch[of env t d s p s'] after_watch_pc[of env t d s p s'] show ?thesis
    by (auto simp: resume_pc_def intro!: same_works)
qed (use assms in simp)

lemma m_resume_pc_works:
  assumes "batches_ok {} s" and "pc_ok s (pc_of (mk_pc m))" and "ready s (pc_of (mk_pc m))" and "m_resume_pc env m s = (p, s')"
  shows "works s (pc_of (mk_pc m)) (pc_of p) s'"
proof (cases "mk_pc m")
  case (MLoop a j r)
  with assms loop_works(2)[of s a j r s'] show ?thesis
    by (auto simp: m_resume_pc_def joined_batch_def split: option.splits)
next
  case (MJoined r)
  let ?z = "(replicate (length (mk_keys m)) Hole, [], Map.empty)"
  obtain y s1 where f: "first_pass env m r (enumerate 0 (mk_keys m)) ?z s = (y, s1)" by fastforce
  note s1 = same_first_pass[OF f]
  show ?thesis
  proof (cases "\<exists>res ks im. y = Inr (res, ks, im) \<and> ks \<noteq> []")
    case True
    then obtain res ks im where y: "y = Inr (res, ks, im)" "ks \<noteq> []" by blast
    obtain q s2 where a: "addToBatch ks s1 = (q, s2)" by fastforce
    have ok1: "batches_ok {} s1" using same_batches_ok[OF s1] assms(1) by blast
    from a have "\<exists>b. q = Inr b" using batches_okD(1)[OF ok1] by (auto simp: addToBatch_def)
    with a y f assms(4) MJoined obtain b where "p = MOwn b res ks im" "s' = s2" by (auto simp: m_resume_pc_def)
    with works_same[OF s1 addToBatch_works[OF ok1 a, of "Joined r"]] MJoined show ?thesis by simp
  next
    case False
    with f assms(4) MJoined obtain q where "p = MSearched q" "s' = s1"
      by (cases y) (auto simp: m_resume_pc_def split: prod.splits)
    with MJoined s1 show ?thesis by (auto intro!: same_works)
  qed
next
  case (MOwn b res ks im)
  then show ?thesis using assms same_second_pass[of env m _ im ks res s _ s']
    by (auto simp: m_resume_pc_def intro!: same_works split: option.splits prod.splits)
next
  case (MSearched r)
  then show ?thesis using assms same_watch_slots[of env m _ s _ s']
    by (cases r) (auto simp: m_resume_pc_def intro!: same_works split: if_splits sum.splits prod.splits)
qed (use assms in simp)

lemma rank_same: "pc_ok s p \<Longrightarrow> \<forall>a < length (ac_arrays s). ac_arrays s' ! a = ac_arrays s ! a \<Longrightarrow> rank s' p = rank s p"
  by (cases p) auto

text \<open>A call that goes on leaves less work.\<close>

lemma work_decreases:
  assumes "\<forall>q \<in> set (pcs s). pc_ok s q" and "i < length (pcs s)" and "works s (pcs s ! i) p s'"
    and "pcs s'' = (pcs s)[i := p]" and "same_batches s' s''"
  shows "work s'' < work s"
proof -
  let ?n = "length (pcs s)"
  have arr: "\<forall>a < length (ac_arrays s). ac_arrays s'' ! a = ac_arrays s ! a" and u: "under_way s'' = under_way s"
    and t: "ac_timeout s'' = ac_timeout s'"
    using assms(3,5) by (auto simp: works_def same_batches_def under_way_def)
  have r: "rank s'' p = rank s' p" using assms(5) by (cases p) (auto simp: same_batches_def)
  have ranks: "map (rank s'') (pcs s) = map (rank s) (pcs s)" using assms(1) arr by (auto intro: rank_same)
  have le: "adds (pcs s ! i) \<le> sum_list (map adds (pcs s))" "rank s (pcs s ! i) \<le> sum_list (map (rank s) (pcs s))"
    using assms(2) by (auto intro!: member_le_sum_list)
  have "sum_list (map adds (pcs s'')) = sum_list (map adds (pcs s)) + adds p - adds (pcs s ! i)"
    using assms(2) by (simp add: assms(4) map_update sum_list_update)
  moreover have "adds p + of_bool (ac_timeout s') \<le> adds (pcs s ! i) + (of_bool (ac_timeout s) :: nat)"
    using assms(3) by (simp add: works_def)
  ultimately have "timers s'' \<le> timers s" unfolding timers_def t using le(1) by linarith
  moreover have "sum_list (map (rank s'') (pcs s'')) = sum_list (map (rank s) (pcs s)) + rank s' p - rank s (pcs s ! i)"
    using assms(2) by (simp add: assms(4) map_update sum_list_update ranks r)
  moreover have "rank s' p < rank s (pcs s ! i)" using assms(3) by (simp add: works_def)
  ultimately have "sum_list (map (rank s'') (pcs s'')) < sum_list (map (rank s) (pcs s))" using le(2) by linarith
  with \<open>timers s'' \<le> timers s\<close> show ?thesis using u by (simp add: work_def assms(4) add_le_less_mono)
qed

lemma resume_work:
  assumes "well_run s" and "internal s ev" and "ev = Resume i \<or> ev = Resume_multiple i"
  shows "work (handle env ev s) < work s"
proof -
  have ok: "batches_ok {} s" "\<forall>q \<in> set (pcs s). pc_ok s q" using assms(1) by (auto simp: well_run_def runs_ok_def pcs_def)
  from assms(3) show ?thesis
  proof
    assume ev: "ev = Resume i"
    with assms(2) have i: "i < length (ac_tasks s)" "ready s (tk_pc (ac_tasks s ! i))" by simp_all
    obtain p s' where r: "resume_pc env (ac_tasks s ! i) s = (p, s')" by fastforce
    have pi: "pcs s ! i = tk_pc (ac_tasks s ! i)" "i < length (pcs s)" using i by (simp_all add: pcs_def nth_append)
    have pok: "pc_ok s (tk_pc (ac_tasks s ! i))" using ok(2) nth_mem[OF pi(2)] pi(1) by simp
    have "same_tasks s s'" using resume_pc_ok[OF ok(1) pok r] by (simp add: step_ok_def)
    then have "pcs (handle env ev s) = (pcs s)[i := p]" "same_batches s' (handle env ev s)"
      using i r by (simp_all add: ev resume_def js_nth_def pcs_def same_tasks_def same_batches_def map_update list_update_append)
    then show ?thesis using work_decreases[OF ok(2) pi(2), of p s'] resume_pc_works[OF ok(1) pok i(2) r] pi(1) by simp
  next
    assume ev: "ev = Resume_multiple i"
    let ?j = "length (ac_tasks s) + i"
    from ev assms(2) have i: "i < length (ac_multis s)" "ready s (pc_of (mk_pc (ac_multis s ! i)))" by simp_all
    obtain p s' where r: "m_resume_pc env (ac_multis s ! i) s = (p, s')" by fastforce
    have pi: "pcs s ! ?j = pc_of (mk_pc (ac_multis s ! i))" "?j < length (pcs s)" using i by (simp_all add: pcs_def nth_append)
    have pok: "pc_ok s (pc_of (mk_pc (ac_multis s ! i)))" using ok(2) nth_mem[OF pi(2)] pi(1) by simp
    have "same_tasks s s'" using m_resume_pc_ok[OF ok(1) pok r] by (simp add: step_ok_def)
    then have "pcs (handle env ev s) = (pcs s)[?j := pc_of p]" "same_batches s' (handle env ev s)"
      using i r by (simp_all add: ev m_resume_def js_nth_def pcs_def same_tasks_def same_batches_def map_update list_update_append)
    then show ?thesis using work_decreases[OF ok(2) pi(2), of "pc_of p" s'] m_resume_pc_works[OF ok(1) pok i(2) r] pi(1) by simp
  qed
qed

lemma fetched_work:
  assumes "well_run s" and "b < length (ac_batchers s)" and "bt_pending (ac_batchers s ! b)"
  shows "work (fetched env b rpc s) < work s"
proof -
  let ?s = "fetched env b rpc s" and ?v = "batch_answer env rpc (bt_currentBatch (ac_batchers s ! b))"
  let ?f = "\<lambda>bt. (batcher_resolve ?v bt)\<lparr>bt_pending := False\<rparr>"
  have ok: "batches_ok {} s" "\<forall>q \<in> set (pcs s). pc_ok s q" using assms(1) by (auto simp: well_run_def runs_ok_def pcs_def)
  have p: "pcs ?s = pcs s" using fetched_ok(3)[OF ok(1)] by (simp add: pcs_def same_tasks_def)
  have arr: "\<forall>a < length (ac_arrays s). ac_arrays ?s ! a = ac_arrays s ! a" and t: "ac_timeout ?s = ac_timeout s"
    by (auto simp: fetched_eq drop_batch_def change_batcher_def nth_append)
  have ranks: "map (rank ?s) (pcs s) = map (rank s) (pcs s)" using ok(2) arr by (auto intro: rank_same)
  have "of_bool (bt_pending (ac_batchers s ! b)) \<le> under_way s"
    unfolding under_way_def using assms(2) by (intro member_le_sum_list) auto
  then have "Suc 0 \<le> under_way s" using assms(3) by simp
  moreover have "under_way ?s = under_way s + 0 - 1"
    using assms(2,3) by (simp add: fetched_eq under_way_def drop_batch_def change_batcher_def map_update sum_list_update)
  ultimately have "under_way ?s < under_way s" by simp
  moreover have "timers ?s = timers s" using t by (simp add: timers_def p)
  ultimately show ?thesis unfolding work_def p ranks by simp
qed

lemma sum_list_le_plus: "(\<And>x. x \<in> set xs \<Longrightarrow> f x \<le> g x + (1 :: nat)) \<Longrightarrow> sum_list (map f xs) \<le> sum_list (map g xs) + length xs"
  by (induction xs) (fastforce simp: add.assoc)+

lemma timer_work:
  assumes "well_run s" and "ac_timeout s"
  shows "work (fetchBatch (s\<lparr>ac_timeout := False\<rparr>)) < work s"
proof -
  let ?s = "fetchBatch (s\<lparr>ac_timeout := False\<rparr>)" and ?l = "last (activeBatches s)"
  have ok: "batches_ok {} s" "\<forall>q \<in> set (pcs s). pc_ok s q" using assms(1) by (auto simp: well_run_def runs_ok_def pcs_def)
  note l = batches_okD[OF ok(1)]
  have s: "?s = (change_batcher ?l batcher_start (push_batcher s))\<lparr>ac_timeout := False\<rparr>"
    using l(1) by (simp add: fetchBatch_def last_batch_def activeBatches_def change_batcher_def push_batcher_def)
  have p: "pcs ?s = pcs s" and t: "\<not> ac_timeout ?s" unfolding s by (simp_all add: pcs_def change_batcher_def push_batcher_def)
  have a: "length (ac_arrays ?s ! x) \<le> length (ac_arrays s ! x) + 1" if "x < length (ac_arrays s)" for x
    using that unfolding s by (cases "x = ac_active s") (simp_all add: change_batcher_def push_batcher_def activeBatches_def)
  have "rank ?s q \<le> rank s q + 1" if "q \<in> set (pcs s)" for q
  proof (cases q)
    case (Loop x j r)
    with ok(2) that a[of x] show ?thesis by (auto simp: Let_def dest!: bspec)
  qed simp_all
  then have "sum_list (map (rank ?s) (pcs s)) \<le> sum_list (map (rank s) (pcs s)) + length (pcs s)"
    by (rule sum_list_le_plus)
  moreover have "under_way ?s \<le> under_way s + 1"
    using l(2) unfolding s
    by (simp add: under_way_def change_batcher_def push_batcher_def list_update_append map_update sum_list_update newBatcher_def)
      (simp add: le_diff_conv)
  moreover have "timers s = timers ?s + 1" using assms(2) t by (simp add: timers_def p)
  ultimately show ?thesis by (simp add: work_def p)
qed

lemma internal_work: "well_run s \<Longrightarrow> internal s ev \<Longrightarrow> work (handle env ev s) < work s"
  using timer_work[of s] fetched_work[of s] resume_work[of s ev] by (cases ev) (auto simp: timer_fires_def)

lemma internal_no_flush: "internal s ev \<Longrightarrow> no_empty_flush s ev"
  by (cases ev) (auto simp: no_empty_flush_def)

lemma internal_runs:
  assumes "well_run s" and "allowed (handle env) internal evs s"
  shows "well_run (run_events env evs s)" and "length evs + work (run_events env evs s) \<le> work s"
  using assms
proof (induction evs arbitrary: s)
  case (Cons ev evs)
  {
    case 1
    then show ?case using Cons.IH(1) handle_well_run internal_no_flush by auto
  next
    case 2
    then have "length evs + work (run_events env evs (handle env ev s)) \<le> work (handle env ev s)"
      using Cons.IH(2) handle_well_run internal_no_flush by auto
    with 2 internal_work[of s ev env] show ?case by simp
  }
qed simp_all

text \<open>
  C33. Every call settles: after any events without an empty flush, the cache's own events (timer,
  answers, resumptions) can only go on for a bounded number of steps, whatever the node answers and in
  whatever order they come, and where they stop every call of \<open>search\<close>, \<open>searchMultiple\<close> and their
  callers has settled. No request is lost and no call waits for a batch that is never sent.
\<close>

theorem searches_settle:
  assumes "allowed (handle env) no_empty_flush evs accountFetchCache"
    and "allowed (handle env) internal evs' (run_events env evs accountFetchCache)"
  shows "length evs' \<le> work (run_events env evs accountFetchCache)
    \<and> ((\<forall>ev. \<not> internal (run_events env (evs @ evs') accountFetchCache) ev) \<longrightarrow>
         all_settled (run_events env (evs @ evs') accountFetchCache))"
proof -
  have "well_run (run_events env evs accountFetchCache)"
    unfolding run_events_def using runs.inv_run[OF _ assms(1)] accountFetchCache_runs_ok by (auto simp: well_run_def)
  note r = internal_runs[OF this assms(2)]
  from r(2) have "length evs' \<le> work (run_events env evs accountFetchCache)" by simp
  with progress[OF r(1)] show ?thesis by auto
qed

text \<open>An environment for the witnesses: one parser, subscriptions with the given ids.\<close>

definition demo_cache_env :: "(nat \<Rightarrow> nat) \<Rightarrow> cache_env" where
  "demo_cache_env ids =
     \<lparr>ce_parse = (\<lambda>p k a. Inr (Some (k, a, Some ''info''))), ce_newKey = Inr, ce_base64 = (\<lambda>t. map (\<lambda>c. of_nat (of_char c)) t),
      ce_onAccountChange = (\<lambda>n. Inr (ids n)), ce_remove = None, ce_usable_onAccountChange = (\<lambda>n. Inr 0)\<rparr>"

definition demo_events :: "event list" where
  "demo_events = [SearchAndWatch ''k'' None False False, Search ''j'' None False False]"

definition demo_internal :: "event list" where
  "demo_internal =
     [Resume 0, Resume 1, Timer, Fetched 0 (\<lambda>ks. Rpc_value (replicate (length ks) None)), Resume 0, Resume 1, Resume 0, Resume 1]"

lemmas cache_run_simps = accountFetchCache_def newBatcher_def search_def searchAndWatch_def begin_search_def search_begin_def
  registerParser_def set_static_def in_flight_from_def next_in_flight_def timer_fires_def fetchBatch_def last_batch_def
  activeBatches_def js_nth_def push_batcher_def change_batcher_def batcher_start_def batcher_add_def fetched_eq batcher_resolve_def
  batch_answer_def getMultipleAccounts_def getMultipleAccountsCore_def process_account_def grouped_def enumerate_eq_zip
  drop_batch_def resume_def resume_pc_def addToBatch_def result_of_eq after_search_def watch_result_def watch_def
  updateCache_def mac_get_def mac_has_def mac_set_def MAX_CHUNK_SIZE_def joined_batch_def

theorem searches_settle_witness:
  "all_settled (run_events (demo_cache_env Suc) (demo_events @ demo_internal) accountFetchCache)
    \<and> length demo_internal \<le> work (run_events (demo_cache_env Suc) demo_events accountFetchCache)"
proof -
  have "allowed (handle (demo_cache_env Suc)) no_empty_flush demo_events accountFetchCache"
    by (simp add: demo_events_def no_empty_flush_def)
  moreover have "allowed (handle (demo_cache_env Suc)) internal demo_internal (run_events (demo_cache_env Suc) demo_events accountFetchCache)"
    by (simp add: demo_events_def demo_internal_def demo_cache_env_def cache_run_simps)
  moreover have "\<not> internal (run_events (demo_cache_env Suc) (demo_events @ demo_internal) accountFetchCache) ev" for ev
    by (cases ev) (auto simp: demo_events_def demo_internal_def demo_cache_env_def cache_run_simps nth_Cons split: nat.splits)
  ultimately show ?thesis using searches_settle[of "demo_cache_env Suc" demo_events demo_internal] by blast
qed

section \<open>An empty flush\<close>

text \<open>
  A call is blocked by the dead batcher \<open>b\<close> when it iterates over an array that holds it at or after the
  batcher it awaits.
\<close>

definition blocked :: "nat \<Rightarrow> cache_state \<Rightarrow> pc \<Rightarrow> bool" where
  "blocked b s p \<longleftrightarrow> (\<exists>a j r k. p = Loop a j r \<and> a < length (ac_arrays s) \<and> j \<le> k \<and> k < length (ac_arrays s ! a) \<and> ac_arrays s ! a ! k = b)"

lemma blocked_grows: "grows s s' \<Longrightarrow> blocked b s p \<Longrightarrow> blocked b s' p"
  unfolding blocked_def grows_def by (fastforce simp: nth_append)

lemma blocked_from:
  assumes "batches_ok D s" and "b \<in> D" and "a < length (ac_arrays s)" and "i \<le> k" and "k < length (ac_arrays s ! a)" and "ac_arrays s ! a ! k = b"
  shows "blocked b s (in_flight_from s a i r)"
proof -
  have "bt_inFlight (ac_batchers s ! (ac_arrays s ! a ! k))" using assms(1,2,6) by (auto simp: batches_ok_def dead_batcher_def)
  from find_upt_le[of "\<lambda>j. bt_inFlight (ac_batchers s ! (ac_arrays s ! a ! j))", OF this assms(4,5)]
  obtain j where "next_in_flight s a i = Some j" "j \<le> k" unfolding next_in_flight_def by blast
  then show ?thesis using assms(3,5,6) by (auto simp: blocked_def in_flight_from_def)
qed

text \<open>What an event other than the resumption of a call does to that call.\<close>

definition extends :: "cache_state \<Rightarrow> cache_state \<Rightarrow> bool" where
  "extends s s' \<longleftrightarrow> grows s s' \<and> (\<exists>ts. ac_tasks s' = ac_tasks s @ ts)"

lemma extends_same: "same s s' \<Longrightarrow> extends s s'"
  by (simp add: extends_def same_grows) (simp add: same_defs)

lemma extends_refl [simp, intro]: "extends s s"
  by (simp add: extends_def)

lemma extends_trans: "extends s s' \<Longrightarrow> extends s' s'' \<Longrightarrow> extends s s''"
  unfolding extends_def by (auto intro: grows_trans)

lemma extends_step: "step_ok D s p s' \<Longrightarrow> extends s (s'\<lparr>ac_tasks := ac_tasks s' @ ts\<rparr>)" "step_ok D s p s' \<Longrightarrow> extends s (s'\<lparr>ac_multis := ms\<rparr>)"
  by (auto simp: extends_def step_ok_def same_tasks_def grows_def)

lemma begin_search_extends:
  assumes "runs_ok D iv s"
  shows "extends s (begin_search env aft k parser st force s)"
proof -
  obtain p s' where b: "search_begin env k parser st force s = (p, s')" by fastforce
  have "step_ok D s p s'" using search_begin_ok[OF _ b] assms by (simp add: runs_ok_def)
  with b show ?thesis by (auto simp: begin_search_def intro!: extends_step)
qed

lemma begins_extends:
  assumes "runs_ok D iv s"
  shows "extends s (foldl (\<lambda>s' k. begin_search env (aft s' k) k (pr s' k) (st s' k) True s') s ks)"
proof -
  have "runs_ok D iv (foldl (\<lambda>s' k. begin_search env (aft s' k) k (pr s' k) (st s' k) True s') s ks)
    \<and> extends s (foldl (\<lambda>s' k. begin_search env (aft s' k) k (pr s' k) (st s' k) True s') s ks)"
    using assms by (intro foldl_keeps[where P = "\<lambda>s'. runs_ok D iv s' \<and> extends s s'"])
      (auto intro: begin_search_ok extends_trans begin_search_extends)
  then show ?thesis by blast
qed

lemma m_resume_extends:
  assumes "runs_ok D iv s"
  shows "extends s (m_resume env i s)"
proof (cases "js_nth (ac_multis s) i")
  case None
  then show ?thesis by (simp add: m_resume_def)
next
  case (Some m)
  obtain p s' where r: "m_resume_pc env m s = (p, s')" by fastforce
  have "m \<in> set (ac_multis s)" using Some by (auto simp: js_nth_Some_iff)
  then have "step_ok D s (pc_of p) s'" using m_resume_pc_ok[OF _ _ r] assms by (simp add: runs_ok_def)
  with Some r show ?thesis by (auto simp: m_resume_def intro!: extends_step)
qed

lemma handle_extends:
  assumes "runs_ok D True s" and "ev \<noteq> Close" and "\<And>i. ev \<noteq> Resume i"
  shows "extends s (handle env ev s)"
proof -
  have ok: "batches_ok D s" "ac_interval s" using assms(1) by (simp_all add: runs_ok_def)
  have un: "runs_ok D True (s\<lparr>ac_unchanged := us\<rparr>)" "extends s (s\<lparr>ac_unchanged := us\<rparr>)" for us
    using assms(1) by (auto simp: runs_ok_def extends_def grows_def)
  have fetch: "extends s (fetchBatch (s\<lparr>ac_timeout := False\<rparr>))"
    using fetchBatch_ok(2)[OF ok(1) refl disjI1[OF ok(2)]]
    by (simp add: extends_def) (simp add: fetchBatch_def change_batcher_def push_batcher_def split: option.splits)
  show ?thesis
  proof (cases ev)
    case (Fetched b rpc)
    then show ?thesis using fetched_ok[OF ok(1), of env b rpc] by (simp add: extends_def same_tasks_def)
  qed (use assms fetch begins_extends[OF assms(1)] extends_trans[OF un(2) begins_extends[OF un(1)]] begin_search_extends[OF assms(1)] m_resume_extends[OF assms(1)]
      extends_same[OF same_notify] extends_same[OF same_dispose[OF prod.collapse[symmetric]]]
      extends_same[OF same_deleteAccount[OF prod.collapse[symmetric]]] extends_same[OF same_registerParser[OF prod.collapse[symmetric]]] in
      \<open>auto simp: search_def query_def searchAndWatch_def searchMultiple_def searchMultipleAndWatch_def requeryMissing_def
        requeryMissingByAccount_def fetchMissing_def Let_def timer_fires_def flush_def begin_multiple_def extends_def grows_def\<close>)
qed

lemma blocked_resume:
  assumes "runs_ok D True s" and "b \<in> D" and "i < length (ac_tasks s)" and "blocked b s (tk_pc (ac_tasks s ! i))"
  shows "i' < length (ac_tasks s) \<Longrightarrow> grows s (resume env i' s)" and "length (ac_tasks (resume env i' s)) = length (ac_tasks s)"
    and "blocked b (resume env i' s) (tk_pc (ac_tasks (resume env i' s) ! i))"
proof -
  have ok: "batches_ok D s" using assms(1) by (simp add: runs_ok_def)
  have dead: "result_of s b = None" using ok assms(2) by (auto simp: batches_ok_def dead_batcher_def result_of_eq)
  have *: "(i' < length (ac_tasks s) \<longrightarrow> grows s (resume env i' s)) \<and> length (ac_tasks (resume env i' s)) = length (ac_tasks s)
    \<and> blocked b (resume env i' s) (tk_pc (ac_tasks (resume env i' s) ! i))"
  proof (cases "i' < length (ac_tasks s)")
    case False
    then show ?thesis using assms(4) by (simp add: resume_def js_nth_def)
  next
    case True
    let ?t = "ac_tasks s ! i'"
    obtain p s' where r: "resume_pc env ?t s = (p, s')" by fastforce
    have "pc_ok s (tk_pc ?t)" using assms(1) nth_mem[OF True] by (auto simp: runs_ok_def)
    note st = resume_pc_ok[OF ok this r]
    have h: "resume env i' s = s'\<lparr>ac_tasks := (ac_tasks s)[i' := ?t\<lparr>tk_pc := p\<rparr>]\<rparr>"
      using True r st by (simp add: resume_def js_nth_def step_ok_def same_tasks_def)
    have g: "grows s (resume env i' s)" using st unfolding h by (simp add: step_ok_def grows_def)
    have bl: "blocked b s' q \<Longrightarrow> blocked b (resume env i' s) q" for q by (simp add: blocked_def h)
    have "blocked b s' p" if "i' = i"
    proof -
      have "blocked b s (tk_pc ?t)" using assms(4) that by simp
      then obtain a j rs k where l: "tk_pc ?t = Loop a j rs" "a < length (ac_arrays s)" "j \<le> k" "k < length (ac_arrays s ! a)" "ac_arrays s ! a ! k = b"
        unfolding blocked_def by blast
      show ?thesis
      proof (cases "result_of s (ac_arrays s ! a ! j)")
        case None
        with r l have "s' = s" "p = tk_pc ?t" by (auto simp: resume_pc_def)
        then show ?thesis using assms(4) that by simp
      next
        case (Some v)
        then have "j \<noteq> k" using dead l(5) by auto
        then have "Suc j \<le> k" using l(3) by simp
        have s': "s' = drop_batch (ac_arrays s ! a ! j) s" and p: "p = in_flight_from s' a (Suc j) (entries v ++ rs)"
          using r l(1) Some by (auto simp: resume_pc_def joined_batch_def)
        have "a < length (ac_arrays s')" "k < length (ac_arrays s' ! a)" "ac_arrays s' ! a ! k = b"
          using l(2,4,5) by (simp_all add: s' drop_batch_def nth_append)
        then show ?thesis unfolding p using st \<open>Suc j \<le> k\<close> assms(2)
          by (intro blocked_from[of D _ b _ _ k]) (simp_all add: step_ok_def)
      qed
    qed
    moreover have "tk_pc (ac_tasks (resume env i' s) ! i) = (if i' = i then p else tk_pc (ac_tasks s ! i))"
      using assms(3) by (simp add: h)
    ultimately have "blocked b (resume env i' s) (tk_pc (ac_tasks (resume env i' s) ! i))"
      using blocked_grows[OF g assms(4)] bl by presburger
    with g show ?thesis by (simp add: h)
  qed
  then show "i' < length (ac_tasks s) \<Longrightarrow> grows s (resume env i' s)" "length (ac_tasks (resume env i' s)) = length (ac_tasks s)"
    "blocked b (resume env i' s) (tk_pc (ac_tasks (resume env i' s) ! i))" by simp_all
qed

lemma blocked_handle:
  assumes "runs_ok D True s" and "b \<in> D" and "i < length (ac_tasks s)" and "blocked b s (tk_pc (ac_tasks s ! i))" and "ev \<noteq> Close"
  shows "i < length (ac_tasks (handle env ev s)) \<and> blocked b (handle env ev s) (tk_pc (ac_tasks (handle env ev s) ! i))"
proof (cases "\<exists>i'. ev = Resume i'")
  case True
  then show ?thesis using blocked_resume(2,3)[OF assms(1-4)] assms(3) by auto
next
  case False
  then have "extends s (handle env ev s)" using assms(1,5) by (intro handle_extends) auto
  then show ?thesis using assms(3,4) blocked_grows by (auto simp: extends_def nth_append)
qed

lemma runs_open:
  assumes "runs_ok D True s" and "Close \<notin> set evs"
  shows "\<exists>D'. D \<subseteq> D' \<and> runs_ok D' True (run_events env evs s)"
  using assms
proof (induction evs arbitrary: D s)
  case (Cons ev evs)
  then have "runs_ok (flushed s ev D) True (handle env ev s)" using handle_runs_ok[of D True s ev env] by auto
  from Cons.IH[OF this] Cons.prems(2) obtain D' where "flushed s ev D \<subseteq> D'" "runs_ok D' True (run_events env evs (handle env ev s))"
    by auto
  moreover have "D \<subseteq> flushed s ev D" by (auto simp: flushed_def)
  ultimately show ?case by auto
qed auto

lemma blocked_run:
  assumes "runs_ok D True s" and "b \<in> D" and "i < length (ac_tasks s)" and "blocked b s (tk_pc (ac_tasks s ! i))" and "Close \<notin> set evs"
  shows "blocked b (run_events env evs s) (tk_pc (ac_tasks (run_events env evs s) ! i))"
  using assms
proof (induction evs arbitrary: D s)
  case (Cons ev evs)
  then have "runs_ok (flushed s ev D) True (handle env ev s)" using handle_runs_ok[of D True s ev env] by auto
  moreover have "b \<in> flushed s ev D" using Cons.prems(2) by (simp add: flushed_def)
  moreover have "i < length (ac_tasks (handle env ev s)) \<and> blocked b (handle env ev s) (tk_pc (ac_tasks (handle env ev s) ! i))"
    using Cons.prems(5) by (intro blocked_handle[OF Cons.prems(1-4)]) auto
  ultimately show ?case using Cons.IH[of "flushed s ev D" "handle env ev s"] Cons.prems(5) by simp
qed simp

lemma begin_search_blocked:
  assumes "runs_ok D True s" and "b \<in> D" and "force \<or> ac_cache s k = None"
  shows "blocked b (begin_search env aft k None st force s)
     (tk_pc (ac_tasks (begin_search env aft k None st force s) ! length (ac_tasks s)))"
proof -
  obtain p s' where r: "search_begin env k None st force s = (p, s')" by fastforce
  have ok: "batches_ok D s" using assms(1) by (simp add: runs_ok_def)
  note so = search_begin_ok[OF ok r]
  have "p = in_flight_from s' (ac_active s') 0 Map.empty"
    using r assms(3) batches_okD(1)[OF ok]
    by (cases force) (auto simp: search_begin_def registerParser_def set_static_def addToBatch_def last_batch_def activeBatches_def mac_has_def Let_def)
  moreover have "b \<in> set (activeBatches s')" "batches_ok D s'" using so assms(2) by (auto simp: step_ok_def batches_ok_def)
  ultimately have "blocked b s' p"
    using batches_okD(4)[of D s'] assms(2) by (auto simp: in_set_conv_nth activeBatches_def intro!: blocked_from[of D])
  moreover have "ac_tasks s' = ac_tasks s" using so by (simp add: step_ok_def same_tasks_def)
  ultimately show ?thesis by (simp add: begin_search_def r blocked_def)
qed

text \<open>
  A flush with nothing queued hangs the cache: it puts a batcher in flight that is never fetched and
  never settled, and from then on every search of an account that is not cached, and every forced one,
  waits for it for ever: until the cache is closed, no events whatsoever let the call settle.
\<close>

theorem empty_flush_hangs:
  assumes "Close \<notin> set (evs @ evs1 @ evs2)" and "\<not> ac_timeout (run_events env evs accountFetchCache)"
    and "s = run_events env (evs @ [Flush] @ evs1) accountFetchCache" and "force \<or> ac_cache s k = None"
    and "call = SearchAndWatch k None st force \<or> call = Search k None st force"
  shows "\<not> is_settled (tk_pc (ac_tasks (run_events env (call # evs2) s) ! length (ac_tasks s)))"
proof -
  let ?s0 = "run_events env evs accountFetchCache"
  let ?b = "last (activeBatches ?s0)"
  from runs_open[OF accountFetchCache_runs_ok, of evs env] assms(1) obtain D where D: "runs_ok D True ?s0" by auto
  then have "runs_ok (insert ?b D) True (handle env Flush ?s0)"
    using handle_runs_ok[OF D, of Flush env] assms(2) by (simp add: flushed_def no_empty_flush_def)
  from runs_open[OF this, of evs1 env] assms(1,3) obtain D' where D': "?b \<in> D'" "runs_ok D' True s" by auto
  obtain aft where c: "handle env call s = begin_search env aft k None st force s"
    using assms(5) by (auto simp: searchAndWatch_def search_def)
  have "runs_ok D' True (handle env call s)" unfolding c by (rule begin_search_ok[OF D'(2)])
  moreover have "length (ac_tasks s) < length (ac_tasks (handle env call s))"
  proof -
    obtain p s' where r: "search_begin env k None st force s = (p, s')" by fastforce
    have "step_ok D' s p s'" using search_begin_ok[OF _ r] D'(2) by (simp add: runs_ok_def)
    then show ?thesis unfolding c by (simp add: begin_search_def r step_ok_def same_tasks_def)
  qed
  moreover have "blocked ?b (handle env call s) (tk_pc (ac_tasks (handle env call s) ! length (ac_tasks s)))"
    unfolding c by (rule begin_search_blocked[OF D'(2,1) assms(4)])
  ultimately have "blocked ?b (run_events env evs2 (handle env call s)) (tk_pc (ac_tasks (run_events env evs2 (handle env call s)) ! length (ac_tasks s)))"
    using D'(1) assms(1) by (intro blocked_run) auto
  then show ?thesis by (auto simp: blocked_def)
qed

theorem empty_flush_hangs_witness:
  "\<not> is_settled (tk_pc (ac_tasks (run_events (demo_cache_env Suc)
     ([Flush, Search ''k'' None False False] @ [Timer, Resume 0, Resume 0, Resume 0]) accountFetchCache) ! 0))"
proof -
  let ?e = "demo_cache_env Suc"
  have "\<not> ac_timeout (run_events ?e [] accountFetchCache)" by (simp add: accountFetchCache_def)
  moreover have "ac_cache (run_events ?e ([] @ [Flush] @ []) accountFetchCache) ''k'' = None"
    "ac_tasks (run_events ?e ([] @ [Flush] @ []) accountFetchCache) = []"
    by (simp_all add: flush_def cache_run_simps)
  ultimately show ?thesis
    using empty_flush_hangs[of "[]" "[]" "[Timer, Resume 0, Resume 0, Resume 0]" ?e _ False "''k''" "Search ''k'' None False False" False]
    by simp
qed

end
