(* ===== verification/Account_Cache_Data.thy ===== *)
theory Account_Cache_Data
  imports Account_Cache_Runs
begin

text \<open>
  What the account cache holds and returns: every account was reported by the node for its key; a batch
  answers as single requests would; a failed request is cached as a missing account; subscriptions follow
  the watchers; and where \<open>searchMultiple\<close> leaves its contract.
\<close>

section \<open>Answers of the node\<close>

text \<open>\<open>a\<close> is the decoded account the node sent at the position of \<open>k\<close> in an answer.\<close>

definition node_reports :: "cache_env \<Rightarrow> (pubkey list \<Rightarrow> rpc_answer) \<Rightarrow> pubkey \<Rightarrow> account_info \<Rightarrow> bool" where
  "node_reports env rpc k a \<longleftrightarrow> (\<exists>ks array i raw. rpc ks = Rpc_value array \<and> i < length ks \<and> i < length array
     \<and> ks ! i = k \<and> array ! i = Some raw \<and> decode_account env raw = Inr a)"

definition aligned :: "(pubkey list \<Rightarrow> rpc_answer) \<Rightarrow> bool" where
  "aligned rpc \<longleftrightarrow> (\<forall>ks array. rpc ks = Rpc_value array \<longrightarrow> length array = length ks)"

lemma process_account_Some: "process_account env x = Inr (Some a) \<longleftrightarrow> (\<exists>raw. x = Some raw \<and> decode_account env raw = Inr a)"
  by (auto simp: process_account_def ebind_Inr_iff split: option.splits)

lemma getMultipleAccountsCore_Inr: "getMultipleAccountsCore rpc ks = Inr array \<longleftrightarrow> rpc ks = Rpc_value array"
  by (auto simp: getMultipleAccountsCore_def split: rpc_answer.splits)

lemma drop_chunk: "drop MAX_CHUNK_SIZE (k # ks) = drop (MAX_CHUNK_SIZE - 1) ks"
  by (simp add: MAX_CHUNK_SIZE_def)

lemma accounts_from_reports:
  assumes "accounts_from env rpc keys = Inr array" and "aligned rpc"
  shows "length array = length keys \<and> (\<forall>i < length keys. \<forall>a. array ! i = Some a \<longrightarrow> node_reports env rpc (keys ! i) a)"
  using assms
proof (induction env rpc keys arbitrary: array rule: accounts_from.induct)
  case (2 env rpc k ks)
  let ?c = "take MAX_CHUNK_SIZE (k # ks)" and ?d = "drop (MAX_CHUNK_SIZE - 1) ks"
  from "2.prems"(1) obtain res p rest where r: "rpc ?c = Rpc_value res" "emap (process_account env) res = Inr p"
    "accounts_from env rpc ?d = Inr rest" "array = p @ rest"
    by (auto simp: getMultipleAccountsCore_Inr elim!: ebind_InrE)
  have lp: "length res = length ?c" "length p = length ?c"
    using r(1) "2.prems"(2) emap_Inr_length[OF r(2)] unfolding aligned_def by (simp_all only:)
  have rest: "length rest = length ?d" "\<forall>i < length ?d. \<forall>a. rest ! i = Some a \<longrightarrow> node_reports env rpc (?d ! i) a"
    using "2.IH"[OF r(3) "2.prems"(2)] by auto
  have split: "k # ks = ?c @ ?d" using append_take_drop_id[of MAX_CHUNK_SIZE "k # ks"] by (simp only: drop_chunk)
  have "node_reports env rpc ((k # ks) ! i) a" if i: "i < length (k # ks)" "array ! i = Some a" for i a
  proof (cases "i < length ?c")
    case True
    then have "p ! i = Some a" using i(2) r(4) lp(2) by (simp add: nth_append)
    then have "process_account env (res ! i) = Inr (Some a)" using emap_Inr_nth[OF r(2), of i] True lp(1) by simp
    then obtain raw where "res ! i = Some raw" "decode_account env raw = Inr a" by (auto simp: process_account_Some)
    moreover have "(k # ks) ! i = ?c ! i" using True by simp
    ultimately show ?thesis unfolding node_reports_def using r(1) True lp(1) by metis
  next
    case False
    then have "\<not> i < length p" by (simp only: lp(2) not_False_eq_True)
    then have "rest ! (i - length p) = Some a" using i(2) r(4) by (simp add: nth_append)
    then have "rest ! (i - length ?c) = Some a" by (simp only: lp(2))
    moreover have "(k # ks) ! i = ?d ! (i - length ?c)" using False by (subst split) (simp only: nth_append if_False)
    moreover have "i - length ?c < length ?d" using i(1) False split by (metis length_append less_diff_conv2 linorder_not_less add.commute)
    ultimately show ?thesis using rest(2) by metis
  qed
  moreover have "length array = length (k # ks)" using r(4) lp(2) rest(1) split by (metis length_append)
  ultimately show ?case by blast
qed simp

lemma grouped_Some:
  "grouped keys array k = Some a \<Longrightarrow> \<exists>i < length keys. keys ! i = k \<and> js_nth array i = Some (Some a)"
proof -
  have "foldl (\<lambda>acc (index, key). case js_nth array index of Some (Some account) \<Rightarrow> acc(key \<mapsto> account) | _ \<Rightarrow> acc) m xs k = Some a \<Longrightarrow>
      m k = Some a \<or> (\<exists>i. (i, k) \<in> set xs \<and> js_nth array i = Some (Some a))" for m :: results and xs
    by (induction xs arbitrary: m) (fastforce split: option.splits if_splits)+
  from this[of Map.empty "enumerate 0 keys"] show "grouped keys array k = Some a \<Longrightarrow> ?thesis"
    unfolding grouped_def by (auto simp: in_set_enumerate_eq)
qed

lemma batch_answer_reports:
  assumes "aligned rpc" and "entries (batch_answer env rpc keys) k = Some a"
  shows "node_reports env rpc k a"
proof -
  from assms(2) obtain array where a: "accounts_from env rpc keys = Inr array" "grouped keys array k = Some a"
    by (auto simp: batch_answer_def getMultipleAccounts_def split: sum.splits elim!: ebind_InrE)
  from grouped_Some[OF a(2)] obtain i where "i < length keys" "keys ! i = k" "js_nth array i = Some (Some a)" by blast
  with accounts_from_reports[OF a(1) assms(1)] show ?thesis by (auto simp: js_nth_Some_iff)
qed

text \<open>A node that answers each key on its own: the batch is the map of the single answers.\<close>

lemma accounts_from_map:
  assumes "\<forall>ks. rpc ks = Rpc_value (map f ks)" and "\<forall>k \<in> set keys. process_account env (f k) = Inr (g k)"
  shows "accounts_from env rpc keys = Inr (map g keys)"
  using assms
proof (induction env rpc keys rule: accounts_from.induct)
  case (2 env rpc k ks)
  let ?c = "take MAX_CHUNK_SIZE (k # ks)" and ?d = "drop (MAX_CHUNK_SIZE - 1) ks"
  have fg: "\<forall>x \<in> set ?c. process_account env (f x) = Inr (g x)" "\<forall>x \<in> set ?d. process_account env (f x) = Inr (g x)"
    using "2.prems"(2) set_take_subset[of MAX_CHUNK_SIZE "k # ks"] set_drop_subset[of "MAX_CHUNK_SIZE - 1" ks] by auto
  from fg(1) have "emap (process_account env) (map f ?c) = Inr (map g ?c)"
    by (rule emap_map)
  moreover have "getMultipleAccountsCore rpc ?c = Inr (map f ?c)" using "2.prems"(1) by (simp only: getMultipleAccountsCore_Inr)
  moreover from fg(2) have "accounts_from env rpc ?d = Inr (map g ?d)" by (rule "2.IH"[OF "2.prems"(1)])
  ultimately have "accounts_from env rpc (k # ks) = Inr (map g ?c @ map g ?d)" unfolding accounts_from.simps by simp
  also have "map g ?c @ map g ?d = map g (k # ks)"
    using append_take_drop_id[of MAX_CHUNK_SIZE "k # ks"] unfolding drop_chunk by (metis map_append)
  finally show ?case .
qed simp

section \<open>Only reported accounts\<close>

definition parser_ok :: "cache_env \<Rightarrow> bool" where
  "parser_ok env \<longleftrightarrow> (\<forall>p k a k' a' i. ce_parse env p k a = Inr (Some (k', a', i)) \<longrightarrow> k' = k \<and> a' = a)"

lemma parser_okD: "ce_parse env p k a = Inr (Some (k', a', i)) \<Longrightarrow> parser_ok env \<Longrightarrow> k' = k \<and> a' = a"
  unfolding parser_ok_def by blast

type_synonym reports = "(pubkey \<times> account_info) set"

definition from_node :: "reports \<Rightarrow> pubkey \<Rightarrow> parsed \<Rightarrow> bool" where
  "from_node R k p \<longleftrightarrow> pa_pubkey p = k \<and> (k, pa_account p) \<in> R"

definition cache_ok :: "reports \<Rightarrow> cache_state \<Rightarrow> bool" where
  "cache_ok R s \<longleftrightarrow> (\<forall>k p. ac_cache s k = Some (Some p) \<longrightarrow> from_node R k p)"

definition results_ok :: "reports \<Rightarrow> results \<Rightarrow> bool" where
  "results_ok R r \<longleftrightarrow> (\<forall>k a. r k = Some a \<longrightarrow> (k, a) \<in> R)"

fun outcome_ok :: "reports \<Rightarrow> pubkey \<Rightarrow> js_error + parsed option \<Rightarrow> bool" where
  "outcome_ok R k (Inr (Some p)) \<longleftrightarrow> from_node R k p"
| "outcome_ok R k _ \<longleftrightarrow> True"

lemma outcome_ok_Inr: "outcome_ok R k (Inr d) \<longleftrightarrow> (\<forall>p. d = Some p \<longrightarrow> from_node R k p)"
  by (cases d) auto

fun pc_from :: "reports \<Rightarrow> pubkey \<Rightarrow> pc \<Rightarrow> bool" where
  "pc_from R k (Loop a j r) \<longleftrightarrow> results_ok R r"
| "pc_from R k (Joined r) \<longleftrightarrow> results_ok R r"
| "pc_from R k (Own b) \<longleftrightarrow> True"
| "pc_from R k (Searched r) \<longleftrightarrow> outcome_ok R k r"
| "pc_from R k (Watched d) \<longleftrightarrow> outcome_ok R k (Inr d)"
| "pc_from R k (Settled r) \<longleftrightarrow> outcome_ok R k r"

fun slot_from :: "reports \<Rightarrow> pubkey \<Rightarrow> slot \<Rightarrow> bool" where
  "slot_from R k (Parsed p) \<longleftrightarrow> from_node R k p"
| "slot_from R k (Raw a) \<longleftrightarrow> (k, a) \<in> R"
| "slot_from R k _ \<longleftrightarrow> True"

fun slots_from :: "reports \<Rightarrow> pubkey list \<Rightarrow> js_error + slot list \<Rightarrow> bool" where
  "slots_from R ks (Inr slots) \<longleftrightarrow> list_all2 (slot_from R) ks slots"
| "slots_from R ks (Inl e) \<longleftrightarrow> True"

definition index_ok :: "pubkey list \<Rightarrow> pubkey list \<Rightarrow> (pubkey \<rightharpoonup> nat) \<Rightarrow> bool" where
  "index_ok ks fetch im \<longleftrightarrow> (\<forall>k \<in> set fetch. \<exists>i < length ks. im k = Some i \<and> ks ! i = k)"

fun mpc_from :: "reports \<Rightarrow> pubkey list \<Rightarrow> mpc \<Rightarrow> bool" where
  "mpc_from R ks (MLoop a j r) \<longleftrightarrow> results_ok R r"
| "mpc_from R ks (MJoined r) \<longleftrightarrow> results_ok R r"
| "mpc_from R ks (MOwn b slots fetch im) \<longleftrightarrow> slots_from R ks (Inr slots) \<and> index_ok ks fetch im"
| "mpc_from R ks (MSearched r) \<longleftrightarrow> slots_from R ks r"
| "mpc_from R ks (MSettled r) \<longleftrightarrow> slots_from R ks r"

definition batches_from :: "reports \<Rightarrow> cache_state \<Rightarrow> bool" where
  "batches_from R s \<longleftrightarrow> (\<forall>b \<in> set (ac_batchers s). \<forall>v. bt_result b = Some v \<longrightarrow> results_ok R (entries v))"

definition data_ok :: "reports \<Rightarrow> cache_state \<Rightarrow> bool" where
  "data_ok R s \<longleftrightarrow> cache_ok R s \<and> batches_from R s \<and> (\<forall>t \<in> set (ac_tasks s). pc_from R (tk_key t) (tk_pc t))
     \<and> (\<forall>m \<in> set (ac_multis s). mpc_from R (mk_keys m) (mk_pc m))"

text \<open>The operations on the cache keep it to what was reported.\<close>

lemma cache_ok_updateCache: "cache_ok R s \<Longrightarrow> (\<And>p. d = Some p \<Longrightarrow> from_node R k p) \<Longrightarrow> cache_ok R (updateCache k d s)"
  by (auto simp: cache_ok_def updateCache_def mac_set_def)

lemma cache_ok_raise: "cache_ok R s \<Longrightarrow> (\<And>p. d = Some p \<Longrightarrow> from_node R k p) \<Longrightarrow> cache_ok R (updateCacheAndRaiseUpdated k d s)"
  by (auto simp: cache_ok_def updateCacheAndRaiseUpdated_def updateCache_def mac_set_def Let_def)

lemma registerParser_data:
  assumes "parser_ok env" and "cache_ok R s" and "registerParser env k p s = (r, s')"
  shows "cache_ok R s'"
proof (cases "\<exists>c p'. p = Some p' \<and> map_of (ac_parsers s) k = None \<and> ac_cache s k = Some (Some c)")
  case True
  then obtain c p' where c: "p = Some p'" "map_of (ac_parsers s) k = None" "ac_cache s k = Some (Some c)" by blast
  have "from_node R k c" using assms(2) c(3) by (simp add: cache_ok_def)
  then show ?thesis using assms c parser_okD[of env p' "pa_pubkey c" "pa_account c"]
    by (auto simp: registerParser_def mac_get_def Let_def new_parsed_def from_node_def cache_ok_def updateCache_def mac_set_def
        split: sum.splits option.splits if_splits)
next
  case False
  with assms(2,3) show ?thesis
    by (auto simp: registerParser_def mac_get_def Let_def cache_ok_def split: option.splits if_splits)
qed

lemma getParsed_data:
  assumes "parser_ok env" and "cache_ok R s" and "(k, a) \<in> R" and "getParsed env k a p s = (r, s')"
  shows "cache_ok R s' \<and> (\<forall>x. r = Inr x \<longrightarrow> from_node R k x)"
proof -
  obtain y s1 where g: "registerParser env k p s = (y, s1)" by fastforce
  note s1 = registerParser_data[OF assms(1,2) g]
  show ?thesis
  proof (cases y)
    case (Inl e)
    with assms(4) g s1 show ?thesis by (auto simp: getParsed_def)
  next
    case (Inr u)
    then show ?thesis using assms(3,4) g s1
      by (cases "map_of (ac_parsers s1) k")
        (auto simp: getParsed_def cache_ok_def new_parsed_def from_node_def dest!: parser_okD[OF _ assms(1)] split: option.splits sum.splits)
  qed
qed

lemma watch_data: "watch env k p e s = (r, s') \<Longrightarrow> ac_cache s' = ac_cache s"
  by (auto simp: watch_def subscribe_def Let_def split: option.splits if_splits sum.splits)

lemma dispose_data: "dispose env k s = (r, s') \<Longrightarrow> ac_cache s' = ac_cache s"
  by (auto simp: dispose_def removeListener_def Let_def split: option.splits if_splits sum.splits prod.splits)

lemma cache_ok_cong: "ac_cache s' = ac_cache s \<Longrightarrow> cache_ok R s \<Longrightarrow> cache_ok R s'"
  by (simp add: cache_ok_def)

lemma search_end_data:
  assumes "parser_ok env" and "cache_ok R s" and "(tk_key t, a) \<in> R" and "search_end env t a s = (p, s')"
  shows "cache_ok R s' \<and> pc_from R (tk_key t) p"
proof -
  obtain y s1 where g: "getParsed env (tk_key t) a (tk_parser t) s = (y, s1)" by fastforce
  with getParsed_data[OF assms(1-3) g] assms(4) show ?thesis
    by (cases y) (auto simp: search_end_def intro!: cache_ok_raise split: if_splits)
qed

lemma watch_result_data:
  assumes "cache_ok R s" and "\<And>p. d = Some p \<Longrightarrow> from_node R (tk_key t) p" and "watch_result env t d s = (r, s')"
  shows "cache_ok R s'"
proof -
  obtain y s1 where g: "watch env (tk_key t) (tk_parser t) (d \<noteq> None) s = (y, s1)" by fastforce
  have "cache_ok R s1" using cache_ok_cong[OF watch_data[OF g] assms(1)] .
  with g assms(2,3) show ?thesis
    by (cases y) (auto simp: watch_result_def Let_def intro!: cache_ok_raise cache_ok_updateCache split: if_splits)
qed

lemma after_search_data:
  assumes "cache_ok R s" and "outcome_ok R (tk_key t) r" and "after_search env t r s = (p, s')"
  shows "cache_ok R s' \<and> pc_from R (tk_key t) p"
proof (cases r)
  case (Inl e)
  with assms show ?thesis by (cases "tk_after t") (auto simp: after_search_def)
next
  case (Inr d)
  obtain y s1 where g: "watch_result env t d s = (y, s1)" by fastforce
  have "cache_ok R s1" using assms(2) Inr by (intro watch_result_data[OF assms(1) _ g]) auto
  moreover have "outcome_ok R (tk_key t) (Inr d)" using assms(2) Inr by simp
  ultimately show ?thesis using assms(1,3) Inr g
    by (cases "tk_after t"; cases y; cases d) (auto simp: after_search_def)
qed

lemma after_watch_data:
  assumes "cache_ok R s" and "outcome_ok R (tk_key t) (Inr d)" and "after_watch env t d s = (p, s')"
  shows "cache_ok R s' \<and> pc_from R (tk_key t) p"
proof -
  obtain y s1 where g: "dispose env (tk_key t) s = (y, s1)" by fastforce
  with assms dispose_data[OF g] show ?thesis
    by (cases "tk_after t"; cases y) (auto simp: after_watch_def Let_def cache_ok_def split: if_splits)
qed

lemma set_static_cache [simp]: "ac_cache (set_static k b s) = ac_cache s"
  by (simp add: set_static_def)

lemma slot_update:
  assumes "list_all2 (slot_from R) ks slots" and "i < length ks" and "slot_from R (ks ! i) x"
  shows "list_all2 (slot_from R) ks (slots[i := x])"
  using list_all2_update_cong[OF assms(1), of "ks ! i" x i] assms(3) by simp

lemma first_pass_data:
  assumes "parser_ok env" and "cache_ok R s" and "results_ok R r" and "\<forall>(i, k) \<in> set xs. i < length ks \<and> ks ! i = k"
    and "list_all2 (slot_from R) ks res" and "index_ok ks fetch im"
    and "first_pass env m r xs (res, fetch, im) s = (q, s')"
  shows "cache_ok R s' \<and> (\<forall>res' fetch' im'. q = Inr (res', fetch', im') \<longrightarrow> list_all2 (slot_from R) ks res' \<and> index_ok ks fetch' im')"
  using assms(2,4-7)
proof (induction xs arbitrary: res fetch im s)
  case (Cons x xs)
  obtain i k where x: "x = (i, k)" by (cases x)
  have i: "i < length ks" "ks ! i = k" using Cons.prems(2) x by auto
  obtain y s1 where g: "registerParser env k (mk_parser m) s = (y, s1)" by fastforce
  note s1 = registerParser_data[OF assms(1) Cons.prems(1) g]
  let ?s2 = "set_static k (mk_static m) s1"
  have s2: "cache_ok R ?s2" by (rule cache_ok_cong[OF set_static_cache s1])
  show ?case
  proof (cases y)
    case (Inl e)
    with Cons.prems(5) x g s1 show ?thesis by (auto simp: first_pass_step_def)
  next
    case (Inr u)
    obtain acc where st: "first_pass_step env m r x (res, fetch, im) s = (Inr acc, ?s2)" and
      acc: "acc = (if \<not> mk_force m \<and> mac_has (ac_cache ?s2) k
                    then (res[i := (case mac_get (ac_cache ?s2) k of Some (Some p) \<Rightarrow> Parsed p | _ \<Rightarrow> Null)], fetch, im)
                    else (case r k of Some a \<Rightarrow> (res[i := Raw a], fetch, im) | None \<Rightarrow> (res, fetch @ [k], im(k \<mapsto> i))))"
      using g Inr x by (simp add: first_pass_step_def Let_def)
    obtain res1 fetch1 im1 where a1: "acc = (res1, fetch1, im1)" by (metis surj_pair)
    have cached: "slot_from R (ks ! i) (case mac_get (ac_cache ?s2) k of Some (Some p) \<Rightarrow> Parsed p | _ \<Rightarrow> Null)"
      using s2 i(2) by (auto simp: cache_ok_def mac_get_def split: option.splits)
    have inflight: "r k = Some a \<Longrightarrow> slot_from R (ks ! i) (Raw a)" for a using assms(3) i(2) by (simp add: results_ok_def)
    have l: "list_all2 (slot_from R) ks res1"
      using acc a1 Cons.prems(3) slot_update[OF Cons.prems(3) i(1)] cached inflight by (auto split: if_splits option.splits)
    have ix: "index_ok ks fetch1 im1"
      using acc a1 Cons.prems(4) i by (auto simp: index_ok_def split: if_splits option.splits)
    have "first_pass env m r xs (res1, fetch1, im1) ?s2 = (q, s')" using Cons.prems(5) st a1 by simp
    from Cons.IH[OF s2 _ l ix this] Cons.prems(2) show ?thesis by auto
  qed
qed auto

lemma second_pass_data:
  assumes "parser_ok env" and "cache_ok R s" and "results_ok R r" and "index_ok ks fetch im" and "list_all2 (slot_from R) ks res"
    and "second_pass env m r im fetch res s = (q, s')"
  shows "cache_ok R s' \<and> slots_from R ks q"
  using assms(2,4-6)
proof (induction fetch arbitrary: res s)
  case (Cons k fetch)
  from Cons.prems(2) obtain i where i: "i < length ks" "im k = Some i" "ks ! i = k" by (auto simp: index_ok_def)
  have ix: "index_ok ks fetch im" using Cons.prems(2) by (simp add: index_ok_def)
  show ?case
  proof (cases "r k")
    case None
    have "list_all2 (slot_from R) ks (res[i := Undefined])" by (rule slot_update[OF Cons.prems(3) i(1)]) simp
    from Cons.IH[OF Cons.prems(1) ix this] Cons.prems(4) None i(2) show ?thesis by (simp add: Let_def)
  next
    case (Some a)
    then have "(k, a) \<in> R" using assms(3) by (simp add: results_ok_def)
    obtain y s1 where g: "getParsed env k a (mk_parser m) s = (y, s1)" by fastforce
    note d = getParsed_data[OF assms(1) Cons.prems(1) \<open>(k, a) \<in> R\<close> g]
    show ?thesis
    proof (cases y)
      case (Inl e)
      with Cons.prems(4) Some g d show ?thesis by (auto simp: Let_def)
    next
      case (Inr p)
      let ?s2 = "if mk_static m \<and> pa_info p \<noteq> None then updateCache k (Some p) s1 else s1"
      have p: "from_node R k p" using d Inr by simp
      have s2: "cache_ok R ?s2" using d p by (auto intro: cache_ok_updateCache)
      have l: "list_all2 (slot_from R) ks (res[i := Parsed p])" using p i by (intro slot_update[OF Cons.prems(3)]) auto
      from Cons.IH[OF s2 ix l] Cons.prems(4) Some g Inr i(2) show ?thesis by (simp add: Let_def)
    qed
  qed
qed auto

lemma watch_slots_data:
  assumes "cache_ok R s" and "list_all2 (slot_from R) ks slots" and "watch_slots env m slots s = (q, s')"
  shows "cache_ok R s'"
  using assms
proof (induction slots arbitrary: s ks)
  case (Cons x slots)
  from Cons.prems(2) obtain k ks' where k: "ks = k # ks'" "slot_from R k x" "list_all2 (slot_from R) ks' slots"
    by (auto simp: list_all2_Cons2)
  show ?case
  proof (cases x)
    case (Parsed p)
    let ?s = "if \<not> mac_has (ac_cache s) (pa_pubkey p) \<or> \<not> same_object (mac_get (ac_cache s) (pa_pubkey p)) (Some p)
      then updateCache (pa_pubkey p) (Some p) s else s"
    have "from_node R (pa_pubkey p) p" using k(2) Parsed by (auto simp: from_node_def)
    then have "cache_ok R ?s" using Cons.prems(1) by (auto intro!: cache_ok_updateCache)
    moreover obtain y s1 where g: "watch env (pa_pubkey p) (mk_parser m) True ?s = (y, s1)" by fastforce
    ultimately have "cache_ok R s1" using cache_ok_cong[OF watch_data[OF g]] by blast
    with Cons.IH[OF this k(3)] Cons.prems(3) Parsed g show ?thesis by (cases y) (auto simp: Let_def)
  qed (use Cons k in auto)
qed simp

lemma results_ok_add: "results_ok R r \<Longrightarrow> results_ok R r' \<Longrightarrow> results_ok R (r ++ r')"
  by (auto simp: results_ok_def map_add_Some_iff)

lemma result_of_data: "batches_from R s \<Longrightarrow> result_of s b = Some v \<Longrightarrow> results_ok R (entries v)"
  by (auto simp: batches_from_def result_of_eq split: if_splits)

lemma batches_from_cong:
  assumes "map bt_result (ac_batchers s') = map bt_result (ac_batchers s)" and "batches_from R s"
  shows "batches_from R s'"
proof -
  have "batches_from R x \<longleftrightarrow> (\<forall>r \<in> set (map bt_result (ac_batchers x)). \<forall>v. r = Some v \<longrightarrow> results_ok R (entries v))" for x
    by (auto simp: batches_from_def)
  then have "batches_from R s' = batches_from R s" by (simp only: assms(1))
  with assms(2) show ?thesis by simp
qed

lemma batches_from_change:
  assumes "batches_from R s" and "\<And>v. b < length (ac_batchers s) \<Longrightarrow> bt_result (f (ac_batchers s ! b)) = Some v \<Longrightarrow> results_ok R (entries v)"
  shows "batches_from R (change_batcher b f s)"
  unfolding batches_from_def all_set_conv_all_nth
proof (intro allI impI)
  fix i v
  assume i: "i < length (ac_batchers (change_batcher b f s))" "bt_result (ac_batchers (change_batcher b f s) ! i) = Some v"
  show "results_ok R (entries v)"
  proof (cases "i = b")
    case True
    with i assms(2)[of v] show ?thesis by (simp add: change_batcher_def)
  next
    case False
    with i assms(1) nth_mem[of i "ac_batchers s"] show ?thesis by (auto simp: change_batcher_def batches_from_def)
  qed
qed

lemma batches_from_nth: "batches_from R s \<Longrightarrow> b < length (ac_batchers s) \<Longrightarrow> bt_result (ac_batchers s ! b) = Some v \<Longrightarrow> results_ok R (entries v)"
  unfolding batches_from_def using nth_mem by blast

lemma addToBatch_data: "addToBatch ids s = (r, s') \<Longrightarrow> map bt_result (ac_batchers s') = map bt_result (ac_batchers s) \<and> ac_cache s' = ac_cache s"
  by (auto simp: addToBatch_def change_batcher_def batcher_add_def map_update split: option.splits)
    (metis list_update_beyond list_update_id map_update not_less nth_map)

lemma in_flight_data: "results_ok R r \<Longrightarrow> pc_from R k (in_flight_from s a i r)" "results_ok R r \<Longrightarrow> mpc_from R ks (m_in_flight_from s a i r)"
  by (auto simp: in_flight_from_def m_in_flight_from_def split: option.splits)

lemma same_results: "same s s' \<Longrightarrow> batches_from R s \<Longrightarrow> batches_from R s'"
  by (simp add: same_defs batches_from_def)

lemma drop_batch_data [simp]: "ac_cache (drop_batch b s) = ac_cache s" "ac_batchers (drop_batch b s) = ac_batchers s"
  by (simp_all add: drop_batch_def)

lemma resume_pc_data:
  assumes "parser_ok env" and "cache_ok R s" and "batches_from R s" and "pc_from R (tk_key t) (tk_pc t)" and "resume_pc env t s = (p, s')"
  shows "cache_ok R s' \<and> batches_from R s' \<and> pc_from R (tk_key t) p"
proof (cases "tk_pc t")
  case (Loop a j r)
  show ?thesis
  proof (cases "result_of s (ac_arrays s ! a ! j)")
    case None
    with assms(5) Loop have "p = tk_pc t" "s' = s" by (auto simp: resume_pc_def)
    with assms(2-4) show ?thesis by simp
  next
    case (Some v)
    with assms Loop result_of_data[OF assms(3) Some] show ?thesis
      by (auto simp: resume_pc_def joined_batch_def cache_ok_def batches_from_def intro!: in_flight_data results_ok_add)
  qed
next
  case (Joined r)
  show ?thesis
  proof (cases "r (tk_key t)")
    case None
    obtain y s1 where a: "addToBatch [tk_key t] s = (y, s1)" by fastforce
    then show ?thesis using assms None Joined addToBatch_data[OF a] batches_from_cong[of s1 s] cache_ok_cong[of s1 s]
      by (cases y) (auto simp: resume_pc_def)
  next
    case (Some d)
    then have "(tk_key t, d) \<in> R" using assms(4) Joined by (simp add: results_ok_def)
    with assms Some Joined search_end_data[OF assms(1,2), of t d p s'] same_search_end[of env t d s p s'] show ?thesis
      by (auto simp: resume_pc_def intro: same_results)
  qed
next
  case (Own b)
  show ?thesis
  proof (cases "\<exists>v d. result_of s b = Some v \<and> entries v (tk_key t) = Some d")
    case True
    then obtain v d where v: "result_of s b = Some v" "entries v (tk_key t) = Some d" by blast
    then have "(tk_key t, d) \<in> R" using result_of_data[OF assms(3) v(1)] by (simp add: results_ok_def)
    with assms v Own search_end_data[OF assms(1,2), of t d p s'] same_search_end[of env t d s p s'] show ?thesis
      by (auto simp: resume_pc_def intro: same_results)
  next
    case False
    with assms(5) Own have "(p = tk_pc t \<or> p = Searched (Inr None)) \<and> s' = s" by (auto simp: resume_pc_def split: option.splits)
    with assms(2-4) show ?thesis by auto
  qed
next
  case (Searched r)
  then have s: "after_search env t r s = (p, s')" "outcome_ok R (tk_key t) r" using assms(4,5) by (simp_all add: resume_pc_def)
  show ?thesis using after_search_data[OF assms(2) s(2,1)] same_results[OF same_after_search[OF s(1)] assms(3)] by simp
next
  case (Watched d)
  then have s: "after_watch env t d s = (p, s')" "outcome_ok R (tk_key t) (Inr d)" using assms(4,5) by (simp_all add: resume_pc_def)
  show ?thesis using after_watch_data[OF assms(2) s(2,1)] same_results[OF same_after_watch[OF s(1)] assms(3)] by simp
next
  case (Settled r)
  with assms(5) have "p = tk_pc t" "s' = s" by (auto simp: resume_pc_def)
  with assms(2-4) show ?thesis by simp
qed

lemma m_resume_pc_data:
  assumes "parser_ok env" and "cache_ok R s" and "batches_from R s" and "mpc_from R (mk_keys m) (mk_pc m)" and "m_resume_pc env m s = (p, s')"
  shows "cache_ok R s' \<and> batches_from R s' \<and> mpc_from R (mk_keys m) p"
proof (cases "mk_pc m")
  case (MLoop a j r)
  show ?thesis
  proof (cases "result_of s (ac_arrays s ! a ! j)")
    case None
    with assms(5) MLoop have "p = mk_pc m" "s' = s" by (auto simp: m_resume_pc_def)
    with assms(2-4) show ?thesis by simp
  next
    case (Some v)
    with assms MLoop result_of_data[OF assms(3) Some] show ?thesis
      by (auto simp: m_resume_pc_def joined_batch_def cache_ok_def batches_from_def intro!: in_flight_data results_ok_add)
  qed
next
  case (MJoined r)
  let ?z = "(replicate (length (mk_keys m)) Hole, [], Map.empty)" and ?ks = "mk_keys m"
  obtain y s1 where f: "first_pass env m r (enumerate 0 ?ks) ?z s = (y, s1)" by fastforce
  have "list_all2 (slot_from R) ?ks (replicate (length ?ks) Hole)" by (simp add: list_all2_conv_all_nth)
  moreover have "results_ok R r" using assms(4) MJoined by simp
  moreover have "\<forall>(i, k) \<in> set (enumerate 0 ?ks). i < length ?ks \<and> ?ks ! i = k" by (auto simp: in_set_enumerate_eq)
  moreover have "index_ok ?ks [] Map.empty" by (simp add: index_ok_def)
  ultimately have d: "cache_ok R s1" "\<And>res fetch im. y = Inr (res, fetch, im) \<Longrightarrow> list_all2 (slot_from R) ?ks res \<and> index_ok ?ks fetch im"
    using first_pass_data[OF assms(1,2) _ _ _ _ f, of ?ks] by blast+
  have b: "batches_from R s1" using same_results[OF same_first_pass[OF f] assms(3)] .
  show ?thesis
  proof (cases "\<exists>res ks im. y = Inr (res, ks, im) \<and> ks \<noteq> []")
    case True
    then obtain res ks im where y: "y = Inr (res, ks, im)" "ks \<noteq> []" by blast
    obtain q s2 where a: "addToBatch ks s1 = (q, s2)" by fastforce
    have "cache_ok R s2" "batches_from R s2"
      using addToBatch_data[OF a] batches_from_cong[OF _ b, of s2] cache_ok_cong[OF _ d(1), of s2] by simp_all
    then show ?thesis using d(2)[OF y(1)] assms(5) MJoined f y a by (cases q) (auto simp: m_resume_pc_def)
  next
    case False
    then show ?thesis using d b assms(5) MJoined f by (cases y) (auto simp: m_resume_pc_def)
  qed
next
  case (MOwn b res ks im)
  show ?thesis
  proof (cases "result_of s b")
    case None
    with assms(5) MOwn have "p = mk_pc m" "s' = s" by (auto simp: m_resume_pc_def)
    with assms(2-4) show ?thesis by simp
  next
    case (Some v)
    obtain y s1 where f: "second_pass env m (entries v) im ks res s = (y, s1)" by fastforce
    have "cache_ok R s1 \<and> slots_from R (mk_keys m) y"
      using assms(4) MOwn by (intro second_pass_data[OF assms(1,2) result_of_data[OF assms(3) Some] _ _ f]) auto
    with same_results[OF same_second_pass[OF f] assms(3)] assms(5) MOwn Some f show ?thesis by (auto simp: m_resume_pc_def)
  qed
next
  case (MSearched r)
  show ?thesis
  proof (cases r)
    case (Inl e)
    with assms MSearched show ?thesis by (auto simp: m_resume_pc_def)
  next
    case (Inr slots)
    obtain y s1 where f: "watch_slots env m slots s = (y, s1)" by fastforce
    have l: "list_all2 (slot_from R) (mk_keys m) slots" using assms(4) MSearched Inr by simp
    with watch_slots_data[OF assms(2) l f] same_results[OF same_watch_slots[OF f] assms(3)] assms MSearched Inr f show ?thesis
      by (cases y) (auto simp: m_resume_pc_def split: if_splits)
  qed
next
  case (MSettled r)
  with assms(5) have "p = mk_pc m" "s' = s" by (auto simp: m_resume_pc_def)
  with assms(2-4) show ?thesis by simp
qed

text \<open>The other calls are left alone.\<close>

lemma same_tasks_addToBatch: "addToBatch ids s = (r, s') \<Longrightarrow> same_tasks s s'"
  by (auto simp: addToBatch_def change_batcher_def same_tasks_def split: option.splits)

lemma same_imp_tasks: "same s s' \<Longrightarrow> same_tasks s s'"
  by (simp add: same_def)

lemma resume_pc_tasks:
  assumes "resume_pc env t s = (p, s')"
  shows "same_tasks s s'"
proof (cases "tk_pc t")
  case (Joined r)
  then show ?thesis using assms same_tasks_addToBatch[of "[tk_key t]" s] same_imp_tasks[OF same_search_end[of env t _ s p s']]
    by (auto simp: resume_pc_def split: option.splits prod.splits sum.splits)
next
  case (Searched r)
  then show ?thesis using assms same_imp_tasks[OF same_after_search[of env t r s p s']] by (simp add: resume_pc_def)
next
  case (Watched d)
  then show ?thesis using assms same_imp_tasks[OF same_after_watch[of env t d s p s']] by (simp add: resume_pc_def)
qed (use assms same_imp_tasks[OF same_search_end[of env t _ s p s']] in
    \<open>auto simp: resume_pc_def joined_batch_def same_imp_tasks split: option.splits\<close>)

lemma m_resume_pc_tasks:
  assumes "m_resume_pc env m s = (p, s')"
  shows "same_tasks s s'"
proof (cases "mk_pc m")
  case (MJoined r)
  let ?z = "(replicate (length (mk_keys m)) Hole, [], Map.empty)"
  obtain y s1 where f: "first_pass env m r (enumerate 0 (mk_keys m)) ?z s = (y, s1)" by fastforce
  have t: "addToBatch ks s1 = (q, s') \<Longrightarrow> same_tasks s s'" for ks q
    using same_tasks_addToBatch[of ks s1 q s'] same_imp_tasks[OF same_first_pass[OF f]] by (simp add: same_tasks_def)
  show ?thesis using assms MJoined f same_imp_tasks[OF same_first_pass[OF f]] t
    by (cases y) (auto simp: m_resume_pc_def split: if_splits prod.splits sum.splits)
next
  case (MOwn b res ks im)
  then show ?thesis using assms same_imp_tasks[OF same_second_pass[of env m _ im ks res s _ s']]
    by (auto simp: m_resume_pc_def same_imp_tasks split: option.splits prod.splits)
next
  case (MSearched r)
  then show ?thesis using assms same_imp_tasks[OF same_watch_slots[of env m _ s _ s']]
    by (cases r) (auto simp: m_resume_pc_def same_imp_tasks split: if_splits sum.splits prod.splits)
qed (use assms in \<open>auto simp: m_resume_pc_def joined_batch_def same_imp_tasks split: option.splits\<close>)

lemma data_ok_task:
  assumes "data_ok R s" and "cache_ok R s'" and "batches_from R s'" and "pc_from R (tk_key t) (tk_pc t)" and "same_tasks s s'"
    and "ts = (ac_tasks s)[i := t] \<or> ts = ac_tasks s @ [t]"
  shows "data_ok R (s'\<lparr>ac_tasks := ts\<rparr>)"
  using assms set_update_subset_insert[of "ac_tasks s" i t]
  by (auto simp: data_ok_def same_tasks_def cache_ok_def batches_from_def)

lemma data_ok_multi:
  assumes "data_ok R s" and "cache_ok R s'" and "batches_from R s'" and "mpc_from R (mk_keys m) (mk_pc m)" and "same_tasks s s'"
    and "ms = (ac_multis s)[i := m] \<or> ms = ac_multis s @ [m]"
  shows "data_ok R (s'\<lparr>ac_multis := ms\<rparr>)"
  using assms set_update_subset_insert[of "ac_multis s" i m]
  by (auto simp: data_ok_def same_tasks_def cache_ok_def batches_from_def)

lemma resume_data:
  assumes "parser_ok env" and "data_ok R s"
  shows "data_ok R (resume env i s)" and "data_ok R (m_resume env i s)"
proof -
  have d: "cache_ok R s" "batches_from R s" using assms(2) by (simp_all add: data_ok_def)
  show "data_ok R (resume env i s)"
  proof (cases "js_nth (ac_tasks s) i")
    case None
    with assms(2) show ?thesis by (simp add: resume_def)
  next
    case (Some t)
    then have "pc_from R (tk_key t) (tk_pc t)" using assms(2) by (auto simp: js_nth_Some_iff data_ok_def)
    moreover obtain p s' where r: "resume_pc env t s = (p, s')" by fastforce
    ultimately have q: "cache_ok R s'" "batches_from R s'" "pc_from R (tk_key t) p" using resume_pc_data[OF assms(1) d _ r] by blast+
    have "data_ok R (s'\<lparr>ac_tasks := (ac_tasks s)[i := t\<lparr>tk_pc := p\<rparr>]\<rparr>)"
      using data_ok_task[OF assms(2) q(1,2) _ resume_pc_tasks[OF r] disjI1[OF refl], of "t\<lparr>tk_pc := p\<rparr>" i] q(3) by simp
    then show ?thesis using Some r resume_pc_tasks[OF r] by (simp add: resume_def same_tasks_def)
  qed
  show "data_ok R (m_resume env i s)"
  proof (cases "js_nth (ac_multis s) i")
    case None
    with assms(2) show ?thesis by (simp add: m_resume_def)
  next
    case (Some m)
    then have "mpc_from R (mk_keys m) (mk_pc m)" using assms(2) by (auto simp: js_nth_Some_iff data_ok_def)
    moreover obtain p s' where r: "m_resume_pc env m s = (p, s')" by fastforce
    ultimately have q: "cache_ok R s'" "batches_from R s'" "mpc_from R (mk_keys m) p" using m_resume_pc_data[OF assms(1) d _ r] by blast+
    have "data_ok R (s'\<lparr>ac_multis := (ac_multis s)[i := m\<lparr>mk_pc := p\<rparr>]\<rparr>)"
      using data_ok_multi[OF assms(2) q(1,2) _ m_resume_pc_tasks[OF r] disjI1[OF refl], of "m\<lparr>mk_pc := p\<rparr>" i] q(3) by simp
    then show ?thesis using Some r m_resume_pc_tasks[OF r] by (simp add: m_resume_def same_tasks_def)
  qed
qed

lemma search_begin_data:
  assumes "parser_ok env" and "cache_ok R s" and "batches_from R s" and "search_begin env k parser st force s = (p, s')"
  shows "cache_ok R s' \<and> batches_from R s' \<and> pc_from R k p \<and> same_tasks s s'"
proof -
  obtain y s1 where g: "registerParser env k parser s = (y, s1)" by fastforce
  note s1 = registerParser_data[OF assms(1,2) g] same_registerParser[OF g]
  let ?s2 = "set_static k st s1"
  have s2: "cache_ok R ?s2" "batches_from R ?s2" "same_tasks s ?s2"
    using cache_ok_cong[OF set_static_cache s1(1)] same_results[OF _ assms(3), of ?s2] same_imp_tasks[of s ?s2] s1(2) by simp_all
  obtain z s3 where a: "(if force then addToBatch [k] ?s2 else (Inr 0, ?s2)) = (z, s3)" by fastforce
  have s3: "cache_ok R s3" "batches_from R s3" "same_tasks s s3"
    using a addToBatch_data[of "[k]" ?s2 z s3] cache_ok_cong[of s3 ?s2, OF _ s2(1)] batches_from_cong[of s3 ?s2, OF _ s2(2)] s2
      same_tasks_addToBatch[of "[k]" ?s2 z s3] by (auto simp: same_tasks_def split: if_splits)
  have "pc_from R k (Searched (Inr (case mac_get (ac_cache s3) k of Some r \<Rightarrow> r | None \<Rightarrow> None)))"
    using s3(1) by (auto simp: cache_ok_def mac_get_def outcome_ok_Inr split: option.splits)
  moreover have "results_ok R Map.empty" by (simp add: results_ok_def)
  ultimately show ?thesis using assms(3,4) g a s1 s3 same_results[OF s1(2) assms(3)] same_imp_tasks[OF s1(2)]
    by (cases y; cases z) (auto simp: search_begin_def in_flight_data Let_def split: if_splits)
qed

lemma begin_search_data:
  assumes "parser_ok env" and "data_ok R s"
  shows "data_ok R (begin_search env aft k parser st force s)"
proof -
  obtain p s' where r: "search_begin env k parser st force s = (p, s')" by fastforce
  have "cache_ok R s' \<and> batches_from R s' \<and> pc_from R k p \<and> same_tasks s s'"
    using assms(2) by (intro search_begin_data[OF assms(1) _ _ r]) (simp_all add: data_ok_def)
  then show ?thesis using r assms(2) by (auto simp: begin_search_def same_tasks_def intro!: data_ok_task[OF assms(2)])
qed

lemma data_ok_cong:
  "data_ok R s \<Longrightarrow> same_tasks s s' \<Longrightarrow> cache_ok R s' \<Longrightarrow> batches_from R s' \<Longrightarrow> data_ok R s'"
  by (simp add: data_ok_def same_tasks_def)

lemma data_ok_same: "data_ok R s \<Longrightarrow> same s s' \<Longrightarrow> cache_ok R s' \<Longrightarrow> data_ok R s'"
  by (rule data_ok_cong) (auto simp: data_ok_def same_imp_tasks intro: same_results)

lemma results_ok_mono: "results_ok R r \<Longrightarrow> R \<subseteq> R' \<Longrightarrow> results_ok R' r"
  by (auto simp: results_ok_def)

lemma outcome_ok_mono: "outcome_ok R k r \<Longrightarrow> R \<subseteq> R' \<Longrightarrow> outcome_ok R' k r"
  by (cases "(R, k, r)" rule: outcome_ok.cases) (auto simp: from_node_def)

lemma slots_from_mono: "slots_from R ks r \<Longrightarrow> R \<subseteq> R' \<Longrightarrow> slots_from R' ks r"
proof (cases r)
  case (Inr slots)
  have "slot_from R k x \<Longrightarrow> R \<subseteq> R' \<Longrightarrow> slot_from R' k x" for k x by (cases x) (auto simp: from_node_def)
  then show "slots_from R ks r \<Longrightarrow> R \<subseteq> R' \<Longrightarrow> ?thesis" using Inr by (auto elim!: list_all2_mono)
qed simp

lemma data_ok_mono:
  assumes "data_ok R s" and "R \<subseteq> R'"
  shows "data_ok R' s"
proof -
  have "pc_from R k p \<Longrightarrow> pc_from R' k p" for k p using assms(2) by (cases p) (auto intro: results_ok_mono outcome_ok_mono)
  moreover have "mpc_from R ks p \<Longrightarrow> mpc_from R' ks p" for ks p
    using assms(2) slots_from_mono[of R ks "Inr _" R'] by (cases p) (auto intro: results_ok_mono slots_from_mono)
  moreover have "cache_ok R' s" "batches_from R' s"
    using assms results_ok_mono[OF _ assms(2)] by (auto simp: data_ok_def cache_ok_def batches_from_def from_node_def)
  ultimately show ?thesis using assms(1) by (auto simp: data_ok_def)
qed

lemma fetched_data:
  assumes "data_ok R s" and "aligned rpc" and "\<And>k a. node_reports env rpc k a \<Longrightarrow> (k, a) \<in> R"
  shows "data_ok R (fetched env b rpc s)"
proof (cases "b < length (ac_batchers s) \<and> bt_pending (ac_batchers s ! b)")
  case True
  let ?v = "batch_answer env rpc (bt_currentBatch (ac_batchers s ! b))"
  have "results_ok R (entries ?v)" using batch_answer_reports[OF assms(2)] assms(3) by (auto simp: results_ok_def)
  moreover have "batches_from R s" using assms(1) by (simp add: data_ok_def)
  ultimately have "batches_from R (change_batcher b (\<lambda>bt. (batcher_resolve ?v bt)\<lparr>bt_pending := False\<rparr>) s)"
    by (auto simp: batcher_resolve_def split: if_splits intro!: batches_from_change intro: batches_from_nth)
  then have "batches_from R (fetched env b rpc s)" using True by (simp add: fetched_eq batches_from_def)
  then show ?thesis using True
    by (intro data_ok_cong[OF assms(1)]) (use assms(1) in \<open>auto simp: fetched_eq same_tasks_def change_batcher_def cache_ok_def data_ok_def drop_batch_def\<close>)
next
  case False
  then have "fetched env b rpc s = s" by (auto simp: fetched_eq)
  with assms(1) show ?thesis by simp
qed

lemma notify_data:
  assumes "parser_ok env" and "data_ok R s" and "(k, a) \<in> R"
  shows "data_ok R (notify env k a s)"
proof -
  have "data_ok R (onAccountChange env k a s)" if "data_ok R s" for s
  proof -
    obtain y s1 where g: "getParsed env k a None s = (y, s1)" by fastforce
    have "cache_ok R s" using that by (simp add: data_ok_def)
    from getParsed_data[OF assms(1) this assms(3) g] g have "cache_ok R (onAccountChange env k a s)"
      by (cases y) (auto simp: onAccountChange_def intro: cache_ok_raise)
    then show ?thesis by (rule data_ok_same[OF that same_onAccountChange])
  qed
  then show ?thesis unfolding notify_def using assms(2) by (rule foldl_keeps[where P = "data_ok R", rotated])
qed

text \<open>What an event reports: the accounts in an answer of the node, or the one in a notification.\<close>

fun event_reports :: "cache_env \<Rightarrow> event \<Rightarrow> reports" where
  "event_reports env (Fetched b rpc) = {(k, a). node_reports env rpc k a}"
| "event_reports env (Notify k a) = {(k, a)}"
| "event_reports env _ = {}"

fun event_aligned :: "event \<Rightarrow> bool" where
  "event_aligned (Fetched b rpc) \<longleftrightarrow> aligned rpc"
| "event_aligned _ \<longleftrightarrow> True"

lemma handle_data:
  assumes "parser_ok env" and "data_ok R s" and "event_reports env ev \<subseteq> R" and "event_aligned ev"
  shows "data_ok R (handle env ev s)"
proof -
  have c: "cache_ok R s" using assms(2) by (simp add: data_ok_def)
  have begins: "data_ok R (foldl (\<lambda>s' k. begin_search env (aft s' k) k (pr s' k) (st s' k) True s') s1 ks)" if "data_ok R s1" for aft pr st s1 ks
    using that by (rule foldl_keeps) (rule begin_search_data[OF assms(1)])
  have un: "data_ok R (s\<lparr>ac_unchanged := us\<rparr>)" for us using assms(2) by (simp add: data_ok_def cache_ok_def batches_from_def)
  have multi: "data_ok R (begin_multiple w ks p st f s)" for w ks p st f
    unfolding begin_multiple_def using assms(2)
    by (intro data_ok_multi[OF assms(2) _ _ _ _ disjI2[OF refl]]) (auto simp: data_ok_def same_tasks_def results_ok_def intro: in_flight_data)
  have fetch: "data_ok R (fetchBatch (s\<lparr>ac_timeout := False\<rparr>))"
  proof -
    have b: "batches_from R (push_batcher (s\<lparr>ac_timeout := False\<rparr>))"
      using assms(2) by (auto simp: data_ok_def batches_from_def push_batcher_def newBatcher_def)
    then have "batches_from R (fetchBatch (s\<lparr>ac_timeout := False\<rparr>))"
      by (auto simp: fetchBatch_def batcher_start_def intro: batches_from_nth intro!: batches_from_change split: option.splits)
    then show ?thesis
      by (intro data_ok_cong[OF assms(2)])
        (use c in \<open>auto simp: fetchBatch_def push_batcher_def change_batcher_def cache_ok_def same_tasks_def split: option.splits\<close>)
  qed
  show ?thesis
  proof (cases ev)
    case (Fetched b rpc)
    then have "data_ok R (fetched env b rpc s)" using assms(3,4) by (intro fetched_data[OF assms(2)]) auto
    with Fetched show ?thesis by simp
  next
    case (Notify k a)
    with notify_data[OF assms(1,2)] assms(3) show ?thesis by auto
  next
    case (Dispose k)
    obtain y s1 where g: "dispose env k s = (y, s1)" by fastforce
    with Dispose data_ok_same[OF assms(2) same_dispose[OF g] cache_ok_cong[OF dispose_data[OF g] c]] show ?thesis by simp
  next
    case (Register k p)
    obtain y s1 where g: "registerParser env k (Some p) s = (y, s1)" by fastforce
    with Register data_ok_same[OF assms(2) same_registerParser[OF g] registerParser_data[OF assms(1) c g]] show ?thesis by simp
  next
    case (Delete k)
    obtain y s1 where g: "deleteAccount env k s = (y, s1)" by fastforce
    have "cache_ok R s1" using g c by (auto simp: deleteAccount_def cache_ok_def removeListener_def mac_delete_def Let_def split: option.splits if_splits sum.splits prod.splits)
    with Delete g data_ok_same[OF assms(2) same_deleteAccount[OF g]] show ?thesis by simp
  next
    case Close
    have "data_ok R (foldl (\<lambda>s' b. change_batcher b (batcher_reject (Err ''AccountFetchCache closed'')) s') s1 bs)" if "data_ok R s1" for s1 bs
    proof (rule foldl_keeps[where P = "data_ok R", OF that])
      fix s2 b
      assume d: "data_ok R s2"
      then have "batches_from R (change_batcher b (batcher_reject (Err ''AccountFetchCache closed'')) s2)"
        by (intro batches_from_change)
          (auto simp: data_ok_def batcher_reject_def batcher_resolve_def results_ok_def split: if_splits dest: batches_from_nth)
      with d show "data_ok R (change_batcher b (batcher_reject (Err ''AccountFetchCache closed'')) s2)"
        by (intro data_ok_cong[OF d]) (auto simp: change_batcher_def cache_ok_def data_ok_def same_tasks_def)
    qed
    moreover have "data_ok R (s\<lparr>ac_interval := False\<rparr>)" using assms(2) by (simp add: data_ok_def cache_ok_def batches_from_def)
    ultimately show ?thesis using Close by (simp add: close_def)
  qed (use assms multi fetch begins[OF un] begins[OF assms(2)] begin_search_data[OF assms(1,2)] resume_data[OF assms(1,2)] in
      \<open>auto simp: search_def query_def searchAndWatch_def searchMultiple_def searchMultipleAndWatch_def requeryMissing_def
        requeryMissingByAccount_def fetchMissing_def timer_fires_def flush_def Let_def\<close>)
qed

lemma run_data:
  assumes "parser_ok env" and "data_ok R s" and "\<forall>ev \<in> set evs. event_aligned ev \<and> event_reports env ev \<subseteq> R"
  shows "data_ok R (run_events env evs s)"
  using assms(2,3) by (induction evs arbitrary: s) (auto intro: handle_data[OF assms(1)])

text \<open>
  C34. The cache never invents: in every run with any events in any order, every account that is cached,
  that a call of \<open>search\<close>, \<open>query\<close>, \<open>searchAndWatch\<close>, \<open>requeryMissing\<close> or \<open>fetchMissing\<close> settles with, or
  that fills a slot of \<open>searchMultiple\<close>, was reported by the node for exactly that key: it stands at the
  position of the key in an answer, or came in a notification for it. (Parsers keep the key and the
  account they are given, and an answer has one entry for each key of the request.)
\<close>

theorem cache_only_reported:
  assumes "parser_ok env" and "\<forall>ev \<in> set evs. event_aligned ev" and "s = run_events env evs accountFetchCache"
    and "R = (\<Union>ev \<in> set evs. event_reports env ev)"
  shows "(\<forall>k p. ac_cache s k = Some (Some p) \<longrightarrow> pa_pubkey p = k \<and> (k, pa_account p) \<in> R)
    \<and> (\<forall>t \<in> set (ac_tasks s). \<forall>p. tk_pc t = Settled (Inr (Some p)) \<longrightarrow> pa_pubkey p = tk_key t \<and> (tk_key t, pa_account p) \<in> R)
    \<and> (\<forall>m \<in> set (ac_multis s). \<forall>slots. mk_pc m = MSettled (Inr slots) \<longrightarrow> length slots = length (mk_keys m)
         \<and> (\<forall>i < length slots. case slots ! i of
              Parsed p \<Rightarrow> pa_pubkey p = mk_keys m ! i \<and> (mk_keys m ! i, pa_account p) \<in> R
            | Raw a \<Rightarrow> (mk_keys m ! i, a) \<in> R
            | _ \<Rightarrow> True))"
proof -
  have "data_ok R accountFetchCache"
    by (simp add: data_ok_def accountFetchCache_def cache_ok_def batches_from_def newBatcher_def)
  then have d: "data_ok R s" unfolding assms(3) using assms(2,4) by (intro run_data[OF assms(1)]) auto
  show ?thesis
  proof (intro conjI)
    show "\<forall>k p. ac_cache s k = Some (Some p) \<longrightarrow> pa_pubkey p = k \<and> (k, pa_account p) \<in> R"
      using d by (simp add: data_ok_def cache_ok_def from_node_def)
    show "\<forall>t \<in> set (ac_tasks s). \<forall>p. tk_pc t = Settled (Inr (Some p)) \<longrightarrow> pa_pubkey p = tk_key t \<and> (tk_key t, pa_account p) \<in> R"
    proof (intro ballI allI impI)
      fix t p
      assume "t \<in> set (ac_tasks s)" "tk_pc t = Settled (Inr (Some p))"
      with d have "pc_from R (tk_key t) (Settled (Inr (Some p)))" by (auto simp: data_ok_def dest!: bspec)
      then show "pa_pubkey p = tk_key t \<and> (tk_key t, pa_account p) \<in> R" by (simp add: from_node_def)
    qed
    show "\<forall>m \<in> set (ac_multis s). \<forall>slots. mk_pc m = MSettled (Inr slots) \<longrightarrow> length slots = length (mk_keys m)
         \<and> (\<forall>i < length slots. case slots ! i of
              Parsed p \<Rightarrow> pa_pubkey p = mk_keys m ! i \<and> (mk_keys m ! i, pa_account p) \<in> R
            | Raw a \<Rightarrow> (mk_keys m ! i, a) \<in> R
            | _ \<Rightarrow> True)"
    proof (intro ballI allI impI)
      fix m slots
      assume "m \<in> set (ac_multis s)" "mk_pc m = MSettled (Inr slots)"
      with d have "mpc_from R (mk_keys m) (MSettled (Inr slots))" unfolding data_ok_def by metis
      then have "list_all2 (slot_from R) (mk_keys m) slots" by simp
      then show "length slots = length (mk_keys m) \<and> (\<forall>i < length slots. case slots ! i of
              Parsed p \<Rightarrow> pa_pubkey p = mk_keys m ! i \<and> (mk_keys m ! i, pa_account p) \<in> R
            | Raw a \<Rightarrow> (mk_keys m ! i, a) \<in> R
            | _ \<Rightarrow> True)"
        by (auto simp: list_all2_conv_all_nth from_node_def split: slot.splits)
    qed
  qed
qed

definition demo_raw :: raw_account where
  "demo_raw = \<lparr>ra_owner = ''o'', ra_lamports = 5, ra_executable = False, ra_data = [''AB'']\<rparr>"

definition demo_node :: "pubkey list \<Rightarrow> rpc_answer" where
  "demo_node ks = Rpc_value (map (\<lambda>k. Some demo_raw) ks)"

definition demo_account :: account_info where
  "demo_account = \<lparr>ai_owner = ''o'', ai_lamports = 5, ai_executable = False, ai_data = [65, 66]\<rparr>"

definition demo_fetch :: "event list" where
  "demo_fetch = [SearchAndWatch ''k'' (Some 7) False False, Resume 0, Timer, Fetched 0 demo_node, Resume 0, Resume 0]"

lemma demo_fetch_run:
  "ac_cache (run_events (demo_cache_env Suc) demo_fetch accountFetchCache) ''k'' =
     Some (Some \<lparr>pa_ref = 0, pa_pubkey = ''k'', pa_account = demo_account, pa_info = Some ''info''\<rparr>)"
  by (simp add: demo_fetch_def demo_cache_env_def cache_run_simps demo_node_def demo_raw_def demo_account_def decode_account_def
      search_end_def getParsed_def new_parsed_def same_object_def subscribe_def)

theorem cache_only_reported_witness:
  "\<exists>p. ac_cache (run_events (demo_cache_env Suc) demo_fetch accountFetchCache) ''k'' = Some (Some p)
     \<and> (''k'', pa_account p) \<in> (\<Union>ev \<in> set demo_fetch. event_reports (demo_cache_env Suc) ev)"
proof -
  have "parser_ok (demo_cache_env Suc)" by (auto simp: parser_ok_def demo_cache_env_def)
  moreover have "\<forall>ev \<in> set demo_fetch. event_aligned ev" by (simp add: demo_fetch_def aligned_def demo_node_def)
  ultimately show ?thesis using cache_only_reported[OF _ _ refl refl, of "demo_cache_env Suc" demo_fetch] demo_fetch_run by metis
qed

text \<open>
  Batching is invisible: against a node that answers each key on its own, a batch of any size (sent in
  requests of at most 99 keys) settles with exactly the decoded answers of its keys, and nothing for
  accounts that do not exist or were not asked for.
\<close>

theorem batch_transparent:
  assumes "\<forall>ks. rpc ks = Rpc_value (map f ks)" and "\<forall>k \<in> set keys. \<forall>raw. f k = Some raw \<longrightarrow> decode_account env raw = Inr (d raw)"
  shows "batch_answer env rpc keys = Accounts (\<lambda>k. if k \<in> set keys then map_option d (f k) else None)"
proof -
  have "accounts_from env rpc keys = Inr (map (\<lambda>k. map_option d (f k)) keys)"
    using assms(2) by (intro accounts_from_map[OF assms(1)]) (auto simp: process_account_def split: option.splits)
  moreover have "grouped keys (map (\<lambda>k. map_option d (f k)) keys) k = (if k \<in> set keys then map_option d (f k) else None)" for k
  proof -
    let ?as = "map (\<lambda>k. map_option d (f k)) keys"
    have "foldl (\<lambda>acc (index, key). case js_nth ?as index of Some (Some account) \<Rightarrow> acc(key \<mapsto> account) | _ \<Rightarrow> acc) m xs k =
        (if k \<in> snd ` set xs \<and> f k \<noteq> None then map_option d (f k) else m k)"
      if "\<forall>(i, x) \<in> set xs. i < length keys \<and> keys ! i = x" for m :: results and xs
      using that by (induction xs arbitrary: m) (auto simp: js_nth_def split: option.splits)
    moreover have "\<forall>(i, x) \<in> set (enumerate 0 keys). i < length keys \<and> keys ! i = x" by (auto simp: in_set_enumerate_eq)
    moreover have "snd ` set (enumerate 0 keys) = set keys" by (metis map_snd_enumerate set_map)
    ultimately show ?thesis unfolding grouped_def by simp
  qed
  ultimately show ?thesis by (auto simp: batch_answer_def getMultipleAccounts_def)
qed

theorem batch_transparent_witness:
  "batch_answer (demo_cache_env Suc) (\<lambda>ks. Rpc_value (map (\<lambda>k. if k = ''x'' then Some demo_raw else None) ks)) [''x'', ''y''] =
     Accounts (\<lambda>k. if k \<in> {''x'', ''y''} then map_option (\<lambda>_. demo_account) (if k = ''x'' then Some demo_raw else None) else None)"
  using batch_transparent[of "\<lambda>ks. Rpc_value (map (\<lambda>k. if k = ''x'' then Some demo_raw else None) ks)"
      "\<lambda>k. if k = ''x'' then Some demo_raw else None" "[''x'', ''y'']" "demo_cache_env Suc" "\<lambda>_. demo_account"]
  by (simp add: decode_account_def demo_cache_env_def demo_raw_def demo_account_def js_nth_def)

section \<open>A failed request\<close>

lemma after_missing:
  assumes "watch_result env t None s = (r, s')"
  shows "r = Inr () \<and> ac_cache s' (tk_key t) = Some None \<and> tk_key t \<in> fst ` set (ac_missing s') \<and> same_tasks s s'"
  using assms same_imp_tasks[OF same_watch_result[OF assms]]
  by (auto simp: watch_result_def watch_def Let_def same_object_def updateCache_def updateCacheAndRaiseUpdated_def mac_set_def mac_has_def mac_get_def
      split: if_splits option.splits)

text \<open>
  A failed request is taken for a missing account: when the request of the batch a \<open>searchAndWatch\<close>
  waits for fails, the call settles successfully with nothing, caches that the account does not exist,
  even where an account was cached before, and polls it, instead of reporting the failure. The batcher's
  \<open>reject\<close> is bound to \<open>resolve\<close>.
\<close>

theorem failed_fetch_looks_missing:
  assumes "i < length (ac_tasks s)" and "tk_pc (ac_tasks s ! i) = Own b" and "tk_after (ac_tasks s ! i) = Watch"
    and "b < length (ac_batchers s)" and "bt_pending (ac_batchers s ! b)" and "bt_result (ac_batchers s ! b) = None"
    and "getMultipleAccounts env rpc (bt_currentBatch (ac_batchers s ! b)) = Inl e"
    and "k = tk_key (ac_tasks s ! i)" and "s' = run_events env [Fetched b rpc, Resume i, Resume i] s"
  shows "tk_pc (ac_tasks s' ! i) = Settled (Inr None) \<and> ac_cache s' k = Some None \<and> k \<in> fst ` set (ac_missing s')"
proof -
  let ?t = "ac_tasks s ! i" and ?s1 = "fetched env b rpc s"
  have t1: "ac_tasks ?s1 = ac_tasks s" by (simp add: fetched_eq drop_batch_def change_batcher_def)
  have "result_of ?s1 b = Some (An_error e)"
    using assms(4-7) by (simp add: fetched_eq result_of_eq change_batcher_def batcher_resolve_def batch_answer_def)
  then have r1: "resume env i ?s1 = ?s1\<lparr>ac_tasks := (ac_tasks s)[i := ?t\<lparr>tk_pc := Searched (Inr None)\<rparr>]\<rparr>"
    using assms(1,2) t1 by (simp add: resume_def js_nth_def resume_pc_def)
  let ?s2 = "resume env i ?s1" and ?u = "?t\<lparr>tk_pc := Searched (Inr None)\<rparr>"
  obtain r s3 where w: "watch_result env ?u None ?s2 = (r, s3)" by fastforce
  note m = after_missing[OF w]
  have n: "js_nth (ac_tasks ?s2) i = Some ?u" using assms(1) by (simp add: r1 js_nth_def)
  have "resume_pc env ?u ?s2 = (Settled (Inr None), s3)" using w m assms(3) by (simp add: resume_pc_def after_search_def)
  then have "resume env i ?s2 = s3\<lparr>ac_tasks := (ac_tasks s3)[i := ?u\<lparr>tk_pc := Settled (Inr None)\<rparr>]\<rparr>"
    using n by (simp add: resume_def)
  moreover have "s' = resume env i ?s2" using assms(9) by simp
  moreover have "length (ac_tasks s3) = length (ac_tasks s)" using m by (simp add: same_tasks_def r1)
  ultimately show ?thesis using m assms(1,8) by simp
qed

definition demo_failing :: "event list" where
  "demo_failing = demo_fetch @ [SearchAndWatch ''k'' None False True, Resume 1, Timer]"

theorem failed_fetch_looks_missing_witness:
  "\<exists>s. s = run_events (demo_cache_env Suc) demo_failing accountFetchCache \<and> ac_cache s ''k'' \<noteq> Some None
    \<and> ac_cache (run_events (demo_cache_env Suc) [Fetched 1 (\<lambda>_. Rpc_error ''busy''), Resume 1, Resume 1] s) ''k'' = Some None"
proof -
  let ?e = "demo_cache_env Suc" and ?s = "run_events (demo_cache_env Suc) demo_failing accountFetchCache"
  have s: "length (ac_tasks ?s) = 2" "tk_pc (ac_tasks ?s ! 1) = Own 1" "tk_after (ac_tasks ?s ! 1) = Watch" "tk_key (ac_tasks ?s ! 1) = ''k''"
    "length (ac_batchers ?s) = 3" "bt_pending (ac_batchers ?s ! 1)" "bt_result (ac_batchers ?s ! 1) = None"
    "bt_currentBatch (ac_batchers ?s ! 1) = [''k'']" "ac_cache ?s ''k'' \<noteq> Some None"
    by (simp_all add: demo_failing_def demo_fetch_def demo_cache_env_def cache_run_simps demo_node_def demo_raw_def decode_account_def
        search_end_def getParsed_def new_parsed_def same_object_def subscribe_def)
  have "getMultipleAccounts ?e (\<lambda>_. Rpc_error ''busy'') (bt_currentBatch (ac_batchers ?s ! 1)) = Inl (Err (''failed to get info about account '' @ ''busy''))"
    by (simp only: s(8)) (simp add: getMultipleAccounts_def getMultipleAccountsCore_def)
  from failed_fetch_looks_missing[of 1 ?s 1 ?e _ _ "''k''", OF _ s(2,3) _ s(6,7) this s(4)[symmetric] refl] s show ?thesis by auto
qed

end
