(* ===== verification/Account_Cache_Watch.thy ===== *)
theory Account_Cache_Watch
  imports Account_Cache_Data
begin

text \<open>
  Watching: the subscriptions and the polled accounts of the cache follow the watcher counts. Nothing is
  subscribed twice, and what nobody watches is neither subscribed nor polled, as long as the connection
  hands out subscription ids other than 0 and each disposer is called once; a subscription with the id 0
  is never removed.
\<close>

section \<open>What leaves the watchers alone\<close>

definition unwatched :: "cache_state \<Rightarrow> cache_state \<Rightarrow> bool" where
  "unwatched s s' \<longleftrightarrow> ac_watchers s' = ac_watchers s \<and> ac_listeners s' = ac_listeners s \<and> ac_live s' = ac_live s
     \<and> ac_subs s' = ac_subs s \<and> ac_missing s' = ac_missing s"

lemma unwatched_refl [simp, intro]: "unwatched s s"
  by (simp add: unwatched_def)

lemma unwatched_trans: "unwatched s s' \<Longrightarrow> unwatched s' s'' \<Longrightarrow> unwatched s s''"
  by (simp add: unwatched_def)

lemma unwatched_upd [simp]:
  "unwatched s (updateCache k d s') \<longleftrightarrow> unwatched s s'"
  "unwatched (updateCache k d s) s' \<longleftrightarrow> unwatched s s'"
  "unwatched s (updateCacheAndRaiseUpdated k d s') \<longleftrightarrow> unwatched s s'"
  "unwatched s (set_static k b s') \<longleftrightarrow> unwatched s s'"
  "unwatched (set_static k b s) s' \<longleftrightarrow> unwatched s s'"
  "unwatched s (drop_batch c s') \<longleftrightarrow> unwatched s s'"
  "unwatched s (change_batcher c f s') \<longleftrightarrow> unwatched s s'"
  "unwatched s (push_batcher s') \<longleftrightarrow> unwatched s s'"
  "unwatched s (s'\<lparr>ac_tasks := ts\<rparr>) \<longleftrightarrow> unwatched s s'"
  "unwatched s (s'\<lparr>ac_multis := ms\<rparr>) \<longleftrightarrow> unwatched s s'"
  "unwatched s (s'\<lparr>ac_unchanged := us\<rparr>) \<longleftrightarrow> unwatched s s'"
  "unwatched s (s'\<lparr>ac_timeout := x\<rparr>) \<longleftrightarrow> unwatched s s'"
  "unwatched s (s'\<lparr>ac_interval := x\<rparr>) \<longleftrightarrow> unwatched s s'"
  by (simp_all add: unwatched_def updateCache_def updateCacheAndRaiseUpdated_def set_static_def drop_batch_def
      change_batcher_def push_batcher_def Let_def)

lemma unwatched_registerParser: "registerParser env k p s = (r, s') \<Longrightarrow> unwatched s s'"
  by (auto simp: registerParser_def unwatched_def updateCache_def new_parsed_def Let_def
      split: option.splits if_splits sum.splits prod.splits)

lemma unwatched_getParsed: "getParsed env k a p s = (r, s') \<Longrightarrow> unwatched s s'"
  unfolding getParsed_def
  by (auto simp: unwatched_def new_parsed_def Let_def dest!: unwatched_registerParser split: option.splits if_splits sum.splits prod.splits)

lemma unwatched_addToBatch: "addToBatch ids s = (r, s') \<Longrightarrow> unwatched s s'"
  by (auto simp: addToBatch_def split: option.splits)

lemma unwatched_fetchBatch: "unwatched s (fetchBatch s)"
  by (simp add: fetchBatch_def split: option.splits)

lemma unwatched_fetched: "unwatched s (fetched env b rpc s)"
  by (simp add: fetched_eq)

lemma unwatched_close: "unwatched s (close s)"
  unfolding close_def by (rule foldl_keeps) auto

lemma unwatched_notify: "unwatched s (notify env k a s)"
  unfolding notify_def
proof (rule foldl_keeps[where P = "unwatched s"])
  fix s1
  assume "unwatched s s1"
  moreover obtain y s2 where g: "getParsed env k a None s1 = (y, s2)" by fastforce
  ultimately show "unwatched s (onAccountChange env k a s1)"
    using unwatched_getParsed[OF g] by (cases y) (auto simp: onAccountChange_def intro: unwatched_trans)
qed simp

lemma unwatched_search_end: "search_end env t d s = (p, s') \<Longrightarrow> unwatched s s'"
  unfolding search_end_def by (auto split: prod.splits sum.splits dest!: unwatched_getParsed)

lemma unwatched_first_pass: "first_pass env m r xs acc s = (q, s') \<Longrightarrow> unwatched s s'"
proof (induction xs arbitrary: acc s)
  case (Cons x xs)
  obtain i k res ks im where x: "x = (i, k)" "acc = (res, ks, im)" by (metis surj_pair)
  obtain y s1 where g: "registerParser env k (mk_parser m) s = (y, s1)" by fastforce
  obtain z s2 where f: "first_pass_step env m r x acc s = (z, s2)" by fastforce
  have "unwatched s s2" using f g unwatched_registerParser[OF g] by (cases y) (auto simp: first_pass_step_def x Let_def)
  moreover have "unwatched s2 s'" using Cons f by (cases z) auto
  ultimately show ?case by (rule unwatched_trans)
qed simp

lemma unwatched_second_pass: "second_pass env m as im ks res s = (q, s') \<Longrightarrow> unwatched s s'"
proof (induction ks arbitrary: res s)
  case (Cons k ks)
  show ?case
  proof (cases "as k")
    case None
    with Cons show ?thesis by (simp add: Let_def)
  next
    case (Some a)
    obtain r s1 where g: "getParsed env k a (mk_parser m) s = (r, s1)" by fastforce
    note unwatched_getParsed[OF g]
    moreover have "unwatched s1 s'"
    proof (cases r)
      case (Inl e)
      with Cons.prems Some g show ?thesis by (simp add: Let_def)
    next
      case (Inr p)
      from Cons.IH[of "res[the (im k) := Parsed p]" "if mk_static m \<and> pa_info p \<noteq> None then updateCache k (Some p) s1 else s1"]
        Cons.prems Some g Inr show ?thesis by (simp add: Let_def split: if_splits)
    qed
    ultimately show ?thesis by (rule unwatched_trans)
  qed
qed simp

lemma unwatched_search_begin:
  assumes "search_begin env k parser st force s = (p, s')"
  shows "unwatched s s'"
proof -
  obtain y s1 where g: "registerParser env k parser s = (y, s1)" by fastforce
  have a: "addToBatch [k] (set_static k st s1) = (z, s2) \<Longrightarrow> unwatched s s2" for z s2
    using unwatched_trans[OF unwatched_registerParser[OF g]] unwatched_addToBatch[of "[k]" "set_static k st s1" z s2] by simp
  show ?thesis using assms g a unwatched_registerParser[OF g]
    by (cases y) (auto simp: search_begin_def Let_def split: if_splits prod.splits sum.splits)
qed

section \<open>Calls that hold a watch\<close>

fun is_watched :: "pc \<Rightarrow> bool" where
  "is_watched (Watched d) = True"
| "is_watched _ = False"

text \<open>The calls that watch a key and will dispose of it themselves.\<close>

definition holds :: "cache_state \<Rightarrow> pubkey \<Rightarrow> int" where
  "holds s k = int (sum_list (map (\<lambda>t. of_bool (tk_key t = k \<and> is_watched (tk_pc t))) (ac_tasks s)))"

definition watchers_of :: "cache_state \<Rightarrow> pubkey \<Rightarrow> int" where
  "watchers_of s k = (case ac_watchers s k of None \<Rightarrow> 0 | Some n \<Rightarrow> n)"

text \<open>
  What is assumed of the connection: subscribing and removing work, and ids are distinct and not 0.
\<close>

definition good_ids :: "cache_env \<Rightarrow> bool" where
  "good_ids env \<longleftrightarrow> ce_remove env = None \<and> (\<forall>n. \<exists>i. i \<noteq> 0 \<and> ce_onAccountChange env n = Inr i)
     \<and> (\<forall>m n. ce_onAccountChange env m = ce_onAccountChange env n \<longrightarrow> m = n)"

definition subs_ok :: "cache_env \<Rightarrow> cache_state \<Rightarrow> bool" where
  "subs_ok env s \<longleftrightarrow> distinct (map (\<lambda>(u, i, k). k) (ac_live s))
     \<and> (\<forall>u i k. (u, i, k) \<in> set (ac_live s) \<longleftrightarrow> \<not> u \<and> ac_listeners s k = Some i)
     \<and> (\<forall>k i. ac_listeners s k = Some i \<longrightarrow> i \<noteq> 0 \<and> (\<exists>n < ac_subs s. ce_onAccountChange env n = Inr i))
     \<and> (\<forall>k k' i. ac_listeners s k = Some i \<and> ac_listeners s k' = Some i \<longrightarrow> k = k')
     \<and> (\<forall>k. ac_listeners s k \<noteq> None \<or> k \<in> fst ` set (ac_missing s) \<longrightarrow> 0 < watchers_of s k)"

lemma subs_ok_id: "subs_ok env s \<Longrightarrow> ac_listeners s k = Some i \<Longrightarrow> \<exists>n < ac_subs s. ce_onAccountChange env n = Inr i"
  by (simp add: subs_ok_def)

lemma subs_ok_cong: "unwatched s s' \<Longrightarrow> subs_ok env s \<Longrightarrow> subs_ok env s'"
  by (simp add: unwatched_def subs_ok_def watchers_of_def)

lemma watchers_of_cong: "unwatched s s' \<Longrightarrow> watchers_of s' = watchers_of s"
  by (simp add: unwatched_def watchers_of_def fun_eq_iff)

lemma watch_subs:
  assumes "good_ids env" and "subs_ok env s" and "watch env k p e s = (r, s')" and "0 \<le> watchers_of s k"
  shows "subs_ok env s' \<and> r = Inr () \<and> (\<forall>k'. watchers_of s' k' = (if k' = k then watchers_of s k + 1 else watchers_of s k'))"
proof -
  let ?s1 = "s\<lparr>ac_watchers := (ac_watchers s)(k \<mapsto> watchers_of s k + 1)\<rparr>"
  have c: "watchers_of ?s1 k' = (if k' = k then watchers_of s k + 1 else watchers_of s k')" for k' by (simp add: watchers_of_def)
  have ok1: "subs_ok env ?s1"
    using assms(2,4) by (auto simp: subs_ok_def c)
  show ?thesis
  proof (cases "e \<and> k \<notin> ac_statics s \<and> ac_listeners s k = None")
    case True
    obtain i where i: "i \<noteq> 0" "ce_onAccountChange env (ac_subs s) = Inr i" using assms(1) unfolding good_ids_def by blast
    have fresh: "ac_listeners s k' \<noteq> Some i" for k'
    proof
      assume "ac_listeners s k' = Some i"
      then obtain n where "n < ac_subs s" "ce_onAccountChange env n = Inr i" using subs_ok_id[OF assms(2)] by blast
      with assms(1) i(2) show False unfolding good_ids_def by (metis less_irrefl)
    qed
    have "k \<notin> (\<lambda>(u, i, k). k) ` set (ac_live s)" using assms(2) True by (auto simp: subs_ok_def)
    moreover have s': "r = Inr ()" "s' = ?s1\<lparr>ac_subs := Suc (ac_subs s), ac_listeners := (ac_listeners s)(k \<mapsto> i), ac_live := ac_live s @ [(False, i, k)]\<rparr>"
      using assms(3) True i(2) by (auto simp: watch_def subscribe_def Let_def watchers_of_def split: option.splits)
    moreover have "distinct (map (\<lambda>(u, i, k). k) (ac_live s'))" "\<And>u j k'. (u, j, k') \<in> set (ac_live s') \<longleftrightarrow> \<not> u \<and> ac_listeners s' k' = Some j"
      using calculation assms(2) True by (auto simp: subs_ok_def s'(2))
    moreover have "j \<noteq> 0 \<and> (\<exists>n < ac_subs s'. ce_onAccountChange env n = Inr j)" if "ac_listeners s' k' = Some j" for k' j
    proof (cases "k' = k")
      case True
      then show ?thesis using that i by (auto simp: s'(2))
    next
      case False
      then have "ac_listeners s k' = Some j" using that by (simp add: s'(2))
      moreover from this have "j \<noteq> 0" using assms(2) by (auto simp: subs_ok_def)
      ultimately show ?thesis using subs_ok_id[OF assms(2), of k' j] by (auto simp: s'(2) intro: less_SucI)
    qed
    moreover have "k1 = k2" if "ac_listeners s' k1 = Some j" "ac_listeners s' k2 = Some j" for k1 k2 j
      using that fresh assms(2) by (auto simp: s'(2) subs_ok_def split: if_splits)
    moreover have "0 < watchers_of s' k'" if "ac_listeners s' k' \<noteq> None \<or> k' \<in> fst ` set (ac_missing s')" for k'
      using that assms(2,4) by (auto simp: s'(2) subs_ok_def watchers_of_def split: if_splits)
    ultimately have "subs_ok env s'" unfolding subs_ok_def by blast
    moreover have "watchers_of s' k' = watchers_of ?s1 k'" for k' by (simp add: s'(2) watchers_of_def)
    ultimately show ?thesis using s'(1) c by simp
  next
    case False
    then have s': "r = Inr ()" "s' = ?s1 \<or> (\<exists>x. s' = ?s1\<lparr>ac_missing := obj_set (ac_missing s) k x\<rparr>)"
      using assms(3) by (auto simp: watch_def Let_def watchers_of_def split: if_splits option.splits)
    have "subs_ok env (?s1\<lparr>ac_missing := obj_set (ac_missing s) k x\<rparr>)" for x
      using assms(2,4) by (auto simp: subs_ok_def watchers_of_def)
    moreover have "watchers_of s' k' = watchers_of ?s1 k'" for k' using s'(2) by (auto simp: watchers_of_def)
    ultimately show ?thesis using s' c ok1 by auto
  qed
qed

lemma distinct_filter_keys: "distinct (map f xs) \<Longrightarrow> distinct (map f (filter P xs))"
  by (induction xs) auto

lemma unsubscribe_subs:
  assumes "subs_ok env s" and "ac_listeners s k = Some i"
  shows "subs_ok env ((removeListener False i s)\<lparr>ac_listeners := (ac_listeners s)(k := None)\<rparr>)"
proof -
  have "(\<lambda>(u, j, k'). (u, j) \<noteq> (False, i)) x \<longleftrightarrow> (\<lambda>(u, j, k'). k' \<noteq> k) x" if "x \<in> set (ac_live s)" for x
    using that assms by (auto simp: subs_ok_def split: prod.splits)
  then have "filter (\<lambda>(u, j, k'). (u, j) \<noteq> (False, i)) (ac_live s) = filter (\<lambda>(u, j, k'). k' \<noteq> k) (ac_live s)"
    by (intro filter_cong) auto
  then show ?thesis using assms(1)
    by (auto simp: subs_ok_def removeListener_def distinct_filter_keys watchers_of_def split: if_splits)
qed

lemma dispose_subs:
  assumes "good_ids env" and "subs_ok env s" and "dispose env k s = (r, s')" and "0 < watchers_of s k"
  shows "subs_ok env s' \<and> r = Inr () \<and> (\<forall>k'. watchers_of s' k' = (if k' = k then watchers_of s k - 1 else watchers_of s k'))"
proof -
  obtain n where n: "ac_watchers s k = Some n" "0 < n" using assms(4) by (auto simp: watchers_of_def split: option.splits)
  let ?s1 = "s\<lparr>ac_watchers := (ac_watchers s)(k \<mapsto> n - 1)\<rparr>"
  have rm: "ce_remove env = None" using assms(1) by (simp add: good_ids_def)
  show ?thesis
  proof (cases "n - 1 \<le> 0")
    case False
    then have "s' = ?s1" "r = Inr ()" using assms(3) n by (auto simp: dispose_def)
    moreover have "subs_ok env ?s1" using assms(2) n False by (auto simp: subs_ok_def watchers_of_def split: option.splits)
    ultimately show ?thesis using n by (auto simp: watchers_of_def)
  next
    case True
    let ?u = "case ac_listeners s k of None \<Rightarrow> s | Some i \<Rightarrow> (removeListener False i s)\<lparr>ac_listeners := (ac_listeners s)(k := None)\<rparr>"
    have nz: "ac_listeners s k = Some i \<Longrightarrow> 0 < i" for i using assms(2) by (auto simp: subs_ok_def)
    have s': "r = Inr ()" "s' = ?u\<lparr>ac_watchers := (ac_watchers s)(k \<mapsto> n - 1), ac_missing := obj_delete (ac_missing s) k\<rparr>"
      using assms(3) n True rm nz by (auto simp: dispose_def Let_def removeListener_def split: option.splits if_splits)
    have u: "subs_ok env ?u" "ac_listeners ?u k = None" "ac_missing ?u = ac_missing s" "ac_watchers ?u = ac_watchers s"
      using assms(2) unsubscribe_subs[OF assms(2)] by (auto simp: removeListener_def split: option.splits)
    have "subs_ok env s'" unfolding s'(2) using u by (auto simp: subs_ok_def watchers_of_def)
    then show ?thesis using s' n by (auto simp: watchers_of_def)
  qed
qed

lemma delete_subs:
  assumes "good_ids env" and "subs_ok env s" and "deleteAccount env k s = (r, s')"
  shows "subs_ok env s' \<and> watchers_of s' = watchers_of s"
proof (cases "ac_listeners s k")
  case None
  with assms(3) have "unwatched s s'" by (auto simp: deleteAccount_def unwatched_def split: if_splits)
  then show ?thesis using subs_ok_cong[of s s' env] watchers_of_cong[of s s'] assms(2) by simp
next
  case (Some i)
  let ?u = "(removeListener False i s)\<lparr>ac_listeners := (ac_listeners s)(k := None)\<rparr>"
  have "0 < i" using assms(2) Some by (auto simp: subs_ok_def)
  moreover have "ce_remove env = None" using assms(1) by (simp add: good_ids_def)
  ultimately have "unwatched ?u s'" using assms(3) Some by (auto simp: deleteAccount_def unwatched_def split: if_splits)
  moreover have "watchers_of ?u = watchers_of s" by (simp add: watchers_of_def removeListener_def fun_eq_iff)
  ultimately show ?thesis
    using subs_ok_cong[of ?u s' env] watchers_of_cong[of ?u s'] unsubscribe_subs[OF assms(2) Some] by simp
qed

lemma subs_ok_forget: "subs_ok env s \<Longrightarrow> subs_ok env (s\<lparr>ac_missing := obj_delete (ac_missing s) k\<rparr>) \<and> watchers_of (s\<lparr>ac_missing := x\<rparr>) = watchers_of s"
  by (auto simp: subs_ok_def watchers_of_def fun_eq_iff)

section \<open>The invariant of the runs\<close>

definition watch_ok :: "cache_env \<Rightarrow> cache_state \<Rightarrow> bool" where
  "watch_ok env s \<longleftrightarrow> subs_ok env s \<and> (\<forall>k. holds s k \<le> watchers_of s k)"

text \<open>Each disposer is called once: a key is disposed of only while someone but a running call watches it.\<close>

definition single_use :: "cache_state \<Rightarrow> event \<Rightarrow> bool" where
  "single_use s ev \<longleftrightarrow> (\<forall>k. ev = Dispose k \<longrightarrow> holds s k < watchers_of s k)"

lemma holds_nonneg [simp]: "0 \<le> holds s k"
  by (simp add: holds_def)

lemma holds_update:
  assumes "i < length (ac_tasks s)" and "tk_key t = tk_key (ac_tasks s ! i)" and "ac_tasks s' = (ac_tasks s)[i := t]"
  shows "holds s' k = holds s k + of_bool (tk_key t = k \<and> is_watched (tk_pc t)) - of_bool (tk_key t = k \<and> is_watched (tk_pc (ac_tasks s ! i)))"
proof -
  let ?f = "\<lambda>t. of_bool (tk_key t = k \<and> is_watched (tk_pc t)) :: nat"
  have "?f (ac_tasks s ! i) \<le> sum_list (map ?f (ac_tasks s))" using assms(1) by (intro member_le_sum_list) auto
  moreover have "sum_list (map ?f ((ac_tasks s)[i := t])) = sum_list (map ?f (ac_tasks s)) + ?f t - ?f (ac_tasks s ! i)"
    using assms(1) by (simp add: map_update sum_list_update)
  ultimately show ?thesis unfolding holds_def assms(3) using assms(2) by (auto simp: of_nat_diff)
qed

lemma holds_append: "ac_tasks s' = ac_tasks s @ [t] \<Longrightarrow> \<not> is_watched (tk_pc t) \<Longrightarrow> holds s' k = holds s k"
  by (simp add: holds_def)

lemma watch_ok_cong: "unwatched s s' \<Longrightarrow> ac_tasks s' = ac_tasks s \<Longrightarrow> watch_ok env s \<Longrightarrow> watch_ok env s'"
  using subs_ok_cong[of s s' env] watchers_of_cong[of s s'] by (simp add: watch_ok_def holds_def)

lemma watch_okD: "watch_ok env s \<Longrightarrow> 0 \<le> watchers_of s k" "watch_ok env s \<Longrightarrow> subs_ok env s"
  unfolding watch_ok_def using holds_nonneg[of s k] by (metis order_trans, blast)

lemma watch_slots_subs:
  assumes "good_ids env" and "subs_ok env s" and "\<And>k. 0 \<le> watchers_of s k" and "watch_slots env m slots s = (q, s')"
  shows "subs_ok env s' \<and> (\<forall>k. watchers_of s k \<le> watchers_of s' k)"
  using assms(2-4)
proof (induction slots arbitrary: s)
  case (Cons x slots)
  show ?case
  proof (cases x)
    case (Parsed p)
    define s0 where "s0 = (if \<not> mac_has (ac_cache s) (pa_pubkey p) \<or> \<not> same_object (mac_get (ac_cache s) (pa_pubkey p)) (Some p)
      then updateCache (pa_pubkey p) (Some p) s else s)"
    have u: "unwatched s s0" by (simp add: s0_def)
    note s1 = subs_ok_cong[OF u Cons.prems(1)] watchers_of_cong[OF u]
    obtain y s2 where g: "watch env (pa_pubkey p) (mk_parser m) True s0 = (y, s2)" by fastforce
    have w: "subs_ok env s2" "y = Inr ()" "\<And>k. watchers_of s k \<le> watchers_of s2 k"
      using watch_subs[OF assms(1) s1(1) g] Cons.prems(2) by (simp_all add: s1(2))
    have "watch_slots env m slots s2 = (q, s')" using Cons.prems(3) g[unfolded s0_def] w(2) Parsed by (simp add: Let_def)
    from Cons.IH[OF w(1) _ this] have "subs_ok env s' \<and> (\<forall>k. watchers_of s2 k \<le> watchers_of s' k)"
      using Cons.prems(2) w(3) by (meson order_trans)
    then show ?thesis using w(3) by (meson order_trans)
  qed (use Cons in auto)
qed auto

lemma watch_result_subs:
  assumes "good_ids env" and "subs_ok env s" and "0 \<le> watchers_of s (tk_key t)" and "watch_result env t d s = (r, s')"
  shows "subs_ok env s' \<and> r = Inr () \<and> (\<forall>k. watchers_of s' k = (if k = tk_key t then watchers_of s k + 1 else watchers_of s k))"
proof -
  obtain y s1 where g: "watch env (tk_key t) (tk_parser t) (d \<noteq> None) s = (y, s1)" by fastforce
  note w = watch_subs[OF assms(1,2) g assms(3)]
  have "unwatched s1 s'" "r = Inr ()" using assms(4) g w by (auto simp: watch_result_def Let_def split: if_splits)
  then show ?thesis using subs_ok_cong[of s1 s' env] watchers_of_cong[of s1 s'] w by simp
qed

text \<open>What the step of a call does to the subscriptions, the watchers and the watch it holds.\<close>

definition watch_step :: "cache_env \<Rightarrow> pubkey \<Rightarrow> cache_state \<Rightarrow> pc \<Rightarrow> pc \<Rightarrow> cache_state \<Rightarrow> bool" where
  "watch_step env k s p p' s' \<longleftrightarrow> subs_ok env s' \<and> (\<forall>k'. k' \<noteq> k \<longrightarrow> watchers_of s' k' = watchers_of s k')
     \<and> watchers_of s k + of_bool (is_watched p') - of_bool (is_watched p) \<le> watchers_of s' k"

lemma watch_step_unwatched:
  "unwatched s s' \<Longrightarrow> subs_ok env s \<Longrightarrow> \<not> is_watched p' \<or> is_watched p \<Longrightarrow> watch_step env k s p p' s'"
  using subs_ok_cong[of s s' env] watchers_of_cong[of s s'] by (auto simp: watch_step_def)

lemma in_flight_not_watched [simp]: "\<not> is_watched (in_flight_from s a i r)"
  by (simp add: in_flight_from_def split: option.splits)

lemma resume_pc_watch:
  assumes "good_ids env" and "watch_ok env s" and "is_watched (tk_pc t) \<Longrightarrow> 0 < watchers_of s (tk_key t)" and "resume_pc env t s = (p, s')"
  shows "watch_step env (tk_key t) s (tk_pc t) p s'"
proof (cases "tk_pc t")
  case (Loop a j r)
  with assms(4) have "unwatched s s'" "p = tk_pc t \<or> \<not> is_watched p" by (auto simp: resume_pc_def joined_batch_def split: option.splits)
  then show ?thesis by (auto simp: Loop intro!: watch_step_unwatched watch_okD[OF assms(2)])
next
  case (Joined r)
  with assms(4) have "unwatched s s'" "\<not> is_watched p"
    by (auto simp: resume_pc_def split: option.splits prod.splits sum.splits dest: unwatched_addToBatch unwatched_search_end search_end_pc)
  then show ?thesis by (simp add: watch_step_unwatched watch_okD[OF assms(2)])
next
  case (Own b)
  with assms(4) have "unwatched s s'" "p = tk_pc t \<or> \<not> is_watched p"
    by (auto simp: resume_pc_def split: option.splits dest: unwatched_search_end search_end_pc)
  then show ?thesis by (auto simp: Own intro!: watch_step_unwatched watch_okD[OF assms(2)])
next
  case (Searched r)
  then have a: "after_search env t r s = (p, s')" using assms(4) by (simp add: resume_pc_def)
  show ?thesis
  proof (cases "tk_after t = Plain \<or> tk_after t = Query \<or> (\<exists>e. r = Inl e)")
    case True
    with a have "s' = s" "\<not> is_watched p" by (cases "tk_after t"; auto simp: after_search_def split: sum.splits)+
    then show ?thesis by (simp add: watch_step_unwatched watch_okD[OF assms(2)])
  next
    case False
    then obtain d where d: "r = Inr d" by (cases r) auto
    obtain y s1 where g: "watch_result env t d s = (y, s1)" by fastforce
    note w = watch_result_subs[OF assms(1) watch_okD(2)[OF assms(2)] watch_okD(1)[OF assms(2)] g]
    have "s' = s1" using a d g w False by (cases "tk_after t") (auto simp: after_search_def)
    then show ?thesis using w Searched by (auto simp: watch_step_def)
  qed
next
  case (Watched d)
  obtain y s1 where g: "dispose env (tk_key t) s = (y, s1)" by fastforce
  have "0 < watchers_of s (tk_key t)" using assms(3) Watched by simp
  note w = dispose_subs[OF assms(1) watch_okD(2)[OF assms(2)] g this]
  have a: "after_watch env t d s = (p, s')" using assms(4) Watched by (simp add: resume_pc_def)
  then have "\<not> is_watched p" using after_watch_pc[OF a] by auto
  moreover have "subs_ok env s' \<and> watchers_of s' = watchers_of s1"
  proof (cases "tk_after t")
    case (Requery gr prev)
    define s2 where "s2 = (if account_changed prev d then s1 else s1\<lparr>ac_unchanged := (ac_unchanged s1)[gr := ac_unchanged s1 ! gr @ [tk_key t]]\<rparr>)"
    have "s' = (if d \<noteq> None then s2\<lparr>ac_missing := obj_delete (ac_missing s2) (tk_key t)\<rparr> else s2)"
      using a g w Requery by (cases d; cases "account_changed prev d") (auto simp: after_watch_def Let_def s2_def)
    moreover have "unwatched s1 s2" by (simp add: s2_def)
    ultimately show ?thesis using subs_ok_cong[of s1 s2 env] watchers_of_cong[of s1 s2] subs_ok_forget[of env s2 "tk_key t"] w by auto
  qed (use a g w in \<open>auto simp: after_watch_def\<close>)
  ultimately show ?thesis using w Watched by (auto simp: watch_step_def)
next
  case (Settled r)
  with assms(4) have "s' = s" "p = tk_pc t" by (auto simp: resume_pc_def)
  then show ?thesis by (simp add: watch_step_unwatched watch_okD[OF assms(2)])
qed

lemma m_resume_pc_watch:
  assumes "good_ids env" and "watch_ok env s" and "m_resume_pc env m s = (p, s')"
  shows "subs_ok env s' \<and> (\<forall>k. watchers_of s k \<le> watchers_of s' k)"
proof (cases "\<exists>slots. mk_pc m = MSearched (Inr slots) \<and> mk_watch m")
  case True
  then obtain slots where m: "mk_pc m = MSearched (Inr slots)" "mk_watch m" by blast
  obtain q s1 where g: "watch_slots env m slots s = (q, s1)" by fastforce
  from watch_slots_subs[OF assms(1) watch_okD(2)[OF assms(2)] watch_okD(1)[OF assms(2)] g] show ?thesis
    using assms(3) m g by (cases q) (auto simp: m_resume_pc_def)
next
  case False
  have "unwatched s s'"
  proof (cases "mk_pc m")
    case (MJoined r)
    obtain y s1 where f: "first_pass env m r (enumerate 0 (mk_keys m)) (replicate (length (mk_keys m)) Hole, [], Map.empty) s = (y, s1)" by fastforce
    note u = unwatched_first_pass[OF f]
    show ?thesis using assms(3) MJoined f u unwatched_trans[OF u unwatched_addToBatch]
      by (cases y) (auto simp: m_resume_pc_def split: if_splits prod.splits sum.splits)
  next
    case (MOwn b res ks im)
    with assms(3) show ?thesis
      by (auto simp: m_resume_pc_def split: option.splits prod.splits dest: unwatched_second_pass)
  next
    case (MSearched r)
    with assms(3) False show ?thesis by (cases r) (auto simp: m_resume_pc_def)
  qed (use assms(3) in \<open>auto simp: m_resume_pc_def joined_batch_def split: option.splits\<close>)
  then show ?thesis using subs_ok_cong[OF _ watch_okD(2)[OF assms(2)]] watchers_of_cong[of s s'] by simp
qed

lemma search_begin_tasks:
  assumes "search_begin env k parser st force s = (p, s')"
  shows "same_tasks s s'"
proof -
  obtain y s1 where g: "registerParser env k parser s = (y, s1)" by fastforce
  let ?s2 = "set_static k st s1"
  have s2: "same_tasks s ?s2" using same_imp_tasks[of s ?s2] same_registerParser[OF g] by simp
  have "addToBatch [k] ?s2 = (z, s3) \<Longrightarrow> same_tasks s s3" for z s3
    using s2 same_tasks_addToBatch[of "[k]" ?s2 z s3] by (simp add: same_tasks_def)
  then show ?thesis using assms g s2 same_imp_tasks[OF same_registerParser[OF g]]
    by (cases y) (auto simp: search_begin_def Let_def split: prod.splits sum.splits if_splits)
qed

lemma watch_ok_begin:
  assumes "watch_ok env s"
  shows "watch_ok env (begin_search env aft k parser st force s)"
proof -
  let ?s = "begin_search env aft k parser st force s"
  obtain p s' where b: "search_begin env k parser st force s = (p, s')" by fastforce
  have p: "\<not> is_watched p" using b by (auto simp: search_begin_def Let_def split: prod.splits sum.splits if_splits)
  have t: "ac_tasks s' = ac_tasks s" using search_begin_tasks[OF b] by (simp add: same_tasks_def)
  have "unwatched s ?s" using unwatched_search_begin[OF b] b by (simp add: begin_search_def)
  moreover have "holds ?s k' = holds s k'" for k' using p by (auto simp: begin_search_def b t intro!: holds_append)
  ultimately show ?thesis using assms subs_ok_cong[of s ?s env] watchers_of_cong[of s ?s] by (simp add: watch_ok_def)
qed

lemma watch_ok_resume:
  assumes "good_ids env" and "watch_ok env s"
  shows "watch_ok env (resume env i s)"
proof (cases "i < length (ac_tasks s)")
  case False
  with assms(2) show ?thesis by (simp add: resume_def js_nth_def)
next
  case True
  let ?t = "ac_tasks s ! i" and ?s = "resume env i s"
  obtain p s' where r: "resume_pc env ?t s = (p, s')" by fastforce
  have t: "ac_tasks s' = ac_tasks s" using resume_pc_tasks[OF r] by (simp add: same_tasks_def)
  have s: "?s = s'\<lparr>ac_tasks := (ac_tasks s)[i := ?t\<lparr>tk_pc := p\<rparr>]\<rparr>" using True r t by (simp add: resume_def js_nth_def)
  have h: "holds ?s k = holds s k + of_bool (tk_key ?t = k \<and> is_watched p) - of_bool (tk_key ?t = k \<and> is_watched (tk_pc ?t))" for k
    using holds_update[OF True, of "?t\<lparr>tk_pc := p\<rparr>" ?s k] by (simp add: s)
  have pos: "0 < watchers_of s (tk_key ?t)" if "is_watched (tk_pc ?t)"
  proof -
    have "of_bool (tk_key ?t = tk_key ?t \<and> is_watched (tk_pc ?t)) \<le> sum_list (map (\<lambda>t. of_bool (tk_key t = tk_key ?t \<and> is_watched (tk_pc t)) :: nat) (ac_tasks s))"
      using True by (intro member_le_sum_list) auto
    then have "1 \<le> holds s (tk_key ?t)" using that by (simp add: holds_def)
    moreover have "holds s (tk_key ?t) \<le> watchers_of s (tk_key ?t)" using assms(2) by (simp add: watch_ok_def)
    ultimately show ?thesis by linarith
  qed
  have w: "watch_step env (tk_key ?t) s (tk_pc ?t) p s'" by (rule resume_pc_watch[OF assms pos r])
  have u: "unwatched s' ?s" by (simp add: s)
  have "holds ?s k \<le> watchers_of ?s k" for k
  proof -
    have "holds s k \<le> watchers_of s k" using assms(2) by (simp add: watch_ok_def)
    then show ?thesis using h[of k] w watchers_of_cong[OF u] by (cases "k = tk_key ?t") (auto simp: watch_step_def)
  qed
  then show ?thesis using subs_ok_cong[OF u] w by (simp add: watch_ok_def watch_step_def)
qed

lemma watch_ok_m_resume:
  assumes "good_ids env" and "watch_ok env s"
  shows "watch_ok env (m_resume env i s)"
proof (cases "js_nth (ac_multis s) i")
  case None
  with assms(2) show ?thesis by (simp add: m_resume_def)
next
  case (Some m)
  obtain p s' where r: "m_resume_pc env m s = (p, s')" by fastforce
  let ?s = "m_resume env i s"
  have u: "unwatched s' ?s" and t: "ac_tasks ?s = ac_tasks s"
    using Some r m_resume_pc_tasks[OF r] by (simp_all add: m_resume_def same_tasks_def)
  have "holds ?s k \<le> watchers_of ?s k" for k
    using assms(2) m_resume_pc_watch[OF assms r] watchers_of_cong[OF u] t
    by (simp add: watch_ok_def holds_def) (meson order_trans)
  then show ?thesis using subs_ok_cong[OF u] m_resume_pc_watch[OF assms r] by (simp add: watch_ok_def)
qed

lemma handle_watch_ok:
  assumes "good_ids env" and "watch_ok env s" and "single_use s ev"
  shows "watch_ok env (handle env ev s)"
proof -
  have begins: "watch_ok env (foldl (\<lambda>s' k. begin_search env (aft s' k) k (pr s' k) (st s' k) True s') s1 ks)" if "watch_ok env s1" for aft pr st s1 ks
    using that by (rule foldl_keeps) (rule watch_ok_begin)
  have un: "watch_ok env (s\<lparr>ac_unchanged := us\<rparr>)" for us by (rule watch_ok_cong[OF _ _ assms(2)]) auto
  have same: "unwatched s s' \<Longrightarrow> ac_tasks s' = ac_tasks s \<Longrightarrow> watch_ok env s'" for s' by (rule watch_ok_cong[OF _ _ assms(2)])
  have fetch: "watch_ok env (fetchBatch (s\<lparr>ac_timeout := x\<rparr>))" for x
    using unwatched_trans[OF _ unwatched_fetchBatch, of s "s\<lparr>ac_timeout := x\<rparr>"]
    by (intro same) (auto simp: fetchBatch_def push_batcher_def change_batcher_def split: option.splits)
  show ?thesis
  proof (cases ev)
    case (Fetched b rpc)
    then show ?thesis using same[OF unwatched_fetched[of s env b rpc]] by (simp add: fetched_eq drop_batch_def change_batcher_def)
  next
    case (Notify k a)
    then show ?thesis using same[OF unwatched_notify[of s env k a]] same_notify[of s env k a] by (simp add: same_defs)
  next
    case (Dispose k)
    obtain y s1 where g: "dispose env k s = (y, s1)" by fastforce
    have c: "holds s k < watchers_of s k" using assms(3) Dispose by (simp add: single_use_def)
    moreover have "0 < watchers_of s k" using c holds_nonneg[of s k] by linarith
    note d = dispose_subs[OF assms(1) watch_okD(2)[OF assms(2)] g this]
    moreover have "ac_tasks s1 = ac_tasks s" using same_dispose[OF g] by (simp add: same_defs)
    ultimately show ?thesis using Dispose g assms(2) by (auto simp: watch_ok_def holds_def)
  next
    case (Delete k)
    obtain y s1 where g: "deleteAccount env k s = (y, s1)" by fastforce
    have "ac_tasks s1 = ac_tasks s" using same_deleteAccount[OF g] by (simp add: same_defs)
    then show ?thesis using Delete g assms(2) delete_subs[OF assms(1) watch_okD(2)[OF assms(2)] g] by (simp add: watch_ok_def holds_def)
  next
    case (Register k p)
    obtain y s1 where g: "registerParser env k (Some p) s = (y, s1)" by fastforce
    then show ?thesis using Register same[OF unwatched_registerParser[OF g]] same_registerParser[OF g] by (simp add: same_defs)
  next
    case Close
    have "ac_tasks (foldl (\<lambda>s' b. change_batcher b f s') s1 bs) = ac_tasks s1" for f bs s1
      by (induction bs arbitrary: s1) (auto simp: change_batcher_def)
    then show ?thesis using Close same[OF unwatched_close] by (simp add: close_def)
  qed (use assms fetch begins[OF un] begins[OF assms(2)] watch_ok_begin[OF assms(2)] watch_ok_resume[OF assms(1,2)] watch_ok_m_resume[OF assms(1,2)] same in
      \<open>auto simp: search_def query_def searchAndWatch_def searchMultiple_def searchMultipleAndWatch_def requeryMissing_def
        requeryMissingByAccount_def fetchMissing_def timer_fires_def flush_def Let_def begin_multiple_def\<close>)
qed

interpretation watching: event_system "handle env" single_use "\<lambda>s. good_ids env \<and> watch_ok env s" for env
  by unfold_locales (auto intro: handle_watch_ok)

lemma accountFetchCache_watch_ok: "watch_ok env accountFetchCache"
  by (simp add: watch_ok_def subs_ok_def accountFetchCache_def holds_def watchers_of_def)



section \<open>The id 0\<close>

definition keeps_zero :: "cache_state \<Rightarrow> cache_state \<Rightarrow> bool" where
  "keeps_zero s s' \<longleftrightarrow> (\<forall>u k. (u, 0, k) \<in> set (ac_live s) \<longrightarrow> (u, 0, k) \<in> set (ac_live s'))"

lemma keeps_zero_refl [simp, intro]: "keeps_zero s s"
  by (simp add: keeps_zero_def)

lemma keeps_zero_trans: "keeps_zero s s' \<Longrightarrow> keeps_zero s' s'' \<Longrightarrow> keeps_zero s s''"
  by (simp add: keeps_zero_def)

lemma unwatched_keeps: "unwatched s s' \<Longrightarrow> keeps_zero s s'"
  by (simp add: unwatched_def keeps_zero_def)

lemma keeps_zero_live: "ac_live s' = ac_live s \<Longrightarrow> keeps_zero s s'"
  by (simp add: keeps_zero_def)

lemma watch_keeps: "watch env k p e s = (r, s') \<Longrightarrow> keeps_zero s s'"
  by (auto simp: watch_def subscribe_def keeps_zero_def Let_def split: if_splits sum.splits option.splits)

lemma dispose_keeps: "dispose env k s = (r, s') \<Longrightarrow> keeps_zero s s'"
  by (auto simp: dispose_def keeps_zero_def removeListener_def Let_def split: if_splits sum.splits option.splits prod.splits)

lemma delete_keeps: "deleteAccount env k s = (r, s') \<Longrightarrow> keeps_zero s s'"
  by (auto simp: deleteAccount_def keeps_zero_def removeListener_def Let_def split: if_splits sum.splits option.splits prod.splits)

lemma watch_result_keeps: "watch_result env t d s = (r, s') \<Longrightarrow> keeps_zero s s'"
proof -
  assume a: "watch_result env t d s = (r, s')"
  obtain y s1 where g: "watch env (tk_key t) (tk_parser t) (d \<noteq> None) s = (y, s1)" by fastforce
  have "unwatched s1 s'" using a g by (cases y) (auto simp: watch_result_def Let_def split: if_splits)
  then show ?thesis using keeps_zero_trans[OF watch_keeps[OF g] unwatched_keeps] by blast
qed

lemma watch_slots_keeps: "watch_slots env m slots s = (q, s') \<Longrightarrow> keeps_zero s s'"
proof (induction slots arbitrary: s)
  case (Cons x slots)
  show ?case
  proof (cases x)
    case (Parsed p)
    define s0 where "s0 = (if \<not> mac_has (ac_cache s) (pa_pubkey p) \<or> \<not> same_object (mac_get (ac_cache s) (pa_pubkey p)) (Some p)
      then updateCache (pa_pubkey p) (Some p) s else s)"
    obtain y s2 where g: "watch env (pa_pubkey p) (mk_parser m) True s0 = (y, s2)" by fastforce
    have "keeps_zero s s0" by (intro unwatched_keeps) (simp add: s0_def)
    note u = keeps_zero_trans[OF this watch_keeps[OF g]]
    show ?thesis
    proof (cases y)
      case (Inl e)
      with Cons.prems g[unfolded s0_def] Parsed u show ?thesis by (simp add: Let_def)
    next
      case (Inr w)
      then have "watch_slots env m slots s2 = (q, s')" using Cons.prems g[unfolded s0_def] Parsed by (simp add: Let_def)
      from keeps_zero_trans[OF u Cons.IH[OF this]] show ?thesis .
    qed
  qed (use Cons in auto)
qed simp

lemma after_search_keeps: "after_search env t r s = (p, s') \<Longrightarrow> keeps_zero s s'"
proof (cases r)
  case (Inl e)
  then show "after_search env t r s = (p, s') \<Longrightarrow> ?thesis" by (cases "tk_after t") (auto simp: after_search_def)
next
  case (Inr d)
  obtain y s1 where g: "watch_result env t d s = (y, s1)" by fastforce
  show "after_search env t r s = (p, s') \<Longrightarrow> ?thesis"
    using g Inr watch_result_keeps[OF g] by (cases "tk_after t"; cases y) (auto simp: after_search_def)
qed

lemma after_watch_keeps: "after_watch env t d s = (p, s') \<Longrightarrow> keeps_zero s s'"
proof -
  assume a: "after_watch env t d s = (p, s')"
  obtain y s1 where g: "dispose env (tk_key t) s = (y, s1)" by fastforce
  have "ac_live s' = ac_live s1" using a g by (cases y; cases "tk_after t") (auto simp: after_watch_def Let_def split: if_splits)
  from keeps_zero_trans[OF dispose_keeps[OF g] keeps_zero_live[OF this]] show ?thesis .
qed

lemma resume_keeps: "keeps_zero s (resume env i s)"
proof (cases "js_nth (ac_tasks s) i")
  case (Some t)
  obtain p s' where r: "resume_pc env t s = (p, s')" by fastforce
  have "keeps_zero s s'"
    using r by (cases "tk_pc t")
      (auto simp: resume_pc_def joined_batch_def split: option.splits prod.splits sum.splits
        intro: after_search_keeps after_watch_keeps unwatched_keeps unwatched_search_end unwatched_addToBatch)
  moreover have "ac_live (resume env i s) = ac_live s'" using Some r by (simp add: resume_def)
  ultimately show ?thesis by (simp add: keeps_zero_def)
qed (simp add: resume_def)

lemma m_resume_keeps: "keeps_zero s (m_resume env i s)"
proof (cases "js_nth (ac_multis s) i")
  case (Some m)
  obtain p s' where r: "m_resume_pc env m s = (p, s')" by fastforce
  have "keeps_zero s s'"
  proof (cases "mk_pc m")
    case (MJoined q)
    obtain y s1 where f: "first_pass env m q (enumerate 0 (mk_keys m)) (replicate (length (mk_keys m)) Hole, [], Map.empty) s = (y, s1)" by fastforce
    note u = unwatched_first_pass[OF f]
    show ?thesis using r MJoined f unwatched_keeps[OF u] unwatched_keeps[OF unwatched_trans[OF u unwatched_addToBatch]]
      by (cases y) (auto simp: m_resume_pc_def split: if_splits prod.splits sum.splits)
  next
    case (MOwn b res ks im)
    with r show ?thesis
      by (auto simp: m_resume_pc_def split: option.splits prod.splits intro: unwatched_keeps unwatched_second_pass)
  next
    case (MSearched q)
    with r show ?thesis
      by (cases q) (auto simp: m_resume_pc_def split: if_splits prod.splits sum.splits intro: watch_slots_keeps)
  qed (use r in \<open>auto simp: m_resume_pc_def joined_batch_def intro: unwatched_keeps split: option.splits\<close>)
  moreover have "ac_live (m_resume env i s) = ac_live s'" using Some r by (simp add: m_resume_def)
  ultimately show ?thesis by (simp add: keeps_zero_def)
qed (simp add: m_resume_def)

lemma begin_search_keeps: "keeps_zero s (begin_search env aft k parser st force s)"
proof -
  obtain p s' where b: "search_begin env k parser st force s = (p, s')" by fastforce
  show ?thesis using unwatched_keeps[OF unwatched_search_begin[OF b]] b by (simp add: begin_search_def keeps_zero_def)
qed

lemma handle_keeps: "keeps_zero s (handle env ev s)"
proof -
  have begins: "keeps_zero s (foldl (\<lambda>s' k. begin_search env (aft s' k) k (pr s' k) (st s' k) True s') s1 ks)" if "keeps_zero s s1" for aft pr st s1 ks
    using that by (rule foldl_keeps) (auto intro: keeps_zero_trans begin_search_keeps)
  have un: "keeps_zero s (s\<lparr>ac_unchanged := us\<rparr>)" for us by (simp add: keeps_zero_def)
  have fetch: "keeps_zero s (fetchBatch (s\<lparr>ac_timeout := x\<rparr>))" for x
    using unwatched_trans[OF _ unwatched_fetchBatch, of s "s\<lparr>ac_timeout := x\<rparr>"] by (intro unwatched_keeps) simp
  show ?thesis
    by (cases ev)
      (use begins[OF un] begins[OF keeps_zero_refl] fetch in
        \<open>auto simp: search_def query_def searchAndWatch_def searchMultiple_def searchMultipleAndWatch_def requeryMissing_def
          requeryMissingByAccount_def fetchMissing_def timer_fires_def flush_def Let_def begin_multiple_def
          intro: unwatched_keeps unwatched_fetched unwatched_notify unwatched_close unwatched_registerParser[OF prod.collapse[symmetric]]
            dispose_keeps[OF prod.collapse[symmetric]] delete_keeps[OF prod.collapse[symmetric]] resume_keeps m_resume_keeps begin_search_keeps\<close>)
qed

text \<open>
  A subscription with the id 0, which is the first number of a counter, is never removed: no event
  whatsoever, disposing of every watcher and deleting the account included, ends it, because the id is
  tested for truth.
\<close>

theorem zero_id_never_removed:
  assumes "(u, 0, k) \<in> set (ac_live s)"
  shows "(u, 0, k) \<in> set (ac_live (run_events env evs s))"
  using assms
proof (induction evs arbitrary: s)
  case (Cons ev evs)
  then show ?case using handle_keeps[of s env ev] by (simp add: keeps_zero_def)
qed simp

theorem zero_id_never_removed_witness:
  "(False, 0, ''k'') \<in> set (ac_live (run_events (demo_cache_env id) [Dispose ''k'', Delete ''k'']
     (run_events (demo_cache_env id) demo_fetch accountFetchCache)))"
proof (rule zero_id_never_removed)
  show "(False, 0, ''k'') \<in> set (ac_live (run_events (demo_cache_env id) demo_fetch accountFetchCache))"
    by (simp add: demo_fetch_def demo_cache_env_def cache_run_simps demo_node_def demo_raw_def decode_account_def
        search_end_def getParsed_def new_parsed_def same_object_def subscribe_def)
qed

section \<open>searchMultiple\<close>

definition in_flight_events :: "bool \<Rightarrow> event list" where
  "in_flight_events w =
     [Search ''k'' None False False, Resume 0, Timer,
      (if w then SearchMultipleAndWatch else SearchMultiple) [''k''] None False False,
      Fetched 0 demo_node, Resume_multiple 0, Resume_multiple 0, Resume_multiple 0]"

text \<open>
  \<open>searchMultiple\<close> leaves its contract twice: an account that arrives with a batch in flight is
  returned as it came, without key and parser, so that \<open>searchMultipleAndWatch\<close> fails on it with a
  TypeError; and of a key given twice only the last position is filled.
\<close>

theorem searchMultiple_faults:
  "map mk_pc (ac_multis (run_events (demo_cache_env Suc) (in_flight_events False) accountFetchCache)) = [MSettled (Inr [Raw demo_account])]
   \<and> map mk_pc (ac_multis (run_events (demo_cache_env Suc) (in_flight_events True) accountFetchCache)) = [MSettled (Inl TypeError)]
   \<and> (\<exists>p. map mk_pc (ac_multis (run_events (demo_cache_env Suc)
         [SearchMultiple [''k'', ''k''] None False False, Resume_multiple 0, Timer, Fetched 0 demo_node, Resume_multiple 0, Resume_multiple 0]
         accountFetchCache)) = [MSettled (Inr [Hole, Parsed p])])"
  by (simp add: in_flight_events_def demo_cache_env_def cache_run_simps demo_node_def demo_raw_def demo_account_def decode_account_def
      search_end_def getParsed_def new_parsed_def searchMultiple_def searchMultipleAndWatch_def begin_multiple_def m_in_flight_from_def
      m_resume_def m_resume_pc_def first_pass_step_def)

end
