(* ===== verification/Ttl_Cache.thy ===== *)
theory Ttl_Cache
  imports Prelude
begin

text \<open>
  \<^verbatim>\<open>packages/blockchain-api/src/lib/utils/ttl-cache.ts\<close>: the keyed cache that coalesces concurrent
  requests and keeps values for a time. A call answers with a cached value or with a promise. A promise
  passes three points: the fetch settles, the callback of \<open>then\<close> stores the value, the callback of
  \<open>finally\<close> clears the key; calls may come between any two of them, so each is an event.
\<close>

section \<open>The cache\<close>

record 'v cache_entry =
  ce_value :: 'v
  ce_expiresAt :: nat

datatype ('e, 'v) fetch_state =
    Fetching
  | Ended "'e + 'v"
  | Done "'e + 'v"

record ('e, 'v) ttl_promise =
  tp_key :: string
  tp_state :: "('e, 'v) fetch_state"

text \<open>\<open>tc_entries\<close> and \<open>tc_inFlight\<close> are the two maps, in insertion order; a promise is an index into \<open>tc_promises\<close>.\<close>

record ('e, 'v) ttl_cache =
  tc_ttlMs :: nat
  tc_maxEntries :: nat
  tc_entries :: "(string \<times> 'v cache_entry) list"
  tc_inFlight :: "(string \<times> nat) list"
  tc_promises :: "('e, 'v) ttl_promise list"

definition createTtlCache :: "nat \<Rightarrow> nat \<Rightarrow> ('e, 'v) ttl_cache" where
  "createTtlCache ttlMs maxEntries =
     \<lparr>tc_ttlMs = ttlMs, tc_maxEntries = maxEntries, tc_entries = [], tc_inFlight = [], tc_promises = []\<rparr>"

definition prune :: "nat \<Rightarrow> (string \<times> 'v cache_entry) list \<Rightarrow> (string \<times> 'v cache_entry) list" where
  "prune current entries = filter (\<lambda>(key, entry). \<not> ce_expiresAt entry \<le> current) entries"

text \<open>The loop that deletes the oldest entry until there is room.\<close>

fun evict :: "nat \<Rightarrow> (string \<times> 'v cache_entry) list \<Rightarrow> (string \<times> 'v cache_entry) list" where
  "evict maxEntries [] = []"
| "evict maxEntries (e # entries) =
     (if maxEntries \<le> length (e # entries) then evict maxEntries entries else e # entries)"

text \<open>What a call returns: a resolved promise with the cached value, or a promise of the cache.\<close>

datatype 'v answer =
    Hit 'v
  | Promise nat

definition dedupe :: "string \<Rightarrow> nat \<Rightarrow> ('e, 'v) ttl_cache \<Rightarrow> 'v answer \<times> ('e, 'v) ttl_cache" where
  "dedupe key now c =
     (let fetch = (case map_of (tc_inFlight c) key of
                     Some pending \<Rightarrow> (Promise pending, c)
                   | None \<Rightarrow>
                       (let p = length (tc_promises c)
                        in (Promise p, c\<lparr>tc_promises := tc_promises c @ [\<lparr>tp_key = key, tp_state = Fetching\<rparr>],
                                         tc_inFlight := obj_set (tc_inFlight c) key p\<rparr>)))
      in case map_of (tc_entries c) key of
           Some hit \<Rightarrow> if ce_expiresAt hit > now then (Hit (ce_value hit), c) else fetch
         | None \<Rightarrow> fetch)"

text \<open>The callback of \<open>then\<close>; the clock is read once for the pruning and once for the expiry.\<close>

definition store :: "string \<Rightarrow> 'v \<Rightarrow> nat \<Rightarrow> nat \<Rightarrow> ('e, 'v) ttl_cache \<Rightarrow> ('e, 'v) ttl_cache" where
  "store key value now1 now2 c =
     (let entries = obj_delete (tc_entries c) key;
          entries' = (if tc_maxEntries c \<le> length entries then evict (tc_maxEntries c) (prune now1 entries) else entries)
      in c\<lparr>tc_entries := entries' @ [(key, \<lparr>ce_value = value, ce_expiresAt = now2 + tc_ttlMs c\<rparr>)]\<rparr>)"

definition set_promise :: "nat \<Rightarrow> ('e, 'v) fetch_state \<Rightarrow> ('e, 'v) ttl_cache \<Rightarrow> ('e, 'v) ttl_cache" where
  "set_promise p st c = c\<lparr>tc_promises := (tc_promises c)[p := (tc_promises c ! p)\<lparr>tp_state := st\<rparr>]\<rparr>"

definition fetch_ends :: "nat \<Rightarrow> 'e + 'v \<Rightarrow> nat \<Rightarrow> nat \<Rightarrow> ('e, 'v) ttl_cache \<Rightarrow> ('e, 'v) ttl_cache" where
  "fetch_ends p r now1 now2 c =
     (case js_nth (tc_promises c) p of
        Some pr \<Rightarrow>
          if tp_state pr = Fetching
          then (let c' = set_promise p (Ended r) c
                in case r of Inl e \<Rightarrow> c' | Inr value \<Rightarrow> store (tp_key pr) value now1 now2 c')
          else c
      | None \<Rightarrow> c)"

definition finally_runs :: "nat \<Rightarrow> ('e, 'v) ttl_cache \<Rightarrow> ('e, 'v) ttl_cache" where
  "finally_runs p c =
     (case js_nth (tc_promises c) p of
        Some pr \<Rightarrow>
          (case tp_state pr of
             Ended r \<Rightarrow> (set_promise p (Done r) c)\<lparr>tc_inFlight := obj_delete (tc_inFlight c) (tp_key pr)\<rparr>
           | _ \<Rightarrow> c)
      | None \<Rightarrow> c)"

datatype ('e, 'v) ttl_event =
    Call string nat
  | Fetch_ends nat "'e + 'v" nat nat
  | Finally nat

fun ttl_handle :: "('e, 'v) ttl_event \<Rightarrow> ('e, 'v) ttl_cache \<Rightarrow> ('e, 'v) ttl_cache" where
  "ttl_handle (Call key now) c = snd (dedupe key now c)"
| "ttl_handle (Fetch_ends p r now1 now2) c = fetch_ends p r now1 now2 c"
| "ttl_handle (Finally p) c = finally_runs p c"

definition ttl_run :: "('e, 'v) ttl_event list \<Rightarrow> ('e, 'v) ttl_cache \<Rightarrow> ('e, 'v) ttl_cache" where
  "ttl_run evs c = foldl (\<lambda>c ev. ttl_handle ev c) c evs"

section \<open>The maps\<close>

lemma prune_entries: "set (prune t xs) \<subseteq> set xs" "length (prune t xs) \<le> length xs"
  by (auto simp: prune_def)

lemma evict_entries: "set (evict m xs) \<subseteq> set xs" "length (evict m xs) \<le> m - 1"
  by (induction m xs rule: evict.induct) auto

lemma evict_suffix: "\<exists>ys. xs = ys @ evict m xs"
proof (induction m xs rule: evict.induct)
  case (2 m e xs)
  then show ?case by (metis append_Cons append_Nil evict.simps(2))
qed simp

lemma distinct_evict: "distinct (map fst xs) \<Longrightarrow> distinct (map fst (evict m xs))"
  using evict_suffix[of xs m] by (metis distinct_append map_append)

lemma distinct_prune: "distinct (map fst xs) \<Longrightarrow> distinct (map fst (prune t xs))"
  by (simp add: prune_def distinct_map_filter)

lemma store_same [simp]:
  "tc_promises (store k v a b c) = tc_promises c" "tc_inFlight (store k v a b c) = tc_inFlight c"
  "tc_ttlMs (store k v a b c) = tc_ttlMs c" "tc_maxEntries (store k v a b c) = tc_maxEntries c"
  by (simp_all add: store_def Let_def)

lemma set_promise_same [simp]:
  "tc_entries (set_promise p st c) = tc_entries c" "tc_inFlight (set_promise p st c) = tc_inFlight c"
  "tc_ttlMs (set_promise p st c) = tc_ttlMs c" "tc_maxEntries (set_promise p st c) = tc_maxEntries c"
  "length (tc_promises (set_promise p st c)) = length (tc_promises c)"
  by (simp_all add: set_promise_def)

lemma store_entries:
  assumes "distinct (map fst (tc_entries c))" and "length (tc_entries c) \<le> max 1 (tc_maxEntries c)"
  shows "distinct (map fst (tc_entries (store k v a b c)))"
    and "length (tc_entries (store k v a b c)) \<le> max 1 (tc_maxEntries c)"
proof -
  let ?es = "obj_delete (tc_entries c) k"
  let ?es' = "if tc_maxEntries c \<le> length ?es then evict (tc_maxEntries c) (prune a ?es) else ?es"
  have st: "tc_entries (store k v a b c) = ?es' @ [(k, \<lparr>ce_value = v, ce_expiresAt = b + tc_ttlMs c\<rparr>)]"
    by (simp add: store_def Let_def)
  have sub: "set ?es' \<subseteq> set ?es"
    using evict_entries(1)[of "tc_maxEntries c" "prune a ?es"] prune_entries(1)[of a ?es] by auto
  have "k \<notin> fst ` set ?es" by simp
  then have "k \<notin> fst ` set ?es'" using sub by blast
  moreover have "distinct (map fst ?es')"
    using assms(1) by (simp add: distinct_evict distinct_prune distinct_obj_delete)
  ultimately show "distinct (map fst (tc_entries (store k v a b c)))" unfolding st by auto
  have "length ?es' < max 1 (tc_maxEntries c)"
  proof (cases "tc_maxEntries c \<le> length ?es")
    case True
    then show ?thesis using evict_entries(2)[of "tc_maxEntries c" "prune a ?es"] by simp
  qed simp
  then show "length (tc_entries (store k v a b c)) \<le> max 1 (tc_maxEntries c)" unfolding st by simp
qed

lemma store_new: "x \<in> set (tc_entries (store k v a b c)) \<Longrightarrow>
    x \<in> set (tc_entries c) \<or> x = (k, \<lparr>ce_value = v, ce_expiresAt = b + tc_ttlMs c\<rparr>)"
  using evict_entries(1) prune_entries(1) by (fastforce simp: store_def Let_def obj_delete_def split: if_splits)

section \<open>Coalescing and bounds\<close>

fun is_done :: "('e, 'v) fetch_state \<Rightarrow> bool" where
  "is_done (Done r) = True"
| "is_done st = False"

definition open_promise :: "('e, 'v) ttl_cache \<Rightarrow> nat \<Rightarrow> bool" where
  "open_promise c p \<longleftrightarrow> p < length (tc_promises c) \<and> \<not> is_done (tp_state (tc_promises c ! p))"

definition key_of :: "('e, 'v) ttl_cache \<Rightarrow> nat \<Rightarrow> string" where
  "key_of c p = tp_key (tc_promises c ! p)"

definition ttl_inv :: "nat \<Rightarrow> nat \<Rightarrow> ('e, 'v) ttl_cache \<Rightarrow> bool" where
  "ttl_inv ttl mx c \<longleftrightarrow> tc_ttlMs c = ttl \<and> tc_maxEntries c = mx \<and> distinct (map fst (tc_entries c))
     \<and> length (tc_entries c) \<le> max 1 mx
     \<and> (\<forall>k p. map_of (tc_inFlight c) k = Some p \<longleftrightarrow> open_promise c p \<and> key_of c p = k)"

lemma ttl_inv_create: "ttl_inv ttl mx (createTtlCache ttl mx)"
  by (simp add: ttl_inv_def createTtlCache_def open_promise_def)

lemma ttl_inv_dedupe:
  assumes "ttl_inv ttl mx c"
  shows "ttl_inv ttl mx (snd (dedupe key now c))"
proof (cases "snd (dedupe key now c) = c")
  case True
  with assms show ?thesis by simp
next
  case False
  then have none: "map_of (tc_inFlight c) key = None"
    and eq: "snd (dedupe key now c) = c\<lparr>tc_promises := tc_promises c @ [\<lparr>tp_key = key, tp_state = Fetching\<rparr>],
               tc_inFlight := obj_set (tc_inFlight c) key (length (tc_promises c))\<rparr>"
    by (auto simp: dedupe_def Let_def split: option.splits if_splits)
  have "map_of (tc_inFlight c) k = Some p \<longleftrightarrow> open_promise c p \<and> key_of c p = k" for k p
    using assms by (simp add: ttl_inv_def)
  with none have "\<not> (open_promise c p \<and> key_of c p = key)" for p by (metis option.distinct(1))
  with assms show ?thesis
    by (auto simp: ttl_inv_def eq open_promise_def key_of_def nth_append less_Suc_eq)
qed

lemma open_set_promise:
  assumes "p < length (tc_promises c)"
  shows "open_promise (set_promise p (Ended r) c) q \<longleftrightarrow>
      (if q = p then True else open_promise c q)"
    and "open_promise (set_promise p (Done r) c) q \<longleftrightarrow> q \<noteq> p \<and> open_promise c q"
    and "key_of (set_promise p st c) q = key_of c q"
  using assms by (auto simp: open_promise_def set_promise_def key_of_def nth_list_update)

lemma ttl_inv_fetch_ends:
  assumes inv: "ttl_inv ttl mx c"
  shows "ttl_inv ttl mx (fetch_ends p r a b c)"
proof (cases "p < length (tc_promises c) \<and> tp_state (tc_promises c ! p) = Fetching")
  case False
  then have "fetch_ends p r a b c = c" by (auto simp: fetch_ends_def js_nth_def)
  with inv show ?thesis by simp
next
  case True
  then have op: "open_promise c p" by (simp add: open_promise_def)
  let ?c = "set_promise p (Ended r) c"
  have c: "ttl_inv ttl mx ?c"
    using inv True op by (auto simp: ttl_inv_def open_set_promise)
  have "ttl_inv ttl mx (store k v a b ?c)" for k v
    using c store_entries[of ?c k v a b] by (simp add: ttl_inv_def open_promise_def key_of_def)
  with c True show ?thesis by (cases r) (simp_all add: fetch_ends_def js_nth_def)
qed

lemma ttl_inv_finally:
  assumes inv: "ttl_inv ttl mx c"
  shows "ttl_inv ttl mx (finally_runs p c)"
proof (cases "\<exists>r. p < length (tc_promises c) \<and> tp_state (tc_promises c ! p) = Ended r")
  case False
  then have "finally_runs p c = c" by (auto simp: finally_runs_def js_nth_def split: fetch_state.split)
  with inv show ?thesis by simp
next
  case True
  then obtain r where p: "p < length (tc_promises c)" and r: "tp_state (tc_promises c ! p) = Ended r" by blast
  let ?d = "finally_runs p c"
  have eq: "?d = (set_promise p (Done r) c)\<lparr>tc_inFlight := obj_delete (tc_inFlight c) (key_of c p)\<rparr>"
    using p r by (simp add: finally_runs_def js_nth_def key_of_def)
  have fl: "map_of (tc_inFlight c) k = Some q \<longleftrightarrow> open_promise c q \<and> key_of c q = k" for k q
    using inv by (simp add: ttl_inv_def)
  have "open_promise c p" using p r by (simp add: open_promise_def)
  then have mine: "map_of (tc_inFlight c) (key_of c p) = Some p" by (simp add: fl)
  have od: "open_promise ?d q \<longleftrightarrow> q \<noteq> p \<and> open_promise c q" and kd: "key_of ?d q = key_of c q" for q
    using open_set_promise[OF p] by (simp_all add: eq open_promise_def key_of_def)
  have "map_of (tc_inFlight ?d) k = Some q \<longleftrightarrow> open_promise ?d q \<and> key_of ?d q = k" for k q
  proof -
    have "map_of (tc_inFlight ?d) k = Some q \<longleftrightarrow> k \<noteq> key_of c p \<and> map_of (tc_inFlight c) k = Some q"
      by (simp add: eq)
    also have "\<dots> \<longleftrightarrow> q \<noteq> p \<and> open_promise c q \<and> key_of c q = k" using mine fl by (metis option.inject)
    finally show ?thesis by (simp add: od kd)
  qed
  then show ?thesis using inv by (simp add: ttl_inv_def) (simp add: eq)
qed

interpretation ttl: event_system "ttl_handle :: ('e, 'v) ttl_event \<Rightarrow> ('e, 'v) ttl_cache \<Rightarrow> ('e, 'v) ttl_cache" "\<lambda>_ _. True" "ttl_inv ttl mx"
  for ttl mx
proof
  fix c :: "('e, 'v) ttl_cache" and ev :: "('e, 'v) ttl_event"
  assume "ttl_inv ttl mx c"
  then show "ttl_inv ttl mx (ttl_handle ev c)"
    by (cases ev) (simp_all add: ttl_inv_dedupe ttl_inv_fetch_ends ttl_inv_finally)
qed

lemma allowed_all [simp]: "allowed h (\<lambda>_ _. True) es s"
  by (induction es arbitrary: s) auto

lemma ttl_inv_run: "ttl_inv ttl mx (ttl_run evs (createTtlCache ttl mx))"
  unfolding ttl_run_def by (rule ttl.inv_run[OF ttl_inv_create]) simp

lemma ttl_params: "tc_ttlMs (ttl_run evs (createTtlCache ttl mx)) = ttl"
  using ttl_inv_run[of ttl mx evs] by (simp add: ttl_inv_def)

text \<open>Where an entry comes from: a fetch for its key that ended with its value.\<close>

definition fetched_by :: "('e, 'v) ttl_event list \<Rightarrow> ('e, 'v) ttl_cache \<Rightarrow> string \<Rightarrow> 'v cache_entry \<Rightarrow> bool" where
  "fetched_by evs c k e \<longleftrightarrow> (\<exists>p now1 now2. Fetch_ends p (Inr (ce_value e)) now1 now2 \<in> set evs
     \<and> p < length (tc_promises c) \<and> key_of c p = k \<and> tp_state (tc_promises c ! p) \<noteq> Fetching
     \<and> ce_expiresAt e = now2 + tc_ttlMs c)"

definition keeps :: "('e, 'v) ttl_cache \<Rightarrow> ('e, 'v) ttl_cache \<Rightarrow> bool" where
  "keeps c c' \<longleftrightarrow> tc_ttlMs c' = tc_ttlMs c \<and> length (tc_promises c) \<le> length (tc_promises c')
     \<and> (\<forall>p < length (tc_promises c). key_of c' p = key_of c p
          \<and> (tp_state (tc_promises c ! p) \<noteq> Fetching \<longrightarrow> tp_state (tc_promises c' ! p) \<noteq> Fetching))"

lemma fetched_by_keeps: "fetched_by evs c k e \<Longrightarrow> keeps c c' \<Longrightarrow> fetched_by (evs @ [ev]) c' k e"
proof -
  assume f: "fetched_by evs c k e" and kp: "keeps c c'"
  then obtain p a b where "Fetch_ends p (Inr (ce_value e)) a b \<in> set evs" "p < length (tc_promises c)" "key_of c p = k"
      "tp_state (tc_promises c ! p) \<noteq> Fetching" "ce_expiresAt e = b + tc_ttlMs c"
    unfolding fetched_by_def by blast
  with kp have "Fetch_ends p (Inr (ce_value e)) a b \<in> set (evs @ [ev])" "p < length (tc_promises c')" "key_of c' p = k"
      "tp_state (tc_promises c' ! p) \<noteq> Fetching" "ce_expiresAt e = b + tc_ttlMs c'"
    by (auto simp: keeps_def)
  then show ?thesis unfolding fetched_by_def by blast
qed

lemma keeps_handle: "keeps c (ttl_handle ev c)"
  by (cases ev)
    (auto simp: keeps_def dedupe_def fetch_ends_def finally_runs_def set_promise_def key_of_def js_nth_def nth_append
       nth_list_update Let_def split: option.splits if_splits sum.splits fetch_state.splits)

lemma entries_handle:
  assumes "(k, e) \<in> set (tc_entries (ttl_handle ev c))" and "(k, e) \<notin> set (tc_entries c)"
  shows "fetched_by (evs @ [ev]) (ttl_handle ev c) k e"
proof (cases ev)
  case (Call key now)
  with assms show ?thesis by (auto simp: dedupe_def Let_def split: option.splits if_splits)
next
  case (Finally p)
  with assms show ?thesis
    by (auto simp: finally_runs_def js_nth_def split: if_splits fetch_state.splits)
next
  case (Fetch_ends p r a b)
  from assms Fetch_ends have p: "p < length (tc_promises c)" "tp_state (tc_promises c ! p) = Fetching"
    by (auto simp: fetch_ends_def js_nth_def split: if_splits)
  then obtain v where v: "r = Inr v"
    using assms Fetch_ends by (cases r) (auto simp: fetch_ends_def js_nth_def)
  with assms Fetch_ends p have "(k, e) \<in> set (tc_entries (store (key_of c p) v a b (set_promise p (Ended r) c)))"
    by (simp add: fetch_ends_def js_nth_def key_of_def)
  with assms(2) have "k = key_of c p" "e = \<lparr>ce_value = v, ce_expiresAt = b + tc_ttlMs c\<rparr>"
    by (auto dest: store_new)
  then show ?thesis using Fetch_ends p v
    by (auto simp: fetched_by_def fetch_ends_def js_nth_def set_promise_def key_of_def)
qed

lemma entries_fetched:
  "(k, e) \<in> set (tc_entries (ttl_run evs (createTtlCache ttl mx))) \<Longrightarrow> fetched_by evs (ttl_run evs (createTtlCache ttl mx)) k e"
proof (induction evs rule: rev_induct)
  case Nil
  then show ?case by (simp add: ttl_run_def createTtlCache_def)
next
  case (snoc ev evs)
  let ?c = "ttl_run evs (createTtlCache ttl mx)"
  have eq: "ttl_run (evs @ [ev]) (createTtlCache ttl mx) = ttl_handle ev ?c" by (simp add: ttl_run_def)
  show ?case
  proof (cases "(k, e) \<in> set (tc_entries ?c)")
    case True
    then show ?thesis using snoc.IH fetched_by_keeps[OF _ keeps_handle] by (simp add: eq)
  next
    case False
    with snoc.prems entries_handle show ?thesis by (simp add: eq)
  qed
qed

section \<open>Properties\<close>

text \<open>
  C19. In every run of the cache it holds at most \<open>maxEntries\<close> entries (one, if that is zero), and no two
  fetches for the same key are under way: a key has at most one promise whose \<open>finally\<close> has not run.
\<close>

theorem ttl_cache_bounded_and_coalescing:
  "let c = ttl_run evs (createTtlCache ttl mx)
   in length (tc_entries c) \<le> max 1 mx
      \<and> (\<forall>p q. open_promise c p \<and> open_promise c q \<and> key_of c p = key_of c q \<longrightarrow> p = q)"
  using ttl_inv_run[of ttl mx evs] unfolding Let_def ttl_inv_def by (metis option.inject)

text \<open>Four calls for three keys in a cache of two entries: one call shares a fetch, one entry is evicted.\<close>

definition demo_ttl_events :: "(unit, nat) ttl_event list" where
  "demo_ttl_events =
     [Call ''a'' 0, Call ''a'' 1, Fetch_ends 0 (Inr 7) 2 2, Finally 0, Call ''b'' 3, Fetch_ends 1 (Inr 8) 4 4,
      Call ''c'' 5, Fetch_ends 2 (Inr 9) 6 6]"

theorem ttl_cache_bounded_and_coalescing_witness:
  "map fst (tc_entries (ttl_run demo_ttl_events (createTtlCache 100 2))) = [''b'', ''c'']
   \<and> {p. open_promise (ttl_run demo_ttl_events (createTtlCache 100 2)) p
         \<and> key_of (ttl_run demo_ttl_events (createTtlCache 100 2)) p = ''c''} = {2}"
proof -
  let ?c = "ttl_run demo_ttl_events (createTtlCache 100 2)"
  have "map fst (tc_entries ?c) = [''b'', ''c'']" by code_simp
  moreover have "open_promise ?c 2" "key_of ?c 2 = ''c''" unfolding open_promise_def key_of_def by code_simp+
  moreover have "p = 2" if "open_promise ?c p" "key_of ?c p = ''c''" for p
    using ttl_cache_bounded_and_coalescing[of demo_ttl_events 100 2] that calculation unfolding Let_def by metis
  ultimately show ?thesis by auto
qed

text \<open>
  In every run a call for a key is answered with a value only if a fetch for that key ended with it less
  than \<open>ttlMs\<close> ago; otherwise with the promise under way for that key, a new one exactly when there is none.
\<close>

theorem dedupe_answers:
  "let c = ttl_run evs (createTtlCache ttl mx)
   in case dedupe key now c of
        (Hit v, c') \<Rightarrow> c' = c \<and> (\<exists>p now1 now2. Fetch_ends p (Inr v) now1 now2 \<in> set evs \<and> key_of c p = key
                           \<and> p < length (tc_promises c) \<and> now < now2 + ttl)
      | (Promise p, c') \<Rightarrow> open_promise c' p \<and> key_of c' p = key \<and> (\<forall>q. open_promise c' q \<longleftrightarrow> open_promise c q \<or> q = p)
          \<and> (c' = c \<longleftrightarrow> (\<exists>q. open_promise c q \<and> key_of c q = key))"
proof -
  define c where "c = ttl_run evs (createTtlCache ttl mx)"
  have inv: "ttl_inv ttl mx c" unfolding c_def by (rule ttl_inv_run)
  then have fl: "map_of (tc_inFlight c) k = Some q \<longleftrightarrow> open_promise c q \<and> key_of c q = k" for k q
    by (simp add: ttl_inv_def)
  have hit: "\<exists>p now1 now2. Fetch_ends p (Inr (ce_value e)) now1 now2 \<in> set evs \<and> key_of c p = key
      \<and> p < length (tc_promises c) \<and> now < now2 + ttl"
    if "map_of (tc_entries c) key = Some e" "now < ce_expiresAt e" for e
    using entries_fetched[OF map_of_SomeD[OF that(1)[unfolded c_def]]] that(2) ttl_params[of evs ttl mx]
    unfolding fetched_by_def c_def[symmetric] by metis
  show ?thesis
  proof (cases "\<exists>e. map_of (tc_entries c) key = Some e \<and> now < ce_expiresAt e")
    case True
    then obtain e where e: "map_of (tc_entries c) key = Some e" "now < ce_expiresAt e" by blast
    then have "dedupe key now c = (Hit (ce_value e), c)" by (simp add: dedupe_def)
    with hit[OF e] show ?thesis unfolding Let_def c_def[symmetric] by simp
  next
    case False
    show ?thesis
    proof (cases "map_of (tc_inFlight c) key")
      case (Some q)
      with False have "dedupe key now c = (Promise q, c)" by (auto simp: dedupe_def Let_def split: option.splits)
      with Some fl[of key q] show ?thesis unfolding Let_def c_def[symmetric] by auto
    next
      case None
      let ?c = "c\<lparr>tc_promises := tc_promises c @ [\<lparr>tp_key = key, tp_state = Fetching\<rparr>],
                  tc_inFlight := obj_set (tc_inFlight c) key (length (tc_promises c))\<rparr>"
      from None False have d: "dedupe key now c = (Promise (length (tc_promises c)), ?c)"
        by (auto simp: dedupe_def Let_def split: option.splits)
      have "?c \<noteq> c" by (metis append_self_conv not_Cons_self2 ttl_cache.select_convs(5) ttl_cache.surjective ttl_cache.update_convs(4) ttl_cache.update_convs(5))
      moreover have "\<not> (\<exists>q. open_promise c q \<and> key_of c q = key)" using None fl by (metis option.distinct(1))
      ultimately show ?thesis unfolding Let_def c_def[symmetric] d
        by (auto simp: open_promise_def key_of_def nth_append)
    qed
  qed
qed

end
