(* ===== verification/Simulation_Classifier.thy ===== *)
theory Simulation_Classifier
  imports Prelude
begin

text \<open>
  \<^verbatim>\<open>packages/blockchain-api/src/lib/utils/simulation-classifier.ts\<close>: the category of a failed simulation,
  from its error text and logs. The regular expressions are functions on the text that is left: \<open>first_match\<close>
  tries them at each position from the left.
\<close>

fun first_match :: "(string \<Rightarrow> 'a option) \<Rightarrow> string \<Rightarrow> 'a option" where
  "first_match f [] = f []"
| "first_match f (c # cs) = (case f (c # cs) of Some x \<Rightarrow> Some x | None \<Rightarrow> first_match f cs)"

definition after_prefix :: "string \<Rightarrow> string \<Rightarrow> string option" where
  "after_prefix p s = (if take (length p) s = p then Some (drop (length p) s) else None)"

text \<open>The classes \<open>\s\<close> and \<open>\d\<close>, the end of a line, and a non-empty run of a class.\<close>

definition is_space :: "char \<Rightarrow> bool" where
  "is_space c \<longleftrightarrow> (let n = of_char c :: nat in 9 \<le> n \<and> n \<le> 13 \<or> n = 32 \<or> n = 160)"

definition is_digit :: "char \<Rightarrow> bool" where
  "is_digit c \<longleftrightarrow> (let n = of_char c :: nat in 48 \<le> n \<and> n \<le> 57)"

definition newline :: char where
  "newline = CHR 0x0A"

definition ends_line :: "char \<Rightarrow> bool" where
  "ends_line c \<longleftrightarrow> c = newline \<or> c = CHR 0x0D"

definition span1 :: "(char \<Rightarrow> bool) \<Rightarrow> string \<Rightarrow> (string \<times> string) option" where
  "span1 P s = (let w = takeWhile P s in if w = [] then None else Some (w, dropWhile P s))"

text \<open>\<open>/Program (\S+) failed/\<close>, with what follows; the word cannot hold the space before \<open>failed\<close>.\<close>

definition program_failed_at :: "string \<Rightarrow> (string \<times> string) option" where
  "program_failed_at s =
     Option.bind (after_prefix ''Program '' s) (\<lambda>r.
     Option.bind (span1 (\<lambda>c. \<not> is_space c) r) (\<lambda>(w, r').
     Option.bind (after_prefix '' failed'' r') (\<lambda>rest. Some (w, rest))))"

definition program_match :: "string \<Rightarrow> string option" where
  "program_match = first_match (\<lambda>s. map_option fst (program_failed_at s))"

text \<open>\<open>/Program (\S+) failed.*(?:insufficient|custom program error)/\<close>; the dot does not match the end of a line.\<close>

definition funds_program_match :: "string \<Rightarrow> string option" where
  "funds_program_match = first_match (\<lambda>s.
     Option.bind (program_failed_at s) (\<lambda>(w, rest).
       let line = takeWhile (\<lambda>c. \<not> ends_line c) rest
       in if js_includes line ''insufficient'' \<or> js_includes line ''custom program error'' then Some w else None))"

text \<open>\<open>/insufficient lamports (\d+), need (\d+)/\<close> and \<open>/Custom[":]+(\d+)/\<close>.\<close>

definition amount_match :: "string \<Rightarrow> (string \<times> string) option" where
  "amount_match = first_match (\<lambda>s.
     Option.bind (after_prefix ''insufficient lamports '' s) (\<lambda>r.
     Option.bind (span1 is_digit r) (\<lambda>(have, r1).
     Option.bind (after_prefix '', need '' r1) (\<lambda>r2.
     Option.bind (span1 is_digit r2) (\<lambda>(need, _). Some (have, need))))))"

definition custom_match :: "string \<Rightarrow> string option" where
  "custom_match = first_match (\<lambda>s.
     Option.bind (after_prefix ''Custom'' s) (\<lambda>r.
     Option.bind (span1 (\<lambda>c. c = CHR 0x22 \<or> c = CHR '':'') r) (\<lambda>(_, r1).
     Option.bind (span1 is_digit r1) (\<lambda>(n, _). Some n))))"

text \<open>\<open>xs.join(sep)\<close>; a null element is the empty text.\<close>

fun js_join :: "string \<Rightarrow> string list \<Rightarrow> string" where
  "js_join sep [] = []"
| "js_join sep [x] = x"
| "js_join sep (x # y # xs) = x @ sep @ js_join sep (y # xs)"

definition text_or_empty :: "string option \<Rightarrow> string" where
  "text_or_empty x = (case x of None \<Rightarrow> [] | Some t \<Rightarrow> t)"

definition or_unknown :: "string option \<Rightarrow> string" where
  "or_unknown x = (case x of None \<Rightarrow> ''unknown'' | Some t \<Rightarrow> t)"

definition classifySimulationLogs :: "string \<Rightarrow> string option list option \<Rightarrow> string \<times> string" where
  "classifySimulationLogs errorMessage logs =
     (let logsStr = js_join [newline] (map text_or_empty (case logs of None \<Rightarrow> [] | Some ls \<Rightarrow> ls));
          combined = errorMessage @ [newline] @ logsStr
      in if js_includes errorMessage ''AccountNotFound'' \<or> js_includes logsStr ''AccountNotFound''
         then (''account_not_found'', ''AccountNotFound'')
         else if js_includes errorMessage ''InvalidAccountForFee'' \<or> js_includes logsStr ''InvalidAccountForFee''
         then (''invalid_account_for_fee'', ''InvalidAccountForFee'')
         else if js_includes combined ''insufficient lamports'' \<or> js_includes combined ''insufficient funds''
         then (let program = or_unknown (funds_program_match combined)
               in (''insufficient_funds'',
                   case amount_match combined of
                     Some (have, need) \<Rightarrow>
                       ''insufficient_lamports(have='' @ have @ '',need='' @ need @ '',program='' @ program @ '')''
                   | None \<Rightarrow> ''insufficient_funds(program='' @ program @ '')''))
         else if js_includes combined ''BlockhashNotFound'' then (''blockhash_not_found'', ''BlockhashNotFound'')
         else if js_includes combined ''already in use'' then (''account_already_in_use'', ''account already in use'')
         else case custom_match errorMessage of
                Some n \<Rightarrow>
                  (''custom_program_error'',
                   ''Custom('' @ n @ '')(program='' @ or_unknown (program_match logsStr) @ '')'')
              | None \<Rightarrow> (''other'', if errorMessage = [] then ''unknown'' else take 100 errorMessage))"

end
