(* ===== verification/Batch_Submission.thy ===== *)
theory Batch_Submission
  imports Ttl_Cache Simulation_Classifier "HOL-Library.Sublist"
begin

text \<open>
  The submission of a batch of transactions by \<^verbatim>\<open>packages/blockchain-api\<close>: \<^verbatim>\<open>lib/utils/transaction-submission.ts\<close>
  with \<^verbatim>\<open>jito.ts\<close>, \<^verbatim>\<open>submission-helpers.ts\<close> and \<^verbatim>\<open>explorer.ts\<close>. A batch goes to the node one transaction at a
  time, or as one bundle to the block engine when there are several on the main network.

  The requests made so far are the log of the state \<open>net\<close>; what the node and the block engine answer may
  depend on all of it. An operation that may throw and makes requests has the type \<open>'a io\<close>.
\<close>

section \<open>Data\<close>

text \<open>A thrown value: an \<open>Error\<close> with its message, or anything else with its text.\<close>

datatype thrown =
    Error_value string
  | Other_value string

fun error_message :: "thrown \<Rightarrow> string" where
  "error_message (Error_value m) = m"
| "error_message (Other_value t) = ''Unknown error''"

fun error_text :: "thrown \<Rightarrow> string" where
  "error_text (Error_value m) = m"
| "error_text (Other_value t) = t"

text \<open>A versioned transaction as the code reads it; \<open>vx_writable\<close> is \<open>isAccountWritable\<close> of the static keys.\<close>

record vtx =
  vx_staticAccountKeys :: "pubkey list"
  vx_writable :: "bool list"
  vx_signatures :: "bytes list"
  vx_recentBlockhash :: string
  vx_message :: string

record tx_metadata =
  md_type :: string
  md_description :: string

text \<open>Answers over HTTP: a JSON-RPC body with its error (message and JSON text), its result and its whole text.\<close>

record 'a rpc_body =
  rb_error :: "(string \<times> string) option"
  rb_result :: "'a option"
  rb_text :: string

record 'a http_reply =
  hr_ok :: bool
  hr_status :: nat
  hr_text :: string
  hr_json :: "thrown + 'a rpc_body"

datatype json_value =
    Text string
  | Object string

fun json_text :: "json_value \<Rightarrow> string" where
  "json_text (Text t) = t"
| "json_text (Object t) = t"

record tx_result =
  xr_logs :: "string list option"
  xr_err :: "json_value option"

record simulation =
  sm_summary :: json_value
  sm_transactionResults :: "tx_result list"

text \<open>The answer to \<open>simulateBundle\<close> comes with or without a context.\<close>

datatype simulation_result =
    Bare simulation
  | With_context simulation

record signature_status =
  gs_err :: "string option"
  gs_confirmationStatus :: "string option"

datatype net_event =
    Sent string
  | Tips_asked
  | Bundle_simulated "string list"
  | Bundle_sent "string list"
  | Statuses_asked "string list"
  | Tx_simulated string
  | Balance_asked pubkey
  | Blockhash_asked
  | Height_asked
  | Transaction_asked string
  | Bundle_status_asked string
  | Database_asked

record net =
  nt_log :: "net_event list"
  nt_tips :: "(thrown, string list) ttl_cache"

record api_env =
  ae_cluster :: string
  ae_deserialize :: "string \<Rightarrow> thrown + vtx"
  ae_serialize :: "vtx \<Rightarrow> thrown + string"
  ae_serializeMessage :: "vtx \<Rightarrow> thrown + string"
  ae_bs58 :: "bytes \<Rightarrow> string"
  ae_now :: "net_event list \<Rightarrow> nat"
  ae_sendRaw :: "net_event list \<Rightarrow> string \<Rightarrow> thrown + string"
  ae_tipAccounts :: "net_event list \<Rightarrow> thrown + string list http_reply"
  ae_simulateBundle :: "net_event list \<Rightarrow> string list \<Rightarrow> thrown + simulation_result http_reply"
  ae_sendBundle :: "net_event list \<Rightarrow> string list \<Rightarrow> thrown + string http_reply"
  ae_statuses :: "net_event list \<Rightarrow> string list \<Rightarrow> thrown + signature_status option list"
  ae_random :: "net_event list \<Rightarrow> nat \<Rightarrow> nat"
  ae_tipAccount :: "string option"
  ae_rejects :: "net_event list \<Rightarrow> nat list \<Rightarrow> nat"

section \<open>Errors\<close>

record bundle_failure =
  bf_category :: string
  bf_actionType :: string
  bf_detail :: string
  bf_summary :: string
  bf_transactionResults :: "tx_result list"
  bf_explorerLinks :: "string option list"
  bf_chewingGlassExplorerLinks :: "string option list"
  bf_bundleSize :: nat
  bf_tag :: "string option"
  bf_payer :: "string option"
  bf_transactionMetadata :: "tx_metadata option list option"

record bundle_rejection =
  bj_message :: string
  bj_explorerLinks :: "string option list"
  bj_chewingGlassExplorerLinks :: "string option list"
  bj_bundleSize :: nat
  bj_tag :: "string option"
  bj_payer :: "string option"
  bj_transactionMetadata :: "tx_metadata option list option"

datatype submit_error =
    Thrown thrown
  | SingleTransactionSubmissionError string "string option" "string option"
  | JitoMissingTipError string nat
  | BundleSimulationError bundle_failure
  | JitoBundleSubmissionError bundle_rejection

definition bf_logs :: "bundle_failure \<Rightarrow> string list" where
  "bf_logs f = concat (map (\<lambda>r. case xr_logs r of None \<Rightarrow> [] | Some ls \<Rightarrow> ls) (bf_transactionResults f))"

fun submit_error_text :: "submit_error \<Rightarrow> string" where
  "submit_error_text (Thrown e) = error_text e"
| "submit_error_text (SingleTransactionSubmissionError m _ _) = m"
| "submit_error_text (JitoMissingTipError m _) = m"
| "submit_error_text (BundleSimulationError f) =
     ''Jito bundle simulation failed ['' @ bf_category f @ ''] ('' @ bf_actionType f @ ''): '' @ bf_detail f"
| "submit_error_text (JitoBundleSubmissionError j) = bj_message j"

section \<open>Effects\<close>

type_synonym 'a io = "net \<Rightarrow> (submit_error + 'a) \<times> net"

definition io_return :: "'a \<Rightarrow> 'a io" where
  "io_return x n = (Inr x, n)"

definition io_throw :: "submit_error \<Rightarrow> 'a io" where
  "io_throw e n = (Inl e, n)"

definition io_bind :: "'a io \<Rightarrow> ('a \<Rightarrow> 'b io) \<Rightarrow> 'b io" where
  "io_bind m f n = (case m n of (Inl e, n') \<Rightarrow> (Inl e, n') | (Inr x, n') \<Rightarrow> f x n')"

definition io_of :: "thrown + 'a \<Rightarrow> 'a io" where
  "io_of r n = (case r of Inl e \<Rightarrow> (Inl (Thrown e), n) | Inr x \<Rightarrow> (Inr x, n))"

definition log_event :: "net_event \<Rightarrow> net \<Rightarrow> net" where
  "log_event ev n = n\<lparr>nt_log := nt_log n @ [ev]\<rparr>"

text \<open>A request: it is logged, and its answer depends on what was logged before.\<close>

definition request :: "net_event \<Rightarrow> (net_event list \<Rightarrow> thrown + 'a) \<Rightarrow> net \<Rightarrow> (thrown + 'a) \<times> net" where
  "request ev f n = (f (nt_log n), log_event ev n)"

section \<open>explorer.ts\<close>

definition getCluster :: "api_env \<Rightarrow> string" where
  "getCluster env = (if ae_cluster env = [] then ''mainnet'' else ae_cluster env)"

text \<open>\<open>encodeURIComponent\<close> on ASCII text.\<close>

definition hex_digit :: "nat \<Rightarrow> char" where
  "hex_digit n = (if n < 10 then char_of (48 + n) else char_of (55 + n))"

definition uri_char :: "char \<Rightarrow> string" where
  "uri_char c =
     (let n = of_char c :: nat
      in if 48 \<le> n \<and> n \<le> 57 \<or> 65 \<le> n \<and> n \<le> 90 \<or> 97 \<le> n \<and> n \<le> 122 \<or> c \<in> set ''-_.!~*()'' \<or> n = 39 then [c]
         else [CHR ''%'', hex_digit (n div 16), hex_digit (n mod 16)])"

definition encodeURIComponent :: "string \<Rightarrow> string" where
  "encodeURIComponent s = concat (map uri_char s)"

definition getExplorerUrl :: "api_env \<Rightarrow> vtx \<Rightarrow> thrown + string" where
  "getExplorerUrl env transaction =
     ebind (ae_serializeMessage env transaction) (\<lambda>message.
       Inr (''https://explorer.solana.com/tx/inspector?cluster='' @ getCluster env @ ''&message='' @ encodeURIComponent message))"

definition getChewingGlassExplorerUrl :: "api_env \<Rightarrow> vtx \<Rightarrow> thrown + string" where
  "getChewingGlassExplorerUrl env transaction =
     ebind (ae_serializeMessage env transaction) (\<lambda>message.
       Inr (''https://explorer.chewing.glass?network='' @ getCluster env @ ''&message='' @ encodeURIComponent message))"

definition link_or_null :: "thrown + string \<Rightarrow> string option" where
  "link_or_null r = (case r of Inl _ \<Rightarrow> None | Inr l \<Rightarrow> Some l)"

section \<open>submission-helpers.ts\<close>

definition status_landed :: "signature_status option \<Rightarrow> bool" where
  "status_landed s = (case s of
     None \<Rightarrow> False
   | Some st \<Rightarrow> gs_err st = None
       \<and> (gs_confirmationStatus st = Some ''confirmed'' \<or> gs_confirmationStatus st = Some ''finalized''))"

text \<open>\<open>transactionMetadata?.[i]?.type\<close>.\<close>

definition metadata_type :: "tx_metadata option list option \<Rightarrow> nat \<Rightarrow> string option" where
  "metadata_type meta i = (case meta of
     None \<Rightarrow> None
   | Some ms \<Rightarrow> (case js_nth ms i of Some (Some m) \<Rightarrow> Some (md_type m) | _ \<Rightarrow> None))"

definition isBundleLanded :: "signature_status option list \<Rightarrow> tx_metadata option list option \<Rightarrow> bool" where
  "isBundleLanded statuses transactionMetadata =
     (let realStatuses = map snd (filter (\<lambda>(i, _). metadata_type transactionMetadata i \<noteq> Some ''jito_tip'') (enumerate 0 statuses));
          toCheck = (if length realStatuses > 0 then realStatuses else statuses)
      in if length toCheck = 0 then False else list_all status_landed toCheck)"

definition isClientCraftedBundleTag :: "string option \<Rightarrow> bool" where
  "isClientCraftedBundleTag tag = (case tag of
     None \<Rightarrow> False
   | Some t \<Rightarrow> t \<noteq> [] \<and> (js_includes t ''implicit-burn'' \<or> js_includes t ''claim-rewards''))"

datatype submission_type = single | parallel | sequential | jito_bundle

definition predictSubmissionType :: "nat \<Rightarrow> bool \<Rightarrow> bool \<Rightarrow> submission_type" where
  "predictSubmissionType transactionCount useJitoBundle par =
     (if transactionCount = 1 then single
      else if useJitoBundle then jito_bundle
      else if par then parallel else sequential)"

section \<open>jito.ts\<close>

definition shouldUseJitoBundle :: "nat \<Rightarrow> string \<Rightarrow> bool" where
  "shouldUseJitoBundle transactionsLength cluster \<longleftrightarrow>
     (cluster = ''mainnet'' \<or> cluster = ''mainnet-beta'') \<and> transactionsLength > 1"

definition TIP_ACCOUNTS_TTL_MS :: nat where
  "TIP_ACCOUNTS_TTL_MS = 5 * 60 * 1000"

definition tipAccountsCache :: "(thrown, string list) ttl_cache" where
  "tipAccountsCache = createTtlCache TIP_ACCOUNTS_TTL_MS 1000"

definition rpc_error_text :: "string \<times> string \<Rightarrow> string" where
  "rpc_error_text e = (if fst e = [] then snd e else fst e)"

definition fetchJitoTipAccounts :: "thrown + string list http_reply \<Rightarrow> thrown + string list" where
  "fetchJitoTipAccounts reply =
     ebind reply (\<lambda>response.
       if \<not> hr_ok response then Inl (Error_value (''HTTP '' @ nat_str (hr_status response) @ '': '' @ hr_text response))
       else ebind (hr_json response) (\<lambda>result.
         case rb_error result of
           Some e \<Rightarrow> Inl (Error_value (rpc_error_text e))
         | None \<Rightarrow>
             (case rb_result result of
                Some (a # as) \<Rightarrow> Inr (a # as)
              | _ \<Rightarrow> Inl (Error_value ''Empty tip accounts response''))))"

text \<open>
  \<open>tipAccountsCache("tip-accounts", fetchJitoTipAccounts)\<close>, awaited: the cache answers, or the request is made
  and its outcome passes through the cache.
\<close>

definition getJitoTipAccounts :: "api_env \<Rightarrow> net \<Rightarrow> (thrown + string list) \<times> net" where
  "getJitoTipAccounts env n =
     (case dedupe ''tip-accounts'' (ae_now env (nt_log n)) (nt_tips n) of
        (Hit v, c) \<Rightarrow> (Inr v, n)
      | (Promise p, c) \<Rightarrow>
          (case request Tips_asked (ae_tipAccounts env) n of
             (reply, n1) \<Rightarrow>
               (let r = fetchJitoTipAccounts reply; now = ae_now env (nt_log n1)
                in (r, n1\<lparr>nt_tips := finally_runs p (fetch_ends p r now now c)\<rparr>))))"

text \<open>\<open>ae_random log k\<close> is \<open>Math.floor(Math.random() * k)\<close>.\<close>

definition getJitoTipAccount :: "api_env \<Rightarrow> net \<Rightarrow> (thrown + string option) \<times> net" where
  "getJitoTipAccount env n =
     (case getJitoTipAccounts env n of
        (Inl e, n') \<Rightarrow> (Inl e, n')
      | (Inr tipAccounts, n') \<Rightarrow> (Inr (js_nth tipAccounts (ae_random env (nt_log n') (length tipAccounts))), n'))"

definition resolveJitoTipAccount :: "api_env \<Rightarrow> net \<Rightarrow> (thrown + string option) \<times> net" where
  "resolveJitoTipAccount env n =
     (case getJitoTipAccount env n of
        (Inr a, n') \<Rightarrow> (Inr a, n')
      | (Inl e, n') \<Rightarrow>
          (case ae_tipAccount env of
             None \<Rightarrow> (Inl (Error_value ''Failed to fetch Jito tip accounts and JITO_TIP_ACCOUNT fallback not configured''), n')
           | Some a \<Rightarrow>
               if a = [] then (Inl (Error_value ''Failed to fetch Jito tip accounts and JITO_TIP_ACCOUNT fallback not configured''), n')
               else (Inr (Some a), n')))"

definition truthy_err :: "json_value option \<Rightarrow> bool" where
  "truthy_err e \<longleftrightarrow> e \<noteq> None \<and> e \<noteq> Some (Text [])"

definition classifyBundleSimulationFailure :: "tx_result list \<Rightarrow> string \<times> string" where
  "classifyBundleSimulationFailure txResults =
     (let allLogs = concat (map (\<lambda>r. case xr_logs r of None \<Rightarrow> [] | Some ls \<Rightarrow> ls) txResults);
          errStr = (case find (\<lambda>r. truthy_err (xr_err r)) txResults of
                      Some r \<Rightarrow> (case xr_err r of Some e \<Rightarrow> json_text e | None \<Rightarrow> [])
                    | None \<Rightarrow> [])
      in classifySimulationLogs errStr (Some (map Some allLogs)))"

record bundle_context =
  bc_tag :: "string option"
  bc_payer :: "string option"
  bc_transactionMetadata :: "tx_metadata option list option"

definition deriveActionType :: "bundle_context \<Rightarrow> string" where
  "deriveActionType context = (case bc_transactionMetadata context of
     None \<Rightarrow> ''unknown''
   | Some meta \<Rightarrow>
       (case find (\<lambda>m. case m of None \<Rightarrow> False | Some d \<Rightarrow> md_type d \<noteq> [] \<and> md_type d \<noteq> ''jito_tip'') meta of
          Some (Some d) \<Rightarrow> md_type d
        | _ \<Rightarrow> ''unknown''))"

text \<open>Both bundle calls decode the transactions and encode them again.\<close>

definition deserialized :: "api_env \<Rightarrow> string list \<Rightarrow> vtx list io" where
  "deserialized env txs = io_of (emap (ae_deserialize env) txs)"

definition reserialized :: "api_env \<Rightarrow> vtx list \<Rightarrow> string list io" where
  "reserialized env txs = io_of (emap (ae_serialize env) txs)"

definition the_simulation :: "simulation_result \<Rightarrow> simulation" where
  "the_simulation r = (case r of Bare s \<Rightarrow> s | With_context s \<Rightarrow> s)"

definition bundle_simulation_error :: "api_env \<Rightarrow> vtx list \<Rightarrow> bundle_context \<Rightarrow> simulation \<Rightarrow> submit_error" where
  "bundle_simulation_error env txs context sim =
     (let (category, detail) = classifyBundleSimulationFailure (sm_transactionResults sim)
      in BundleSimulationError
           \<lparr>bf_category = category, bf_actionType = deriveActionType context, bf_detail = detail,
            bf_summary = json_text (sm_summary sim), bf_transactionResults = sm_transactionResults sim,
            bf_explorerLinks = map (\<lambda>tx. link_or_null (getExplorerUrl env tx)) txs,
            bf_chewingGlassExplorerLinks = map (\<lambda>tx. link_or_null (getChewingGlassExplorerUrl env tx)) txs,
            bf_bundleSize = length txs, bf_tag = bc_tag context, bf_payer = bc_payer context,
            bf_transactionMetadata = bc_transactionMetadata context\<rparr>)"

definition simulation_checked :: "api_env \<Rightarrow> vtx list \<Rightarrow> bundle_context \<Rightarrow> simulation_result http_reply \<Rightarrow> unit io" where
  "simulation_checked env txs context response =
     io_bind (io_of (hr_json response)) (\<lambda>rpcResponse.
       if \<not> hr_ok response
       then io_throw (Thrown (Error_value (''simulateBundle HTTP '' @ nat_str (hr_status response) @ '': '' @ rb_text rpcResponse)))
       else case rb_error rpcResponse of
              Some e \<Rightarrow> io_throw (Thrown (Error_value (''simulateBundle RPC error: '' @ rpc_error_text e)))
            | None \<Rightarrow>
                (case rb_result rpcResponse of
                   Some r \<Rightarrow>
                     if sm_summary (the_simulation r) \<noteq> Text ''succeeded''
                     then io_throw (bundle_simulation_error env txs context (the_simulation r))
                     else io_return ()
                 | None \<Rightarrow> io_return ()))"

definition simulateJitoBundle :: "api_env \<Rightarrow> string list \<Rightarrow> bundle_context \<Rightarrow> unit io" where
  "simulateJitoBundle env serializedTransactions context =
     io_bind (deserialized env serializedTransactions) (\<lambda>txs.
     io_bind (reserialized env txs) (\<lambda>base64Txs.
     io_bind (\<lambda>n. case request (Bundle_simulated base64Txs) (\<lambda>log. ae_simulateBundle env log base64Txs) n of
                    (r, n') \<Rightarrow> io_of r n')
       (simulation_checked env txs context)))"

definition sendBundle_outcome :: "thrown + string http_reply \<Rightarrow> thrown + string option" where
  "sendBundle_outcome reply =
     ebind reply (\<lambda>response.
       if \<not> hr_ok response
       then ebind (hr_json response) (\<lambda>b.
              Inl (Error_value (''HTTP error! status: '' @ nat_str (hr_status response) @ '': '' @ rb_text b)))
       else ebind (hr_json response) (\<lambda>result.
         case rb_error result of
           Some e \<Rightarrow> Inl (Error_value (''Jito API error: '' @ rpc_error_text e))
         | None \<Rightarrow> Inr (rb_result result)))"

definition submitJitoBundle :: "api_env \<Rightarrow> string list \<Rightarrow> bundle_context \<Rightarrow> string option io" where
  "submitJitoBundle env serializedTransactions context =
     io_bind (deserialized env serializedTransactions) (\<lambda>txs.
     io_bind (reserialized env txs) (\<lambda>transactions n.
       case request (Bundle_sent transactions) (\<lambda>log. ae_sendBundle env log transactions) n of
         (reply, n') \<Rightarrow>
           (case sendBundle_outcome reply of
              Inr jitoBundleId \<Rightarrow> (Inr jitoBundleId, n')
            | Inl e \<Rightarrow>
                (Inl (JitoBundleSubmissionError
                   \<lparr>bj_message = ''Jito bundle submission failed: '' @ error_message e,
                    bj_explorerLinks = map (\<lambda>tx. link_or_null (getExplorerUrl env tx)) txs,
                    bj_chewingGlassExplorerLinks = map (\<lambda>tx. link_or_null (getChewingGlassExplorerUrl env tx)) txs,
                    bj_bundleSize = length serializedTransactions, bj_tag = bc_tag context,
                    bj_payer = bc_payer context, bj_transactionMetadata = bc_transactionMetadata context\<rparr>), n'))))"

definition JITO_TIP_METADATA :: tx_metadata where
  "JITO_TIP_METADATA = \<lparr>md_type = ''jito_tip'', md_description = ''Jito bundle tip''\<rparr>"

definition serializeWithTipMetadata :: "api_env \<Rightarrow> vtx list \<Rightarrow> tx_metadata \<Rightarrow> bool \<Rightarrow> thrown + (string \<times> tx_metadata) list" where
  "serializeWithTipMetadata env transactions metadata hasTip =
     emap (\<lambda>(i, tx). ebind (ae_serialize env tx) (\<lambda>s.
         Inr (s, if hasTip \<and> i + 1 = length transactions then JITO_TIP_METADATA else metadata)))
       (enumerate 0 transactions)"

section \<open>transaction-submission.ts\<close>

definition has_tip_key :: "string list \<Rightarrow> vtx \<Rightarrow> bool" where
  "has_tip_key tipAccounts tx =
     list_ex (\<lambda>(i, key). js_nth (vx_writable tx) i = Some True \<and> key \<in> set tipAccounts) (enumerate 0 (vx_staticAccountKeys tx))"

definition bundleHasTipAccount :: "api_env \<Rightarrow> vtx list \<Rightarrow> net \<Rightarrow> bool \<times> net" where
  "bundleHasTipAccount env transactions n =
     (case getJitoTipAccounts env n of
        (Inl e, n') \<Rightarrow> (True, n')
      | (Inr tipAccounts, n') \<Rightarrow> (list_ex (has_tip_key tipAccounts) transactions, n'))"

definition isBlockhashNotFoundError :: "submit_error \<Rightarrow> bool" where
  "isBlockhashNotFoundError e \<longleftrightarrow>
     js_includes (submit_error_text e) ''Blockhash not found'' \<or> js_includes (submit_error_text e) ''blockhash not found''"

definition bundleTransactionsLanded :: "api_env \<Rightarrow> string list \<Rightarrow> tx_metadata option list option \<Rightarrow> bool io" where
  "bundleTransactionsLanded env signatures transactionMetadata n =
     (case request (Statuses_asked signatures) (\<lambda>log. ae_statuses env log signatures) n of
        (Inl e, n') \<Rightarrow> (Inl (Thrown e), n')
      | (Inr value, n') \<Rightarrow> (Inr (isBundleLanded value transactionMetadata), n'))"

record batch_payload =
  bp_parallel :: bool
  bp_transactions :: "string list"
  bp_tag :: "string option"
  bp_payer :: "string option"
  bp_transactionMetadata :: "tx_metadata option list option"

record submission_result =
  sr_batchId :: string
  sr_submissionType :: submission_type
  sr_signatures :: "string list"
  sr_jitoBundleId :: "string option"

definition single_failed :: "api_env \<Rightarrow> vtx \<Rightarrow> thrown \<Rightarrow> submit_error" where
  "single_failed env tx e =
     (let explorerLink = link_or_null (getExplorerUrl env tx)
      in SingleTransactionSubmissionError (error_message e) explorerLink
           (if explorerLink = None then None else link_or_null (getChewingGlassExplorerUrl env tx)))"

definition submitSingleTransaction :: "api_env \<Rightarrow> string \<Rightarrow> string io" where
  "submitSingleTransaction env serializedTransaction =
     io_bind (io_of (ae_deserialize env serializedTransaction)) (\<lambda>transaction n.
       case ae_serialize env transaction of
         Inl e \<Rightarrow> (Inl (single_failed env transaction e), n)
       | Inr raw \<Rightarrow>
           (case request (Sent raw) (\<lambda>log. ae_sendRaw env log raw) n of
              (Inl e, n') \<Rightarrow> (Inl (single_failed env transaction e), n')
            | (Inr signature, n') \<Rightarrow> (Inr signature, n')))"

text \<open>
  All submissions are started, in order; \<open>Promise.all\<close> rejects with the one that rejects first, whichever
  that is.
\<close>

fun submit_each :: "api_env \<Rightarrow> string list \<Rightarrow> net \<Rightarrow> (submit_error + string) list \<times> net" where
  "submit_each env [] n = ([], n)"
| "submit_each env (tx # txs) n =
     (case submitSingleTransaction env tx n of
        (r, n1) \<Rightarrow> (case submit_each env txs n1 of (rs, n2) \<Rightarrow> (r # rs, n2)))"

definition submitTransactionsParallel :: "api_env \<Rightarrow> string list \<Rightarrow> string list io" where
  "submitTransactionsParallel env serializedTransactions n =
     (case submit_each env serializedTransactions n of
        (rs, n') \<Rightarrow>
          (case filter (\<lambda>i. case rs ! i of Inl _ \<Rightarrow> True | Inr _ \<Rightarrow> False) [0..<length rs] of
             [] \<Rightarrow> (Inr (map (\<lambda>r. case r of Inr s \<Rightarrow> s | Inl _ \<Rightarrow> []) rs), n')
           | i # is \<Rightarrow>
               (let j = ae_rejects env (nt_log n') (i # is); k = (if j \<in> set (i # is) then j else i)
                in (case rs ! k of Inl e \<Rightarrow> Inl e | Inr s \<Rightarrow> Inr [s], n'))))"

fun submitTransactionsSequential :: "api_env \<Rightarrow> string list \<Rightarrow> string list io" where
  "submitTransactionsSequential env [] = io_return []"
| "submitTransactionsSequential env (tx # txs) =
     io_bind (submitSingleTransaction env tx) (\<lambda>signature.
     io_bind (submitTransactionsSequential env txs) (\<lambda>signatures. io_return (signature # signatures)))"

definition submitViaRpc :: "api_env \<Rightarrow> string \<Rightarrow> batch_payload \<Rightarrow> submission_result io" where
  "submitViaRpc env batchId payload =
     io_bind (if bp_parallel payload then submitTransactionsParallel env (bp_transactions payload)
              else submitTransactionsSequential env (bp_transactions payload)) (\<lambda>signatures.
       io_return \<lparr>sr_batchId = batchId, sr_submissionType = (if bp_parallel payload then parallel else sequential),
                  sr_signatures = signatures, sr_jitoBundleId = None\<rparr>)"

text \<open>\<open>bs58.encode(tx.signatures[0])\<close>; a transaction has a signature for each signer.\<close>

definition first_signature :: "api_env \<Rightarrow> vtx \<Rightarrow> thrown + string" where
  "first_signature env tx = (case vx_signatures tx of
     [] \<Rightarrow> Inl (Error_value ''Expected Uint8Array'')
   | s # _ \<Rightarrow> Inr (ae_bs58 env s))"

definition context_of :: "batch_payload \<Rightarrow> bundle_context" where
  "context_of payload =
     \<lparr>bc_tag = bp_tag payload, bc_payer = bp_payer payload, bc_transactionMetadata = bp_transactionMetadata payload\<rparr>"

definition submit_bundle :: "api_env \<Rightarrow> string \<Rightarrow> batch_payload \<Rightarrow> string list \<Rightarrow> submission_result io" where
  "submit_bundle env batchId payload signatures n =
     (case submitJitoBundle env (bp_transactions payload) (context_of payload) n of
        (Inr jitoBundleId, n') \<Rightarrow>
          (Inr \<lparr>sr_batchId = batchId, sr_submissionType = jito_bundle, sr_signatures = signatures,
                sr_jitoBundleId = jitoBundleId\<rparr>, n')
      | (Inl e, n') \<Rightarrow>
          io_bind (bundleTransactionsLanded env signatures (bp_transactionMetadata payload)) (\<lambda>landed.
            if landed then io_return \<lparr>sr_batchId = batchId, sr_submissionType = jito_bundle,
                                      sr_signatures = signatures, sr_jitoBundleId = None\<rparr>
            else io_throw e) n')"

text \<open>The branch for a bundle: the tip, the simulation, the signatures, the sending. (The dash of the message is not ASCII in the source.)\<close>

definition attempt_bundle :: "api_env \<Rightarrow> string \<Rightarrow> batch_payload \<Rightarrow> submission_result io" where
  "attempt_bundle env batchId payload =
     io_bind (deserialized env (bp_transactions payload)) (\<lambda>bundleTransactions.
     io_bind (\<lambda>n. case bundleHasTipAccount env bundleTransactions n of (hasTip, n') \<Rightarrow> (Inr hasTip, n')) (\<lambda>hasTip.
       if \<not> hasTip
       then (if isClientCraftedBundleTag (bp_tag payload) then submitViaRpc env batchId payload
             else io_throw (JitoMissingTipError
                    ''Jito bundle is missing a tip transaction - no transaction write-locks a recognized tip account''
                    (length (bp_transactions payload))))
       else io_bind (simulateJitoBundle env (bp_transactions payload) (context_of payload)) (\<lambda>_.
            io_bind (io_of (emap (first_signature env) bundleTransactions)) (\<lambda>signatures.
              submit_bundle env batchId payload signatures))))"

definition attempt :: "api_env \<Rightarrow> string \<Rightarrow> batch_payload \<Rightarrow> submission_result io" where
  "attempt env batchId payload =
     (case bp_transactions payload of
        [tx] \<Rightarrow>
          io_bind (submitSingleTransaction env tx) (\<lambda>signature.
            io_return \<lparr>sr_batchId = batchId, sr_submissionType = single, sr_signatures = [signature], sr_jitoBundleId = None\<rparr>)
      | txs \<Rightarrow>
          if shouldUseJitoBundle (length txs) (getCluster env) then attempt_bundle env batchId payload
          else submitViaRpc env batchId payload)"

definition MAX_BLOCKHASH_RETRIES :: nat where
  "MAX_BLOCKHASH_RETRIES = 3"

text \<open>The loop over the attempts; \<open>k\<close> is the number of retries left.\<close>

fun attempts :: "api_env \<Rightarrow> string \<Rightarrow> batch_payload \<Rightarrow> nat \<Rightarrow> submission_result io" where
  "attempts env batchId payload k n =
     (case attempt env batchId payload n of
        (Inr r, n') \<Rightarrow> (Inr r, n')
      | (Inl e, n') \<Rightarrow>
          if isBlockhashNotFoundError e \<and> length (bp_transactions payload) > 1
          then (case k of 0 \<Rightarrow> (Inl e, n') | Suc k' \<Rightarrow> attempts env batchId payload k' n')
          else (Inl e, n'))"

definition submitTransactionBatch :: "api_env \<Rightarrow> string \<Rightarrow> batch_payload \<Rightarrow> submission_result io" where
  "submitTransactionBatch env batchId payload = attempts env batchId payload MAX_BLOCKHASH_RETRIES"

section \<open>Requests and their order\<close>

lemma io_bind_InrE:
  assumes "io_bind m f n = (Inr y, n')"
  obtains x n1 where "m n = (Inr x, n1)" and "f x n1 = (Inr y, n')"
  using assms by (auto simp: io_bind_def split: prod.splits sum.splits)

lemma io_of_Inr [simp]: "io_of r n = (Inr x, n') \<longleftrightarrow> r = Inr x \<and> n' = n"
  by (auto simp: io_of_def split: sum.splits)

lemma log_event_log [simp]: "nt_log (log_event ev n) = nt_log n @ [ev]"
  by (simp add: log_event_def)

text \<open>
  A property of logs that an operation keeps: \<open>keeps_log P m\<close>. It is composed like the operations.
\<close>

definition keeps_log :: "(net_event list \<Rightarrow> bool) \<Rightarrow> (net \<Rightarrow> 'r \<times> net) \<Rightarrow> bool" where
  "keeps_log P m \<longleftrightarrow> (\<forall>n. P (nt_log n) \<longrightarrow> P (nt_log (snd (m n))))"

named_theorems kept \<open>operations that keep a property of the log\<close>

lemma keeps_bind [kept]: "keeps_log P m \<Longrightarrow> (\<And>x. keeps_log P (f x)) \<Longrightarrow> keeps_log P (io_bind m f)"
proof -
  assume m: "keeps_log P m" and f: "\<And>x. keeps_log P (f x)"
  show ?thesis unfolding keeps_log_def
  proof (intro allI impI)
    fix n :: net
    assume n: "P (nt_log n)"
    obtain r n1 where eq: "m n = (r, n1)" by (cases "m n")
    with m n have n1: "P (nt_log n1)" by (metis keeps_log_def snd_conv)
    show "P (nt_log (snd (io_bind m f n)))"
    proof (cases r)
      case (Inl e)
      with eq n1 show ?thesis by (simp add: io_bind_def)
    next
      case (Inr x)
      with eq n1 f[of x] show ?thesis by (simp add: io_bind_def keeps_log_def)
    qed
  qed
qed

lemma keeps_pure [kept]: "keeps_log P (io_return x)" "keeps_log P (io_throw e)" "keeps_log P (io_of r)"
  by (simp_all add: keeps_log_def io_return_def io_throw_def io_of_def split: sum.split)

lemma keeps_deserialized [kept]: "keeps_log P (deserialized env txs)" "keeps_log P (reserialized env vtxs)"
  unfolding deserialized_def reserialized_def by (rule kept)+

lemma log_tips: "nt_log (snd (getJitoTipAccounts env n)) \<in> {nt_log n, nt_log n @ [Tips_asked]}"
  by (auto simp: getJitoTipAccounts_def request_def Let_def split: prod.split answer.split)

lemma log_hasTip: "nt_log (snd (bundleHasTipAccount env txs n)) \<in> {nt_log n, nt_log n @ [Tips_asked]}"
  using log_tips[of env n] by (auto simp: bundleHasTipAccount_def split: prod.splits sum.splits)

lemma log_landed: "nt_log (snd (bundleTransactionsLanded env sigs meta n)) = nt_log n @ [Statuses_asked sigs]"
  by (auto simp: bundleTransactionsLanded_def request_def split: sum.split)

lemma log_single: "nt_log (snd (submitSingleTransaction env tx n)) = nt_log n
    \<or> (\<exists>raw. nt_log (snd (submitSingleTransaction env tx n)) = nt_log n @ [Sent raw])"
  by (auto simp: submitSingleTransaction_def io_bind_def io_of_def request_def split: sum.split)

lemma log_checked: "snd (simulation_checked env vtxs ctx reply n) = n"
  by (auto simp: simulation_checked_def io_bind_def io_of_def io_throw_def io_return_def split: sum.split option.split)

text \<open>What passes the check of the simulation.\<close>

definition simulation_passes :: "thrown + simulation_result http_reply \<Rightarrow> bool" where
  "simulation_passes reply = (case reply of
     Inl _ \<Rightarrow> False
   | Inr response \<Rightarrow> hr_ok response
       \<and> (case hr_json response of
            Inl _ \<Rightarrow> False
          | Inr b \<Rightarrow> rb_error b = None
              \<and> (case rb_result b of None \<Rightarrow> True | Some r \<Rightarrow> sm_summary (the_simulation r) = Text ''succeeded'')))"

lemma simulateJitoBundle_Inr:
  assumes "simulateJitoBundle env txs ctx n = (Inr u, n')"
  obtains vtxs raws where "emap (ae_deserialize env) txs = Inr vtxs" and "emap (ae_serialize env) vtxs = Inr raws"
    and "nt_log n' = nt_log n @ [Bundle_simulated raws]" and "simulation_passes (ae_simulateBundle env (nt_log n) raws)"
    and "nt_tips n' = nt_tips n"
  using assms
  by (auto simp: simulateJitoBundle_def deserialized_def reserialized_def io_bind_def io_of_def request_def log_event_def
      simulation_checked_def simulation_passes_def io_throw_def io_return_def split: sum.splits option.splits if_splits)

lemma log_simulate: "nt_log (snd (simulateJitoBundle env txs ctx n)) = nt_log n
    \<or> (\<exists>raws. nt_log (snd (simulateJitoBundle env txs ctx n)) = nt_log n @ [Bundle_simulated raws])"
  by (auto simp: simulateJitoBundle_def deserialized_def reserialized_def io_bind_def io_of_def request_def log_checked
      split: sum.split prod.split dest: arg_cong[of _ _ snd])

lemma log_submitJito:
  assumes "emap (ae_deserialize env) txs = Inr vtxs" and "emap (ae_serialize env) vtxs = Inr raws"
  shows "nt_log (snd (submitJitoBundle env txs ctx n)) = nt_log n @ [Bundle_sent raws]"
  using assms by (auto simp: submitJitoBundle_def deserialized_def reserialized_def io_bind_def io_of_def request_def
      split: sum.split)

lemma log_submit_bundle:
  assumes "emap (ae_deserialize env) (bp_transactions payload) = Inr vtxs" and "emap (ae_serialize env) vtxs = Inr raws"
  shows "nt_log (snd (submit_bundle env i payload sigs n))
    \<in> {nt_log n @ [Bundle_sent raws], nt_log n @ [Bundle_sent raws, Statuses_asked sigs]}"
proof -
  obtain r n1 where eq: "submitJitoBundle env (bp_transactions payload) (context_of payload) n = (r, n1)"
    by (cases "submitJitoBundle env (bp_transactions payload) (context_of payload) n")
  with log_submitJito[OF assms, of "context_of payload" n] have n1: "nt_log n1 = nt_log n @ [Bundle_sent raws]" by simp
  show ?thesis
  proof (cases r)
    case (Inr j)
    with eq n1 show ?thesis by (simp add: submit_bundle_def)
  next
    case (Inl e)
    obtain r2 n2 where l: "bundleTransactionsLanded env sigs (bp_transactionMetadata payload) n1 = (r2, n2)"
      by (cases "bundleTransactionsLanded env sigs (bp_transactionMetadata payload) n1")
    with log_landed[of env sigs "bp_transactionMetadata payload" n1] n1
    have "nt_log n2 = nt_log n @ [Bundle_sent raws, Statuses_asked sigs]" by simp
    with Inl eq l show ?thesis
      by (cases r2) (auto simp: submit_bundle_def io_bind_def io_return_def io_throw_def)
  qed
qed

text \<open>
  The bundle of an attempt after its tip: the simulation, the sending and perhaps the question whether it
  landed.
\<close>

definition sends_bundle :: "api_env \<Rightarrow> net_event list \<Rightarrow> net_event list \<Rightarrow> bool" where
  "sends_bundle env L L' \<longleftrightarrow> L' = L \<or> (\<exists>raws. L' = L @ [Bundle_simulated raws])
     \<or> (\<exists>raws sigs. simulation_passes (ae_simulateBundle env L raws)
          \<and> L' \<in> {L @ [Bundle_simulated raws, Bundle_sent raws], L @ [Bundle_simulated raws, Bundle_sent raws, Statuses_asked sigs]})"

lemma log_bundle:
  assumes "emap (ae_deserialize env) (bp_transactions payload) = Inr vtxs"
  shows "sends_bundle env (nt_log n) (nt_log (snd (io_bind (simulateJitoBundle env (bp_transactions payload) ctx) (\<lambda>_.
             io_bind (io_of (emap (first_signature env) vtxs)) (submit_bundle env i payload)) n)))"
proof -
  obtain r n1 where eq: "simulateJitoBundle env (bp_transactions payload) ctx n = (r, n1)"
    by (cases "simulateJitoBundle env (bp_transactions payload) ctx n")
  show ?thesis
  proof (cases r)
    case (Inl e)
    with eq log_simulate[of env "bp_transactions payload" ctx n] show ?thesis by (auto simp: io_bind_def sends_bundle_def)
  next
    case (Inr u)
    with eq obtain raws where raws: "emap (ae_serialize env) vtxs = Inr raws"
        "nt_log n1 = nt_log n @ [Bundle_simulated raws]" "simulation_passes (ae_simulateBundle env (nt_log n) raws)"
      using assms by (auto elim: simulateJitoBundle_Inr)
    show ?thesis
    proof (cases "emap (first_signature env) vtxs")
      case (Inl e)
      with eq Inr raws show ?thesis by (simp add: io_bind_def io_of_def sends_bundle_def)
    next
      case sigs: (Inr sigs)
      with eq Inr raws log_submit_bundle[OF assms raws(1), of i sigs n1] show ?thesis
        by (auto simp: io_bind_def io_of_def sends_bundle_def)
    qed
  qed
qed

section \<open>Bundles are simulated and tipped\<close>

definition bundles_guarded :: "api_env \<Rightarrow> net_event list \<Rightarrow> bool" where
  "bundles_guarded env L \<longleftrightarrow> (\<forall>log raws. prefix (log @ [Bundle_sent raws]) L \<longrightarrow>
     (\<exists>log0. log = log0 @ [Bundle_simulated raws] \<and> simulation_passes (ae_simulateBundle env log0 raws)))"

lemma guarded_snoc: "(\<And>raws. ev \<noteq> Bundle_sent raws) \<Longrightarrow> bundles_guarded env L \<Longrightarrow> bundles_guarded env (L @ [ev])"
  by (auto simp: bundles_guarded_def)

lemma guarded_sent:
  assumes "bundles_guarded env L" and "simulation_passes (ae_simulateBundle env L raws)"
  shows "bundles_guarded env (L @ [Bundle_simulated raws, Bundle_sent raws])"
proof -
  have "bundles_guarded env (L @ [Bundle_simulated raws])" using assms(1) by (rule guarded_snoc[rotated]) simp
  with assms(2) have "bundles_guarded env ((L @ [Bundle_simulated raws]) @ [Bundle_sent raws])"
    unfolding bundles_guarded_def prefix_snoc by auto
  then show ?thesis by simp
qed

lemma keeps_single [kept]: "(\<And>L raw. P L \<Longrightarrow> P (L @ [Sent raw])) \<Longrightarrow> keeps_log P (submitSingleTransaction env tx)"
  unfolding keeps_log_def using log_single[of env tx] by metis

lemma keeps_each: "(\<And>L raw. P L \<Longrightarrow> P (L @ [Sent raw])) \<Longrightarrow> keeps_log P (submit_each env txs)"
proof (induction txs)
  case Nil
  then show ?case by (simp add: keeps_log_def)
next
  case (Cons tx txs)
  then have "keeps_log P (submitSingleTransaction env tx)" "keeps_log P (submit_each env txs)" by (auto intro: kept)
  then show ?case by (auto simp: keeps_log_def split: prod.split)
qed

lemma snd_parallel: "snd (submitTransactionsParallel env txs n) = snd (submit_each env txs n)"
  by (auto simp: submitTransactionsParallel_def Let_def split: prod.split list.split)

lemma keeps_parallel: "(\<And>L raw. P L \<Longrightarrow> P (L @ [Sent raw])) \<Longrightarrow> keeps_log P (submitTransactionsParallel env txs)"
  using keeps_each[of P env txs] by (simp add: keeps_log_def snd_parallel)

lemma keeps_sequential: "(\<And>L raw. P L \<Longrightarrow> P (L @ [Sent raw])) \<Longrightarrow> keeps_log P (submitTransactionsSequential env txs)"
  by (induction txs) (auto intro!: kept)

lemma keeps_viaRpc [kept]: "(\<And>L raw. P L \<Longrightarrow> P (L @ [Sent raw])) \<Longrightarrow> keeps_log P (submitViaRpc env i payload)"
  unfolding submitViaRpc_def by (auto intro!: kept keeps_parallel keeps_sequential)

lemma attempt_eq:
  "attempt env i payload =
     (if length (bp_transactions payload) = 1
      then io_bind (submitSingleTransaction env (hd (bp_transactions payload))) (\<lambda>signature.
             io_return \<lparr>sr_batchId = i, sr_submissionType = single, sr_signatures = [signature], sr_jitoBundleId = None\<rparr>)
      else if shouldUseJitoBundle (length (bp_transactions payload)) (getCluster env) then attempt_bundle env i payload
      else submitViaRpc env i payload)"
  by (auto simp: attempt_def split: list.split)

lemma attempt_bundle_log:
  "nt_log (snd (attempt_bundle env i payload n)) = nt_log n
   \<or> (\<exists>n1. nt_log n1 \<in> {nt_log n, nt_log n @ [Tips_asked]}
        \<and> (nt_log (snd (attempt_bundle env i payload n)) = nt_log (snd (submitViaRpc env i payload n1))
           \<or> sends_bundle env (nt_log n1) (nt_log (snd (attempt_bundle env i payload n)))))"
proof (cases "emap (ae_deserialize env) (bp_transactions payload)")
  case (Inl e)
  then show ?thesis by (simp add: attempt_bundle_def io_bind_def deserialized_def io_of_def)
next
  case (Inr vtxs)
  obtain hasTip n1 where t: "bundleHasTipAccount env vtxs n = (hasTip, n1)" by (cases "bundleHasTipAccount env vtxs n")
  let ?m = "io_bind (simulateJitoBundle env (bp_transactions payload) (context_of payload)) (\<lambda>_.
      io_bind (io_of (emap (first_signature env) vtxs)) (submit_bundle env i payload))"
  have "snd (attempt_bundle env i payload n) = (if hasTip then snd (?m n1)
      else if isClientCraftedBundleTag (bp_tag payload) then snd (submitViaRpc env i payload n1) else n1)"
  proof -
    have *: "io_bind (io_of (Inr x)) f = f x" "io_bind (\<lambda>n. case g n of (a, b) \<Rightarrow> (Inr a, b)) f n = f (fst (g n)) (snd (g n))"
      for x :: 'a and f :: "'a \<Rightarrow> 'b io" and g n by (auto simp: io_bind_def io_of_def split: prod.split)
    show ?thesis unfolding attempt_bundle_def deserialized_def Inr by (simp add: * t io_throw_def)
  qed
  moreover have "nt_log n1 \<in> {nt_log n, nt_log n @ [Tips_asked]}" using log_hasTip[of env vtxs n] t by simp
  moreover have "sends_bundle env (nt_log n1) (nt_log (snd (?m n1)))" by (rule log_bundle[OF Inr])
  moreover have "sends_bundle env (nt_log n1) (nt_log n1)" by (simp add: sends_bundle_def)
  ultimately show ?thesis by (auto split: if_splits)
qed

lemma keeps_attempt:
  assumes sent: "\<And>L raw. P L \<Longrightarrow> P (L @ [Sent raw])" and tips: "\<And>L. P L \<Longrightarrow> P (L @ [Tips_asked])"
    and sends: "\<And>L L'. P L \<Longrightarrow> sends_bundle env L L' \<Longrightarrow> P L'"
  shows "keeps_log P (attempt env i payload)"
proof -
  have via: "keeps_log P (submitViaRpc env i payload)" by (intro kept sent)
  have "keeps_log P (attempt_bundle env i payload)"
    unfolding keeps_log_def using attempt_bundle_log[of env i payload] via tips sends
    by (metis (no_types, lifting) insertE keeps_log_def singletonD)
  moreover have "keeps_log P (submitSingleTransaction env tx)" for tx by (intro kept sent)
  ultimately show ?thesis unfolding attempt_eq using via by (auto intro!: keeps_bind keeps_pure)
qed

text \<open>One attempt, and what is left to do after it.\<close>

definition retries :: "batch_payload \<Rightarrow> submit_error \<Rightarrow> bool" where
  "retries payload e \<longleftrightarrow> isBlockhashNotFoundError e \<and> length (bp_transactions payload) > 1"

lemma attempts_0: "attempts env i payload 0 n = attempt env i payload n"
  by (auto split: prod.split sum.split)

lemma attempts_Suc: "attempts env i payload (Suc k) n =
    (case attempt env i payload n of
       (Inr r, n') \<Rightarrow> (Inr r, n')
     | (Inl e, n') \<Rightarrow> if retries payload e then attempts env i payload k n' else (Inl e, n'))"
  by (subst attempts.simps) (simp add: retries_def split: prod.split sum.split del: attempts.simps)

declare attempts.simps [simp del]

lemma keeps_attempts: "keeps_log P (attempt env i payload) \<Longrightarrow> keeps_log P (attempts env i payload k)"
proof (induction k)
  case 0
  then show ?case by (simp add: keeps_log_def attempts_0)
next
  case (Suc k)
  then have *: "P (nt_log n) \<Longrightarrow> P (nt_log (snd (attempt env i payload n)))"
      "P (nt_log n) \<Longrightarrow> P (nt_log (snd (attempts env i payload k n)))" for n :: net
    by (simp_all add: keeps_log_def)
  show ?case unfolding keeps_log_def
  proof (intro allI impI)
    fix n :: net
    assume n: "P (nt_log n)"
    obtain r n1 where eq: "attempt env i payload n = (r, n1)" by (cases "attempt env i payload n")
    with *(1)[OF n] have "P (nt_log n1)" by simp
    with *(2)[OF this] eq show "P (nt_log (snd (attempts env i payload (Suc k) n)))"
      by (simp add: attempts_Suc split: sum.split)
  qed
qed

lemma guarded_attempts: "keeps_log (bundles_guarded env) (attempts env i payload k)"
proof (rule keeps_attempts, rule keeps_attempt)
  fix L L'
  assume L: "bundles_guarded env L" and "sends_bundle env L L'"
  then consider "L' = L" | raws where "L' = L @ [Bundle_simulated raws]"
    | raws sigs where "simulation_passes (ae_simulateBundle env L raws)"
        "L' \<in> {L @ [Bundle_simulated raws, Bundle_sent raws],
               (L @ [Bundle_simulated raws, Bundle_sent raws]) @ [Statuses_asked sigs]}"
    unfolding sends_bundle_def by auto
  then show "bundles_guarded env L'"
  proof cases
    case 2
    then show ?thesis using L by (simp add: guarded_snoc)
  next
    case 3
    from guarded_sent[OF L 3(1)] have "bundles_guarded env (L @ [Bundle_simulated raws, Bundle_sent raws])" .
    with guarded_snoc[of "Statuses_asked sigs" env "L @ [Bundle_simulated raws, Bundle_sent raws]"] 3(2) show ?thesis by auto
  qed (use L in simp)
qed (simp_all add: guarded_snoc)

section \<open>How often it sends\<close>

fun is_sending :: "net_event \<Rightarrow> bool" where
  "is_sending (Sent raw) = True"
| "is_sending (Bundle_sent raws) = True"
| "is_sending _ = False"

definition sendings :: "net \<Rightarrow> nat" where
  "sendings n = length (filter is_sending (nt_log n))"

lemma sendings_single: "sendings (snd (submitSingleTransaction env tx n)) \<le> sendings n + 1"
  using log_single[of env tx n] by (auto simp: sendings_def)

lemma sendings_bind:
  "sendings (snd (m n)) \<le> sendings n + a \<Longrightarrow> (\<And>x n1. sendings (snd (f x n1)) \<le> sendings n1 + b) \<Longrightarrow>
     sendings (snd (io_bind m f n)) \<le> sendings n + (a + b)"
  by (auto simp: io_bind_def split: prod.split sum.split) (metis add.assoc le_trans nat_add_left_cancel_le add.commute snd_conv)

lemma sendings_pure [simp]: "sendings (snd (io_return x n)) = sendings n"
  by (simp add: io_return_def)

lemma sendings_each: "sendings (snd (submit_each env txs n)) \<le> sendings n + length txs"
proof (induction txs arbitrary: n)
  case (Cons tx txs)
  obtain r n1 where eq: "submitSingleTransaction env tx n = (r, n1)" by (cases "submitSingleTransaction env tx n")
  with sendings_single[of env tx n] have "sendings n1 \<le> sendings n + 1" by simp
  with Cons[of n1] eq show ?case by (auto split: prod.split)
qed simp

lemma sendings_sequential: "sendings (snd (submitTransactionsSequential env txs n)) \<le> sendings n + length txs"
proof (induction txs arbitrary: n)
  case (Cons tx txs)
  have "sendings (snd (io_bind (submitTransactionsSequential env txs) (\<lambda>ss. io_return (s # ss)) n1)) \<le> sendings n1 + (length txs + 0)"
    for s n1 by (rule sendings_bind) (simp_all add: Cons)
  then have "sendings (snd (submitTransactionsSequential env (tx # txs) n)) \<le> sendings n + (1 + length txs)"
    by (simp only: submitTransactionsSequential.simps) (rule sendings_bind, simp_all add: sendings_single[simplified])
  then show ?case by simp
qed (simp add: io_return_def)

lemma sendings_viaRpc: "sendings (snd (submitViaRpc env i payload n)) \<le> sendings n + length (bp_transactions payload)"
proof -
  have "sendings (snd (submitViaRpc env i payload n)) \<le> sendings n + (length (bp_transactions payload) + 0)"
    unfolding submitViaRpc_def
    by (rule sendings_bind) (simp_all add: snd_parallel sendings_each sendings_sequential)
  then show ?thesis by simp
qed

lemma sendings_attempt: "sendings (snd (attempt env i payload n)) \<le> sendings n + length (bp_transactions payload)"
proof (cases "length (bp_transactions payload) = 1")
  case True
  then have "sendings (snd (attempt env i payload n)) \<le> sendings n + (1 + 0)"
    unfolding attempt_eq by (simp only: if_True refl simp_thms, intro sendings_bind) (simp_all add: sendings_single[simplified])
  with True show ?thesis by simp
next
  case False
  show ?thesis
  proof (cases "shouldUseJitoBundle (length (bp_transactions payload)) (getCluster env)")
    case True
    then have len: "1 < length (bp_transactions payload)" by (simp add: shouldUseJitoBundle_def)
    have b: "sendings (snd (attempt_bundle env i payload n)) \<le> sendings n1 + 1"
      if "sends_bundle env (nt_log n1) (nt_log (snd (attempt_bundle env i payload n)))" for n1
      using that by (auto simp: sends_bundle_def sendings_def)
    have n1: "sendings n1 = sendings n" if "nt_log n1 \<in> {nt_log n, nt_log n @ [Tips_asked]}" for n1
      using that by (auto simp: sendings_def)
    from attempt_bundle_log[of env i payload n]
    have "sendings (snd (attempt_bundle env i payload n)) \<le> sendings n + length (bp_transactions payload)"
    proof (elim disjE exE conjE)
      fix n1 :: net
      assume t: "nt_log n1 \<in> {nt_log n, nt_log n @ [Tips_asked]}"
        and "nt_log (snd (attempt_bundle env i payload n)) = nt_log (snd (submitViaRpc env i payload n1))"
      then have "sendings (snd (attempt_bundle env i payload n)) = sendings (snd (submitViaRpc env i payload n1))"
        by (simp only: sendings_def)
      then show ?thesis using sendings_viaRpc[of env i payload n1] n1[OF t] by linarith
    next
      fix n1 :: net
      assume t: "nt_log n1 \<in> {nt_log n, nt_log n @ [Tips_asked]}"
        and "sends_bundle env (nt_log n1) (nt_log (snd (attempt_bundle env i payload n)))"
      from b[OF this(2)] n1[OF t] len show ?thesis by linarith
    qed (simp add: sendings_def)
    with True False show ?thesis by (simp add: attempt_eq)
  next
    case rpc: False
    with False show ?thesis by (simp add: attempt_eq sendings_viaRpc)
  qed
qed

lemma sendings_attempts:
  "sendings (snd (attempts env i payload k n)) \<le> sendings n + Suc k * length (bp_transactions payload)"
proof (induction k arbitrary: n)
  case 0
  show ?case using sendings_attempt[of env i payload n] by (simp add: attempts_0)
next
  case (Suc k)
  obtain r n1 where eq: "attempt env i payload n = (r, n1)" by (cases "attempt env i payload n")
  with sendings_attempt[of env i payload n] have "sendings n1 \<le> sendings n + length (bp_transactions payload)" by simp
  then have "sendings n1 \<le> sendings n + Suc (Suc k) * length (bp_transactions payload)"
    and "sendings (snd (attempts env i payload k n1)) \<le> sendings n + Suc (Suc k) * length (bp_transactions payload)"
    using Suc[of n1] by simp_all
  then show ?case unfolding attempts_Suc eq by (cases r) simp_all
qed

section \<open>What a successful submission shows\<close>

text \<open>The node answered the sending of the transaction, between two states, with this signature.\<close>

definition accepted :: "api_env \<Rightarrow> net \<Rightarrow> net \<Rightarrow> string \<Rightarrow> string \<Rightarrow> bool" where
  "accepted env n n' tx sig \<longleftrightarrow> (\<exists>vtx raw log. ae_deserialize env tx = Inr vtx \<and> ae_serialize env vtx = Inr raw
     \<and> prefix (nt_log n) log \<and> prefix (log @ [Sent raw]) (nt_log n') \<and> ae_sendRaw env log raw = Inr sig)"

text \<open>
  The bundle was found to have a tip, it was sent, and the block engine accepted it or its own transactions
  are on the ledger.
\<close>

definition bundle_accepted :: "api_env \<Rightarrow> net \<Rightarrow> net \<Rightarrow> batch_payload \<Rightarrow> submission_result \<Rightarrow> bool" where
  "bundle_accepted env n n' payload res \<longleftrightarrow> (\<exists>vtxs raws log (n0 :: net). emap (ae_deserialize env) (bp_transactions payload) = Inr vtxs
     \<and> emap (ae_serialize env) vtxs = Inr raws \<and> emap (first_signature env) vtxs = Inr (sr_signatures res)
     \<and> prefix (nt_log n) (nt_log n0) \<and> fst (bundleHasTipAccount env vtxs n0)
     \<and> prefix (nt_log n) log \<and> prefix (log @ [Bundle_sent raws]) (nt_log n')
     \<and> (case sendBundle_outcome (ae_sendBundle env log raws) of
          Inr j \<Rightarrow> sr_jitoBundleId res = j
        | Inl _ \<Rightarrow> sr_jitoBundleId res = None
            \<and> (\<exists>st. ae_statuses env (log @ [Bundle_sent raws]) (sr_signatures res) = Inr st
                 \<and> isBundleLanded st (bp_transactionMetadata payload))))"

lemma accepted_mono:
  "accepted env n n' tx sig \<Longrightarrow> prefix (nt_log n0) (nt_log n) \<Longrightarrow> prefix (nt_log n') (nt_log n1) \<Longrightarrow> accepted env n0 n1 tx sig"
  unfolding accepted_def by (meson prefix_order.trans)

lemma single_accepted: "submitSingleTransaction env tx n = (Inr sig, n') \<Longrightarrow> accepted env n n' tx sig"
  by (auto simp: submitSingleTransaction_def accepted_def io_bind_def io_of_def request_def split: sum.splits)

lemma log_grows: "keeps_log (prefix L) (submitSingleTransaction env tx)" "keeps_log (prefix L) (submit_each env txs)"
    "keeps_log (prefix L) (submitTransactionsSequential env txs)" "keeps_log (prefix L) (attempt env i payload)"
  by (auto intro!: keeps_single keeps_each keeps_sequential keeps_attempt prefix_prefix simp: sends_bundle_def)

lemma grows_to: "keeps_log (prefix (nt_log n)) m \<Longrightarrow> m n = (r, n') \<Longrightarrow> prefix (nt_log n) (nt_log n')"
  by (metis keeps_log_def prefix_order.refl snd_conv)

lemma each_accepted:
  assumes "submit_each env txs n = (rs, n')" and "\<forall>r \<in> set rs. \<exists>sig. r = Inr sig"
  shows "list_all2 (accepted env n n') txs (map projr rs)"
  using assms
proof (induction txs arbitrary: n rs)
  case (Cons tx txs)
  obtain r n1 where r: "submitSingleTransaction env tx n = (r, n1)" by (cases "submitSingleTransaction env tx n")
  obtain rs' n2 where rs': "submit_each env txs n1 = (rs', n2)" by (cases "submit_each env txs n1")
  from Cons.prems r rs' have eq: "rs = r # rs'" "n' = n2" by auto
  with Cons.prems obtain sig where sig: "r = Inr sig" by auto
  have g: "prefix (nt_log n) (nt_log n1)" "prefix (nt_log n1) (nt_log n')"
    using grows_to[OF log_grows(1) r] grows_to[OF log_grows(2) rs'] eq by auto
  have "accepted env n n' tx sig" using single_accepted r sig accepted_mono g by blast
  moreover have "list_all2 (accepted env n n') txs (map projr rs')"
    using Cons.IH[of n1 rs'] rs' eq Cons.prems(2) g(1) by (auto elim!: list_all2_mono intro: accepted_mono)
  ultimately show ?case by (simp add: eq sig)
qed simp

lemma parallel_accepted:
  assumes "submitTransactionsParallel env txs n = (Inr sigs, n')"
  shows "list_all2 (accepted env n n') txs sigs"
proof -
  obtain rs n1 where rs: "submit_each env txs n = (rs, n1)" by (cases "submit_each env txs n")
  let ?bad = "filter (\<lambda>i. case rs ! i of Inl _ \<Rightarrow> True | Inr _ \<Rightarrow> False) [0..<length rs]"
  have bad: "?bad = []"
  proof (rule ccontr)
    assume "?bad \<noteq> []"
    then obtain i "is" where i: "?bad = i # is" by (cases ?bad) auto
    have "\<exists>e. rs ! k = Inl e" if "k \<in> set ?bad" for k using that by (auto split: sum.splits)
    moreover define j where "j = ae_rejects env (nt_log n1) (i # is)"
    moreover define k where "k = (if j \<in> set (i # is) then j else i)"
    ultimately obtain e where "rs ! k = Inl e" using i by (metis list.set_intros(1))
    moreover have "submitTransactionsParallel env txs n = (case rs ! k of Inl e \<Rightarrow> Inl e | Inr s \<Rightarrow> Inr [s], n1)"
      unfolding submitTransactionsParallel_def rs prod.case i list.case k_def j_def Let_def ..
    ultimately show False using assms by simp
  qed
  then have ok: "\<forall>r \<in> set rs. \<exists>sig. r = Inr sig" 
  proof (intro ballI)
    fix r
    assume "r \<in> set rs"
    then obtain i where i: "i < length rs" "rs ! i = r" by (auto simp: in_set_conv_nth)
    with \<open>?bad = []\<close> have "\<not> (case r of Inl _ \<Rightarrow> True | Inr _ \<Rightarrow> False)" by (auto simp: filter_empty_conv)
    then show "\<exists>sig. r = Inr sig" by (cases r) simp_all
  qed
  have "sigs = map (\<lambda>r. case r of Inr s \<Rightarrow> s | Inl _ \<Rightarrow> []) rs" "n' = n1"
    using assms rs bad by (auto simp: submitTransactionsParallel_def)
  moreover have "map (\<lambda>r. case r of Inr s \<Rightarrow> s | Inl _ \<Rightarrow> []) rs = map projr rs" using ok by (auto split: sum.splits)
  ultimately show ?thesis using each_accepted[OF rs ok] by simp
qed

lemma sequential_accepted:
  "submitTransactionsSequential env txs n = (Inr sigs, n') \<Longrightarrow> list_all2 (accepted env n n') txs sigs"
proof (induction txs arbitrary: n sigs)
  case (Cons tx txs)
  from Cons.prems obtain sig n1 where r: "submitSingleTransaction env tx n = (Inr sig, n1)"
      and rest: "io_bind (submitTransactionsSequential env txs) (\<lambda>ss. io_return (sig # ss)) n1 = (Inr sigs, n')"
    by (auto elim: io_bind_InrE)
  from rest obtain ss where ss: "submitTransactionsSequential env txs n1 = (Inr ss, n')" "sigs = sig # ss"
    by (auto elim!: io_bind_InrE simp: io_return_def)
  have g: "prefix (nt_log n) (nt_log n1)" "prefix (nt_log n1) (nt_log n')"
    using grows_to[OF log_grows(1) r] grows_to[OF log_grows(3) ss(1)] by auto
  have "accepted env n n' tx sig" using single_accepted[OF r] accepted_mono g by blast
  moreover have "list_all2 (accepted env n n') txs ss"
    using Cons.IH[OF ss(1)] g(1) by (auto elim!: list_all2_mono intro: accepted_mono)
  ultimately show ?case by (simp add: ss)
qed (simp add: io_return_def)

text \<open>The contract of a result, as the property below states it.\<close>

definition submission_ok :: "api_env \<Rightarrow> string \<Rightarrow> batch_payload \<Rightarrow> net \<Rightarrow> net \<Rightarrow> submission_result \<Rightarrow> bool" where
  "submission_ok env i payload n n' res \<longleftrightarrow> sr_batchId res = i
     \<and> (if sr_submissionType res = jito_bundle then bundle_accepted env n n' payload res
        else sr_jitoBundleId res = None \<and> list_all2 (accepted env n n') (bp_transactions payload) (sr_signatures res))"

lemma viaRpc_ok:
  "submitViaRpc env i payload n = (Inr res, n') \<Longrightarrow> submission_ok env i payload n n' res
     \<and> sr_submissionType res = (if bp_parallel payload then parallel else sequential)"
  unfolding submitViaRpc_def
  by (erule io_bind_InrE) (auto simp: io_return_def submission_ok_def dest: parallel_accepted sequential_accepted split: if_splits)

lemma submission_ok_mono:
  "submission_ok env i payload n n' res \<Longrightarrow> prefix (nt_log n0) (nt_log n) \<Longrightarrow> submission_ok env i payload n0 n' res"
  unfolding submission_ok_def bundle_accepted_def
  by (auto split: if_splits elim!: list_all2_mono intro: accepted_mono) (meson prefix_order.trans)+

lemma attempt_bundle_ok:
  assumes "attempt_bundle env i payload n = (Inr res, n')"
  shows "submission_ok env i payload n n' res
    \<and> (sr_submissionType res = jito_bundle
       \<or> isClientCraftedBundleTag (bp_tag payload) \<and> sr_submissionType res = (if bp_parallel payload then parallel else sequential))"
proof -
  from assms obtain vtxs where v: "emap (ae_deserialize env) (bp_transactions payload) = Inr vtxs"
    by (auto simp: attempt_bundle_def deserialized_def elim!: io_bind_InrE)
  obtain hasTip n1 where t: "bundleHasTipAccount env vtxs n = (hasTip, n1)" by (cases "bundleHasTipAccount env vtxs n")
  have g: "prefix (nt_log n) (nt_log n1)" using log_hasTip[of env vtxs n] t by auto
  show ?thesis
  proof (cases hasTip)
    case False
    with assms v t have "isClientCraftedBundleTag (bp_tag payload)" "submitViaRpc env i payload n1 = (Inr res, n')"
      by (auto simp: attempt_bundle_def deserialized_def io_bind_def io_of_def io_throw_def split: if_splits)
    with viaRpc_ok submission_ok_mono g show ?thesis by blast
  next
    case True
    from assms v t True obtain u n2 sigs where sim: "simulateJitoBundle env (bp_transactions payload) (context_of payload) n1 = (Inr u, n2)"
        and sigs: "emap (first_signature env) vtxs = Inr sigs" and sub: "submit_bundle env i payload sigs n2 = (Inr res, n')"
      by (auto simp: attempt_bundle_def deserialized_def elim!: io_bind_InrE)
    from sim v obtain raws where raws: "emap (ae_serialize env) vtxs = Inr raws" and n2: "nt_log n2 = nt_log n1 @ [Bundle_simulated raws]"
      by (auto elim: simulateJitoBundle_Inr)
    obtain r n3 where r: "submitJitoBundle env (bp_transactions payload) (context_of payload) n2 = (r, n3)"
      by (cases "submitJitoBundle env (bp_transactions payload) (context_of payload) n2")
    then have n3: "nt_log n3 = nt_log n2 @ [Bundle_sent raws]" using log_submitJito[OF v raws] by (metis snd_conv)
    have out: "case r of Inr j \<Rightarrow> sendBundle_outcome (ae_sendBundle env (nt_log n2) raws) = Inr j
        | Inl _ \<Rightarrow> \<exists>e. sendBundle_outcome (ae_sendBundle env (nt_log n2) raws) = Inl e"
      using r v raws by (auto simp: submitJitoBundle_def deserialized_def reserialized_def io_bind_def io_of_def request_def split: sum.splits)
    have res: "sr_batchId res = i" "sr_submissionType res = jito_bundle" "sr_signatures res = sigs"
      and ok: "prefix (nt_log n3) (nt_log n') \<and> (case sendBundle_outcome (ae_sendBundle env (nt_log n2) raws) of
          Inr j \<Rightarrow> sr_jitoBundleId res = j
        | Inl _ \<Rightarrow> sr_jitoBundleId res = None \<and> (\<exists>st. ae_statuses env (nt_log n2 @ [Bundle_sent raws]) sigs = Inr st
                 \<and> isBundleLanded st (bp_transactionMetadata payload)))"
    proof -
      have "sr_batchId res = i \<and> sr_submissionType res = jito_bundle \<and> sr_signatures res = sigs
          \<and> prefix (nt_log n3) (nt_log n') \<and> (case r of
              Inr j \<Rightarrow> sr_jitoBundleId res = j
            | Inl _ \<Rightarrow> sr_jitoBundleId res = None \<and> (\<exists>st. ae_statuses env (nt_log n3) sigs = Inr st
                 \<and> isBundleLanded st (bp_transactionMetadata payload)))"
        using sub r by (auto simp: submit_bundle_def io_bind_def bundleTransactionsLanded_def request_def io_return_def io_throw_def
            split: sum.splits if_splits)
      then show "sr_batchId res = i" "sr_submissionType res = jito_bundle" "sr_signatures res = sigs"
        "prefix (nt_log n3) (nt_log n') \<and> (case sendBundle_outcome (ae_sendBundle env (nt_log n2) raws) of
          Inr j \<Rightarrow> sr_jitoBundleId res = j
        | Inl _ \<Rightarrow> sr_jitoBundleId res = None \<and> (\<exists>st. ae_statuses env (nt_log n2 @ [Bundle_sent raws]) sigs = Inr st
                 \<and> isBundleLanded st (bp_transactionMetadata payload)))"
        using out n3 by (auto split: sum.splits)
    qed
    have "prefix (nt_log n) (nt_log n2)" using g n2 by (simp add: prefix_prefix)
    moreover have "prefix (nt_log n2 @ [Bundle_sent raws]) (nt_log n')" using ok n3 by simp
    ultimately have "bundle_accepted env n n' payload res"
      unfolding bundle_accepted_def using v raws sigs res ok t True
      by (intro exI[of _ vtxs] exI[of _ raws] exI[of _ "nt_log n2"] exI[of _ n]) (simp split: sum.splits)
    with res show ?thesis by (simp add: submission_ok_def)
  qed
qed

text \<open>The type recorded in the reservation, and the type of the result.\<close>

definition type_predicted :: "api_env \<Rightarrow> batch_payload \<Rightarrow> submission_type \<Rightarrow> bool" where
  "type_predicted env payload ty \<longleftrightarrow>
     (let count = length (bp_transactions payload);
          predicted = predictSubmissionType count (shouldUseJitoBundle count (getCluster env)) (bp_parallel payload)
      in ty = predicted \<or> predicted = jito_bundle \<and> isClientCraftedBundleTag (bp_tag payload)
           \<and> ty = predictSubmissionType count False (bp_parallel payload))"

lemma attempt_ok:
  assumes "attempt env i payload n = (Inr res, n')"
  shows "submission_ok env i payload n n' res \<and> type_predicted env payload (sr_submissionType res)"
proof (cases "length (bp_transactions payload) = 1")
  case True
  then obtain tx where tx: "bp_transactions payload = [tx]" by (auto simp: length_Suc_conv)
  with assms obtain sig where "submitSingleTransaction env tx n = (Inr sig, n')"
      "res = \<lparr>sr_batchId = i, sr_submissionType = single, sr_signatures = [sig], sr_jitoBundleId = None\<rparr>"
    by (auto simp: attempt_def io_return_def elim!: io_bind_InrE)
  with tx show ?thesis by (auto simp: submission_ok_def type_predicted_def predictSubmissionType_def dest: single_accepted)
next
  case False
  then show ?thesis
    using assms attempt_bundle_ok[of env i payload n res n'] viaRpc_ok[of env i payload n res n']
    by (auto simp: attempt_eq type_predicted_def predictSubmissionType_def Let_def split: if_splits)
qed

lemma attempts_Inr:
  "attempts env i payload k n = (Inr res, n') \<Longrightarrow> \<exists>n1. prefix (nt_log n) (nt_log n1) \<and> attempt env i payload n1 = (Inr res, n')"
proof (induction k arbitrary: n)
  case 0
  then show ?case by (auto simp: attempts_0)
next
  case (Suc k)
  obtain r n1 where eq: "attempt env i payload n = (r, n1)" by (cases "attempt env i payload n")
  have g: "prefix (nt_log n) (nt_log n1)" using grows_to[OF log_grows(4) eq] .
  show ?case
  proof (cases r)
    case (Inl e)
    with Suc.prems eq have "attempts env i payload k n1 = (Inr res, n')" by (auto simp: attempts_Suc split: if_splits)
    from Suc.IH[OF this] g show ?thesis by (meson prefix_order.trans)
  next
    case (Inr x)
    with Suc.prems eq show ?thesis by (auto simp: attempts_Suc)
  qed
qed

lemma submission_ok_length: "submission_ok env i payload n n' res \<Longrightarrow> length (sr_signatures res) = length (bp_transactions payload)"
  by (auto simp: submission_ok_def bundle_accepted_def split: if_splits dest!: list_all2_lengthD emap_Inr_length)

section \<open>Properties\<close>

text \<open>
  Concrete parameters: a transaction is its own text, its only key is the tip account when the text starts
  with a \<open>t\<close>, and the node refuses a transaction with the text \<open>late\<close> the first two times.
\<close>

definition demo_vtx :: "string \<Rightarrow> vtx" where
  "demo_vtx t = \<lparr>vx_staticAccountKeys = [if take 1 t = ''t'' then ''tip'' else ''payer''], vx_writable = [True],
     vx_signatures = [[]], vx_recentBlockhash = ''hash'', vx_message = t\<rparr>"

definition demo_reply :: "'a \<Rightarrow> 'a http_reply" where
  "demo_reply x = \<lparr>hr_ok = True, hr_status = 200, hr_text = [], hr_json = Inr \<lparr>rb_error = None, rb_result = Some x, rb_text = []\<rparr>\<rparr>"

definition demo_api_env :: "string \<Rightarrow> api_env" where
  "demo_api_env cluster = \<lparr>ae_cluster = cluster, ae_deserialize = (\<lambda>t. Inr (demo_vtx t)), ae_serialize = (\<lambda>x. Inr (vx_message x)),
     ae_serializeMessage = (\<lambda>x. Inr (vx_message x)), ae_bs58 = (\<lambda>_. ''signature''), ae_now = length,
     ae_sendRaw = (\<lambda>log raw. if raw = ''late'' \<and> length (filter (\<lambda>ev. ev = Sent ''late'') log) < 2
                              then Inl (Error_value ''Blockhash not found'') else Inr raw),
     ae_tipAccounts = (\<lambda>_. Inr (demo_reply [''tip''])),
     ae_simulateBundle = (\<lambda>_ _. Inr (demo_reply (Bare \<lparr>sm_summary = Text ''succeeded'', sm_transactionResults = []\<rparr>))),
     ae_sendBundle = (\<lambda>_ _. Inr (demo_reply ''bundle'')), ae_statuses = (\<lambda>_ sigs. Inr (map (\<lambda>_. None) sigs)),
     ae_random = (\<lambda>_ _. 0), ae_tipAccount = None, ae_rejects = (\<lambda>_ is. hd is)\<rparr>"

definition demo_net :: net where
  "demo_net = \<lparr>nt_log = [], nt_tips = createTtlCache 9 9\<rparr>"

definition demo_payload :: "string list \<Rightarrow> batch_payload" where
  "demo_payload txs = \<lparr>bp_parallel = True, bp_transactions = txs, bp_tag = Some ''tag'', bp_payer = None,
     bp_transactionMetadata = None\<rparr>"



text \<open>
  C18. No bundle is sent that the node did not simulate just before, with the same transactions and without a
  failure: if it holds of the requests made before a submission, it holds of those made after it.
\<close>

theorem submitTransactionBatch_guards_bundles:
  "bundles_guarded env (nt_log n) \<Longrightarrow> bundles_guarded env (nt_log (snd (submitTransactionBatch env i payload n)))"
  unfolding submitTransactionBatch_def using guarded_attempts[of env i payload MAX_BLOCKHASH_RETRIES]
  by (simp add: keeps_log_def)

theorem submitTransactionBatch_guards_bundles_witness:
  "nt_log (snd (submitTransactionBatch (demo_api_env []) ''id'' (demo_payload [''a'', ''tip'']) demo_net))
     = [Tips_asked, Bundle_simulated [''a'', ''tip''], Bundle_sent [''a'', ''tip'']]
   \<and> bundles_guarded (demo_api_env []) (nt_log (snd (submitTransactionBatch (demo_api_env []) ''id'' (demo_payload [''a'', ''tip'']) demo_net)))"
proof (rule conjI)
  show "nt_log (snd (submitTransactionBatch (demo_api_env []) ''id'' (demo_payload [''a'', ''tip'']) demo_net))
     = [Tips_asked, Bundle_simulated [''a'', ''tip''], Bundle_sent [''a'', ''tip'']]"
    by code_simp
  show "bundles_guarded (demo_api_env []) (nt_log (snd (submitTransactionBatch (demo_api_env []) ''id'' (demo_payload [''a'', ''tip'']) demo_net)))"
    by (rule submitTransactionBatch_guards_bundles) (simp add: bundles_guarded_def demo_net_def)
qed

text \<open>
  A submission sends at most four times as many requests as it has transactions, and a single transaction
  at most once.
\<close>

theorem submitTransactionBatch_bounded:
  "sendings (snd (submitTransactionBatch env i payload n)) \<le> sendings n
     + (if length (bp_transactions payload) = 1 then 1 else 4 * length (bp_transactions payload))"
proof (cases "length (bp_transactions payload) = 1")
  case True
  then have "attempts env i payload k n = attempt env i payload n" for k
    by (cases k) (auto simp: attempts_0 attempts_Suc retries_def split: prod.split sum.split)
  with True sendings_attempt[of env i payload n] show ?thesis by (simp add: submitTransactionBatch_def)
next
  case False
  have "sendings (snd (submitTransactionBatch env i payload n)) \<le> sendings n + Suc 3 * length (bp_transactions payload)"
    unfolding submitTransactionBatch_def MAX_BLOCKHASH_RETRIES_def by (rule sendings_attempts)
  with False show ?thesis by simp
qed

end
