(* ===== verification/Transaction_Batches.thy ===== *)
theory Transaction_Batches
  imports Batch_Submission
begin

text \<open>
  The life of a transaction batch in \<^verbatim>\<open>packages/blockchain-api\<close>: the procedures \<open>submit\<close>, \<open>get\<close> and \<open>resubmit\<close>, the
  status checker, the resubmission service and the reaper (\<^verbatim>\<open>server/api/routers/transactions/procedures\<close>,
  \<^verbatim>\<open>lib/utils/transaction-status-checker.ts\<close>, \<^verbatim>\<open>transaction-resubmission.ts\<close>, \<^verbatim>\<open>lib/background-jobs\<close>), over the two
  tables of \<^verbatim>\<open>lib/models\<close>.

  Handlers run concurrently and meet in the database only. A handler is a task that advances from one
  statement of the database to the next; requests to the node between two statements are part of the step.
  A load gives the handler a snapshot of the rows, and a save writes the changed fields of that snapshot. A
  database transaction takes effect as a whole or fails; \<open>se_database\<close> says when it fails for reasons of its own.
\<close>

section \<open>Tables\<close>

datatype status = Pending | Confirmed | Failed | Expired | Partial

record batch_row =
  br_id :: string
  br_parallel :: bool
  br_status :: status
  br_submissionType :: submission_type
  br_jitoBundleId :: "string option"
  br_cluster :: string
  br_tag :: "string option"
  br_payer :: string
  br_actionType :: "string option"
  br_actionMetadata :: "tx_metadata option"
  br_confirmedAt :: "nat option"
  br_updatedAt :: nat

record tx_row =
  tr_id :: nat
  tr_signature :: string
  tr_blockhash :: string
  tr_lastValidBlockHeight :: "nat option"
  tr_status :: status
  tr_type :: string
  tr_batchId :: "string option"
  tr_payer :: string
  tr_metadata :: "tx_metadata option"
  tr_serializedTransaction :: "string option"

record database =
  db_batches :: "batch_row list"
  db_transactions :: "tx_row list"
  db_nextId :: nat

text \<open>
  The index of the migration: among the pending rows with a tag, the tag and the payer are unique. A
  statement that would break it, repeat a primary key or refer to a missing batch fails.
\<close>

definition clashes :: "batch_row \<Rightarrow> batch_row \<Rightarrow> bool" where
  "clashes r r' \<longleftrightarrow> br_id r \<noteq> br_id r' \<and> br_status r = Pending \<and> br_status r' = Pending
     \<and> br_tag r \<noteq> None \<and> br_tag r = br_tag r' \<and> br_payer r = br_payer r'"

datatype db_error = UniqueConstraintError | ForeignKeyError | Other_failure thrown

definition create_batch :: "batch_row \<Rightarrow> database \<Rightarrow> db_error + database" where
  "create_batch r db =
     (if list_ex (\<lambda>r'. br_id r' = br_id r \<or> clashes r r') (db_batches db) then Inl UniqueConstraintError
      else Inr (db\<lparr>db_batches := db_batches db @ [r]\<rparr>))"

definition update_batch :: "string \<Rightarrow> (batch_row \<Rightarrow> batch_row) \<Rightarrow> database \<Rightarrow> db_error + database" where
  "update_batch i f db =
     (let rows = map (\<lambda>r. if br_id r = i then f r else r) (db_batches db)
      in if list_ex (\<lambda>r. list_ex (clashes r) rows) rows then Inl UniqueConstraintError else Inr (db\<lparr>db_batches := rows\<rparr>))"

text \<open>Deleting a batch sets the reference of its transactions to null.\<close>

definition destroy_batch :: "string \<Rightarrow> database \<Rightarrow> database" where
  "destroy_batch i db =
     db\<lparr>db_batches := filter (\<lambda>r. br_id r \<noteq> i) (db_batches db),
        db_transactions := map (\<lambda>t. if tr_batchId t = Some i then t\<lparr>tr_batchId := None\<rparr> else t) (db_transactions db)\<rparr>"

definition create_transaction :: "database \<Rightarrow> tx_row \<Rightarrow> db_error + database" where
  "create_transaction db t =
     (if tr_batchId t \<noteq> None \<and> tr_batchId t \<notin> Some ` br_id ` set (db_batches db) then Inl ForeignKeyError
      else Inr (db\<lparr>db_transactions := db_transactions db @ [t\<lparr>tr_id := db_nextId db\<rparr>], db_nextId := Suc (db_nextId db)\<rparr>))"

definition update_transactions :: "(tx_row \<Rightarrow> bool) \<Rightarrow> (tx_row \<Rightarrow> tx_row) \<Rightarrow> database \<Rightarrow> database" where
  "update_transactions P f db = db\<lparr>db_transactions := map (\<lambda>t. if P t then f t else t) (db_transactions db)\<rparr>"

text \<open>A batch with its transactions, as a load returns it.\<close>

record snapshot =
  sn_batch :: batch_row
  sn_transactions :: "tx_row list"

definition transactions_of :: "database \<Rightarrow> string \<Rightarrow> tx_row list" where
  "transactions_of db i = filter (\<lambda>t. tr_batchId t = Some i) (db_transactions db)"

definition load :: "(tx_row \<Rightarrow> bool) \<Rightarrow> database \<Rightarrow> batch_row \<Rightarrow> snapshot" where
  "load P db r = \<lparr>sn_batch = r, sn_transactions = filter P (transactions_of db (br_id r))\<rparr>"

section \<open>The world\<close>

record tx_simulation =
  ts_err :: "json_value option"
  ts_logs :: "string option list option"

record store_env =
  se_api :: api_env
  se_uuid :: "nat \<Rightarrow> string"
  se_simulateTransaction :: "net_event list \<Rightarrow> string \<Rightarrow> thrown + tx_simulation"
  se_getBalance :: "net_event list \<Rightarrow> pubkey \<Rightarrow> thrown + nat"
  se_getLatestBlockhash :: "net_event list \<Rightarrow> thrown + nat"
  se_getBlockHeight :: "net_event list \<Rightarrow> thrown + nat"
  se_getTransaction :: "net_event list \<Rightarrow> string \<Rightarrow> thrown + bool option"
  se_bundleStatuses :: "net_event list \<Rightarrow> string \<Rightarrow> thrown + string list http_reply"
  se_database :: "net_event list \<Rightarrow> thrown + unit"

text \<open>
  \<open>se_getTransaction\<close> answers \<open>None\<close> for an unknown transaction and otherwise whether it has an error;
  \<open>se_bundleStatuses\<close> the states of the bundles asked for.
\<close>

record submit_input =
  si_transactions :: "(string \<times> tx_metadata option) list"
  si_parallel :: bool
  si_tag :: "string option"
  si_actionMetadata :: "tx_metadata option"
  si_simulate :: bool

datatype api_error =
    BAD_REQUEST string
  | NOT_FOUND string
  | SIMULATION_FAILED string "string list option" "string option"
  | Uncaught thrown
  | Uncaught_db db_error

record check_result =
  cr_batchStatus :: status
  cr_confirmedCount :: nat
  cr_failedCount :: nat
  cr_transactionStatuses :: "(string \<times> status \<times> bool) list"

datatype stage =
    Reserve
  | Find_existing
  | Send
  | Release submit_error
  | Record_it submission_result nat

datatype answer =
    Submitted string "string option"
  | Checked check_result
  | Resubmitted "string + string list"
  | Refused api_error
  | Finished

datatype task =
    Submit submit_input string string stage
  | Check snapshot
  | Process snapshot
  | Resubmit snapshot "tx_row list"
  | Reap "snapshot list"
  | Expire snapshot "snapshot list"
  | Answer answer

record world =
  wo_net :: net
  wo_db :: database
  wo_uuids :: nat
  wo_tasks :: "task list"

text \<open>A statement or transaction of the database: it fails for its own reasons, or it is carried out.\<close>

definition ask_db :: "store_env \<Rightarrow> (database \<Rightarrow> db_error + database) \<Rightarrow> world \<Rightarrow> (db_error + unit) \<times> world" where
  "ask_db env f w =
     (case request Database_asked (se_database env) (wo_net w) of
        (Inl e, n) \<Rightarrow> (Inl (Other_failure e), w\<lparr>wo_net := n\<rparr>)
      | (Inr _, n) \<Rightarrow>
          (case f (wo_db w) of
             Inl e \<Rightarrow> (Inl e, w\<lparr>wo_net := n\<rparr>)
           | Inr db \<Rightarrow> (Inr (), w\<lparr>wo_net := n, wo_db := db\<rparr>)))"

definition ask_node :: "net_event \<Rightarrow> (net_event list \<Rightarrow> thrown + 'a) \<Rightarrow> world \<Rightarrow> (thrown + 'a) \<times> world" where
  "ask_node ev f w = (case request ev f (wo_net w) of (r, n) \<Rightarrow> (r, w\<lparr>wo_net := n\<rparr>))"

definition now :: "store_env \<Rightarrow> world \<Rightarrow> nat" where
  "now env w = ae_now (se_api env) (nt_log (wo_net w))"

section \<open>submit\<close>

record sim_failure =
  sf_error :: string
  sf_logs :: "string option list option"
  sf_link :: "string option"

definition simulation_failed_text :: "nat \<Rightarrow> string \<Rightarrow> string" where
  "simulation_failed_text index m = ''Transaction '' @ nat_str (index + 1) @ '' simulation failed: '' @ m"

definition undecodable :: "nat \<Rightarrow> thrown \<Rightarrow> sim_failure" where
  "undecodable index e =
     \<lparr>sf_error = ''Transaction '' @ nat_str (index + 1) @ '' deserialization failed: '' @ error_message e,
      sf_logs = None, sf_link = None\<rparr>"

definition simulate_one :: "store_env \<Rightarrow> nat \<times> string \<Rightarrow> world \<Rightarrow> sim_failure option \<times> world" where
  "simulate_one env = (\<lambda>(index, tx) w.
     case ae_deserialize (se_api env) tx of
       Inl e \<Rightarrow> (Some (undecodable index e), w)
     | Inr transaction \<Rightarrow>
         (case ask_node (Tx_simulated tx) (\<lambda>log. se_simulateTransaction env log tx) w of
            (Inl e, w') \<Rightarrow> (Some (undecodable index e), w')
          | (Inr sim, w') \<Rightarrow>
              (if truthy_err (ts_err sim)
               then (case ebind (getExplorerUrl (se_api env) transaction) (\<lambda>link.
                            ebind (getChewingGlassExplorerUrl (se_api env) transaction) (\<lambda>_. Inr link)) of
                       Inl e \<Rightarrow> Some (undecodable index e)
                     | Inr link \<Rightarrow>
                         Some \<lparr>sf_error = simulation_failed_text index (json_text (the (ts_err sim))),
                               sf_logs = ts_logs sim, sf_link = Some link\<rparr>)
               else None, w')))"

fun simulate_all :: "store_env \<Rightarrow> (nat \<times> string) list \<Rightarrow> world \<Rightarrow> sim_failure list \<times> world" where
  "simulate_all env [] w = ([], w)"
| "simulate_all env (tx # txs) w =
     (case simulate_one env tx w of
        (r, w1) \<Rightarrow> (case simulate_all env txs w1 of (fs, w2) \<Rightarrow> ((case r of None \<Rightarrow> fs | Some f \<Rightarrow> f # fs), w2)))"

text \<open>A payer without an account has no balance: its own message.\<close>

definition payer_empty :: "store_env \<Rightarrow> string \<Rightarrow> world \<Rightarrow> (thrown + bool) \<times> world" where
  "payer_empty env payer w =
     (case ask_node (Balance_asked payer) (\<lambda>log. se_getBalance env log payer) w of
        (Inl e, w') \<Rightarrow> (Inl e, w')
      | (Inr b, w') \<Rightarrow> (Inr (b = 0), w'))"

definition texts :: "string option list option \<Rightarrow> string list option" where
  "texts logs = map_option (map text_or_empty) logs"

definition report_simulation :: "store_env \<Rightarrow> string \<Rightarrow> sim_failure \<Rightarrow> world \<Rightarrow> api_error \<times> world" where
  "report_simulation env payer ff w =
     (let category = fst (classifySimulationLogs (sf_error ff) (Some (case sf_logs ff of None \<Rightarrow> [] | Some ls \<Rightarrow> ls)));
          failed = SIMULATION_FAILED (sf_error ff) (texts (sf_logs ff)) (sf_link ff)
      in if category = ''account_not_found''
         then (case payer_empty env payer w of
                 (Inl e, w') \<Rightarrow> (Uncaught e, w')
               | (Inr True, w') \<Rightarrow>
                   (SIMULATION_FAILED (''Transaction payer '' @ payer @ '' has 0 SOL'') (texts (sf_logs ff)) (sf_link ff), w')
               | (Inr False, w') \<Rightarrow> (failed, w'))
         else (failed, w))"

text \<open>The checks before the first statement of the database; the payer is the first key of the first transaction.\<close>

definition payer_of :: "store_env \<Rightarrow> submit_input \<Rightarrow> api_error + string" where
  "payer_of env inp =
     (case si_transactions inp of
        [] \<Rightarrow> Inl (BAD_REQUEST ''Transactions array is required and cannot be empty'')
      | (tx, _) # _ \<Rightarrow>
          (case ae_deserialize (se_api env) tx of
             Inl e \<Rightarrow> Inl (BAD_REQUEST ''Failed to decode transaction to extract payer'')
           | Inr v \<Rightarrow>
               (case vx_staticAccountKeys v of
                  [] \<Rightarrow> Inl (BAD_REQUEST ''Failed to decode transaction to extract payer'')
                | payer # _ \<Rightarrow>
                    if length (si_transactions inp) > 5 then Inl (BAD_REQUEST ''Maximum of 5 transactions allowed per batch'')
                    else Inr payer)))"

definition tagged :: "submit_input \<Rightarrow> bool" where
  "tagged inp \<longleftrightarrow> si_tag inp \<noteq> None \<and> si_tag inp \<noteq> Some []"

definition submit_begin :: "store_env \<Rightarrow> submit_input \<Rightarrow> world \<Rightarrow> task \<times> world" where
  "submit_begin env inp w =
     (case payer_of env inp of
        Inl e \<Rightarrow> (Answer (Refused e), w)
      | Inr payer \<Rightarrow>
          (case (if si_simulate inp \<and> (si_parallel inp \<or> length (si_transactions inp) = 1)
                 then simulate_all env (enumerate 0 (map fst (si_transactions inp))) w else ([], w)) of
             (ff # _, w1) \<Rightarrow> (case report_simulation env payer ff w1 of (e, w2) \<Rightarrow> (Answer (Refused e), w2))
           | ([], w1) \<Rightarrow>
               (Submit inp payer (se_uuid env (wo_uuids w1)) (if tagged inp then Reserve else Send),
                w1\<lparr>wo_uuids := Suc (wo_uuids w1)\<rparr>)))"

definition action_type :: "submit_input \<Rightarrow> string option" where
  "action_type inp =
     (let own = (case si_transactions inp of (_, Some m) # _ \<Rightarrow> (if md_type m = [] then None else Some (md_type m)) | _ \<Rightarrow> None)
      in case si_actionMetadata inp of Some m \<Rightarrow> (if md_type m = [] then own else Some (md_type m)) | None \<Rightarrow> own)"

definition batch_for :: "store_env \<Rightarrow> submit_input \<Rightarrow> string \<Rightarrow> string \<Rightarrow> submission_type \<Rightarrow> string option \<Rightarrow> nat \<Rightarrow> batch_row" where
  "batch_for env inp payer batchId ty jitoBundleId t =
     \<lparr>br_id = batchId, br_parallel = si_parallel inp, br_status = Pending, br_submissionType = ty,
      br_jitoBundleId = jitoBundleId, br_cluster = getCluster (se_api env), br_tag = si_tag inp, br_payer = payer,
      br_actionType = action_type inp, br_actionMetadata = si_actionMetadata inp, br_confirmedAt = None, br_updatedAt = t\<rparr>"

definition submit_reserve :: "store_env \<Rightarrow> submit_input \<Rightarrow> string \<Rightarrow> string \<Rightarrow> world \<Rightarrow> task \<times> world" where
  "submit_reserve env inp payer batchId w =
     (let count = length (si_transactions inp);
          predicted = predictSubmissionType count (shouldUseJitoBundle count (getCluster (se_api env))) (si_parallel inp)
      in case ask_db env (create_batch (batch_for env inp payer batchId predicted None (now env w))) w of
           (Inr _, w') \<Rightarrow> (Submit inp payer batchId Send, w')
         | (Inl UniqueConstraintError, w') \<Rightarrow> (Submit inp payer batchId Find_existing, w')
         | (Inl e, w') \<Rightarrow> (Answer (Refused (Uncaught_db e)), w'))"

definition submit_find :: "store_env \<Rightarrow> submit_input \<Rightarrow> string \<Rightarrow> world \<Rightarrow> task \<times> world" where
  "submit_find env inp payer w =
     (case ask_db env Inr w of
        (Inl e, w') \<Rightarrow> (Answer (Refused (Uncaught_db e)), w')
      | (Inr _, w') \<Rightarrow>
          (case find (\<lambda>r. br_tag r = si_tag inp \<and> br_payer r = payer \<and> br_status r = Pending) (db_batches (wo_db w')) of
             Some existingBatch \<Rightarrow>
               (Answer (Submitted (br_id existingBatch)
                  (Some (''Transaction with tag '' @ [CHR 0x22] @ text_or_empty (si_tag inp) @ [CHR 0x22]
                         @ '' already exists and is pending''))), w')
           | None \<Rightarrow> (Answer (Refused (Uncaught_db UniqueConstraintError)), w')))"

definition payload_of :: "submit_input \<Rightarrow> string \<Rightarrow> batch_payload" where
  "payload_of inp payer =
     \<lparr>bp_parallel = si_parallel inp, bp_transactions = map fst (si_transactions inp), bp_tag = si_tag inp,
      bp_payer = Some payer, bp_transactionMetadata = Some (map snd (si_transactions inp))\<rparr>"

text \<open>The reply to a failed submission.\<close>

definition report_failure :: "store_env \<Rightarrow> string \<Rightarrow> submit_error \<Rightarrow> world \<Rightarrow> api_error \<times> world" where
  "report_failure env payer e w =
     (case e of
        BundleSimulationError f \<Rightarrow>
          (let failed = SIMULATION_FAILED (submit_error_text e) (Some (bf_logs f)) None
           in if bf_category f = ''account_not_found''
              then (case payer_empty env payer w of
                      (Inl x, w') \<Rightarrow> (Uncaught x, w')
                    | (Inr True, w') \<Rightarrow>
                        (SIMULATION_FAILED (''Transaction payer '' @ payer @ '' has 0 SOL'') (Some (bf_logs f)) None, w')
                    | (Inr False, w') \<Rightarrow> (failed, w'))
              else (failed, w))
      | Thrown (Other_value _) \<Rightarrow> (BAD_REQUEST ''Unknown error'', w)
      | _ \<Rightarrow> (BAD_REQUEST (submit_error_text e), w))"

definition submit_send :: "store_env \<Rightarrow> submit_input \<Rightarrow> string \<Rightarrow> string \<Rightarrow> world \<Rightarrow> task \<times> world" where
  "submit_send env inp payer batchId w =
     (let w0 = w\<lparr>wo_uuids := Suc (wo_uuids w)\<rparr>
      in case submitTransactionBatch (se_api env) (se_uuid env (wo_uuids w)) (payload_of inp payer) (wo_net w0) of
           (Inl e, n) \<Rightarrow>
             if tagged inp then (Submit inp payer batchId (Release e), w0\<lparr>wo_net := n\<rparr>)
             else (case report_failure env payer e (w0\<lparr>wo_net := n\<rparr>) of (err, w') \<Rightarrow> (Answer (Refused err), w'))
         | (Inr result, n) \<Rightarrow>
             (case ask_node Blockhash_asked (se_getLatestBlockhash env) (w0\<lparr>wo_net := n\<rparr>) of
                (Inl e, w') \<Rightarrow> (Answer (Refused (Uncaught e)), w')
              | (Inr h, w') \<Rightarrow> (Submit inp payer batchId (Record_it result h), w')))"

text \<open>A failure of \<open>destroy\<close> is swallowed.\<close>

definition submit_release :: "store_env \<Rightarrow> string \<Rightarrow> string \<Rightarrow> submit_error \<Rightarrow> world \<Rightarrow> task \<times> world" where
  "submit_release env payer batchId e w =
     (case ask_db env (\<lambda>db. Inr (destroy_batch batchId db)) w of
        (_, w1) \<Rightarrow> (case report_failure env payer e w1 of (err, w2) \<Rightarrow> (Answer (Refused err), w2)))"

definition transaction_for ::
  "store_env \<Rightarrow> string \<Rightarrow> string \<Rightarrow> submission_result \<Rightarrow> nat \<Rightarrow> nat \<times> string \<times> tx_metadata option \<Rightarrow> thrown + tx_row" where
  "transaction_for env payer batchId result lastValidBlockHeight = (\<lambda>(i, tx, metadata).
     ebind (ae_deserialize (se_api env) tx) (\<lambda>transaction.
       Inr \<lparr>tr_id = 0,
            tr_signature = (case js_nth (sr_signatures result) i of
                              Some (c # s) \<Rightarrow> c # s
                            | _ \<Rightarrow> batchId @ ''-'' @ nat_str i),
            tr_blockhash = vx_recentBlockhash transaction, tr_lastValidBlockHeight = Some lastValidBlockHeight,
            tr_status = Pending,
            tr_type = (case metadata of Some m \<Rightarrow> (if md_type m = [] then ''batch'' else md_type m) | None \<Rightarrow> ''batch''),
            tr_batchId = Some batchId, tr_payer = payer, tr_metadata = metadata, tr_serializedTransaction = Some tx\<rparr>))"

definition record_statements ::
  "store_env \<Rightarrow> submit_input \<Rightarrow> string \<Rightarrow> string \<Rightarrow> submission_result \<Rightarrow> nat \<Rightarrow> nat \<Rightarrow> database \<Rightarrow> db_error + database" where
  "record_statements env inp payer batchId result h t db =
     ebind (if tagged inp
            then update_batch batchId (\<lambda>r. r\<lparr>br_submissionType := sr_submissionType result,
                                             br_jitoBundleId := sr_jitoBundleId result, br_updatedAt := t\<rparr>) db
            else create_batch (batch_for env inp payer batchId (sr_submissionType result) (sr_jitoBundleId result) t) db) (\<lambda>db1.
       case emap (transaction_for env payer batchId result h) (enumerate 0 (si_transactions inp)) of
         Inl e \<Rightarrow> Inl (Other_failure e)
       | Inr rows \<Rightarrow> efold create_transaction db1 rows)"

definition submit_record ::
  "store_env \<Rightarrow> submit_input \<Rightarrow> string \<Rightarrow> string \<Rightarrow> submission_result \<Rightarrow> nat \<Rightarrow> world \<Rightarrow> task \<times> world" where
  "submit_record env inp payer batchId result h w =
     (case ask_db env (record_statements env inp payer batchId result h (now env w)) w of
        (Inl e, w') \<Rightarrow> (Answer (Refused (Uncaught_db e)), w')
      | (Inr _, w') \<Rightarrow> (Answer (Submitted batchId None), w'))"

definition submit_step :: "store_env \<Rightarrow> submit_input \<Rightarrow> string \<Rightarrow> string \<Rightarrow> stage \<Rightarrow> world \<Rightarrow> task \<times> world" where
  "submit_step env inp payer batchId st w =
     (case st of
        Reserve \<Rightarrow> submit_reserve env inp payer batchId w
      | Find_existing \<Rightarrow> submit_find env inp payer w
      | Send \<Rightarrow> submit_send env inp payer batchId w
      | Release e \<Rightarrow> submit_release env payer batchId e w
      | Record_it result h \<Rightarrow> submit_record env inp payer batchId result h w)"

section \<open>The status checker\<close>

text \<open>The outcome for one transaction: its new status, and whether the chain has it without an error.\<close>

definition checkTransactionStatus ::
  "store_env \<Rightarrow> batch_row \<Rightarrow> nat \<Rightarrow> tx_row \<Rightarrow> world \<Rightarrow> (thrown + (status \<times> bool)) \<times> world" where
  "checkTransactionStatus env batch currentBlockHeight pendingTx w =
     (if take (length (br_id batch)) (tr_signature pendingTx) = br_id batch then (Inr (tr_status pendingTx, False), w)
      else case ask_node (Transaction_asked (tr_signature pendingTx)) (\<lambda>log. se_getTransaction env log (tr_signature pendingTx)) w of
             (Inl e, w') \<Rightarrow> (Inl e, w')
           | (Inr (Some True), w') \<Rightarrow> (Inr (Failed, False), w')
           | (Inr (Some False), w') \<Rightarrow> (Inr (Confirmed, True), w')
           | (Inr None, w') \<Rightarrow>
               (Inr (case tr_lastValidBlockHeight pendingTx of
                       None \<Rightarrow> Expired
                     | Some h \<Rightarrow> if h = 0 then Expired else if currentBlockHeight > h then Expired else Pending, False), w'))"

definition checkJitoBundleStatus :: "store_env \<Rightarrow> batch_row \<Rightarrow> world \<Rightarrow> status \<times> world" where
  "checkJitoBundleStatus env batch w =
     (case (br_submissionType batch, br_jitoBundleId batch) of
        (jito_bundle, Some (c # i)) \<Rightarrow>
          (case ask_node (Bundle_status_asked (c # i)) (\<lambda>log. se_bundleStatuses env log (c # i)) w of
             (reply, w') \<Rightarrow>
               (case ebind reply (\<lambda>response. if hr_ok response then hr_json response else Inl (Other_value [])) of
                  Inl _ \<Rightarrow> Pending
                | Inr result \<Rightarrow>
                    (case rb_result result of
                       Some (st # _) \<Rightarrow> if st = ''Failed'' then Failed else if st = ''Landed'' then Confirmed else Pending
                     | _ \<Rightarrow> Pending), w'))
      | _ \<Rightarrow> (Pending, w))"

text \<open>
  One transaction of a check: what the chain says of it, and \<open>None\<close> for an error that is caught, in which case
  the transaction counts neither as confirmed nor as failed.
\<close>

fun check_each ::
  "store_env \<Rightarrow> batch_row \<Rightarrow> nat \<Rightarrow> tx_row list \<Rightarrow> world \<Rightarrow> (tx_row \<times> (status \<times> bool) option) list \<times> world" where
  "check_each env batch h [] w = ([], w)"
| "check_each env batch h (t # ts) w =
     (case checkTransactionStatus env batch h t w of
        (r, w1) \<Rightarrow>
          (case check_each env batch h ts w1 of
             (rs, w2) \<Rightarrow> ((t, case r of Inl _ \<Rightarrow> None | Inr x \<Rightarrow> Some x) # rs, w2)))"

definition confirmed_count :: "(tx_row \<times> (status \<times> bool) option) list \<Rightarrow> nat" where
  "confirmed_count rs = length (filter (\<lambda>(_, r). map_option fst r = Some Confirmed) rs)"

definition failed_count :: "(tx_row \<times> (status \<times> bool) option) list \<Rightarrow> nat" where
  "failed_count rs = length (filter (\<lambda>(_, r). map_option fst r \<in> {Some Failed, Some Expired}) rs)"

definition overall_status :: "status \<Rightarrow> (tx_row \<times> (status \<times> bool) option) list \<Rightarrow> status" where
  "overall_status jito rs =
     (if confirmed_count rs = length rs then Confirmed
      else if failed_count rs > 0 then (if confirmed_count rs > 0 then Partial else Failed)
      else jito)"

text \<open>The saves of changed transactions; a confirmed one drops its text.\<close>

definition save_transaction :: "database \<Rightarrow> tx_row \<times> (status \<times> bool) option \<Rightarrow> database" where
  "save_transaction db = (\<lambda>(t, r). case r of
     None \<Rightarrow> db
   | Some (st, _) \<Rightarrow>
       if st = tr_status t then db
       else update_transactions (\<lambda>u. tr_id u = tr_id t)
              (\<lambda>u. if st = Confirmed then u\<lparr>tr_status := st, tr_serializedTransaction := None\<rparr> else u\<lparr>tr_status := st\<rparr>) db)"

definition is_terminal :: "status \<Rightarrow> bool" where
  "is_terminal st \<longleftrightarrow> st \<in> {Confirmed, Failed, Partial}"

definition save_batch :: "batch_row \<Rightarrow> status \<Rightarrow> nat \<Rightarrow> database \<Rightarrow> db_error + database" where
  "save_batch batch st t db =
     (if st = br_status batch then Inr db
      else update_batch (br_id batch)
             (\<lambda>r. r\<lparr>br_status := st, br_updatedAt := t,
                    br_confirmedAt := (if is_terminal st \<and> br_confirmedAt batch = None then Some t else br_confirmedAt r)\<rparr>) db)"

definition transaction_statuses :: "(tx_row \<times> (status \<times> bool) option) list \<Rightarrow> (string \<times> status \<times> bool) list" where
  "transaction_statuses rs =
     map (\<lambda>(t, r). (tr_signature t, case r of None \<Rightarrow> (tr_status t, False) | Some x \<Rightarrow> x)) rs"

definition checkAndUpdateBatchStatus :: "store_env \<Rightarrow> snapshot \<Rightarrow> world \<Rightarrow> (api_error + check_result) \<times> world" where
  "checkAndUpdateBatchStatus env sn w =
     (case ask_node Height_asked (se_getBlockHeight env) w of
        (Inl e, w1) \<Rightarrow> (Inl (Uncaught e), w1)
      | (Inr h, w1) \<Rightarrow>
          (case checkJitoBundleStatus env (sn_batch sn) w1 of
             (jito, w2) \<Rightarrow>
               (case check_each env (sn_batch sn) h (sn_transactions sn) w2 of
                  (rs, w3) \<Rightarrow>
                    (let st = overall_status jito rs
                     in case ask_db env (\<lambda>db. save_batch (sn_batch sn) st (now env w3) (foldl save_transaction db rs)) w3 of
                          (Inl e, w4) \<Rightarrow> (Inl (Uncaught_db e), w4)
                        | (Inr _, w4) \<Rightarrow>
                            (Inr \<lparr>cr_batchStatus = st, cr_confirmedCount = confirmed_count rs,
                                  cr_failedCount = failed_count rs, cr_transactionStatuses = transaction_statuses rs\<rparr>, w4)))))"

text \<open>The procedure \<open>get\<close>: the load, and the check of what was loaded.\<close>

definition get_begin :: "store_env \<Rightarrow> string \<Rightarrow> world \<Rightarrow> task \<times> world" where
  "get_begin env i w =
     (case ask_db env Inr w of
        (Inl e, w') \<Rightarrow> (Answer (Refused (Uncaught_db e)), w')
      | (Inr _, w') \<Rightarrow>
          (case find (\<lambda>r. br_id r = i) (db_batches (wo_db w')) of
             None \<Rightarrow> (Answer (Refused (NOT_FOUND ''Batch not found'')), w')
           | Some r \<Rightarrow> (Check (load (\<lambda>_. True) (wo_db w') r), w')))"

definition get_check :: "store_env \<Rightarrow> snapshot \<Rightarrow> world \<Rightarrow> task \<times> world" where
  "get_check env sn w =
     (case checkAndUpdateBatchStatus env sn w of
        (Inl e, w') \<Rightarrow> (Answer (Refused e), w')
      | (Inr result, w') \<Rightarrow> (Answer (Checked result), w'))"

section \<open>Resubmission\<close>

text \<open>
  The saves of new signatures. The rows are pending in the snapshot, so that only a changed signature is
  written, and nothing of the batch.
\<close>

definition save_signature :: "database \<Rightarrow> tx_row \<times> string option \<Rightarrow> database" where
  "save_signature db = (\<lambda>(t, sig). case sig of
     Some (c # s) \<Rightarrow>
       if c # s = tr_signature t then db else update_transactions (\<lambda>u. tr_id u = tr_id t) (\<lambda>u. u\<lparr>tr_signature := c # s\<rparr>) db
   | _ \<Rightarrow> db)"

definition resubmitTransactionBatch :: "store_env \<Rightarrow> batch_row \<Rightarrow> tx_row list \<Rightarrow> world \<Rightarrow> (string + string list) \<times> world" where
  "resubmitTransactionBatch env batch txs w =
     (let missing = filter (\<lambda>t. tr_serializedTransaction t = None \<or> tr_serializedTransaction t = Some []) txs
      in if length txs = 0 then (Inl ''No transactions to resubmit'', w)
         else if br_submissionType batch = jito_bundle
         then (Inl ''Jito bundles cannot be resubmitted - they either land or fail'', w)
         else if length missing > 0
         then (Inl (''Missing serialized transactions for '' @ nat_str (length missing) @ '' transactions''), w)
         else
           (let w0 = w\<lparr>wo_uuids := Suc (wo_uuids w)\<rparr>;
                payload = \<lparr>bp_parallel = br_parallel batch, bp_transactions = map (\<lambda>t. the (tr_serializedTransaction t)) txs,
                           bp_tag = br_tag batch, bp_payer = Some (br_payer batch),
                           bp_transactionMetadata = Some (map tr_metadata txs)\<rparr>
            in case submitTransactionBatch (se_api env) (se_uuid env (wo_uuids w)) payload (wo_net w0) of
                 (Inl e, n) \<Rightarrow>
                   (Inl (case e of Thrown x \<Rightarrow> error_message x | _ \<Rightarrow> submit_error_text e), w0\<lparr>wo_net := n\<rparr>)
               | (Inr result, n) \<Rightarrow>
                   (let news = map (\<lambda>(i, t). (t, js_nth (sr_signatures result) i)) (enumerate 0 txs)
                    in case ask_db env (\<lambda>db. Inr (foldl save_signature db news)) (w0\<lparr>wo_net := n\<rparr>) of
                         (Inl e, w') \<Rightarrow> (Inl (case e of Other_failure x \<Rightarrow> error_message x | _ \<Rightarrow> ''Validation error''), w')
                       | (Inr _, w') \<Rightarrow> (Inr (sr_signatures result), w'))))"

text \<open>A single transaction, while its blockhash is valid.\<close>

definition resubmitSingleTransaction :: "store_env \<Rightarrow> tx_row \<Rightarrow> world \<Rightarrow> (string + string list) \<times> world" where
  "resubmitSingleTransaction env t w =
     (case tr_serializedTransaction t of
        None \<Rightarrow> (Inl ''No serialized transaction available for resubmission'', w)
      | Some [] \<Rightarrow> (Inl ''No serialized transaction available for resubmission'', w)
      | Some tx \<Rightarrow>
          (case tr_lastValidBlockHeight t of
             None \<Rightarrow> (Inl ''Blockhash expired, cannot resubmit'', w)
           | Some lastValid \<Rightarrow>
               if lastValid = 0 then (Inl ''Blockhash expired, cannot resubmit'', w)
               else (case ask_node Height_asked (se_getBlockHeight env) w of
                       (Inl e, w1) \<Rightarrow> (Inl (error_message e), w1)
                     | (Inr h, w1) \<Rightarrow>
                         if h > lastValid then (Inl ''Blockhash expired, cannot resubmit'', w1)
                         else (case ebind (ae_deserialize (se_api env) tx) (ae_serialize (se_api env)) of
                                 Inl e \<Rightarrow> (Inl (error_message e), w1)
                               | Inr raw \<Rightarrow>
                                   (case ask_node (Sent raw) (\<lambda>log. ae_sendRaw (se_api env) log raw) w1 of
                                      (Inl e, w2) \<Rightarrow> (Inl (error_message e), w2)
                                    | (Inr signature, w2) \<Rightarrow>
                                        (case ask_db env (\<lambda>db. Inr (update_transactions (\<lambda>u. tr_id u = tr_id t)
                                                (\<lambda>u. u\<lparr>tr_signature := signature,
                                                       tr_status := (if tr_status t = Pending then tr_status u else Pending)\<rparr>) db)) w2 of
                                           (Inl e, w3) \<Rightarrow> (Inl (case e of Other_failure x \<Rightarrow> error_message x | _ \<Rightarrow> ''Validation error''), w3)
                                         | (Inr _, w3) \<Rightarrow> (Inr [signature], w3)))))))"

definition is_pending :: "tx_row \<Rightarrow> bool" where
  "is_pending t \<longleftrightarrow> tr_status t = Pending"

text \<open>The procedure \<open>resubmit\<close>: a batch without a pending transaction is not found.\<close>

definition resubmit_begin :: "store_env \<Rightarrow> string \<Rightarrow> world \<Rightarrow> task \<times> world" where
  "resubmit_begin env i w =
     (case ask_db env Inr w of
        (Inl e, w') \<Rightarrow> (Answer (Refused (Uncaught_db e)), w')
      | (Inr _, w') \<Rightarrow>
          (case find (\<lambda>r. br_id r = i \<and> list_ex is_pending (transactions_of (wo_db w') i)) (db_batches (wo_db w')) of
             None \<Rightarrow> (Answer (Refused (NOT_FOUND ''Batch not found'')), w')
           | Some r \<Rightarrow>
               if br_status r \<noteq> Pending then (Answer (Refused (BAD_REQUEST ''Batch is not in pending status'')), w')
               else (let sn = load is_pending (wo_db w') r in (Resubmit sn (sn_transactions sn), w'))))"

definition resubmit_step :: "store_env \<Rightarrow> snapshot \<Rightarrow> tx_row list \<Rightarrow> world \<Rightarrow> task \<times> world" where
  "resubmit_step env sn txs w =
     (case resubmitTransactionBatch env (sn_batch sn) txs w of (r, w') \<Rightarrow> (Answer (Resubmitted r), w'))"

text \<open>
  The service: it loads the pending batches that are no bundles and have pending transactions, with these
  only, and processes each; here each is a task of its own.
\<close>

definition getPendingTransactionsForResubmission :: "database \<Rightarrow> snapshot list" where
  "getPendingTransactionsForResubmission db =
     map (load is_pending db)
       (filter (\<lambda>r. br_status r = Pending \<and> br_submissionType r \<noteq> jito_bundle \<and> list_ex is_pending (transactions_of db (br_id r)))
          (db_batches db))"

definition process_begin :: "store_env \<Rightarrow> world \<Rightarrow> task list \<times> world" where
  "process_begin env w =
     (case ask_db env Inr w of
        (Inl e, w') \<Rightarrow> ([], w')
      | (Inr _, w') \<Rightarrow> (map Process (getPendingTransactionsForResubmission (wo_db w')), w'))"

definition still_pending :: "check_result \<Rightarrow> tx_row list \<Rightarrow> tx_row list" where
  "still_pending result txs =
     filter (\<lambda>t. case find (\<lambda>(s, _). s = tr_signature t) (cr_transactionStatuses result) of
                   Some (_, st, _) \<Rightarrow> st = Pending
                 | None \<Rightarrow> False) txs"

definition process_check :: "store_env \<Rightarrow> snapshot \<Rightarrow> world \<Rightarrow> task \<times> world" where
  "process_check env sn w =
     (case checkAndUpdateBatchStatus env sn w of
        (Inl e, w') \<Rightarrow> (Answer Finished, w')
      | (Inr result, w') \<Rightarrow>
          (if cr_batchStatus result \<noteq> Pending then Answer Finished
           else if still_pending result (sn_transactions sn) = [] then Answer Finished
           else Resubmit sn (still_pending result (sn_transactions sn)), w'))"

section \<open>The reaper\<close>

definition STALE_PENDING_BATCH_MS :: nat where
  "STALE_PENDING_BATCH_MS = 2 * 60 * 1000"

definition stale_batches :: "nat \<Rightarrow> database \<Rightarrow> snapshot list" where
  "stale_batches t db =
     map (load (\<lambda>_. True) db) (filter (\<lambda>r. br_status r = Pending \<and> br_updatedAt r + STALE_PENDING_BATCH_MS < t) (db_batches db))"

definition reap_begin :: "store_env \<Rightarrow> world \<Rightarrow> task \<times> world" where
  "reap_begin env w =
     (case ask_db env Inr w of
        (Inl e, w') \<Rightarrow> (Answer Finished, w')
      | (Inr _, w') \<Rightarrow> (Reap (stale_batches (now env w) (wo_db w')), w'))"

definition reap_check :: "store_env \<Rightarrow> snapshot list \<Rightarrow> world \<Rightarrow> task \<times> world" where
  "reap_check env sns w =
     (case sns of
        [] \<Rightarrow> (Answer Finished, w)
      | sn # rest \<Rightarrow>
          if sn_transactions sn = [] then (Expire sn rest, w)
          else (case checkAndUpdateBatchStatus env sn w of
                  (Inl e, w') \<Rightarrow> (Reap rest, w')
                | (Inr result, w') \<Rightarrow> (if cr_batchStatus result \<noteq> Pending then Reap rest else Expire sn rest, w')))"

definition expirePendingBatch :: "snapshot \<Rightarrow> nat \<Rightarrow> database \<Rightarrow> db_error + database" where
  "expirePendingBatch sn t db =
     update_batch (br_id (sn_batch sn)) (\<lambda>r. r\<lparr>br_status := Expired, br_updatedAt := t\<rparr>)
       (update_transactions (\<lambda>u. tr_batchId u = Some (br_id (sn_batch sn)) \<and> is_pending u) (\<lambda>u. u\<lparr>tr_status := Expired\<rparr>) db)"

definition expire_step :: "store_env \<Rightarrow> snapshot \<Rightarrow> snapshot list \<Rightarrow> world \<Rightarrow> task \<times> world" where
  "expire_step env sn rest w = (case ask_db env (expirePendingBatch sn (now env w)) w of (_, w') \<Rightarrow> (Reap rest, w'))"

section \<open>The system\<close>

definition task_step :: "store_env \<Rightarrow> task \<Rightarrow> world \<Rightarrow> task \<times> world" where
  "task_step env t w =
     (case t of
        Submit inp payer batchId st \<Rightarrow> submit_step env inp payer batchId st w
      | Check sn \<Rightarrow> get_check env sn w
      | Process sn \<Rightarrow> process_check env sn w
      | Resubmit sn txs \<Rightarrow> resubmit_step env sn txs w
      | Reap sns \<Rightarrow> reap_check env sns w
      | Expire sn rest \<Rightarrow> expire_step env sn rest w
      | Answer a \<Rightarrow> (t, w))"

datatype api_event =
    New_submit submit_input
  | New_get string
  | New_resubmit string
  | New_process
  | New_reap
  | Step nat

definition add_tasks :: "task list \<times> world \<Rightarrow> world" where
  "add_tasks = (\<lambda>(ts, w). w\<lparr>wo_tasks := wo_tasks w @ ts\<rparr>)"

definition add_task :: "task \<times> world \<Rightarrow> world" where
  "add_task = (\<lambda>(t, w). add_tasks ([t], w))"

fun api_handle :: "store_env \<Rightarrow> api_event \<Rightarrow> world \<Rightarrow> world" where
  "api_handle env (New_submit inp) w = add_task (submit_begin env inp w)"
| "api_handle env (New_get i) w = add_task (get_begin env i w)"
| "api_handle env (New_resubmit i) w = add_task (resubmit_begin env i w)"
| "api_handle env New_process w = add_tasks (process_begin env w)"
| "api_handle env New_reap w = add_task (reap_begin env w)"
| "api_handle env (Step i) w =
     (case js_nth (wo_tasks w) i of
        None \<Rightarrow> w
      | Some t \<Rightarrow> (case task_step env t w of (t', w') \<Rightarrow> w'\<lparr>wo_tasks := (wo_tasks w')[i := t']\<rparr>))"

definition api_run :: "store_env \<Rightarrow> api_event list \<Rightarrow> world \<Rightarrow> world" where
  "api_run env evs w = foldl (\<lambda>w ev. api_handle env ev w) w evs"

section \<open>The tables stay well formed\<close>

definition rows_ok :: "batch_row list \<Rightarrow> tx_row list \<Rightarrow> nat \<Rightarrow> bool" where
  "rows_ok bs ts n \<longleftrightarrow> distinct (map br_id bs) \<and> (\<forall>r \<in> set bs. \<forall>r' \<in> set bs. \<not> clashes r r') \<and> distinct (map tr_id ts)
     \<and> (\<forall>t \<in> set ts. tr_id t < n \<and> tr_status t \<noteq> Partial \<and> tr_batchId t \<in> insert None (Some ` br_id ` set bs))"

definition db_ok :: "database \<Rightarrow> bool" where
  "db_ok db \<longleftrightarrow> rows_ok (db_batches db) (db_transactions db) (db_nextId db)"

definition db_keeps :: "(database \<Rightarrow> db_error + database) \<Rightarrow> bool" where
  "db_keeps f \<longleftrightarrow> (\<forall>db db'. db_ok db \<longrightarrow> f db = Inr db' \<longrightarrow> db_ok db')"

named_theorems db_intros \<open>statements that keep the tables well formed\<close>

lemma db_keepsI: "(\<And>db db'. db_ok db \<Longrightarrow> f db = Inr db' \<Longrightarrow> db_ok db') \<Longrightarrow> db_keeps f"
  by (simp add: db_keeps_def)

lemma db_keepsD: "db_keeps f \<Longrightarrow> f db = Inr db' \<Longrightarrow> db_ok db \<Longrightarrow> db_ok db'"
  by (simp add: db_keeps_def)

lemma clashes_sym: "clashes r r' \<longleftrightarrow> clashes r' r"
  by (auto simp: clashes_def)

lemma db_keeps_Inr [db_intros]: "db_keeps Inr"
  by (simp add: db_keeps_def)

lemma db_keeps_create [db_intros]: "db_keeps (create_batch r)"
proof (rule db_keepsI)
  fix db db'
  assume ok: "db_ok db" and "create_batch r db = Inr db'"
  then have db': "db' = db\<lparr>db_batches := db_batches db @ [r]\<rparr>"
    and new: "\<And>r'. r' \<in> set (db_batches db) \<Longrightarrow> br_id r' \<noteq> br_id r \<and> \<not> clashes r r'"
    by (auto simp: create_batch_def list_ex_iff split: if_splits)
  have "\<not> clashes r r" by (simp add: clashes_def)
  moreover have "\<And>r'. r' \<in> set (db_batches db) \<Longrightarrow> \<not> clashes r' r" using new clashes_sym by blast
  moreover have "br_id r \<notin> br_id ` set (db_batches db)" using new by fastforce
  ultimately show "db_ok db'" using ok new unfolding db' db_ok_def by (auto simp: rows_ok_def)
qed

lemma db_keeps_update [db_intros]: "(\<And>r. br_id (f r) = br_id r) \<Longrightarrow> db_keeps (update_batch i f)"
proof (rule db_keepsI)
  fix db db'
  assume f: "\<And>r. br_id (f r) = br_id r" and ok: "db_ok db" and u: "update_batch i f db = Inr db'"
  let ?g = "\<lambda>r. if br_id r = i then f r else r"
  from u have db': "db' = db\<lparr>db_batches := map ?g (db_batches db)\<rparr>"
    and nc: "\<forall>r \<in> set (map ?g (db_batches db)). \<forall>r' \<in> set (map ?g (db_batches db)). \<not> clashes r r'"
    by (auto simp: update_batch_def Let_def list_ex_iff split: if_splits)
  have ids: "br_id \<circ> ?g = br_id" using f by auto
  then have "map br_id (map ?g (db_batches db)) = map br_id (db_batches db)"
    "br_id ` set (map ?g (db_batches db)) = br_id ` set (db_batches db)"
    by (simp_all only: map_map set_map image_comp)
  with ok nc have "rows_ok (map ?g (db_batches db)) (db_transactions db) (db_nextId db)"
    unfolding rows_ok_def db_ok_def by (simp only: simp_thms, blast)
  then show "db_ok db'" by (simp add: db_ok_def db')
qed

lemma db_ok_destroy: "db_ok db \<Longrightarrow> db_ok (destroy_batch i db)"
proof -
  assume ok: "db_ok db"
  have "tr_id \<circ> (\<lambda>t. if tr_batchId t = Some i then t\<lparr>tr_batchId := None\<rparr> else t) = (tr_id :: tx_row \<Rightarrow> nat)" by auto
  with ok show ?thesis
    by (auto simp: db_ok_def rows_ok_def destroy_batch_def distinct_map_filter image_iff)
qed

lemma db_ok_update_transactions:
  assumes "db_ok db" and "\<And>t. tr_id (f t) = tr_id t" and "\<And>t. tr_batchId (f t) = tr_batchId t"
    and "\<And>t. tr_status t \<noteq> Partial \<Longrightarrow> tr_status (f t) \<noteq> Partial"
  shows "db_ok (update_transactions P f db)"
proof -
  have ids: "tr_id \<circ> (\<lambda>t. if P t then f t else t) = tr_id" using assms(2) by auto
  show ?thesis unfolding db_ok_def update_transactions_def
    using assms ids by (auto simp: db_ok_def rows_ok_def)
qed

lemma db_ok_create_transaction: "create_transaction db t = Inr db' \<Longrightarrow> db_ok db \<Longrightarrow> tr_status t \<noteq> Partial \<Longrightarrow> db_ok db'"
proof -
  assume c: "create_transaction db t = Inr db'" and ok: "db_ok db" and st: "tr_status t \<noteq> Partial"
  from c have db': "db' = db\<lparr>db_transactions := db_transactions db @ [t\<lparr>tr_id := db_nextId db\<rparr>], db_nextId := Suc (db_nextId db)\<rparr>"
    and fk: "tr_batchId t \<in> insert None (Some ` br_id ` set (db_batches db))"
    by (auto simp: create_transaction_def split: if_splits)
  have "db_nextId db \<notin> tr_id ` set (db_transactions db)" using ok by (auto simp: db_ok_def rows_ok_def)
  with ok st fk show ?thesis unfolding db' db_ok_def rows_ok_def by (auto simp: less_Suc_eq)
qed

lemma db_ok_create_transactions:
  "efold create_transaction db ts = Inr db' \<Longrightarrow> db_ok db \<Longrightarrow> \<forall>t \<in> set ts. tr_status t \<noteq> Partial \<Longrightarrow> db_ok db'"
  by (rule efold_inv[where P = db_ok]) (auto intro: db_ok_create_transaction)

lemma transaction_for_Inr:
  "transaction_for env payer i result h x = Inr t \<Longrightarrow> tr_status t = Pending \<and> tr_batchId t = Some i"
  by (auto simp: transaction_for_def split: prod.splits elim!: ebind_InrE)

lemma emap_Inr_set: "emap f xs = Inr ys \<Longrightarrow> y \<in> set ys \<Longrightarrow> \<exists>x \<in> set xs. f x = Inr y"
  by (induction xs arbitrary: ys) (auto elim!: ebind_InrE)

lemma db_keeps_record [db_intros]: "db_keeps (record_statements env inp payer i result h t)"
proof (rule db_keepsI)
  fix db db'
  assume ok: "db_ok db" and "record_statements env inp payer i result h t db = Inr db'"
  then obtain db1 rows where db1: "(if tagged inp
            then update_batch i (\<lambda>r. r\<lparr>br_submissionType := sr_submissionType result,
                                             br_jitoBundleId := sr_jitoBundleId result, br_updatedAt := t\<rparr>) db
            else create_batch (batch_for env inp payer i (sr_submissionType result) (sr_jitoBundleId result) t) db) = Inr db1"
      and rows: "emap (transaction_for env payer i result h) (enumerate 0 (si_transactions inp)) = Inr rows"
      and db': "efold create_transaction db1 rows = Inr db'"
    unfolding record_statements_def by (elim ebind_InrE) (auto split: sum.splits)
  have "db_ok db1" 
    using db1 ok by (cases "tagged inp") (auto elim!: db_keepsD[rotated] intro!: db_intros)
  moreover have "\<forall>t \<in> set rows. tr_status t \<noteq> Partial" using rows by (auto dest!: emap_Inr_set transaction_for_Inr)
  ultimately show "db_ok db'" using db' db_ok_create_transactions by blast
qed

lemma check_each_status:
  "check_each env b h ts w = (rs, w') \<Longrightarrow> (t, Some (st, x)) \<in> set rs \<Longrightarrow> st = tr_status t \<or> st \<noteq> Partial"
proof (induction ts arbitrary: w rs w')
  case (Cons u ts)
  have one: "checkTransactionStatus env b h u w = (Inr (st, x), w1) \<Longrightarrow> st = tr_status u \<or> st \<noteq> Partial" for st x w1
    by (auto simp: checkTransactionStatus_def ask_node_def split: if_splits sum.splits option.splits prod.splits bool.splits)
  obtain r w1 where r: "checkTransactionStatus env b h u w = (r, w1)" by (cases "checkTransactionStatus env b h u w")
  obtain rs' w2 where rs': "check_each env b h ts w1 = (rs', w2)" by (cases "check_each env b h ts w1")
  from Cons.prems(1) r rs' have rs: "rs = (u, case r of Inl _ \<Rightarrow> None | Inr x \<Rightarrow> Some x) # rs'" by simp
  from Cons.prems(2) rs consider "(t, Some (st, x)) \<in> set rs'" | "t = u" "r = Inr (st, x)" by (auto split: sum.splits)
  then show ?case
  proof cases
    case 1
    with Cons.IH[OF rs'] show ?thesis by simp
  next
    case 2
    with one r show ?thesis by simp
  qed
qed simp

lemma db_ok_save_transaction:
  assumes "db_ok db" and "\<And>st x. r = Some (st, x) \<Longrightarrow> st = tr_status t \<or> st \<noteq> Partial"
  shows "db_ok (save_transaction db (t, r))"
proof (cases r)
  case (Some p)
  then show ?thesis
    using assms by (cases p) (auto simp: save_transaction_def split: if_splits intro!: db_ok_update_transactions)
qed (use assms in \<open>simp add: save_transaction_def\<close>)

lemma db_ok_save_transactions:
  "db_ok db \<Longrightarrow> (\<And>t st x. (t, Some (st, x)) \<in> set rs \<Longrightarrow> st = tr_status t \<or> st \<noteq> Partial) \<Longrightarrow> db_ok (foldl save_transaction db rs)"
proof (induction rs arbitrary: db)
  case (Cons r rs)
  obtain t p where r: "r = (t, p)" by (cases r)
  have "db_ok (save_transaction db r)" unfolding r
    by (rule db_ok_save_transaction[OF Cons.prems(1)]) (use Cons.prems(2)[of t] r in auto)
  then show ?case using Cons.IH Cons.prems(2) by (metis foldl_Cons list.set_intros(2))
qed simp

lemma db_keeps_save_batch: "db_keeps (save_batch b st t)"
  unfolding save_batch_def by (cases "st = br_status b") (auto intro!: db_intros)

lemma db_keeps_expire [db_intros]: "db_keeps (expirePendingBatch sn t)"
  unfolding expirePendingBatch_def
  by (rule db_keepsI, erule db_keepsD[rotated]) (auto intro!: db_ok_update_transactions db_intros)

lemma db_ok_save_signatures: "db_ok db \<Longrightarrow> db_ok (foldl save_signature db xs)"
proof (induction xs arbitrary: db)
  case (Cons x xs)
  have "db_ok (save_signature db x)"
    using Cons.prems by (cases x) (auto simp: save_signature_def split: option.split list.split intro!: db_ok_update_transactions)
  then show ?case using Cons.IH by simp
qed simp

text \<open>Steps touch the database through \<open>ask_db\<close> only.\<close>

lemma ask_db_cases:
  assumes "ask_db env f w = (r, w')"
  obtains (fault) e where "r = Inl e" and "wo_db w' = wo_db w" and "wo_tasks w' = wo_tasks w" and "wo_uuids w' = wo_uuids w"
  | (carried) db where "r = Inr ()" and "f (wo_db w) = Inr db" and "wo_db w' = db" and "wo_tasks w' = wo_tasks w"
      and "wo_uuids w' = wo_uuids w"
  using assms by (auto simp: ask_db_def request_def split: sum.splits)

lemma ask_db_ok: "db_keeps f \<Longrightarrow> ask_db env f w = (r, w') \<Longrightarrow> db_ok (wo_db w) \<Longrightarrow> db_ok (wo_db w')"
  by (erule ask_db_cases) (auto dest: db_keepsD)

lemma ask_node_same: "ask_node ev f w = (r, w') \<Longrightarrow> wo_db w' = wo_db w \<and> wo_tasks w' = wo_tasks w \<and> wo_uuids w' = wo_uuids w"
  by (auto simp: ask_node_def split: prod.splits)

lemma simulate_all_same: "simulate_all env txs w = (r, w') \<Longrightarrow> wo_db w' = wo_db w \<and> wo_tasks w' = wo_tasks w \<and> wo_uuids w' = wo_uuids w"
proof (induction txs arbitrary: w r)
  case (Cons tx txs)
  obtain r1 w1 where 1: "simulate_one env tx w = (r1, w1)" by (cases "simulate_one env tx w")
  then have "wo_db w1 = wo_db w \<and> wo_tasks w1 = wo_tasks w \<and> wo_uuids w1 = wo_uuids w"
    by (cases tx) (auto simp: simulate_one_def split: sum.splits prod.splits dest!: ask_node_same)
  with Cons.IH[of w1] Cons.prems 1 show ?case by (auto split: prod.splits)
qed simp

lemma payer_empty_same: "payer_empty env payer w = (r, w') \<Longrightarrow> wo_db w' = wo_db w \<and> wo_tasks w' = wo_tasks w"
  by (auto simp: payer_empty_def split: sum.splits prod.splits dest!: ask_node_same)

lemma report_same:
  "report_failure env payer e w = (r, w') \<Longrightarrow> wo_db w' = wo_db w \<and> wo_tasks w' = wo_tasks w"
  "report_simulation env payer ff w = (r, w') \<Longrightarrow> wo_db w' = wo_db w \<and> wo_tasks w' = wo_tasks w"
  by (auto simp: report_failure_def report_simulation_def Let_def
      split: submit_error.splits thrown.splits sum.splits prod.splits if_splits bool.splits dest!: payer_empty_same)

lemma check_each_same: "check_each env b h ts w = (rs, w') \<Longrightarrow> wo_db w' = wo_db w \<and> wo_tasks w' = wo_tasks w"
proof (induction ts arbitrary: w rs)
  case (Cons t ts)
  obtain r w1 where 1: "checkTransactionStatus env b h t w = (r, w1)" by (cases "checkTransactionStatus env b h t w")
  then have "wo_db w1 = wo_db w \<and> wo_tasks w1 = wo_tasks w"
    by (auto simp: checkTransactionStatus_def split: if_splits sum.splits prod.splits option.splits bool.splits dest!: ask_node_same)
  with Cons.IH[of w1] Cons.prems 1 show ?case by (auto split: prod.splits)
qed simp

lemma checkJito_same: "checkJitoBundleStatus env b w = (r, w') \<Longrightarrow> wo_db w' = wo_db w \<and> wo_tasks w' = wo_tasks w"
  by (auto simp: checkJitoBundleStatus_def split: submission_type.splits option.splits list.splits prod.splits dest!: ask_node_same)

text \<open>What a check does to the database: nothing, or the saves of some outcome.\<close>

lemma check_db:
  assumes "checkAndUpdateBatchStatus env sn w = (r, w')"
  obtains (unchanged) "wo_db w' = wo_db w" and "wo_tasks w' = wo_tasks w" and "\<And>c. r \<noteq> Inr c"
  | (saved) h jito rs t c w1 w2 w0 where "check_each env (sn_batch sn) h (sn_transactions sn) w1 = (rs, w2)" and "r = Inr c"
      and "cr_batchStatus c = overall_status jito rs" and "wo_tasks w' = wo_tasks w"
      and "save_batch (sn_batch sn) (overall_status jito rs) t (foldl save_transaction (wo_db w) rs) = Inr (wo_db w')"
      and "checkJitoBundleStatus env (sn_batch sn) w0 = (jito, w1)"
proof -
  obtain a w1 where a: "ask_node Height_asked (se_getBlockHeight env) w = (a, w1)"
    by (cases "ask_node Height_asked (se_getBlockHeight env) w")
  show thesis
  proof (cases a)
    case (Inl e)
    with assms a ask_node_same[OF a] unchanged show thesis by (auto simp: checkAndUpdateBatchStatus_def)
  next
    case (Inr h)
    obtain jito w2 where j: "checkJitoBundleStatus env (sn_batch sn) w1 = (jito, w2)"
      by (cases "checkJitoBundleStatus env (sn_batch sn) w1")
    obtain rs w3 where c: "check_each env (sn_batch sn) h (sn_transactions sn) w2 = (rs, w3)"
      by (cases "check_each env (sn_batch sn) h (sn_transactions sn) w2")
    have same: "wo_db w3 = wo_db w" "wo_tasks w3 = wo_tasks w"
      using ask_node_same[OF a] checkJito_same[OF j] check_each_same[OF c] by auto
    let ?f = "\<lambda>db. save_batch (sn_batch sn) (overall_status jito rs) (now env w3) (foldl save_transaction db rs)"
    obtain x w4 where d: "ask_db env ?f w3 = (x, w4)" by (cases "ask_db env ?f w3")
    from d show thesis
    proof (cases rule: ask_db_cases)
      case (fault e)
      with assms a Inr j c d same unchanged show thesis by (auto simp: checkAndUpdateBatchStatus_def Let_def)
    next
      case (carried db)
      with assms a Inr j c d same saved[OF c _ _ _ _ j] show thesis by (auto simp: checkAndUpdateBatchStatus_def Let_def)
    qed
  qed
qed

lemma check_ok:
  assumes "checkAndUpdateBatchStatus env sn w = (r, w')" and "db_ok (wo_db w)"
  shows "db_ok (wo_db w') \<and> wo_tasks w' = wo_tasks w"
  using assms(1)
proof (cases rule: check_db)
  case (saved h jito rs t c w1 w2 w0)
  have "db_ok (foldl save_transaction (wo_db w) rs)"
    by (rule db_ok_save_transactions[OF assms(2)]) (rule check_each_status[OF saved(1)])
  with saved db_keepsD[OF db_keeps_save_batch] show ?thesis by blast
qed (use assms in auto)

lemma resubmit_db:
  assumes "resubmitTransactionBatch env b txs w = (r, w')"
  obtains (unchanged) "wo_db w' = wo_db w" and "wo_tasks w' = wo_tasks w"
  | (saved) news where "foldl save_signature (wo_db w) news = wo_db w'" and "wo_tasks w' = wo_tasks w"
  using assms unfolding resubmitTransactionBatch_def Let_def
  by (auto split: if_splits prod.splits sum.splits elim!: ask_db_cases)

end
