(* ===== verification/Batch_Runs.thy ===== *)
theory Batch_Runs
  imports Transaction_Batches
begin

text \<open>
  What every run of the batch procedures keeps: the tables stay well formed, and while status checks and the
  reaper leave the batches alone whose submission is under way, at most one submission for a tag and payer is
  under way.
\<close>

section \<open>Steps and the tables\<close>

lemma submit_step_ok:
  assumes "submit_step env inp payer b st w = (t', w')" and "db_ok (wo_db w)"
  shows "db_ok (wo_db w') \<and> wo_tasks w' = wo_tasks w"
proof (cases st)
  case Reserve
  with assms show ?thesis
    by (auto simp: submit_step_def submit_reserve_def Let_def split: prod.splits sum.splits db_error.splits
        elim!: ask_db_cases intro: db_keepsD[OF db_keeps_create])
next
  case Find_existing
  with assms show ?thesis
    by (auto simp: submit_step_def submit_find_def split: prod.splits sum.splits option.splits elim!: ask_db_cases)
next
  case Send
  with assms show ?thesis
    by (auto simp: submit_step_def submit_send_def Let_def split: prod.splits sum.splits if_splits dest!: ask_node_same report_same)
next
  case (Release e)
  with assms show ?thesis
    by (auto simp: submit_step_def submit_release_def split: prod.splits elim!: ask_db_cases dest!: report_same dest: db_ok_destroy[of _ b])
next
  case (Record_it result h)
  with assms show ?thesis
    by (auto simp: submit_step_def submit_record_def split: prod.splits sum.splits elim!: ask_db_cases
        intro: db_keepsD[OF db_keeps_record])
qed

lemma task_step_ok:
  assumes "task_step env t w = (t', w')" and "db_ok (wo_db w)"
  shows "db_ok (wo_db w') \<and> wo_tasks w' = wo_tasks w"
proof (cases t)
  case (Submit inp payer b st)
  with assms submit_step_ok show ?thesis by (simp add: task_step_def)
next
  case (Check sn)
  with assms show ?thesis
    by (auto simp: task_step_def get_check_def split: prod.splits sum.splits dest: check_ok)
next
  case (Process sn)
  with assms show ?thesis
    by (auto simp: task_step_def process_check_def split: prod.splits sum.splits dest: check_ok)
next
  case (Resubmit sn txs)
  then obtain r where "resubmitTransactionBatch env (sn_batch sn) txs w = (r, w')"
    using assms by (auto simp: task_step_def resubmit_step_def split: prod.splits)
  then show ?thesis
    using assms(2) by (cases rule: resubmit_db) (metis, metis db_ok_save_signatures)
next
  case (Reap sns)
  with assms show ?thesis
    by (auto simp: task_step_def reap_check_def split: list.splits if_splits prod.splits sum.splits dest: check_ok)
next
  case (Expire sn rest)
  with assms show ?thesis
    by (auto simp: task_step_def expire_step_def split: prod.splits elim!: ask_db_cases intro: db_keepsD[OF db_keeps_expire])
next
  case (Answer a)
  with assms show ?thesis by (simp add: task_step_def)
qed

lemma begin_same:
  "submit_begin env inp w = (t, w') \<Longrightarrow> wo_db w' = wo_db w \<and> wo_tasks w' = wo_tasks w"
  "get_begin env i w = (t, w') \<Longrightarrow> wo_db w' = wo_db w \<and> wo_tasks w' = wo_tasks w"
  "resubmit_begin env i w = (t, w') \<Longrightarrow> wo_db w' = wo_db w \<and> wo_tasks w' = wo_tasks w"
  "process_begin env w = (ts, w') \<Longrightarrow> wo_db w' = wo_db w \<and> wo_tasks w' = wo_tasks w"
  "reap_begin env w = (t, w') \<Longrightarrow> wo_db w' = wo_db w \<and> wo_tasks w' = wo_tasks w"
proof -
  assume b: "submit_begin env inp w = (t, w')"
  show "wo_db w' = wo_db w \<and> wo_tasks w' = wo_tasks w"
  proof (cases "payer_of env inp")
    case (Inl e)
    with b show ?thesis by (simp add: submit_begin_def)
  next
    case (Inr payer)
    obtain fs w1 where s: "(if si_simulate inp \<and> (si_parallel inp \<or> length (si_transactions inp) = 1)
        then simulate_all env (enumerate 0 (map fst (si_transactions inp))) w else ([], w)) = (fs, w1)"
      by (metis prod.exhaust)
    then have "wo_db w1 = wo_db w \<and> wo_tasks w1 = wo_tasks w" by (auto split: if_splits dest: simulate_all_same)
    with b Inr s show ?thesis by (auto simp: submit_begin_def split: list.splits prod.splits dest!: report_same)
  qed
qed (auto simp: get_begin_def resubmit_begin_def process_begin_def reap_begin_def Let_def
    split: prod.splits sum.splits option.splits if_splits elim!: ask_db_cases)

text \<open>
  A tagged submission is under way from its reservation to its record or release; the batch it holds, with
  the tag and the payer.
\<close>

fun sending :: "stage \<Rightarrow> bool" where
  "sending Reserve = False"
| "sending Find_existing = False"
| "sending _ = True"

fun holder :: "task \<Rightarrow> (string \<times> string option \<times> string) option" where
  "holder (Submit inp payer b st) = (if tagged inp \<and> sending st then Some (b, si_tag inp, payer) else None)"
| "holder _ = None"

text \<open>Only a tagged submission is ever released.\<close>

fun release_tagged :: "task \<Rightarrow> bool" where
  "release_tagged (Submit inp payer b (Release e)) = tagged inp"
| "release_tagged _ = True"

definition fresh :: "task \<Rightarrow> bool" where
  "fresh t \<longleftrightarrow> holder t = None \<and> release_tagged t"

lemma submit_begin_holder: "submit_begin env inp w = (t, w') \<Longrightarrow> fresh t"
  by (auto simp: fresh_def submit_begin_def split: sum.splits prod.splits list.splits if_splits)

lemma begin_holder:
  "get_begin env i w = (t, w') \<Longrightarrow> fresh t" "resubmit_begin env i w = (t, w') \<Longrightarrow> fresh t"
  "process_begin env w = (ts, w') \<Longrightarrow> t \<in> set ts \<Longrightarrow> fresh t" "reap_begin env w = (t, w') \<Longrightarrow> fresh t"
  by (auto simp: fresh_def get_begin_def resubmit_begin_def process_begin_def reap_begin_def Let_def
      split: prod.splits sum.splits option.splits if_splits)

text \<open>An event adds tasks and leaves the tables alone, or is a step of a task.\<close>

lemma api_handle_cases:
  fixes w :: world
  obtains (new) ts where "wo_db (api_handle env ev w) = wo_db w" and "wo_tasks (api_handle env ev w) = wo_tasks w @ ts"
      and "\<And>t. t \<in> set ts \<Longrightarrow> fresh t"
  | (step) i t t' w' where "ev = Step i" and "i < length (wo_tasks w)" and "wo_tasks w ! i = t" and "task_step env t w = (t', w')"
      and "api_handle env ev w = w'\<lparr>wo_tasks := (wo_tasks w')[i := t']\<rparr>"
proof -
  have add: thesis if "api_handle env ev w = add_tasks (ts, w')" "wo_db w' = wo_db w \<and> wo_tasks w' = wo_tasks w"
      "\<And>t. t \<in> set ts \<Longrightarrow> fresh t" for ts w'
    using that new[of ts] by (simp add: add_tasks_def)
  show thesis
  proof (cases ev)
    case (New_submit inp)
    obtain t w' where b: "submit_begin env inp w = (t, w')" by (cases "submit_begin env inp w")
    with New_submit begin_same(1)[OF b] submit_begin_holder[OF b] show thesis by (intro add) (auto simp: add_task_def)
  next
    case (New_get i)
    obtain t w' where b: "get_begin env i w = (t, w')" by (cases "get_begin env i w")
    with New_get begin_same(2)[OF b] begin_holder(1)[OF b] show thesis by (intro add) (auto simp: add_task_def)
  next
    case (New_resubmit i)
    obtain t w' where b: "resubmit_begin env i w = (t, w')" by (cases "resubmit_begin env i w")
    with New_resubmit begin_same(3)[OF b] begin_holder(2)[OF b] show thesis by (intro add) (auto simp: add_task_def)
  next
    case New_process
    obtain ts w' where b: "process_begin env w = (ts, w')" by (cases "process_begin env w")
    with New_process begin_same(4)[OF b] begin_holder(3)[OF b] show thesis by (intro add) auto
  next
    case New_reap
    obtain t w' where b: "reap_begin env w = (t, w')" by (cases "reap_begin env w")
    with New_reap begin_same(5)[OF b] begin_holder(4)[OF b] show thesis by (intro add) (auto simp: add_task_def)
  next
    case (Step i)
    show thesis
    proof (cases "i < length (wo_tasks w)")
      case True
      obtain t' w' where "task_step env (wo_tasks w ! i) w = (t', w')" by (cases "task_step env (wo_tasks w ! i) w")
      with True Step step show thesis by (auto simp: js_nth_def)
    next
      case False
      with Step new[of "[]"] show thesis by (simp add: js_nth_def)
    qed
  qed
qed

interpretation tables: event_system "api_handle env" "\<lambda>_ _. True" "\<lambda>w. db_ok (wo_db w)" for env
proof
  fix w :: world and ev
  assume ok: "db_ok (wo_db w)"
  show "db_ok (wo_db (api_handle env ev w))"
  proof (rule api_handle_cases[of env ev w])
    assume "wo_db (api_handle env ev w) = wo_db w"
    with ok show ?thesis by simp
  next
    fix i t t' w'
    assume s: "task_step env t w = (t', w')" "api_handle env ev w = w'\<lparr>wo_tasks := (wo_tasks w')[i := t']\<rparr>"
    with task_step_ok[OF s(1) ok] show ?thesis by simp
  qed
qed

section \<open>Who holds a slot\<close>

text \<open>The status, tag and payer of a batch.\<close>

definition slot :: "database \<Rightarrow> string \<Rightarrow> (status \<times> string option \<times> string) option" where
  "slot db i = map_option (\<lambda>r. (br_status r, br_tag r, br_payer r)) (find (\<lambda>r. br_id r = i) (db_batches db))"

lemma find_map_ids: "(\<And>r. br_id (g r) = br_id r) \<Longrightarrow> find (\<lambda>r. br_id r = i) (map g rs) = map_option g (find (\<lambda>r. br_id r = i) rs)"
  by (induction rs) auto

lemma find_append: "find P (xs @ ys) = (case find P xs of None \<Rightarrow> find P ys | Some x \<Rightarrow> Some x)"
  by (induction xs) auto

lemma find_filter: "find P (filter Q xs) = find (\<lambda>x. Q x \<and> P x) xs"
  by (induction xs) auto

lemma slot_create: "create_batch r db = Inr db' \<Longrightarrow> slot db i = Some x \<Longrightarrow> slot db' i = Some x"
  by (auto simp: create_batch_def slot_def find_append split: if_splits)

lemma slot_created: "create_batch r db = Inr db' \<Longrightarrow> slot db' (br_id r) = Some (br_status r, br_tag r, br_payer r)"
proof -
  assume c: "create_batch r db = Inr db'"
  then have "find (\<lambda>r'. br_id r' = br_id r) (db_batches db) = None"
    by (auto simp: create_batch_def find_None_iff list_ex_iff split: if_splits)
  with c show ?thesis by (auto simp: create_batch_def slot_def find_append split: if_splits)
qed

lemma slot_create_new: "create_batch r db = Inr db' \<Longrightarrow> slot db (br_id r) = None"
  by (auto simp: create_batch_def slot_def find_None_iff list_ex_iff split: if_splits)

lemma slot_elsewhere:
  assumes "update_batch j f db = Inr db'" and "\<And>r. br_id (f r) = br_id r" and "i \<noteq> j"
  shows "slot db' i = slot db i"
proof -
  have "find (\<lambda>r. br_id r = i) (db_batches db') = find (\<lambda>r. br_id r = i) (db_batches db)"
  proof -
    have "db_batches db' = map (\<lambda>r. if br_id r = j then f r else r) (db_batches db)"
      using assms(1) by (auto simp: update_batch_def Let_def split: if_splits)
    then have "find (\<lambda>r. br_id r = i) (db_batches db') = map_option (\<lambda>r. if br_id r = j then f r else r) (find (\<lambda>r. br_id r = i) (db_batches db))"
      using assms(2) by (simp add: find_map_ids)
    also have "\<dots> = find (\<lambda>r. br_id r = i) (db_batches db)"
    proof (cases "find (\<lambda>r. br_id r = i) (db_batches db)")
      case (Some r)
      then have "br_id r = i" by (simp add: find_Some_iff) blast
      with Some assms(3) show ?thesis by simp
    qed simp
    finally show ?thesis .
  qed
  then show ?thesis by (simp add: slot_def)
qed

lemma slot_update_keep:
  assumes "update_batch j f db = Inr db'" and "\<And>r. br_id (f r) = br_id r"
    and "\<And>r. br_status (f r) = br_status r" and "\<And>r. br_tag (f r) = br_tag r" and "\<And>r. br_payer (f r) = br_payer r"
  shows "slot db' i = slot db i"
proof -
  have "db_batches db' = map (\<lambda>r. if br_id r = j then f r else r) (db_batches db)"
    using assms(1) by (auto simp: update_batch_def Let_def split: if_splits)
  then have "find (\<lambda>r. br_id r = i) (db_batches db') = map_option (\<lambda>r. if br_id r = j then f r else r) (find (\<lambda>r. br_id r = i) (db_batches db))"
    using assms(2) by (simp add: find_map_ids)
  moreover have "(\<lambda>r. (br_status r, br_tag r, br_payer r)) \<circ> (\<lambda>r. if br_id r = j then f r else r) = (\<lambda>r. (br_status r, br_tag r, br_payer r))"
    using assms(3-5) by auto
  ultimately show ?thesis by (simp add: slot_def option.map_comp)
qed

lemma slot_destroy: "i \<noteq> j \<Longrightarrow> slot (destroy_batch j db) i = slot db i"
proof -
  assume "i \<noteq> j"
  then have "(\<lambda>r :: batch_row. br_id r \<noteq> j \<and> br_id r = i) = (\<lambda>r. br_id r = i)" by auto
  then show ?thesis by (simp add: slot_def destroy_batch_def find_filter)
qed

lemma slot_batches: "db_batches db' = db_batches db \<Longrightarrow> slot db' i = slot db i"
  by (simp add: slot_def)

lemma batches_save_transactions: "db_batches (foldl save_transaction db rs) = db_batches db"
  by (induction rs arbitrary: db) (auto simp: save_transaction_def update_transactions_def split: option.split prod.split)

lemma batches_save_signatures: "db_batches (foldl save_signature db xs) = db_batches db"
  by (induction xs arbitrary: db) (auto simp: save_signature_def update_transactions_def split: option.split prod.split list.split)

lemma batches_create_transactions: "efold create_transaction db ts = Inr db' \<Longrightarrow> db_batches db' = db_batches db"
  by (induction ts arbitrary: db) (auto simp: create_transaction_def split: if_splits elim!: ebind_InrE)

lemma slot_record:
  assumes "record_statements env inp payer b result h t db = Inr db'" and "slot db i = Some x"
  shows "slot db' i = Some x"
proof -
  from assms(1) obtain db1 rows where db1: "(if tagged inp
            then update_batch b (\<lambda>r. r\<lparr>br_submissionType := sr_submissionType result,
                                             br_jitoBundleId := sr_jitoBundleId result, br_updatedAt := t\<rparr>) db
            else create_batch (batch_for env inp payer b (sr_submissionType result) (sr_jitoBundleId result) t) db) = Inr db1"
      and db': "efold create_transaction db1 rows = Inr db'"
    unfolding record_statements_def by (elim ebind_InrE) (auto split: sum.splits)
  have "slot db1 i = Some x"
  proof (cases "tagged inp")
    case True
    with db1 have u: "update_batch b (\<lambda>r. r\<lparr>br_submissionType := sr_submissionType result,
        br_jitoBundleId := sr_jitoBundleId result, br_updatedAt := t\<rparr>) db = Inr db1" by simp
    have "slot db1 i = slot db i" by (rule slot_update_keep[OF u]) simp_all
    with assms(2) show ?thesis by simp
  next
    case False
    with db1 assms(2) slot_create show ?thesis by simp
  qed
  then show ?thesis using slot_batches[OF batches_create_transactions[OF db']] by simp
qed

text \<open>The batch whose row a task may free: by a check, by the reaper, or by its own release.\<close>

fun concerns :: "task \<Rightarrow> string option" where
  "concerns (Check sn) = Some (br_id (sn_batch sn))"
| "concerns (Process sn) = Some (br_id (sn_batch sn))"
| "concerns (Reap (sn # sns)) = Some (br_id (sn_batch sn))"
| "concerns (Expire sn sns) = Some (br_id (sn_batch sn))"
| "concerns _ = None"

fun releases :: "task \<Rightarrow> string option" where
  "releases (Submit inp payer b (Release e)) = Some b"
| "releases _ = None"

lemma slot_save_batch: "save_batch r st t db = Inr db' \<Longrightarrow> i \<noteq> br_id r \<Longrightarrow> slot db' i = slot db i"
  by (auto simp: save_batch_def split: if_splits dest: slot_elsewhere)

lemma slot_check:
  assumes "checkAndUpdateBatchStatus env sn w = (r, w')" and "i \<noteq> br_id (sn_batch sn)"
  shows "slot (wo_db w') i = slot (wo_db w) i"
  using assms(1)
proof (cases rule: check_db)
  case (saved h jito rs t c w1 w2 w0)
  have "slot (wo_db w') i = slot (foldl save_transaction (wo_db w) rs) i" by (rule slot_save_batch[OF saved(5) assms(2)])
  also have "\<dots> = slot (wo_db w) i" by (rule slot_batches) (rule batches_save_transactions)
  finally show ?thesis .
qed simp

lemma slot_expire: "expirePendingBatch sn t db = Inr db' \<Longrightarrow> i \<noteq> br_id (sn_batch sn) \<Longrightarrow> slot db' i = slot db i"
proof -
  assume e: "expirePendingBatch sn t db = Inr db'" and i: "i \<noteq> br_id (sn_batch sn)"
  have "slot db' i = slot (update_transactions (\<lambda>u. tr_batchId u = Some (br_id (sn_batch sn)) \<and> is_pending u)
      (\<lambda>u. u\<lparr>tr_status := Expired\<rparr>) db) i"
    by (rule slot_elsewhere[OF e[unfolded expirePendingBatch_def] _ i]) simp
  then show ?thesis by (simp add: slot_def update_transactions_def)
qed

lemma slot_submit_step:
  assumes "submit_step env inp payer b st w = (t', w')" and "slot (wo_db w) j = Some x" and "releases (Submit inp payer b st) \<noteq> Some j"
  shows "slot (wo_db w') j = Some x"
proof (cases st)
  case Reserve
  with assms show ?thesis
    by (auto simp: submit_step_def submit_reserve_def Let_def split: prod.splits sum.splits db_error.splits
        elim!: ask_db_cases dest: slot_create)
next
  case Find_existing
  with assms show ?thesis
    by (auto simp: submit_step_def submit_find_def split: prod.splits sum.splits option.splits elim!: ask_db_cases)
next
  case Send
  with assms show ?thesis
    by (auto simp: submit_step_def submit_send_def Let_def split: prod.splits sum.splits if_splits dest!: ask_node_same report_same)
next
  case (Release e)
  with assms have "slot (destroy_batch b (wo_db w)) j = Some x" by (simp add: slot_destroy)
  with Release assms show ?thesis
    by (auto simp: submit_step_def submit_release_def split: prod.splits elim!: ask_db_cases dest!: report_same)
next
  case (Record_it result h)
  with assms show ?thesis
    by (auto simp: submit_step_def submit_record_def split: prod.splits sum.splits elim!: ask_db_cases dest: slot_record)
qed

lemma slot_step:
  assumes "task_step env t w = (t', w')" and "slot (wo_db w) j = Some x" and "concerns t \<noteq> Some j" and "releases t \<noteq> Some j"
  shows "slot (wo_db w') j = Some x"
proof (cases t)
  case (Submit inp payer b st)
  with assms slot_submit_step show ?thesis by (simp add: task_step_def)
next
  case (Check sn)
  with assms slot_check[of env sn w _ _ j] show ?thesis
    by (auto simp: task_step_def get_check_def split: prod.splits sum.splits)
next
  case (Process sn)
  with assms slot_check[of env sn w _ _ j] show ?thesis
    by (auto simp: task_step_def process_check_def split: prod.splits sum.splits)
next
  case (Resubmit sn txs)
  then obtain r where "resubmitTransactionBatch env (sn_batch sn) txs w = (r, w')"
    using assms by (auto simp: task_step_def resubmit_step_def split: prod.splits)
  then show ?thesis
    using assms(2) slot_batches[OF batches_save_signatures] by (cases rule: resubmit_db) (metis, metis)
next
  case (Reap sns)
  show ?thesis
  proof (cases sns)
    case Nil
    with Reap assms show ?thesis by (simp add: task_step_def reap_check_def)
  next
    case (Cons sn rest)
    with Reap assms slot_check[of env sn w _ _ j] show ?thesis
      by (auto simp: task_step_def reap_check_def split: if_splits prod.splits sum.splits)
  qed
next
  case (Expire sn rest)
  with assms show ?thesis
    by (auto simp: task_step_def expire_step_def split: prod.splits elim!: ask_db_cases dest: slot_expire[of sn _ _ _ j])
next
  case (Answer a)
  with assms show ?thesis by (simp add: task_step_def)
qed

lemma holder_tag: "holder t = Some (b, tag, p) \<Longrightarrow> tag \<noteq> None"
proof -
  assume h: "holder t = Some (b, tag, p)"
  then obtain inp payer i st where "t = Submit inp payer i st" by (cases t) auto
  with h have "tagged inp" "tag = si_tag inp" by (auto split: if_splits)
  then show ?thesis by (simp add: tagged_def)
qed

lemma holder_step:
  assumes "task_step env t w = (t', w')" and "holder t' = Some (b, tag, p)"
  shows "holder t = Some (b, tag, p) \<and> releases t = None \<and> concerns t = None
     \<or> slot (wo_db w) b = None \<and> slot (wo_db w') b = Some (Pending, tag, p)"
proof (cases t)
  case (Submit inp payer i st)
  show ?thesis
  proof (cases st)
    case Reserve
    with assms Submit obtain r ty n where c: "ask_db env (create_batch (batch_for env inp payer i ty None n)) w = (r, w')"
        and t': "t' = Submit inp payer i Send" "r = Inr ()"
      by (auto simp: task_step_def submit_step_def submit_reserve_def Let_def split: prod.splits sum.splits db_error.splits)
    from c t' obtain db where d: "create_batch (batch_for env inp payer i ty None n) (wo_db w) = Inr db" "wo_db w' = db"
      by (auto elim!: ask_db_cases)
    have "slot (wo_db w) i = None" using slot_create_new[OF d(1)] by (simp add: batch_for_def)
    moreover have "slot db i = Some (Pending, si_tag inp, payer)" using slot_created[OF d(1)] by (simp add: batch_for_def)
    moreover have "tagged inp" "b = i" "tag = si_tag inp" "p = payer" using assms(2) t'(1) by (auto split: if_splits)
    ultimately show ?thesis using d(2) by simp
  next
    case Find_existing
    with assms Submit show ?thesis
      by (auto simp: task_step_def submit_step_def submit_find_def split: prod.splits sum.splits option.splits)
  next
    case Send
    with assms Submit show ?thesis
      by (auto simp: task_step_def submit_step_def submit_send_def Let_def split: prod.splits sum.splits if_splits)
  next
    case (Release e)
    with assms Submit show ?thesis
      by (auto simp: task_step_def submit_step_def submit_release_def split: prod.splits)
  next
    case (Record_it result h)
    with assms Submit show ?thesis
      by (auto simp: task_step_def submit_step_def submit_record_def split: prod.splits sum.splits)
  qed
qed (use assms in \<open>auto simp: task_step_def get_check_def process_check_def resubmit_step_def reap_check_def expire_step_def
    split: prod.splits sum.splits list.splits if_splits\<close>)

lemma release_tagged_step: "task_step env t w = (t', w') \<Longrightarrow> release_tagged t'"
  by (cases t) (auto simp: task_step_def submit_step_def submit_reserve_def submit_find_def submit_send_def submit_release_def
      submit_record_def get_check_def process_check_def resubmit_step_def reap_check_def expire_step_def Let_def
      split: stage.splits prod.splits sum.splits db_error.splits option.splits list.splits if_splits)

section \<open>One submission for a tag and payer\<close>

definition holds_at :: "world \<Rightarrow> nat \<Rightarrow> string \<Rightarrow> string option \<Rightarrow> string \<Rightarrow> bool" where
  "holds_at w i b tag p \<longleftrightarrow> i < length (wo_tasks w) \<and> holder (wo_tasks w ! i) = Some (b, tag, p)"

definition flight_inv :: "world \<Rightarrow> bool" where
  "flight_inv w \<longleftrightarrow> db_ok (wo_db w) \<and> list_all release_tagged (wo_tasks w)
     \<and> (\<forall>i b tag p. holds_at w i b tag p \<longrightarrow> tag \<noteq> None \<and> slot (wo_db w) b = Some (Pending, tag, p))
     \<and> (\<forall>i j b tag p tag' p'. holds_at w i b tag p \<longrightarrow> holds_at w j b tag' p' \<longrightarrow> i = j)"

text \<open>The batches whose submission is under way, and the events that leave them alone.\<close>

definition under_way :: "world \<Rightarrow> string set" where
  "under_way w = fst ` {h. \<exists>t \<in> set (wo_tasks w). holder t = Some h}"

definition undisturbed :: "world \<Rightarrow> api_event \<Rightarrow> bool" where
  "undisturbed w ev = (case ev of
     Step i \<Rightarrow> (case js_nth (wo_tasks w) i of
                  Some t \<Rightarrow> (case concerns t of
                               Some b \<Rightarrow> list_all (\<lambda>u. map_option fst (holder u) \<noteq> Some b) (wo_tasks w)
                             | None \<Rightarrow> True)
                | None \<Rightarrow> True)
   | _ \<Rightarrow> True)"

lemma flight_add:
  assumes "flight_inv w" and "wo_db w' = wo_db w" and "wo_tasks w' = wo_tasks w @ ts" and "\<And>t. t \<in> set ts \<Longrightarrow> fresh t"
  shows "flight_inv w'"
proof -
  have h: "holds_at w' i b tag p \<longleftrightarrow> holds_at w i b tag p" for i b tag p
  proof
    assume "holds_at w' i b tag p"
    then show "holds_at w i b tag p"
      using assms(3,4) by (cases "i < length (wo_tasks w)") (auto simp: holds_at_def nth_append fresh_def)
  qed (use assms(3) in \<open>auto simp: holds_at_def nth_append\<close>)
  have "list_all release_tagged ts" using assms(4) by (auto simp: list_all_iff fresh_def)
  with assms(1-3) show ?thesis unfolding flight_inv_def h by simp
qed

lemma flight_step:
  assumes inv: "flight_inv w" and i: "i < length (wo_tasks w)" and t: "task_step env (wo_tasks w ! i) w = (t', w')"
    and und: "undisturbed w (Step i)"
  shows "flight_inv (w'\<lparr>wo_tasks := (wo_tasks w')[i := t']\<rparr>)"
proof -
  let ?t = "wo_tasks w ! i" and ?w = "w'\<lparr>wo_tasks := (wo_tasks w')[i := t']\<rparr>"
  from inv have ok: "db_ok (wo_db w)" and rt: "list_all release_tagged (wo_tasks w)"
    and held: "\<And>k b tag p. holds_at w k b tag p \<Longrightarrow> tag \<noteq> None \<and> slot (wo_db w) b = Some (Pending, tag, p)"
    and uniq: "\<And>k l b tag p tag' p'. holds_at w k b tag p \<Longrightarrow> holds_at w l b tag' p' \<Longrightarrow> k = l"
    unfolding flight_inv_def by blast+
  from task_step_ok[OF t ok] have ok': "db_ok (wo_db w')" and ts: "wo_tasks w' = wo_tasks w" by auto
  have mine: "holds_at w i b tag p \<and> releases ?t = None \<and> concerns ?t = None
      \<or> slot (wo_db w) b = None \<and> slot (wo_db w') b = Some (Pending, tag, p)"
    if "holder t' = Some (b, tag, p)" for b tag p
    using holder_step[OF t that] i by (auto simp: holds_at_def)
  have other: "slot (wo_db w') b = Some (Pending, tag, p)" if "holds_at w k b tag p" and "k \<noteq> i" for k b tag p
  proof (rule slot_step[OF t])
    show "slot (wo_db w) b = Some (Pending, tag, p)" using held that by blast
    show "concerns ?t \<noteq> Some b"
    proof
      assume "concerns ?t = Some b"
      with und i that(1) show False by (auto simp: undisturbed_def js_nth_def list_all_length holds_at_def)
    qed
    show "releases ?t \<noteq> Some b"
    proof
      assume r: "releases ?t = Some b"
      moreover have "release_tagged ?t" using rt i by (simp add: list_all_length)
      ultimately obtain tag' p' where "holds_at w i b tag' p'"
        using i by (cases ?t rule: releases.cases) (auto simp: holds_at_def)
      with uniq that show False by blast
    qed
  qed
  have h: "holds_at ?w k b tag p \<longleftrightarrow> (if k = i then holder t' = Some (b, tag, p) else holds_at w k b tag p)" for k b tag p
    using i ts by (auto simp: holds_at_def)
  have slots: "tag \<noteq> None \<and> slot (wo_db ?w) b = Some (Pending, tag, p)" if "holds_at ?w k b tag p" for k b tag p
  proof (cases "k = i")
    case True
    with that h have ht: "holder t' = Some (b, tag, p)" by simp
    from mine[OF ht] have "slot (wo_db w') b = Some (Pending, tag, p)"
      using held slot_step[OF t, of b "(Pending, tag, p)"] by auto
    with holder_tag[OF ht] show ?thesis by simp
  next
    case False
    with that h have "holds_at w k b tag p" by simp
    with held other False show ?thesis by auto
  qed
  have one: "k = l" if "holds_at ?w k b tag p" and "holds_at ?w l b tag' p'" for k l b tag p tag' p'
  proof -
    have new: "k' = i" if "holder t' = Some (b, x, y)" and "holds_at w k' b u v" for k' x y u v
      using mine[OF that(1)] held[OF that(2)] uniq[OF that(2)] by auto
    consider "k = i" "l = i" | "k = i" "l \<noteq> i" | "k \<noteq> i" "l = i" | "k \<noteq> i" "l \<noteq> i" by blast
    then show ?thesis
    proof cases
      case 2
      with that h have "holder t' = Some (b, tag, p)" "holds_at w l b tag' p'" by simp_all
      from new[OF this] 2 show ?thesis by simp
    next
      case 3
      with that h have "holder t' = Some (b, tag', p')" "holds_at w k b tag p" by simp_all
      from new[OF this] 3 show ?thesis by simp
    next
      case 4
      with that h have "holds_at w k b tag p" "holds_at w l b tag' p'" by simp_all
      then show ?thesis by (rule uniq)
    qed simp
  qed
  have "list_all release_tagged (wo_tasks ?w)"
    using rt release_tagged_step[OF t] ts set_update_subset_insert[of "wo_tasks w" i t'] by (auto simp: list_all_iff)
  with ok' slots one show ?thesis unfolding flight_inv_def by (auto simp del: not_None_eq)
qed

interpretation flights: event_system "api_handle env" undisturbed flight_inv for env
proof
  fix w :: world and ev
  assume inv: "flight_inv w" and und: "undisturbed w ev"
  show "flight_inv (api_handle env ev w)"
  proof (rule api_handle_cases[of env ev w])
    fix ts
    assume "wo_db (api_handle env ev w) = wo_db w" "wo_tasks (api_handle env ev w) = wo_tasks w @ ts"
      and "\<And>t. t \<in> set ts \<Longrightarrow> fresh t"
    then show ?thesis by (rule flight_add[OF inv])
  next
    fix i t t' w'
    assume "ev = Step i" "i < length (wo_tasks w)" "wo_tasks w ! i = t" "task_step env t w = (t', w')"
      and "api_handle env ev w = w'\<lparr>wo_tasks := (wo_tasks w')[i := t']\<rparr>"
    with flight_step[OF inv, of i env t' w'] und show ?thesis by simp
  qed
qed

lemma slot_row: "slot db b = Some (st, tag, p) \<Longrightarrow> \<exists>r \<in> set (db_batches db). br_id r = b \<and> br_status r = st \<and> br_tag r = tag \<and> br_payer r = p"
  by (auto simp: slot_def find_Some_iff)

lemma flight_unique:
  assumes "flight_inv w" and "holds_at w i b tag p" and "holds_at w j b' tag p"
  shows "i = j"
proof -
  from assms have "tag \<noteq> None" "slot (wo_db w) b = Some (Pending, tag, p)" "slot (wo_db w) b' = Some (Pending, tag, p)"
    and nc: "\<forall>r \<in> set (db_batches (wo_db w)). \<forall>r' \<in> set (db_batches (wo_db w)). \<not> clashes r r'"
    by (auto simp: flight_inv_def db_ok_def rows_ok_def)
  then obtain r r' where r: "r \<in> set (db_batches (wo_db w))" "br_id r = b" "br_status r = Pending" "br_tag r = tag" "br_payer r = p"
    and r': "r' \<in> set (db_batches (wo_db w))" "br_id r' = b'" "br_status r' = Pending" "br_tag r' = tag" "br_payer r' = p"
    using slot_row[of "wo_db w" b] slot_row[of "wo_db w" b'] by blast
  from nc r(1) r'(1) have "\<not> clashes r r'" by blast
  with r r' \<open>tag \<noteq> None\<close> have "b = b'" by (simp add: clashes_def)
  with assms show ?thesis unfolding flight_inv_def by blast
qed

end
