(* ===== verification/Batch_Properties.thy ===== *)
theory Batch_Properties
  imports Batch_Runs
begin

text \<open>
  The properties of transaction batches: what a submission leaves in the tables, what a status check reports
  and writes, what the reaper frees, and three places where a check does not do what it means to.
\<close>

section \<open>Statements that succeed\<close>

lemma update_succeeds:
  assumes ok: "db_ok db" and f: "\<And>r. br_id (f r) = br_id r"
    and st: "\<And>r. br_status (f r) = Pending \<Longrightarrow> br_status r = Pending \<and> br_tag (f r) = br_tag r \<and> br_payer (f r) = br_payer r"
  shows "update_batch i f db = Inr (db\<lparr>db_batches := map (\<lambda>r. if br_id r = i then f r else r) (db_batches db)\<rparr>)"
proof -
  let ?g = "\<lambda>r. if br_id r = i then f r else r"
  have "\<not> clashes (?g r) (?g r')" if "r \<in> set (db_batches db)" "r' \<in> set (db_batches db)" for r r'
  proof
    assume "clashes (?g r) (?g r')"
    moreover have "br_id (?g x) = br_id x" for x using f by simp
    moreover have "br_status (?g x) = Pending \<Longrightarrow> br_status x = Pending \<and> br_tag (?g x) = br_tag x \<and> br_payer (?g x) = br_payer x" for x
      using st by (auto split: if_splits)
    ultimately have "clashes r r'" unfolding clashes_def by metis
    with ok that show False by (auto simp: db_ok_def rows_ok_def)
  qed
  then have "\<not> list_ex (\<lambda>r. list_ex (clashes r) (map ?g (db_batches db))) (map ?g (db_batches db))"
    unfolding list_ex_iff set_map by blast
  then show ?thesis by (simp add: update_batch_def Let_def)
qed

lemma update_to:
  assumes "db_ok db" and "\<And>r. br_id (f r) = br_id r" and "\<And>r. br_status (f r) \<noteq> Pending"
  shows "\<exists>db'. update_batch i f db = Inr db'"
  using update_succeeds[OF assms(1,2), of i] assms(3) by blast

lemma slot_updated:
  assumes "update_batch i f db = Inr db'" and "\<And>r. br_id (f r) = br_id r" and "\<And>r. br_tag (f r) = br_tag r"
    and "\<And>r. br_payer (f r) = br_payer r" and "\<And>r. br_status (f r) = st'" and "slot db i = Some (st, tag, p)"
  shows "slot db' i = Some (st', tag, p)"
proof -
  have "db_batches db' = map (\<lambda>r. if br_id r = i then f r else r) (db_batches db)"
    using assms(1) by (auto simp: update_batch_def Let_def split: if_splits)
  moreover obtain r where r: "find (\<lambda>r. br_id r = i) (db_batches db) = Some r" "br_tag r = tag" "br_payer r = p"
    using assms(6) by (auto simp: slot_def)
  moreover have "br_id r = i" using r(1) by (auto simp: find_Some_iff)
  ultimately show ?thesis using assms(2-5) by (simp add: slot_def find_map_ids)
qed

lemma slot_saved:
  assumes "save_batch b st' t db = Inr db'" and "st' \<noteq> br_status b" and "slot db (br_id b) = Some (st, tag, p)"
  shows "slot db' (br_id b) = Some (st', tag, p)"
  using assms(1,2) unfolding save_batch_def by (auto intro!: slot_updated[OF _ _ _ _ _ assms(3)])

section \<open>Checks\<close>

lemma check_Inr:
  assumes "checkAndUpdateBatchStatus env sn w = (Inr c, w')"
  obtains h jito rs t w0 w1 w2 where "check_each env (sn_batch sn) h (sn_transactions sn) w1 = (rs, w2)"
      and "cr_batchStatus c = overall_status jito rs" and "checkJitoBundleStatus env (sn_batch sn) w0 = (jito, w1)"
      and "save_batch (sn_batch sn) (overall_status jito rs) t (foldl save_transaction (wo_db w) rs) = Inr (wo_db w')"
  using assms
proof (cases rule: check_db)
  case unchanged
  then show thesis by blast
next
  case (saved h jito rs t c' w1 w2 w0)
  then show thesis using that by auto
qed

lemma check_slot:
  assumes "save_batch b st' t (foldl save_transaction db rs) = Inr db'" and "st' \<noteq> br_status b"
    and "slot db (br_id b) = Some (st, tag, p)"
  shows "slot db' (br_id b) = Some (st', tag, p)"
  using slot_saved[OF assms(1,2)] assms(3) slot_batches[OF batches_save_transactions, of db rs "br_id b"] by simp

lemma check_empty:
  assumes c: "checkAndUpdateBatchStatus env sn w = (Inr c, w')" and e: "sn_transactions sn = []"
    and b: "br_status (sn_batch sn) \<noteq> Confirmed" and s: "slot (wo_db w) (br_id (sn_batch sn)) = Some (st, tag, p)"
  shows "cr_batchStatus c = Confirmed \<and> slot (wo_db w') (br_id (sn_batch sn)) = Some (Confirmed, tag, p)"
  using c
proof (rule check_Inr)
  fix h jito rs t w0 w1 w2
  assume each: "check_each env (sn_batch sn) h (sn_transactions sn) w1 = (rs, w2)"
    and cr: "cr_batchStatus c = overall_status jito rs"
    and sv: "save_batch (sn_batch sn) (overall_status jito rs) t (foldl save_transaction (wo_db w) rs) = Inr (wo_db w')"
  have st: "overall_status jito rs = Confirmed" using each e by (auto simp: overall_status_def confirmed_count_def)
  from check_slot[OF sv _ s] b show ?thesis unfolding cr st by simp
qed

lemma check_each_unanswered:
  assumes "\<And>log sig. \<exists>x. se_getTransaction env log sig = Inl x"
    and "\<And>t. t \<in> set ts \<Longrightarrow> take (length (br_id b)) (tr_signature t) \<noteq> br_id b"
    and "check_each env b h ts w = (rs, w')"
  shows "rs = map (\<lambda>t. (t, None)) ts"
  using assms(2,3)
proof (induction ts arbitrary: w rs w')
  case (Cons t ts)
  from assms(1)[of "nt_log (wo_net w)" "tr_signature t"] obtain x where "se_getTransaction env (nt_log (wo_net w)) (tr_signature t) = Inl x" by blast
  with Cons.prems(1)[of t] have "\<exists>w1. checkTransactionStatus env b h t w = (Inl x, w1)"
    by (simp add: checkTransactionStatus_def ask_node_def request_def)
  then obtain w1 where 1: "checkTransactionStatus env b h t w = (Inl x, w1)" ..
  obtain rs' w2 where 2: "check_each env b h ts w1 = (rs', w2)" by (cases "check_each env b h ts w1")
  with Cons.IH[of w1 rs' w2] Cons.prems have "rs' = map (\<lambda>t. (t, None)) ts" by auto
  with 1 2 Cons.prems(2) show ?case by auto
qed simp

lemma check_unanswered:
  assumes c: "checkAndUpdateBatchStatus env sn w = (Inr c, w')" and e: "sn_transactions sn \<noteq> []"
    and n: "\<And>log sig. \<exists>x. se_getTransaction env log sig = Inl x"
    and pl: "\<And>t. t \<in> set (sn_transactions sn) \<Longrightarrow> take (length (br_id (sn_batch sn))) (tr_signature t) \<noteq> br_id (sn_batch sn)"
    and ty: "br_submissionType (sn_batch sn) \<noteq> jito_bundle" and b: "br_status (sn_batch sn) \<noteq> Pending"
    and s: "slot (wo_db w) (br_id (sn_batch sn)) = Some (st, tag, p)"
  shows "cr_batchStatus c = Pending \<and> slot (wo_db w') (br_id (sn_batch sn)) = Some (Pending, tag, p)"
  using c
proof (rule check_Inr)
  fix h jito rs t w0 w1 w2
  assume each: "check_each env (sn_batch sn) h (sn_transactions sn) w1 = (rs, w2)"
    and cr: "cr_batchStatus c = overall_status jito rs" and jito: "checkJitoBundleStatus env (sn_batch sn) w0 = (jito, w1)"
    and sv: "save_batch (sn_batch sn) (overall_status jito rs) t (foldl save_transaction (wo_db w) rs) = Inr (wo_db w')"
  have rs: "rs = map (\<lambda>t. (t, None)) (sn_transactions sn)" by (rule check_each_unanswered[OF n pl each])
  have "jito = Pending" using jito ty by (auto simp: checkJitoBundleStatus_def split: submission_type.splits)
  moreover have "confirmed_count rs = 0" "failed_count rs = 0" "length rs \<noteq> 0"
    using e by (simp_all add: rs confirmed_count_def failed_count_def filter_map comp_def)
  ultimately have st: "overall_status jito rs = Pending" by (simp add: overall_status_def)
  from check_slot[OF sv _ s] b show ?thesis unfolding cr st by simp
qed

text \<open>
  The outcome of a check, read off the chain: for a transaction that was submitted, what the node answered
  when it was asked at some moment, and for a placeholder its stored status.
\<close>

definition observed :: "store_env \<Rightarrow> batch_row \<Rightarrow> nat \<Rightarrow> tx_row \<Rightarrow> (status \<times> bool) option \<Rightarrow> bool" where
  "observed env b h t r \<longleftrightarrow>
     (if take (length (br_id b)) (tr_signature t) = br_id b then r = Some (tr_status t, False)
      else \<exists>log. r = (case se_getTransaction env log (tr_signature t) of
                        Inl _ \<Rightarrow> None
                      | Inr (Some failed) \<Rightarrow> Some (if failed then (Failed, False) else (Confirmed, True))
                      | Inr None \<Rightarrow>
                          Some (if tr_lastValidBlockHeight t \<in> {None, Some 0} \<or> the (tr_lastValidBlockHeight t) < h then Expired else Pending, False)))"

lemma check_each_observed: "check_each env b h ts w = (rs, w') \<Longrightarrow> map fst rs = ts \<and> (\<forall>(t, r) \<in> set rs. observed env b h t r)"
proof (induction ts arbitrary: w rs)
  case (Cons t ts)
  obtain r w1 where 1: "checkTransactionStatus env b h t w = (r, w1)" by (cases "checkTransactionStatus env b h t w")
  obtain rs' w2 where 2: "check_each env b h ts w1 = (rs', w2)" by (cases "check_each env b h ts w1")
  from Cons.prems 1 2 have rs: "rs = (t, case r of Inl _ \<Rightarrow> None | Inr x \<Rightarrow> Some x) # rs'" "w2 = w'" by auto
  have "observed env b h t (case r of Inl _ \<Rightarrow> None | Inr x \<Rightarrow> Some x)"
    using 1 by (auto simp: checkTransactionStatus_def observed_def ask_node_def request_def split: if_splits sum.splits option.splits bool.splits
        intro!: exI[of _ "nt_log (wo_net w)"])
  with Cons.IH[of w1 rs'] 2 rs show ?case by auto
qed simp

text \<open>The row a check leaves for a transaction.\<close>

definition checked_row :: "(tx_row \<times> (status \<times> bool) option) list \<Rightarrow> tx_row \<Rightarrow> tx_row" where
  "checked_row rs u = (case find (\<lambda>(t, _). tr_id t = tr_id u) rs of
     Some (t, Some (st, _)) \<Rightarrow>
       if st = tr_status t then u
       else if st = Confirmed then u\<lparr>tr_status := st, tr_serializedTransaction := None\<rparr> else u\<lparr>tr_status := st\<rparr>
   | _ \<Rightarrow> u)"

lemma checked_row_id: "tr_id (checked_row rs u) = tr_id u"
  by (simp add: checked_row_def split: option.split prod.split)

lemma checked_row_none: "find (\<lambda>(t, _). tr_id t = tr_id u) rs = None \<Longrightarrow> checked_row rs u = u"
  by (simp add: checked_row_def)

lemma saved_transactions:
  "distinct (map (tr_id \<circ> fst) rs) \<Longrightarrow> db_transactions (foldl save_transaction db rs) = map (checked_row rs) (db_transactions db)"
proof (induction rs arbitrary: db)
  case Nil
  then show ?case by (simp add: checked_row_def)
next
  case (Cons x rs)
  obtain t r where x: "x = (t, r)" by (cases x)
  have one: "db_transactions (save_transaction db x) = map (checked_row [x]) (db_transactions db)"
    by (auto simp: x save_transaction_def update_transactions_def checked_row_def list_eq_iff_nth_eq split: option.split prod.split)
  have none: "find (\<lambda>(t', _). tr_id t' = tr_id t) rs = None" using Cons.prems x by (force simp: find_None_iff)
  have two: "checked_row rs (checked_row [x] u) = checked_row (x # rs) u" for u
  proof (cases "tr_id t = tr_id u")
    case True
    with none have "checked_row rs (checked_row [x] u) = checked_row [x] u"
      by (intro checked_row_none) (simp add: checked_row_id)
    also have "\<dots> = checked_row (x # rs) u" using True by (simp add: x checked_row_def)
    finally show ?thesis .
  next
    case False
    then have "checked_row [x] u = u" by (simp add: x checked_row_def)
    with False show ?thesis by (simp add: x checked_row_def)
  qed
  have "db_transactions (foldl save_transaction db (x # rs)) = map (checked_row rs) (db_transactions (save_transaction db x))"
    using Cons.IH[of "save_transaction db x"] Cons.prems by simp
  also have "\<dots> = map (checked_row (x # rs)) (db_transactions db)" unfolding one map_map using two by (simp only: comp_def)
  finally show ?case .
qed

section \<open>Draining a task\<close>

text \<open>\<open>k\<close> steps of one task, with nothing in between.\<close>

fun drain :: "store_env \<Rightarrow> nat \<Rightarrow> task \<Rightarrow> world \<Rightarrow> task \<times> world" where
  "drain env 0 t w = (t, w)"
| "drain env (Suc k) t w = (case task_step env t w of (t', w') \<Rightarrow> drain env k t' w')"

text \<open>The database and the height of the node answer.\<close>

definition no_faults :: "store_env \<Rightarrow> bool" where
  "no_faults env \<longleftrightarrow> (\<forall>log. se_database env log = Inr ()) \<and> (\<forall>log. \<exists>h. se_getBlockHeight env log = Inr h)"

lemma ask_db_succeeds:
  assumes "no_faults env" and "f (wo_db w) = Inr db"
  obtains w' where "ask_db env f w = (Inr (), w')" and "wo_db w' = db" and "wo_tasks w' = wo_tasks w" and "wo_uuids w' = wo_uuids w"
  using assms by (auto simp: ask_db_def request_def no_faults_def)

text \<open>A check of a pending batch succeeds, and so does its expiry.\<close>

lemma check_succeeds:
  assumes nf: "no_faults env" and ok: "db_ok (wo_db w)" and p: "br_status (sn_batch sn) = Pending"
  obtains c w' where "checkAndUpdateBatchStatus env sn w = (Inr c, w')" and "db_ok (wo_db w')"
proof -
  obtain h where h: "se_getBlockHeight env (nt_log (wo_net w)) = Inr h" using nf by (auto simp: no_faults_def)
  then obtain w1 where a: "ask_node Height_asked (se_getBlockHeight env) w = (Inr h, w1)"
    by (simp add: ask_node_def request_def)
  obtain jito w2 where j: "checkJitoBundleStatus env (sn_batch sn) w1 = (jito, w2)"
    by (cases "checkJitoBundleStatus env (sn_batch sn) w1")
  obtain rs w3 where c: "check_each env (sn_batch sn) h (sn_transactions sn) w2 = (rs, w3)"
    by (cases "check_each env (sn_batch sn) h (sn_transactions sn) w2")
  have same: "wo_db w3 = wo_db w" using ask_node_same[OF a] checkJito_same[OF j] check_each_same[OF c] by auto
  have ok3: "db_ok (foldl save_transaction (wo_db w3) rs)"
    unfolding same by (rule db_ok_save_transactions[OF ok]) (rule check_each_status[OF c])
  obtain db where db: "save_batch (sn_batch sn) (overall_status jito rs) (now env w3) (foldl save_transaction (wo_db w3) rs) = Inr db"
  proof (cases "overall_status jito rs = Pending")
    case True
    with p that show thesis by (simp add: save_batch_def)
  next
    case False
    then have "\<exists>db. save_batch (sn_batch sn) (overall_status jito rs) (now env w3) (foldl save_transaction (wo_db w3) rs) = Inr db"
      unfolding save_batch_def using p by (simp add: update_to[OF ok3])
    with that show thesis by blast
  qed
  obtain w4 where w4: "ask_db env (\<lambda>db. save_batch (sn_batch sn) (overall_status jito rs) (now env w3) (foldl save_transaction db rs)) w3 = (Inr (), w4)"
    using ask_db_succeeds[OF nf, of "\<lambda>db. save_batch (sn_batch sn) (overall_status jito rs) (now env w3) (foldl save_transaction db rs)" w3] db
    by blast
  obtain r where r: "checkAndUpdateBatchStatus env sn w = (Inr r, w4)"
    using a j c w4 by (simp add: checkAndUpdateBatchStatus_def Let_def)
  with check_ok[OF r ok] that show thesis by blast
qed

lemma check_pending_slot:
  assumes c: "checkAndUpdateBatchStatus env sn w = (Inr c, w')" and p: "br_status (sn_batch sn) = Pending"
    and np: "cr_batchStatus c \<noteq> Pending" and s: "slot (wo_db w) (br_id (sn_batch sn)) = Some (st, tag, pa)"
  shows "slot (wo_db w') (br_id (sn_batch sn)) = Some (cr_batchStatus c, tag, pa)"
  using c
proof (rule check_Inr)
  fix h jito rs t w0 w1 w2
  assume cr: "cr_batchStatus c = overall_status jito rs"
    and sv: "save_batch (sn_batch sn) (overall_status jito rs) t (foldl save_transaction (wo_db w) rs) = Inr (wo_db w')"
  from check_slot[OF sv _ s] np p show ?thesis unfolding cr by simp
qed

lemma expire_succeeds:
  assumes nf: "no_faults env" and ok: "db_ok (wo_db w)" and t: "task_step env (Expire sn rest) w = (t', w')"
    and s: "slot (wo_db w) (br_id (sn_batch sn)) = Some (st, tag, p)"
  shows "t' = Reap rest \<and> slot (wo_db w') (br_id (sn_batch sn)) = Some (Expired, tag, p)"
proof -
  let ?u = "update_transactions (\<lambda>u. tr_batchId u = Some (br_id (sn_batch sn)) \<and> is_pending u) (\<lambda>u. u\<lparr>tr_status := Expired\<rparr>) (wo_db w)"
  have oku: "db_ok ?u" by (rule db_ok_update_transactions[OF ok]) simp_all
  obtain db where db: "expirePendingBatch sn (now env w) (wo_db w) = Inr db"
    unfolding expirePendingBatch_def using update_to[OF oku, of "\<lambda>r. r\<lparr>br_status := Expired, br_updatedAt := now env w\<rparr>"] by auto
  have "slot db (br_id (sn_batch sn)) = Some (Expired, tag, p)"
  proof (rule slot_updated[OF db[unfolded expirePendingBatch_def]])
    show "slot ?u (br_id (sn_batch sn)) = Some (st, tag, p)" using s by (simp add: slot_def update_transactions_def)
  qed simp_all
  with t ask_db_succeeds[OF nf, of "expirePendingBatch sn (now env w)", OF db] show ?thesis
    by (auto simp: task_step_def expire_step_def split: prod.splits)
qed

text \<open>One turn of the reaper: a check, and an expiry if the batch is still pending.\<close>

lemma reap_one:
  assumes nf: "no_faults env" and ok: "db_ok (wo_db w)" and p: "br_status (sn_batch sn) = Pending"
    and s: "slot (wo_db w) (br_id (sn_batch sn)) = Some (st, tag, pa)"
  obtains k w' st' where "k \<in> {1, 2}" and "drain env k (Reap (sn # rest)) w = (Reap rest, w')" and "db_ok (wo_db w')"
    and "slot (wo_db w') (br_id (sn_batch sn)) = Some (st', tag, pa)" and "st' \<noteq> Pending"
    and "\<And>i. i \<noteq> br_id (sn_batch sn) \<Longrightarrow> slot (wo_db w') i = slot (wo_db w) i"
proof -
  note goal = that
  have expire: thesis if "db_ok (wo_db w1)" and "task_step env (Reap (sn # rest)) w = (Expire sn rest, w1)"
    and "slot (wo_db w1) (br_id (sn_batch sn)) = Some (st1, tag, pa)"
    and sl: "\<And>i. i \<noteq> br_id (sn_batch sn) \<Longrightarrow> slot (wo_db w1) i = slot (wo_db w) i" for w1 st1
  proof -
    obtain t2 w2 where e: "task_step env (Expire sn rest) w1 = (t2, w2)" by (cases "task_step env (Expire sn rest) w1")
    have "slot (wo_db w2) i = slot (wo_db w1) i" if "i \<noteq> br_id (sn_batch sn)" for i
      using e that by (auto simp: task_step_def expire_step_def split: prod.splits elim!: ask_db_cases dest: slot_expire)
    moreover from expire_succeeds[OF nf that(1) e that(3)] have "t2 = Reap rest" "slot (wo_db w2) (br_id (sn_batch sn)) = Some (Expired, tag, pa)"
      by simp_all
    moreover have "drain env 2 (Reap (sn # rest)) w = (t2, w2)" using that(2) e by (simp add: numeral_2_eq_2)
    moreover have "db_ok (wo_db w2)" using task_step_ok[OF e that(1)] by simp
    ultimately show thesis using sl by (intro goal[of 2 w2 Expired]) simp_all
  qed
  show thesis
  proof (cases "sn_transactions sn = []")
    case True
    then show thesis by (intro expire[OF ok _ s]) (simp_all add: task_step_def reap_check_def)
  next
    case False
    obtain c w1 where c: "checkAndUpdateBatchStatus env sn w = (Inr c, w1)" and ok1: "db_ok (wo_db w1)"
      using check_succeeds[OF nf ok p] by blast
    have sl: "slot (wo_db w1) i = slot (wo_db w) i" if "i \<noteq> br_id (sn_batch sn)" for i using slot_check[OF c that] .
    show thesis
    proof (cases "cr_batchStatus c = Pending")
      case True
      have "slot (wo_db w1) (br_id (sn_batch sn)) = slot (wo_db w) (br_id (sn_batch sn))"
        using c
      proof (rule check_Inr)
        fix h jito rs t w0 w1' w2
        assume "cr_batchStatus c = overall_status jito rs"
          and "save_batch (sn_batch sn) (overall_status jito rs) t (foldl save_transaction (wo_db w) rs) = Inr (wo_db w1)"
        with True p have "wo_db w1 = foldl save_transaction (wo_db w) rs" by (simp add: save_batch_def)
        then have "db_batches (wo_db w1) = db_batches (wo_db w)" by (simp only: batches_save_transactions)
        then show ?thesis by (rule slot_batches)
      qed
      with s have "slot (wo_db w1) (br_id (sn_batch sn)) = Some (st, tag, pa)" by simp
      with True False c sl show thesis by (intro expire[OF ok1]) (simp_all add: task_step_def reap_check_def)
    next
      case np: False
      have "task_step env (Reap (sn # rest)) w = (Reap rest, w1)"
        using False c np by (simp add: task_step_def reap_check_def)
      with check_pending_slot[OF c p np s] ok1 np sl show thesis by (intro goal[of 1 w1 "cr_batchStatus c"]) simp_all
    qed
  qed
qed

lemma drain_add: "drain env (k + m) t w = (case drain env k t w of (t', w') \<Rightarrow> drain env m t' w')"
  by (induction k arbitrary: t w) (auto split: prod.split)

lemma drain_answer: "drain env k (Answer a) w = (Answer a, w)"
  by (induction k) (auto simp: task_step_def)

lemma reap_all:
  assumes "no_faults env" and "db_ok (wo_db w)" and "\<forall>sn \<in> set sns. br_status (sn_batch sn) = Pending"
    and "distinct (map (\<lambda>sn. br_id (sn_batch sn)) sns)" and "\<forall>sn \<in> set sns. slot (wo_db w) (br_id (sn_batch sn)) \<noteq> None"
  shows "\<exists>k w'. k \<le> 2 * length sns + 1 \<and> drain env k (Reap sns) w = (Answer Finished, w')
     \<and> (\<forall>sn \<in> set sns. \<exists>st tag p. slot (wo_db w') (br_id (sn_batch sn)) = Some (st, tag, p) \<and> st \<noteq> Pending)
     \<and> (\<forall>i. i \<notin> (\<lambda>sn. br_id (sn_batch sn)) ` set sns \<longrightarrow> slot (wo_db w') i = slot (wo_db w) i)"
  using assms(2-5)
proof (induction sns arbitrary: w)
  case Nil
  then show ?case by (intro exI[of _ 1] exI[of _ w]) (simp add: task_step_def reap_check_def)
next
  case (Cons sn rest)
  from Cons.prems(4) obtain st tag p where s: "slot (wo_db w) (br_id (sn_batch sn)) = Some (st, tag, p)" by auto
  obtain k w1 st' where k: "k \<in> {1, 2}" "drain env k (Reap (sn # rest)) w = (Reap rest, w1)" and ok1: "db_ok (wo_db w1)"
    and s1: "slot (wo_db w1) (br_id (sn_batch sn)) = Some (st', tag, p)" "st' \<noteq> Pending"
    and o1: "\<And>i. i \<noteq> br_id (sn_batch sn) \<Longrightarrow> slot (wo_db w1) i = slot (wo_db w) i"
    using reap_one[OF assms(1) Cons.prems(1) _ s, of rest] Cons.prems(2) by (metis list.set_intros(1))
  have rest: "\<forall>sn \<in> set rest. br_status (sn_batch sn) = Pending" "distinct (map (\<lambda>sn. br_id (sn_batch sn)) rest)"
    using Cons.prems(2,3) by simp_all
  have ids: "\<forall>sn' \<in> set rest. slot (wo_db w1) (br_id (sn_batch sn')) \<noteq> None"
  proof
    fix sn'
    assume "sn' \<in> set rest"
    moreover from this Cons.prems(3) have "br_id (sn_batch sn') \<noteq> br_id (sn_batch sn)" by (auto simp: image_iff)
    ultimately show "slot (wo_db w1) (br_id (sn_batch sn')) \<noteq> None" using Cons.prems(4) o1 by simp
  qed
  from Cons.IH[OF ok1 rest ids] obtain m w' where m: "m \<le> 2 * length rest + 1" "drain env m (Reap rest) w1 = (Answer Finished, w')"
    and r: "\<forall>sn \<in> set rest. \<exists>st tag p. slot (wo_db w') (br_id (sn_batch sn)) = Some (st, tag, p) \<and> st \<noteq> Pending"
    and o2: "\<forall>i. i \<notin> (\<lambda>sn. br_id (sn_batch sn)) ` set rest \<longrightarrow> slot (wo_db w') i = slot (wo_db w1) i"
    by blast
  have "br_id (sn_batch sn) \<notin> (\<lambda>sn. br_id (sn_batch sn)) ` set rest" using Cons.prems(3) by simp
  with o2 s1 have "slot (wo_db w') (br_id (sn_batch sn)) = Some (st', tag, p)" by simp
  moreover have "drain env (k + m) (Reap (sn # rest)) w = (Answer Finished, w')" using k(2) m(2) drain_add[of env k m "Reap (sn # rest)" w] by simp
  moreover have "k + m \<le> 2 * length (sn # rest) + 1" using k(1) m(1) by auto
  ultimately show ?case using r o1 o2 s1(2) by (intro exI[of _ "k + m"] exI[of _ w']) auto
qed

section \<open>The life of a submission\<close>

text \<open>The row of a transaction after its batch was recorded.\<close>

definition recorded :: "string \<Rightarrow> string \<Rightarrow> nat \<Rightarrow> submission_result \<Rightarrow> nat \<Rightarrow> string \<times> tx_metadata option \<Rightarrow> tx_row \<Rightarrow> bool" where
  "recorded b payer h res i x t \<longleftrightarrow> tr_batchId t = Some b \<and> tr_payer t = payer \<and> tr_status t = Pending
     \<and> tr_lastValidBlockHeight t = Some h \<and> tr_metadata t = snd x \<and> tr_serializedTransaction t = Some (fst x)
     \<and> (sr_signatures res ! i \<noteq> [] \<longrightarrow> tr_signature t = sr_signatures res ! i)"

lemma create_transactions:
  "efold create_transaction db ts = Inr db' \<Longrightarrow> db_batches db' = db_batches db
     \<and> (\<exists>rows. db_transactions db' = db_transactions db @ rows \<and> map (\<lambda>t. t\<lparr>tr_id := 0\<rparr>) rows = map (\<lambda>t. t\<lparr>tr_id := 0\<rparr>) ts)"
proof (induction ts arbitrary: db)
  case (Cons t ts)
  then obtain db1 where 1: "create_transaction db t = Inr db1" "efold create_transaction db1 ts = Inr db'" by (auto elim: ebind_InrE)
  from 1(1) have d1: "db_batches db1 = db_batches db" "db_transactions db1 = db_transactions db @ [t\<lparr>tr_id := db_nextId db\<rparr>]"
    by (auto simp: create_transaction_def split: if_splits)
  from Cons.IH[OF 1(2)] obtain rows where "db_batches db' = db_batches db1" "db_transactions db' = db_transactions db1 @ rows"
      "map (\<lambda>t. t\<lparr>tr_id := 0\<rparr>) rows = map (\<lambda>t. t\<lparr>tr_id := 0\<rparr>) ts" by blast
  with d1 show ?case by (intro conjI exI[of _ "t\<lparr>tr_id := db_nextId db\<rparr> # rows"]) simp_all
qed simp

lemma transaction_for_recorded:
  assumes "transaction_for env payer b res h (i, x) = Inr t" and "i < length (sr_signatures res)"
  shows "recorded b payer h res i x t"
  using assms by (cases x) (auto simp: transaction_for_def recorded_def js_nth_def split: list.splits elim!: ebind_InrE)

lemma recorded_id [simp]: "recorded b payer h res i x (t\<lparr>tr_id := n\<rparr>) = recorded b payer h res i x t"
  by (simp add: recorded_def)

lemma record_statements_Inr:
  assumes r: "record_statements env inp payer b res h t db = Inr db'" and len: "length (sr_signatures res) = length (si_transactions inp)"
  obtains db1 rows where "(if tagged inp
            then update_batch b (\<lambda>r. r\<lparr>br_submissionType := sr_submissionType res,
                                             br_jitoBundleId := sr_jitoBundleId res, br_updatedAt := t\<rparr>) db
            else create_batch (batch_for env inp payer b (sr_submissionType res) (sr_jitoBundleId res) t) db) = Inr db1"
    and "db_batches db' = db_batches db1" and "db_transactions db' = db_transactions db1 @ rows"
    and "length rows = length (si_transactions inp)" and "\<forall>i < length rows. recorded b payer h res i (si_transactions inp ! i) (rows ! i)"
proof -
  from r obtain db1 ts where db1: "(if tagged inp
            then update_batch b (\<lambda>r. r\<lparr>br_submissionType := sr_submissionType res,
                                             br_jitoBundleId := sr_jitoBundleId res, br_updatedAt := t\<rparr>) db
            else create_batch (batch_for env inp payer b (sr_submissionType res) (sr_jitoBundleId res) t) db) = Inr db1"
      and ts: "emap (transaction_for env payer b res h) (enumerate 0 (si_transactions inp)) = Inr ts"
      and db': "efold create_transaction db1 ts = Inr db'"
    unfolding record_statements_def by (elim ebind_InrE) (auto split: sum.splits)
  from create_transactions[OF db'] obtain rows where rows: "db_batches db' = db_batches db1"
      "db_transactions db' = db_transactions db1 @ rows" "map (\<lambda>t. t\<lparr>tr_id := 0\<rparr>) rows = map (\<lambda>t. t\<lparr>tr_id := 0\<rparr>) ts" by blast
  from rows(3) have lr: "length rows = length ts" by (metis length_map)
  have lts: "length ts = length (si_transactions inp)" using emap_Inr_length[OF ts] by simp
  have "recorded b payer h res i (si_transactions inp ! i) (rows ! i)" if "i < length rows" for i
  proof -
    have i: "i < length ts" using that lr by simp
    then have "transaction_for env payer b res h (i, si_transactions inp ! i) = Inr (ts ! i)"
      using emap_Inr_nth[OF ts, of i] lts by (simp add: nth_enumerate_eq)
    then have "recorded b payer h res i (si_transactions inp ! i) (ts ! i)"
      by (rule transaction_for_recorded) (use i lts len in simp)
    moreover have "(rows ! i)\<lparr>tr_id := 0\<rparr> = (ts ! i)\<lparr>tr_id := 0\<rparr>" using rows(3) i that by (metis nth_map)
    ultimately show ?thesis by (metis recorded_id)
  qed
  with db1 rows lr lts show thesis by (intro that) auto
qed

text \<open>No other batch has the id, or is pending for the tag and the payer.\<close>

definition free :: "submit_input \<Rightarrow> string \<Rightarrow> string \<Rightarrow> database \<Rightarrow> bool" where
  "free inp payer b db \<longleftrightarrow> list_all (\<lambda>r. br_id r \<noteq> b
     \<and> \<not> (br_status r = Pending \<and> br_tag r \<noteq> None \<and> br_tag r = si_tag inp \<and> br_payer r = payer)) (db_batches db)"

text \<open>The database, the node and the decoder answer what a submission asks them besides the sending itself.\<close>

definition answers :: "store_env \<Rightarrow> submit_input \<Rightarrow> bool" where
  "answers env inp \<longleftrightarrow> no_faults env \<and> (\<forall>log. \<exists>h. se_getLatestBlockhash env log = Inr h)
     \<and> (\<forall>x \<in> set (si_transactions inp). \<exists>v. ae_deserialize (se_api env) (fst x) = Inr v)"

lemma create_free:
  assumes "free inp payer b db"
  shows "create_batch (batch_for env inp payer b ty j t) db = Inr (db\<lparr>db_batches := db_batches db @ [batch_for env inp payer b ty j t]\<rparr>)"
  using assms by (auto simp: create_batch_def free_def list_all_iff list_ex_iff clashes_def batch_for_def)

lemma create_transactions_succeed:
  "b \<in> br_id ` set (db_batches db) \<Longrightarrow> \<forall>t \<in> set ts. tr_batchId t = Some b \<Longrightarrow> \<exists>db'. efold create_transaction db ts = Inr db'"
  by (induction ts arbitrary: db) (auto simp: create_transaction_def)

lemma record_succeeds:
  assumes a: "answers env inp"
    and d: "(if tagged inp
            then update_batch b (\<lambda>r. r\<lparr>br_submissionType := sr_submissionType res,
                                             br_jitoBundleId := sr_jitoBundleId res, br_updatedAt := t\<rparr>) db
            else create_batch (batch_for env inp payer b (sr_submissionType res) (sr_jitoBundleId res) t) db) = Inr db1"
    and b: "b \<in> br_id ` set (db_batches db1)"
  shows "\<exists>db'. record_statements env inp payer b res h t db = Inr db'"
proof -
  let ?row = "\<lambda>x. case transaction_for env payer b res h x of Inr t \<Rightarrow> t | Inl _ \<Rightarrow> undefined"
  have ok: "transaction_for env payer b res h x = Inr (?row x)" if x: "x \<in> set (enumerate 0 (si_transactions inp))" for x
  proof -
    obtain i y where "x = (i, y)" by (cases x)
    with x have "y \<in> set (si_transactions inp)" by (auto simp: in_set_enumerate_eq)
    then obtain v where "ae_deserialize (se_api env) (fst y) = Inr v" using a by (auto simp: answers_def)
    then show ?thesis using \<open>x = (i, y)\<close> by (cases y) (simp add: transaction_for_def)
  qed
  have rows: "emap (transaction_for env payer b res h) (enumerate 0 (si_transactions inp)) = Inr (map ?row (enumerate 0 (si_transactions inp)))"
    by (rule emap_total) (rule ok)
  have "\<forall>t \<in> set (map ?row (enumerate 0 (si_transactions inp))). tr_batchId t = Some b"
    using ok transaction_for_Inr by (metis (no_types, lifting) imageE list.set_map)
  from create_transactions_succeed[OF b this] rows d show ?thesis by (simp add: record_statements_def)
qed

text \<open>The rows a recorded submission adds.\<close>

definition submission_recorded :: "store_env \<Rightarrow> submit_input \<Rightarrow> string \<Rightarrow> string \<Rightarrow> database \<Rightarrow> database \<Rightarrow> bool" where
  "submission_recorded env inp payer b db db' \<longleftrightarrow> (\<exists>i n n' res h t rows.
     submission_ok (se_api env) i (payload_of inp payer) n n' res
     \<and> db_batches db' = db_batches db @ [batch_for env inp payer b (sr_submissionType res) (sr_jitoBundleId res) t]
     \<and> db_transactions db' = db_transactions db @ rows \<and> length rows = length (si_transactions inp)
     \<and> (\<forall>k < length rows. recorded b payer h res k (si_transactions inp ! k) (rows ! k)))"

lemma map_filter_fresh: "b \<notin> br_id ` set rs \<Longrightarrow> filter (\<lambda>r. br_id r \<noteq> b) rs = rs" "b \<notin> br_id ` set rs \<Longrightarrow> map (\<lambda>r. if br_id r = b then f r else r) rs = rs"
  by (auto simp: filter_id_conv intro!: map_idI)

lemma destroy_created:
  assumes ok: "db_ok db" and f: "free inp payer b db"
  shows "destroy_batch b (db\<lparr>db_batches := db_batches db @ [batch_for env inp payer b ty j t]\<rparr>) = db"
proof -
  have fresh: "b \<notin> br_id ` set (db_batches db)" using f by (auto simp: free_def list_all_iff)
  have "map (\<lambda>t. if tr_batchId t = Some b then t\<lparr>tr_batchId := None\<rparr> else t) (db_transactions db) = db_transactions db"
  proof (intro map_idI)
    fix t
    assume "t \<in> set (db_transactions db)"
    with ok have "tr_batchId t \<in> insert None (Some ` br_id ` set (db_batches db))" by (simp add: db_ok_def rows_ok_def)
    with fresh have "tr_batchId t \<noteq> Some b" by auto
    then show "(if tr_batchId t = Some b then t\<lparr>tr_batchId := None\<rparr> else t) = t" by simp
  qed
  with map_filter_fresh(1)[OF fresh] show ?thesis by (simp add: destroy_batch_def batch_for_def)
qed

lemma recorded_slot:
  assumes fr: "b \<notin> br_id ` set (db_batches db)"
    and db1: "db1 = db\<lparr>db_batches := db_batches db @ [batch_for env inp payer b ty j t0]\<rparr>"
    and u: "update_batch b (\<lambda>r. r\<lparr>br_submissionType := ty', br_jitoBundleId := j', br_updatedAt := t\<rparr>) db1 = Inr db2"
  shows "db_batches db2 = db_batches db @ [batch_for env inp payer b ty' j' t] \<and> db_transactions db2 = db_transactions db"
proof -
  let ?f = "\<lambda>r. r\<lparr>br_submissionType := ty', br_jitoBundleId := j', br_updatedAt := t\<rparr>"
  have db2: "db2 = db1\<lparr>db_batches := map (\<lambda>r. if br_id r = b then ?f r else r) (db_batches db1)\<rparr>"
    using u by (auto simp: update_batch_def Let_def split: if_splits)
  show ?thesis unfolding db2 db1 using map_filter_fresh(2)[OF fr, of ?f] by (simp add: batch_for_def)
qed

lemma send_cases:
  assumes a: "answers env inp" and s: "task_step env (Submit inp payer b Send) w = (t', w')"
  obtains (sent) res h i n n' where "t' = Submit inp payer b (Record_it res h)" and "submission_ok (se_api env) i (payload_of inp payer) n n' res"
      and "length (sr_signatures res) = length (si_transactions inp)" and "wo_db w' = wo_db w"
  | (failed) e where "t' = (if tagged inp then Submit inp payer b (Release e) else t')" and "\<not> tagged inp \<Longrightarrow> \<exists>err. t' = Answer (Refused err)"
      and "wo_db w' = wo_db w"
proof -
  let ?i = "se_uuid env (wo_uuids w)"
  obtain r n where r: "submitTransactionBatch (se_api env) ?i (payload_of inp payer) (wo_net w) = (r, n)"
    by (cases "submitTransactionBatch (se_api env) ?i (payload_of inp payer) (wo_net w)")
  show thesis
  proof (cases r)
    case (Inl e)
    show thesis
    proof (rule failed[of e])
      show "t' = (if tagged inp then Submit inp payer b (Release e) else t')"
        using s r Inl by (auto simp: task_step_def submit_step_def submit_send_def)
      show "\<exists>err. t' = Answer (Refused err)" if "\<not> tagged inp"
        using that s r Inl by (auto simp: task_step_def submit_step_def submit_send_def split: prod.splits)
      show "wo_db w' = wo_db w"
        using s r Inl by (auto simp: task_step_def submit_step_def submit_send_def Let_def split: if_splits prod.splits dest!: report_same)
    qed
  next
    case (Inr res)
    obtain h where h: "se_getLatestBlockhash env (nt_log n) = Inr h" using a by (auto simp: answers_def)
    have "t' = Submit inp payer b (Record_it res h) \<and> wo_db w' = wo_db w"
      using s r Inr h by (auto simp: task_step_def submit_step_def submit_send_def ask_node_def request_def)
    moreover have "attempts (se_api env) ?i (payload_of inp payer) MAX_BLOCKHASH_RETRIES (wo_net w) = (Inr res, n)"
      using r Inr by (simp add: submitTransactionBatch_def)
    then obtain n1 where "prefix (nt_log (wo_net w)) (nt_log n1)" "attempt (se_api env) ?i (payload_of inp payer) n1 = (Inr res, n)"
      using attempts_Inr by blast
    then have ok: "submission_ok (se_api env) ?i (payload_of inp payer) (wo_net w) n res"
      using attempt_ok submission_ok_mono by blast
    then have "length (sr_signatures res) = length (bp_transactions (payload_of inp payer))" by (rule submission_ok_length)
    then have "length (sr_signatures res) = length (si_transactions inp)" by (simp add: payload_of_def)
    ultimately show thesis using ok by (intro sent) auto
  qed
qed

lemma record_step:
  assumes a: "answers env inp" and s: "task_step env (Submit inp payer b (Record_it res h)) w = (t', w')"
    and f: "free inp payer b db"
    and w: "wo_db w = (if tagged inp then db\<lparr>db_batches := db_batches db @ [batch_for env inp payer b ty j t0]\<rparr> else db)"
    and wok: "db_ok (wo_db w)"
    and sub: "submission_ok (se_api env) i (payload_of inp payer) n n' res" and len: "length (sr_signatures res) = length (si_transactions inp)"
  shows "t' = Answer (Submitted b None) \<and> submission_recorded env inp payer b db (wo_db w')"
proof -
  have fr: "b \<notin> br_id ` set (db_batches db)" using f by (auto simp: free_def list_all_iff)
  let ?t = "now env w"
  let ?u = "update_batch b (\<lambda>r. r\<lparr>br_submissionType := sr_submissionType res, br_jitoBundleId := sr_jitoBundleId res, br_updatedAt := ?t\<rparr>)"
  let ?c = "create_batch (batch_for env inp payer b (sr_submissionType res) (sr_jitoBundleId res) ?t)"
  have "\<exists>db1. (if tagged inp then ?u (wo_db w) else ?c (wo_db w)) = Inr db1
      \<and> db_batches db1 = db_batches db @ [batch_for env inp payer b (sr_submissionType res) (sr_jitoBundleId res) ?t]
      \<and> db_transactions db1 = db_transactions db"
  proof (cases "tagged inp")
    case True
    obtain db1 where d1: "?u (wo_db w) = Inr db1"
      using update_succeeds[OF wok, of "\<lambda>r. r\<lparr>br_submissionType := sr_submissionType res, br_jitoBundleId := sr_jitoBundleId res, br_updatedAt := ?t\<rparr>" b]
      by simp
    with recorded_slot[OF fr, of "wo_db w" env inp payer ty j t0] w True show ?thesis by simp
  next
    case False
    with create_free[OF f] w show ?thesis by simp
  qed
  then obtain db1 where d1: "(if tagged inp then ?u (wo_db w) else ?c (wo_db w)) = Inr db1"
      and b1: "db_batches db1 = db_batches db @ [batch_for env inp payer b (sr_submissionType res) (sr_jitoBundleId res) ?t]"
      and t1: "db_transactions db1 = db_transactions db" by blast
  have "b \<in> br_id ` set (db_batches db1)" by (simp add: b1 batch_for_def)
  from record_succeeds[OF a d1 this] obtain db' where db': "record_statements env inp payer b res h ?t (wo_db w) = Inr db'" by blast
  have "t' = Answer (Submitted b None) \<and> wo_db w' = db'"
    using s a db' by (auto simp: task_step_def submit_step_def submit_record_def ask_db_def request_def answers_def no_faults_def)
  moreover have "submission_recorded env inp payer b db db'"
    using db' len
  proof (rule record_statements_Inr)
    fix db2 rows
    assume "(if tagged inp then ?u (wo_db w) else ?c (wo_db w)) = Inr db2"
      and 2: "db_batches db' = db_batches db2" "db_transactions db' = db_transactions db2 @ rows"
        "length rows = length (si_transactions inp)" "\<forall>k < length rows. recorded b payer h res k (si_transactions inp ! k) (rows ! k)"
    with d1 have "db2 = db1" by simp
    with 2 b1 t1 sub show ?thesis unfolding submission_recorded_def by (intro exI[of _ i] exI[of _ n] exI[of _ n'] exI[of _ res]
        exI[of _ h] exI[of _ ?t] exI[of _ rows]) simp
  qed
  ultimately show ?thesis by simp
qed

lemma release_step:
  assumes a: "answers env inp" and s: "task_step env (Submit inp payer b (Release e)) w = (t', w')"
    and f: "free inp payer b db" and ok: "db_ok db" and w: "wo_db w = db\<lparr>db_batches := db_batches db @ [batch_for env inp payer b ty j t0]\<rparr>"
  shows "(\<exists>err. t' = Answer (Refused err)) \<and> wo_db w' = db"
  using s a destroy_created[OF ok f, of env ty j t0]
  by (auto simp: task_step_def submit_step_def submit_release_def ask_db_def request_def answers_def no_faults_def w
      split: prod.splits dest!: report_same)

text \<open>The outcome of a submission: recorded, or refused with the tables as they were.\<close>

definition submit_outcome :: "store_env \<Rightarrow> submit_input \<Rightarrow> string \<Rightarrow> string \<Rightarrow> database \<Rightarrow> task \<Rightarrow> database \<Rightarrow> bool" where
  "submit_outcome env inp payer b db t db' \<longleftrightarrow>
     t = Answer (Submitted b None) \<and> submission_recorded env inp payer b db db' \<or> (\<exists>err. t = Answer (Refused err)) \<and> db' = db"

lemma after_send:
  assumes a: "answers env inp" and f: "free inp payer b db" and ok: "db_ok db"
    and w: "wo_db w = (if tagged inp then db\<lparr>db_batches := db_batches db @ [batch_for env inp payer b ty j t0]\<rparr> else db)"
    and wok: "db_ok (wo_db w)" and d: "drain env 2 (Submit inp payer b Send) w = (t', w')"
  shows "submit_outcome env inp payer b db t' (wo_db w')"
proof -
  obtain t1 w1 where s1: "task_step env (Submit inp payer b Send) w = (t1, w1)" by (cases "task_step env (Submit inp payer b Send) w")
  obtain t2 w2 where s2: "task_step env t1 w1 = (t2, w2)" by (cases "task_step env t1 w1")
  from d s1 s2 have eq: "t' = t2" "w' = w2" by (simp_all add: numeral_2_eq_2)
  from a s1 show ?thesis
  proof (cases rule: send_cases)
    case (sent res h i n n')
    from sent s2 have s2': "task_step env (Submit inp payer b (Record_it res h)) w1 = (t2, w2)" by simp
    from record_step[OF a s2' f _ _ sent(2,3)] sent(4) w wok show ?thesis unfolding eq submit_outcome_def by simp
  next
    case (failed e)
    show ?thesis
    proof (cases "tagged inp")
      case True
      with failed s2 have s2': "task_step env (Submit inp payer b (Release e)) w1 = (t2, w2)" by simp
      from release_step[OF a s2' f ok] failed(3) w True show ?thesis unfolding eq submit_outcome_def by simp
    next
      case False
      with failed obtain err where "t1 = Answer (Refused err)" by blast
      moreover from this s2 have "t2 = Answer (Refused err)" "w2 = w1" by (simp_all add: task_step_def)
      ultimately show ?thesis using failed(3) w False unfolding eq submit_outcome_def by simp
    qed
  qed
qed

section \<open>Stale batches\<close>

lemma stale_slots:
  assumes "db_ok db"
  shows "(\<lambda>sn. br_id (sn_batch sn)) ` set (stale_batches t db)
      = br_id ` {r \<in> set (db_batches db). br_status r = Pending \<and> br_updatedAt r + STALE_PENDING_BATCH_MS < t}"
    and "distinct (map (\<lambda>sn. br_id (sn_batch sn)) (stale_batches t db))"
    and "\<forall>sn \<in> set (stale_batches t db). br_status (sn_batch sn) = Pending"
    and "\<forall>sn \<in> set (stale_batches t db). slot db (br_id (sn_batch sn)) \<noteq> None"
proof -
  have i: "(\<lambda>sn. br_id (sn_batch sn)) \<circ> load (\<lambda>_. True) db = br_id" by (auto simp: load_def)
  show "(\<lambda>sn. br_id (sn_batch sn)) ` set (stale_batches t db)
      = br_id ` {r \<in> set (db_batches db). br_status r = Pending \<and> br_updatedAt r + STALE_PENDING_BATCH_MS < t}"
    by (simp add: stale_batches_def image_comp i)
  show "distinct (map (\<lambda>sn. br_id (sn_batch sn)) (stale_batches t db))"
    using assms by (simp add: stale_batches_def i db_ok_def rows_ok_def distinct_map_filter)
  show "\<forall>sn \<in> set (stale_batches t db). br_status (sn_batch sn) = Pending" by (simp add: stale_batches_def load_def)
  show "\<forall>sn \<in> set (stale_batches t db). slot db (br_id (sn_batch sn)) \<noteq> None"
    by (auto simp: stale_batches_def load_def slot_def find_None_iff)
qed

lemma save_batch_transactions: "save_batch b st t db = Inr db' \<Longrightarrow> db_transactions db' = db_transactions db"
  by (auto simp: save_batch_def update_batch_def Let_def split: if_splits)

lemma all_confirmed: "confirmed_count rs = length rs \<longleftrightarrow> (\<forall>x \<in> set rs. map_option fst (snd x) = Some Confirmed)"
proof -
  have "confirmed_count rs = length rs \<longleftrightarrow> filter (\<lambda>x. map_option fst (snd x) = Some Confirmed) rs = rs"
    unfolding confirmed_count_def split_def
    by (metis (no_types, lifting) filter_id_conv length_filter_less less_irrefl)
  then show ?thesis by (simp only: filter_id_conv)
qed

lemma some_confirmed: "confirmed_count rs > 0 \<longleftrightarrow> (\<exists>x \<in> set rs. map_option fst (snd x) = Some Confirmed)"
  unfolding confirmed_count_def split_def by (simp only: length_greater_0_conv filter_empty_conv) blast

lemma some_failed: "failed_count rs > 0 \<longleftrightarrow> (\<exists>x \<in> set rs. map_option fst (snd x) \<in> {Some Failed, Some Expired})"
  unfolding failed_count_def split_def by (simp only: length_greater_0_conv filter_empty_conv) blast

lemmas counts = all_confirmed some_confirmed some_failed

section \<open>Properties\<close>

text \<open>
  Concrete parameters: identifiers start with \<open>b\<close>, the database never fails, and what the node says of a
  transaction is a parameter.
\<close>

definition demo_store :: "(thrown + bool option) \<Rightarrow> store_env" where
  "demo_store says = \<lparr>se_api = demo_api_env ''devnet'', se_uuid = (\<lambda>n. CHR ''b'' # replicate n CHR ''x''),
     se_simulateTransaction = (\<lambda>_ _. Inr \<lparr>ts_err = None, ts_logs = None\<rparr>), se_getBalance = (\<lambda>_ _. Inr 1),
     se_getLatestBlockhash = (\<lambda>_. Inr 9), se_getBlockHeight = (\<lambda>_. Inr 5), se_getTransaction = (\<lambda>_ _. says),
     se_bundleStatuses = (\<lambda>_ _. Inl (Other_value [])), se_database = (\<lambda>_. Inr ())\<rparr>"

definition demo_input :: submit_input where
  "demo_input = \<lparr>si_transactions = [(''a'', None), (''c'', None)], si_parallel = True, si_tag = Some ''tag'',
     si_actionMetadata = None, si_simulate = True\<rparr>"

definition demo_world :: world where
  "demo_world = \<lparr>wo_net = demo_net, wo_db = \<lparr>db_batches = [], db_transactions = [], db_nextId = 0\<rparr>, wo_uuids = 0, wo_tasks = []\<rparr>"

lemma demo_world_ok: "db_ok (wo_db demo_world)" "wo_tasks demo_world = []"
  by (simp_all add: demo_world_def db_ok_def rows_ok_def)



text \<open>
  C2. In every run in which status checks and the reaper leave the batches alone whose submission is under
  way, no two submissions for the same tag and payer are under way at the same time, and the one that is has
  its pending row.
\<close>

theorem single_flight:
  assumes "allowed (api_handle env) undisturbed evs w" and "db_ok (wo_db w)" and "wo_tasks w = []"
    and "holds_at (api_run env evs w) i b tag p" and "holds_at (api_run env evs w) j b' tag p"
  shows "i = j \<and> slot (wo_db (api_run env evs w)) b = Some (Pending, tag, p)"
proof -
  have "flight_inv w" using assms(2,3) by (simp add: flight_inv_def holds_at_def)
  from flights.inv_run[OF this assms(1)] have inv: "flight_inv (api_run env evs w)" by (simp add: api_run_def)
  with flight_unique[OF inv assms(4,5)] assms(4) show ?thesis unfolding flight_inv_def by blast
qed

text \<open>Two requests with one tag: the second is answered with the batch of the first, which is under way.\<close>

definition demo_requests :: "api_event list" where
  "demo_requests = [New_submit demo_input, New_submit demo_input, Step 0, Step 1, Step 1]"

theorem single_flight_witness:
  "holds_at (api_run (demo_store (Inr None)) demo_requests demo_world) 0 ''b'' (Some ''tag'') ''payer''
   \<and> {j. \<exists>b. holds_at (api_run (demo_store (Inr None)) demo_requests demo_world) j b (Some ''tag'') ''payer''} = {0}
   \<and> (\<exists>m. wo_tasks (api_run (demo_store (Inr None)) demo_requests demo_world) ! 1 = Answer (Submitted ''b'' m))"
proof -
  let ?w = "api_run (demo_store (Inr None)) demo_requests demo_world"
  have al: "allowed (api_handle (demo_store (Inr None))) undisturbed demo_requests demo_world" by code_simp
  have h: "holds_at ?w 0 ''b'' (Some ''tag'') ''payer''" unfolding holds_at_def by code_simp
  have "wo_tasks ?w ! 1 = Answer (Submitted ''b'' (Some (''Transaction with tag '' @ [CHR 0x22] @ ''tag'' @ [CHR 0x22]
      @ '' already exists and is pending'')))" by code_simp
  moreover have "j = 0" if "holds_at ?w j b (Some ''tag'') ''payer''" for j b
    using single_flight[OF al demo_world_ok h that] by simp
  ultimately show ?thesis using h by blast
qed

text \<open>
  A check of a batch whose transactions are not recorded yet answers that it is confirmed, and frees its
  tag: of none of its transactions all are confirmed.
\<close>

theorem premature_check_frees_slot:
  assumes "checkAndUpdateBatchStatus env sn w = (Inr c, w')" and "sn_transactions sn = []"
    and "br_status (sn_batch sn) \<noteq> Confirmed" and "slot (wo_db w) (br_id (sn_batch sn)) = Some (st, tag, p)"
  shows "cr_batchStatus c = Confirmed \<and> slot (wo_db w') (br_id (sn_batch sn)) = Some (Confirmed, tag, p)"
  by (rule check_empty[OF assms])

text \<open>The client that is told of the batch asks for its status; then two submissions for the tag are under way.\<close>

definition demo_early_check :: "api_event list" where
  "demo_early_check = demo_requests @ [New_get ''b'', Step 2, New_submit demo_input, Step 3]"

definition demo_early_snapshot :: snapshot where
  "demo_early_snapshot =
     load (\<lambda>_. True) (wo_db (api_run (demo_store (Inr None)) demo_requests demo_world))
       (hd (db_batches (wo_db (api_run (demo_store (Inr None)) demo_requests demo_world))))"

theorem premature_check_frees_slot_witness:
  "(\<exists>c w'. checkAndUpdateBatchStatus (demo_store (Inr None)) demo_early_snapshot
       (api_run (demo_store (Inr None)) demo_requests demo_world) = (Inr c, w') \<and> cr_batchStatus c = Confirmed
       \<and> slot (wo_db w') ''b'' = Some (Confirmed, Some ''tag'', ''payer''))
   \<and> holds_at (api_run (demo_store (Inr None)) demo_early_check demo_world) 0 ''b'' (Some ''tag'') ''payer''
   \<and> holds_at (api_run (demo_store (Inr None)) demo_early_check demo_world) 3 ''bxx'' (Some ''tag'') ''payer''"
proof -
  let ?w = "api_run (demo_store (Inr None)) demo_requests demo_world"
  let ?r = "checkAndUpdateBatchStatus (demo_store (Inr None)) demo_early_snapshot ?w"
  have "fst ?r = Inr \<lparr>cr_batchStatus = Confirmed, cr_confirmedCount = 0, cr_failedCount = 0, cr_transactionStatuses = []\<rparr>"
    by code_simp
  then obtain c w' where r: "?r = (Inr c, w')" by (metis prod.collapse)
  have "sn_transactions demo_early_snapshot = []" "br_id (sn_batch demo_early_snapshot) = ''b''"
    "br_status (sn_batch demo_early_snapshot) = Pending" "slot (wo_db ?w) ''b'' = Some (Pending, Some ''tag'', ''payer'')"
    by code_simp+
  with premature_check_frees_slot[OF r] r
  have "\<exists>c w'. ?r = (Inr c, w') \<and> cr_batchStatus c = Confirmed \<and> slot (wo_db w') ''b'' = Some (Confirmed, Some ''tag'', ''payer'')"
    by fastforce
  moreover have "holds_at (api_run (demo_store (Inr None)) demo_early_check demo_world) 0 ''b'' (Some ''tag'') ''payer''"
    "holds_at (api_run (demo_store (Inr None)) demo_early_check demo_world) 3 ''bxx'' (Some ''tag'') ''payer''"
    unfolding holds_at_def by code_simp+
  ultimately show ?thesis by blast
qed




text \<open>A batch of two transactions, which the node knows: both are confirmed.\<close>

definition demo_row :: "nat \<Rightarrow> string \<Rightarrow> status \<Rightarrow> tx_row" where
  "demo_row i sig st = \<lparr>tr_id = i, tr_signature = sig, tr_blockhash = ''h'', tr_lastValidBlockHeight = Some 9, tr_status = st,
     tr_type = ''batch'', tr_batchId = Some ''b'', tr_payer = ''payer'', tr_metadata = None, tr_serializedTransaction = None\<rparr>"

definition demo_batch :: "status \<Rightarrow> batch_row" where
  "demo_batch st = \<lparr>br_id = ''b'', br_parallel = True, br_status = st, br_submissionType = parallel, br_jitoBundleId = None,
     br_cluster = ''devnet'', br_tag = Some ''tag'', br_payer = ''payer'', br_actionType = None, br_actionMetadata = None,
     br_confirmedAt = None, br_updatedAt = 0\<rparr>"

definition demo_rows :: "status \<Rightarrow> snapshot" where
  "demo_rows st = \<lparr>sn_batch = demo_batch st, sn_transactions = [demo_row 0 ''s'' st, demo_row 1 ''t'' st]\<rparr>"

definition demo_stored :: "status \<Rightarrow> world" where
  "demo_stored st = demo_world\<lparr>wo_db := \<lparr>db_batches = [demo_batch st], db_transactions = sn_transactions (demo_rows st), db_nextId = 2\<rparr>\<rparr>"

lemma demo_stored_ok: "st \<noteq> Partial \<Longrightarrow> db_ok (wo_db (demo_stored st))"
  by (simp add: demo_stored_def demo_rows_def demo_row_def demo_batch_def db_ok_def rows_ok_def clashes_def)


text \<open>
  A check of a settled batch during which the node does not answer for its transactions makes the batch
  pending again: an error counts as neither confirmed nor failed.
\<close>

theorem unanswered_check_reopens:
  assumes "checkAndUpdateBatchStatus env sn w = (Inr c, w')" and "sn_transactions sn \<noteq> []"
    and "\<And>log sig. \<exists>x. se_getTransaction env log sig = Inl x"
    and "\<And>t. t \<in> set (sn_transactions sn) \<Longrightarrow> take (length (br_id (sn_batch sn))) (tr_signature t) \<noteq> br_id (sn_batch sn)"
    and "br_submissionType (sn_batch sn) \<noteq> jito_bundle" and "br_status (sn_batch sn) \<noteq> Pending"
    and "slot (wo_db w) (br_id (sn_batch sn)) = Some (st, tag, p)"
  shows "cr_batchStatus c = Pending \<and> slot (wo_db w') (br_id (sn_batch sn)) = Some (Pending, tag, p)"
  by (rule check_unanswered[OF assms])

theorem unanswered_check_reopens_witness:
  "\<exists>c w'. checkAndUpdateBatchStatus (demo_store (Inl (Other_value []))) (demo_rows Confirmed) (demo_stored Confirmed) = (Inr c, w')
     \<and> cr_batchStatus c = Pending \<and> slot (wo_db w') ''b'' = Some (Pending, Some ''tag'', ''payer'')"
proof -
  let ?r = "checkAndUpdateBatchStatus (demo_store (Inl (Other_value []))) (demo_rows Confirmed) (demo_stored Confirmed)"
  have "map_sum id cr_batchStatus (fst ?r) = Inr Pending" by code_simp
  then obtain c where "fst ?r = Inr c" by (cases "fst ?r") auto
  then obtain w' where r: "?r = (Inr c, w')" by (metis prod.collapse)
  have id: "br_id (sn_batch (demo_rows Confirmed)) = ''b''" by (simp add: demo_rows_def demo_batch_def)
  have s: "slot (wo_db (demo_stored Confirmed)) (br_id (sn_batch (demo_rows Confirmed))) = Some (Confirmed, Some ''tag'', ''payer'')"
    by (simp add: id slot_def demo_stored_def demo_batch_def)
  have "cr_batchStatus c = Pending
      \<and> slot (wo_db w') (br_id (sn_batch (demo_rows Confirmed))) = Some (Pending, Some ''tag'', ''payer'')"
    by (rule unanswered_check_reopens[OF r _ _ _ _ _ s])
       (auto simp: demo_rows_def demo_row_def demo_batch_def demo_store_def)
  with r show ?thesis by (auto simp: id)
qed



end
