(* ===== verification/Api_Transactions.thy ===== *)
theory Api_Transactions
  imports Tx_Batching Batch_Submission
begin

text \<open>
  How the blockchain API builds its transactions: \<^verbatim>\<open>lib/utils/build-transaction.ts\<close> and the packing of instruction
  groups in \<^verbatim>\<open>governance/procedures/helpers/build-batched-transactions.ts\<close>. Signing and serializing belong to the
  Solana library and are, with the configuration, the record \<open>build_env\<close>; a transaction is built against a node of
  its own, which is named by the place of the transaction in the result.
\<close>

section \<open>buildVersionedTransaction\<close>

record built_tx =
  bt_message :: versioned_message
  bt_signatures :: "bytes list"

record build_env =
  be_cluster :: string
  be_web3 :: web3
  be_serializer :: serializer
  be_sign :: "versioned_message \<Rightarrow> pubkey list \<Rightarrow> js_error + bytes list"
  be_serialize :: "built_tx \<Rightarrow> js_error + string"
  be_transfer :: "pubkey \<Rightarrow> pubkey \<Rightarrow> int \<Rightarrow> instruction"
  be_tipAmount :: "int option"

text \<open>The texts of native errors are not those the code looks for.\<close>

fun js_message :: "js_error \<Rightarrow> string" where
  "js_message (Err m) = m"
| "js_message (Rejected m) = m"
| "js_message _ = []"

definition js_trim :: "string \<Rightarrow> string" where
  "js_trim s = rev (dropWhile is_space (rev (dropWhile is_space s)))"

definition HELIUM_COMMON_LUT_DEVNET :: pubkey where
  "HELIUM_COMMON_LUT_DEVNET = ''FnqYkQ6ZKnVKdkvYCGsEeiP5qgGqVbcFUkGduy2ta4gA''"

definition HELIUM_COMMON_LUT :: pubkey where
  "HELIUM_COMMON_LUT = ''43eY9L2spbM2b1MPDFFBStUiFGt29ziZ1nc1xbpzsfVt''"

definition getHeliumLookupTable :: "build_env \<Rightarrow> pubkey" where
  "getHeliumLookupTable env =
     (if js_trim (be_cluster env) = ''devnet'' then HELIUM_COMMON_LUT_DEVNET else HELIUM_COMMON_LUT)"

definition cluster_of :: "build_env \<Rightarrow> string" where
  "cluster_of env = (if be_cluster env = [] then ''mainnet'' else be_cluster env)"

definition build_fee_args :: "instruction list \<Rightarrow> pubkey \<Rightarrow> pubkey list \<Rightarrow> lut list \<Rightarrow> fee_args" where
  "build_fee_args instructions feePayer lutAddresses luts =
     \<lparr>fa_computeUnits = None, fa_instructions = instructions, fa_basePriorityFee = None, fa_maxPriorityFee = MAX_PRIO_FEE,
      fa_computeScaleUp = DEFAULT_COMPUTE_SCALE_UP, fa_loadedAccountsDataSizeLimit = None, fa_feePayer = Some feePayer,
      fa_recentBlockhash = None, fa_addressLookupTableAddresses = Some lutAddresses, fa_addressLookupTables = Some luts\<rparr>"

text \<open>The \<open>try\<close> around the fee estimation: the lookup tables when they were fetched, and the instructions with fees.\<close>

definition instructions_with_fees ::
  "build_env \<Rightarrow> connection \<Rightarrow> instruction list \<Rightarrow> pubkey \<Rightarrow> pubkey list \<Rightarrow> lut list option \<times> instruction list" where
  "instructions_with_fees env conn instructions feePayer lutAddresses =
     (let fallback = prependComputeBudgetIxs (be_web3 env) instructions
            (Some (of_nat (tableComputeUnitsForInstructions (cb_programId (be_web3 env)) instructions))) (Some 1) None
      in case getAddressLookupTableAccounts conn lutAddresses of
           Inl _ \<Rightarrow> (None, fallback)
         | Inr luts \<Rightarrow>
             (Some luts,
              case withPriorityFees (be_web3 env) conn (build_fee_args instructions feePayer lutAddresses luts) of
                Inl _ \<Rightarrow> fallback
              | Inr ixs \<Rightarrow> ixs))"

definition too_large :: "nat \<Rightarrow> js_error" where
  "too_large n = Err (''Transaction too large to serialize ('' @ nat_str n @ '' instructions). Split into smaller batches.'')"

definition buildVersionedTransaction ::
  "build_env \<Rightarrow> connection \<Rightarrow> instruction list \<Rightarrow> pubkey \<Rightarrow> pubkey list option \<Rightarrow> pubkey list \<Rightarrow> js_error + built_tx" where
  "buildVersionedTransaction env conn instructions feePayer lookups signers =
     (let lutAddresses = (case lookups of None \<Rightarrow> [getHeliumLookupTable env] | Some ks \<Rightarrow> ks)
      in case instructions_with_fees env conn instructions feePayer lutAddresses of (tables, ixs) \<Rightarrow>
         ebind (case ebind (getLatestBlockhash conn) (\<lambda>bh.
                       ebind (populateMissingDraftInfo conn
                         \<lparr>dr_recentBlockhash = Some bh, dr_feePayer = feePayer, dr_instructions = ixs,
                          dr_addressLookupTableAddresses = Some lutAddresses, dr_addressLookupTables = tables, dr_signers = []\<rparr>)
                       (toVersionedTx conn)) of
                  Inl e \<Rightarrow> Inl (if js_includes (js_message e) ''encoding overruns'' then too_large (length ixs) else e)
                | Inr tx \<Rightarrow> Inr tx) (\<lambda>tx.
         if signers \<noteq> [] then ebind (be_sign env tx signers) (\<lambda>sigs. Inr \<lparr>bt_message = tx, bt_signatures = sigs\<rparr>)
         else Inr \<lparr>bt_message = tx, bt_signatures = []\<rparr>))"

section \<open>buildBatchedTransactions\<close>

record group_metadata =
  gm_type :: string
  gm_description :: string
  gm_fields :: "(string \<times> string) list"

record instruction_group =
  gr_instructions :: "instruction list"
  gr_metadata :: group_metadata
  gr_signers :: "pubkey list option"

definition MAX_TX_SIZE :: nat where
  "MAX_TX_SIZE = 1232"

definition SIZE_MARGIN :: nat where
  "SIZE_MARGIN = 100"

definition DUMMY_BLOCKHASH :: string where
  "DUMMY_BLOCKHASH = replicate 32 (CHR ''1'')"

definition COMPUTE_BUDGET_PLACEHOLDERS :: "web3 \<Rightarrow> instruction list" where
  "COMPUTE_BUDGET_PLACEHOLDERS w = [setComputeUnitLimit w 200000, setComputeUnitPrice w 1]"

definition measureSize :: "build_env \<Rightarrow> connection \<Rightarrow> instruction list \<Rightarrow> pubkey \<Rightarrow> lut list \<Rightarrow> js_error + nat" where
  "measureSize env conn instructions feePayer luts =
     ebind (toVersionedTx conn
       \<lparr>dr_recentBlockhash = Some DUMMY_BLOCKHASH, dr_feePayer = feePayer,
        dr_instructions = COMPUTE_BUDGET_PLACEHOLDERS (be_web3 env) @ instructions,
        dr_addressLookupTableAddresses = None, dr_addressLookupTables = Some luts, dr_signers = []\<rparr>)
       (serialize_length (be_serializer env))"

definition mergeMetadata :: "group_metadata \<Rightarrow> group_metadata \<Rightarrow> group_metadata" where
  "mergeMetadata a b = a\<lparr>gm_description := gm_description a @ ''; '' @ gm_description b\<rparr>"

record built =
  bu_serialized :: string
  bu_metadata :: group_metadata
  bu_tx :: built_tx

definition is_oversized_error :: "js_error \<Rightarrow> bool" where
  "is_oversized_error e \<longleftrightarrow>
     js_includes (js_message e) ''encoding overruns'' \<or> js_includes (js_message e) ''too large to serialize''"

text \<open>The \<open>try\<close> of \<open>buildOrSplit\<close>.\<close>

definition build_one ::
  "build_env \<Rightarrow> connection \<Rightarrow> instruction list \<Rightarrow> group_metadata \<Rightarrow> pubkey list \<Rightarrow> pubkey \<Rightarrow> js_error + built list" where
  "build_one env conn instructions metadata signers feePayer =
     ebind (buildVersionedTransaction env conn instructions feePayer None signers) (\<lambda>tx.
     ebind (be_serialize env tx) (\<lambda>s. Inr [\<lparr>bu_serialized = s, bu_metadata = metadata, bu_tx = tx\<rparr>]))"

lemma half_bounds: "1 < n \<Longrightarrow> 0 < ceil_div n 2 \<and> ceil_div n 2 < n"
  by (auto simp: ceil_div_def)

lemma half_rest: "1 < n \<Longrightarrow> n - ceil_div n 2 < n"
  using half_bounds[of n] by simp

text \<open>The halves are built concurrently; when both are rejected the model reports the first.\<close>

function buildOrSplit ::
  "build_env \<Rightarrow> (nat list \<Rightarrow> connection) \<Rightarrow> nat list \<Rightarrow> instruction list \<Rightarrow> group_metadata \<Rightarrow> pubkey list \<Rightarrow> pubkey
   \<Rightarrow> js_error + built list" where
  "buildOrSplit env conns path instructions metadata signers feePayer =
     (case build_one env (conns path) instructions metadata signers feePayer of
        Inr r \<Rightarrow> Inr r
      | Inl e \<Rightarrow>
          if is_oversized_error e \<and> length instructions > 1 then
            let mid = ceil_div (length instructions) 2
            in ebind (buildOrSplit env conns (path @ [0]) (take mid instructions) metadata signers feePayer) (\<lambda>first.
               ebind (buildOrSplit env conns (path @ [1]) (drop mid instructions) metadata signers feePayer) (\<lambda>second.
                 Inr (first @ second)))
          else Inl e)"
  by pat_completeness auto

termination
  by (relation "measure (\<lambda>(env, conns, path, instructions, _). length instructions)") (auto simp: half_rest half_bounds)

declare buildOrSplit.simps [simp del]

text \<open>A group that is too large alone is taken apart.\<close>

definition too_big :: "build_env \<Rightarrow> connection \<Rightarrow> pubkey \<Rightarrow> lut list \<Rightarrow> instruction list \<Rightarrow> bool" where
  "too_big env conn feePayer luts ixs =
     (case measureSize env conn ixs feePayer luts of Inl _ \<Rightarrow> True | Inr sz \<Rightarrow> sz > MAX_TX_SIZE - SIZE_MARGIN)"

definition expand_group :: "build_env \<Rightarrow> connection \<Rightarrow> pubkey \<Rightarrow> lut list \<Rightarrow> instruction_group \<Rightarrow> instruction_group list" where
  "expand_group env conn feePayer luts g =
     (if too_big env conn feePayer luts (gr_instructions g)
      then map (\<lambda>ix. \<lparr>gr_instructions = [ix], gr_metadata = gr_metadata g, gr_signers = gr_signers g\<rparr>) (gr_instructions g)
      else [g])"

record packed_batch =
  pb_instructions :: "instruction list"
  pb_metadata :: group_metadata
  pb_signers :: "pubkey list"

record packing =
  pk_batches :: "packed_batch list"
  pk_instructions :: "instruction list"
  pk_metadata :: "group_metadata option"
  pk_signers :: "pubkey list"

definition group_signers :: "instruction_group \<Rightarrow> pubkey list" where
  "group_signers g = (case gr_signers g of None \<Rightarrow> [] | Some ss \<Rightarrow> ss)"

definition close_batch :: "packing \<Rightarrow> packed_batch list" where
  "close_batch s = pk_batches s @
     [\<lparr>pb_instructions = pk_instructions s, pb_metadata = the (pk_metadata s), pb_signers = pk_signers s\<rparr>]"

text \<open>The packing loop; the flag is \<open>stoppedEarly\<close>.\<close>

fun pack_groups ::
  "build_env \<Rightarrow> connection \<Rightarrow> pubkey \<Rightarrow> lut list \<Rightarrow> int \<Rightarrow> instruction_group list \<Rightarrow> packing \<Rightarrow> js_error + (packing \<times> bool)" where
  "pack_groups env conn feePayer luts maxTxs [] s = Inr (s, False)"
| "pack_groups env conn feePayer luts maxTxs (g # gs) s =
     (let candidate = pk_instructions s @ gr_instructions g;
          sz = (case measureSize env conn candidate feePayer luts of Inl _ \<Rightarrow> MAX_TX_SIZE | Inr sz \<Rightarrow> sz)
      in if sz \<le> MAX_TX_SIZE - SIZE_MARGIN then
           pack_groups env conn feePayer luts maxTxs gs
             (s\<lparr>pk_instructions := candidate,
                pk_metadata := Some (case pk_metadata s of None \<Rightarrow> gr_metadata g | Some m \<Rightarrow> mergeMetadata m (gr_metadata g)),
                pk_signers := pk_signers s @ group_signers g\<rparr>)
         else if pk_instructions s = [] then
           Inl (Err (''Single instruction exceeds max transaction size ('' @ nat_str sz @ '' > ''
             @ nat_str (MAX_TX_SIZE - SIZE_MARGIN) @ '')''))
         else let s' = s\<lparr>pk_batches := close_batch s\<rparr>
              in if int (length (pk_batches s')) \<ge> maxTxs then Inr (s', True)
                 else pack_groups env conn feePayer luts maxTxs gs
                        (s'\<lparr>pk_instructions := gr_instructions g, pk_metadata := Some (gr_metadata g), pk_signers := group_signers g\<rparr>))"

text \<open>After the loop; assigning a negative length throws.\<close>

definition pack_rest :: "int \<Rightarrow> packing \<times> bool \<Rightarrow> js_error + (packed_batch list \<times> bool)" where
  "pack_rest maxTxs = (\<lambda>(s, stopped).
     if \<not> stopped \<and> pk_instructions s \<noteq> [] then
       let bs = close_batch s
       in if int (length bs) > maxTxs then if maxTxs < 0 then Inl RangeError else Inr (take (nat maxTxs) bs, True)
          else Inr (bs, False)
     else Inr (pk_batches s, stopped))"

definition empty_packing :: packing where
  "empty_packing = \<lparr>pk_batches = [], pk_instructions = [], pk_metadata = None, pk_signers = []\<rparr>"

definition pack ::
  "build_env \<Rightarrow> connection \<Rightarrow> pubkey \<Rightarrow> lut list \<Rightarrow> int \<Rightarrow> instruction_group list \<Rightarrow> js_error + (packed_batch list \<times> bool)" where
  "pack env conn feePayer luts maxTxs groups =
     ebind (pack_groups env conn feePayer luts maxTxs (concat (map (expand_group env conn feePayer luts) groups)) empty_packing)
       (pack_rest maxTxs)"

text \<open>\<open>tipAccount\<close> is the answer of \<open>resolveJitoTipAccount\<close>.\<close>

definition getJitoTipTransaction :: "build_env \<Rightarrow> connection \<Rightarrow> js_error + pubkey \<Rightarrow> pubkey \<Rightarrow> js_error + built_tx" where
  "getJitoTipTransaction env conn tipAccount wallet =
     ebind tipAccount (\<lambda>account.
     ebind (populateMissingDraftInfo conn
       \<lparr>dr_recentBlockhash = None, dr_feePayer = wallet,
        dr_instructions = [be_transfer env wallet account (case be_tipAmount env of None \<Rightarrow> 10000 | Some n \<Rightarrow> n)],
        dr_addressLookupTableAddresses = None, dr_addressLookupTables = None, dr_signers = []\<rparr>) (\<lambda>d.
     ebind (toVersionedTx conn d) (\<lambda>tx. Inr \<lparr>bt_message = tx, bt_signatures = []\<rparr>)))"

record batched_result =
  br_transactions :: "(string \<times> group_metadata) list"
  br_versionedTransactions :: "built_tx list"
  br_hasMore :: bool

text \<open>The node for transaction \<open>i\<close> of the result is \<open>conns [i]\<close>, for its halves \<open>conns [i, 0]\<close>
  and \<open>conns [i, 1]\<close>, for the tip \<open>conns []\<close>.\<close>

definition build_batches ::
  "build_env \<Rightarrow> (nat list \<Rightarrow> connection) \<Rightarrow> pubkey \<Rightarrow> packed_batch list \<Rightarrow> js_error + built list" where
  "build_batches env conns feePayer batches =
     ebind (emap (\<lambda>(i, b). buildOrSplit env conns [i] (pb_instructions b) (pb_metadata b) (pb_signers b) feePayer)
              (enumerate 0 batches)) (\<lambda>rs. Inr (concat rs))"

definition buildBatchedTransactions ::
  "build_env \<Rightarrow> connection \<Rightarrow> (nat list \<Rightarrow> connection) \<Rightarrow> js_error + pubkey \<Rightarrow> instruction_group list \<Rightarrow> pubkey \<Rightarrow> int
   \<Rightarrow> js_error + batched_result" where
  "buildBatchedTransactions env conn conns tipAccount groups feePayer maxTxs =
     (if groups = [] then Inr \<lparr>br_transactions = [], br_versionedTransactions = [], br_hasMore = False\<rparr>
      else
        let cluster = cluster_of env;
            effectiveMaxTxs = (if cluster = ''mainnet'' \<or> cluster = ''mainnet-beta'' then maxTxs - 1 else maxTxs)
        in ebind (getAddressLookupTableAccounts conn [getHeliumLookupTable env]) (\<lambda>luts.
           ebind (pack env conn feePayer luts effectiveMaxTxs groups) (\<lambda>(batches, stoppedEarly).
           ebind (build_batches env conns feePayer batches) (\<lambda>bs.
             let transactions = map (\<lambda>b. (bu_serialized b, bu_metadata b)) bs; txs = map bu_tx bs
             in if shouldUseJitoBundle (length transactions) cluster
                then ebind (getJitoTipTransaction env (conns []) tipAccount feePayer) (\<lambda>tip.
                     ebind (be_serialize env tip) (\<lambda>s.
                       Inr \<lparr>br_transactions = transactions @
                              [(s, \<lparr>gm_type = ''jito_tip'', gm_description = ''Jito bundle tip'', gm_fields = []\<rparr>)],
                            br_versionedTransactions = txs @ [tip], br_hasMore = stoppedEarly\<rparr>))
                else Inr \<lparr>br_transactions = transactions, br_versionedTransactions = txs, br_hasMore = stoppedEarly\<rparr>))))"


section \<open>What is built\<close>

text \<open>A transaction compiled from instructions behind a prefix of ComputeBudget instructions.\<close>

definition compiled_from :: "build_env \<Rightarrow> (nat list \<Rightarrow> connection) \<Rightarrow> pubkey \<Rightarrow> instruction list \<Rightarrow> built_tx \<Rightarrow> bool" where
  "compiled_from env conns feePayer ixs tx \<longleftrightarrow>
     (\<exists>path pre bh luts. price_prefix (be_web3 env) pre ixs
        \<and> compileToV0Message (conns path) feePayer bh (pre @ ixs) luts = Inr (bt_message tx))"

definition built_from :: "build_env \<Rightarrow> (nat list \<Rightarrow> connection) \<Rightarrow> pubkey \<Rightarrow> instruction list \<Rightarrow> built_tx list \<Rightarrow> bool" where
  "built_from env conns feePayer ixs txs \<longleftrightarrow>
     (\<exists>parts. concat parts = ixs \<and> list_all2 (compiled_from env conns feePayer) parts txs)"

lemma instructions_with_fees_shape:
  assumes "web3_ok (be_web3 env)" and "instructions_with_fees env conn instructions feePayer lutAddresses = (tables, ixs)"
  obtains pre where "ixs = pre @ instructions" and "price_prefix (be_web3 env) pre instructions"
proof -
  obtain pre where pre: "prependComputeBudgetIxs (be_web3 env) instructions
      (Some (of_nat (tableComputeUnitsForInstructions (cb_programId (be_web3 env)) instructions))) (Some 1) None = pre @ instructions"
    "price_prefix (be_web3 env) pre instructions"
    using prepend_shape[OF assms(1)] .
  show thesis
  proof (cases "\<exists>luts out. withPriorityFees (be_web3 env) conn (build_fee_args instructions feePayer lutAddresses luts) = Inr out \<and> ixs = out")
    case True
    then obtain luts where w: "withPriorityFees (be_web3 env) conn (build_fee_args instructions feePayer lutAddresses luts) = Inr ixs" by blast
    obtain pre where "ixs = pre @ instructions" "price_prefix (be_web3 env) pre instructions"
      using withPriorityFees_shape[OF assms(1) w] by (auto simp: build_fee_args_def)
    then show thesis by (rule that)
  next
    case False
    with assms(2) pre show thesis
      by (intro that[of pre]) (auto simp: instructions_with_fees_def Let_def split: sum.splits)
  qed
qed

lemma compile_populated:
  assumes "populateMissingDraftInfo conn d = Inr d'" and "toVersionedTx conn d' = Inr tx"
  shows "\<exists>bh luts. compileToV0Message conn (dr_feePayer d) bh (dr_instructions d) luts = Inr tx"
proof -
  have "dr_feePayer d' = dr_feePayer d" "dr_instructions d' = dr_instructions d"
    using assms(1) by (auto simp: populateMissingDraftInfo_def split: option.splits if_splits elim!: ebind_InrE)
  with assms(2) show ?thesis by (auto simp: toVersionedTx_def split: option.splits)
qed

lemma buildVersionedTransaction_compiled:
  assumes "web3_ok (be_web3 env)" and "buildVersionedTransaction env (conns path) ixs feePayer lookups signers = Inr tx"
  shows "compiled_from env conns feePayer ixs tx"
proof -
  obtain lutAddresses tables out where f: "instructions_with_fees env (conns path) ixs feePayer lutAddresses = (tables, out)"
    and c: "\<exists>bh luts. compileToV0Message (conns path) feePayer bh out luts = Inr (bt_message tx)"
    using assms(2) unfolding buildVersionedTransaction_def Let_def
    by (auto split: prod.splits if_splits sum.splits elim!: ebind_InrE dest!: compile_populated) blast+
  from instructions_with_fees_shape[OF assms(1) f] obtain pre where "out = pre @ ixs" "price_prefix (be_web3 env) pre ixs" .
  with c show ?thesis by (auto simp: compiled_from_def)
qed

lemma build_one_built:
  assumes "web3_ok (be_web3 env)" and "build_one env (conns path) ixs md signers feePayer = Inr r"
  shows "built_from env conns feePayer ixs (map bu_tx r)"
proof -
  from assms(2) obtain tx s where "buildVersionedTransaction env (conns path) ixs feePayer None signers = Inr tx"
      and r: "r = [\<lparr>bu_serialized = s, bu_metadata = md, bu_tx = tx\<rparr>]"
    by (auto simp: build_one_def elim!: ebind_InrE)
  from buildVersionedTransaction_compiled[of env conns path, OF assms(1) this(1)] show ?thesis
    unfolding built_from_def by (intro exI[of _ "[ixs]"]) (simp add: r)
qed

lemma built_from_append:
  "built_from env conns feePayer xs ts \<Longrightarrow> built_from env conns feePayer ys us \<Longrightarrow> built_from env conns feePayer (xs @ ys) (ts @ us)"
  unfolding built_from_def by (metis concat_append list_all2_appendI)

lemma buildOrSplit_built:
  assumes "web3_ok (be_web3 env)"
  shows "buildOrSplit env conns path ixs md signers feePayer = Inr r \<Longrightarrow> built_from env conns feePayer ixs (map bu_tx r)"
  using assms
proof (induction env conns path ixs md signers feePayer arbitrary: r rule: buildOrSplit.induct)
  case (1 env conns path ixs md signers feePayer)
  show ?case
  proof (cases "build_one env (conns path) ixs md signers feePayer")
    case (Inr one)
    with "1.prems" build_one_built[of env conns path, OF "1.prems"(2) Inr] show ?thesis by (simp add: buildOrSplit.simps[of _ _ _ ixs])
  next
    case (Inl e)
    let ?mid = "ceil_div (length ixs) 2"
    from "1.prems"(1) Inl obtain a b where big: "is_oversized_error e \<and> length ixs > 1"
      and a: "buildOrSplit env conns (path @ [0]) (take ?mid ixs) md signers feePayer = Inr a"
      and b: "buildOrSplit env conns (path @ [1]) (drop ?mid ixs) md signers feePayer = Inr b" and r: "r = a @ b"
      by (auto simp: buildOrSplit.simps[of _ _ _ ixs] Let_def split: if_splits elim!: ebind_InrE)
    from built_from_append[OF "1.IH"(1)[OF Inl big refl a "1.prems"(2)] "1.IH"(2)[OF Inl big refl b "1.prems"(2)]]
    show ?thesis by (simp add: r)
  qed
qed

section \<open>The packing\<close>

abbreviation flat :: "instruction_group list \<Rightarrow> instruction list" where
  "flat gs \<equiv> concat (map gr_instructions gs)"

lemma flat_append: "flat (xs @ ys) = flat xs @ flat ys"
  by simp

lemma flat_concat: "flat (concat gss) = concat (map flat gss)"
  by (induction gss) simp_all

lemma flat_expand: "flat (concat (map (expand_group env conn feePayer luts) groups)) = flat groups"
  by (induction groups) (auto simp: expand_group_def comp_def)

text \<open>A batch fits, or is a single instruction.\<close>

definition batch_ok :: "build_env \<Rightarrow> connection \<Rightarrow> pubkey \<Rightarrow> lut list \<Rightarrow> instruction list \<Rightarrow> bool" where
  "batch_ok env conn feePayer luts ixs \<longleftrightarrow> \<not> too_big env conn feePayer luts ixs \<or> length ixs \<le> 1"

lemma expanded_ok:
  "g \<in> set (concat (map (expand_group env conn feePayer luts) groups)) \<Longrightarrow> batch_ok env conn feePayer luts (gr_instructions g)"
  by (auto simp: expand_group_def batch_ok_def split: if_splits)

lemma measured_fits:
  "(case measureSize env conn ixs feePayer luts of Inl _ \<Rightarrow> MAX_TX_SIZE | Inr sz \<Rightarrow> sz) \<le> MAX_TX_SIZE - SIZE_MARGIN
    \<longleftrightarrow> \<not> too_big env conn feePayer luts ixs"
  by (auto simp: too_big_def MAX_TX_SIZE_def SIZE_MARGIN_def split: sum.splits)

text \<open>
  The state of the loop: the batches and the open one hold consecutive groups, every batch is acceptable, and there
  is room for one more.
\<close>

definition packed ::
  "build_env \<Rightarrow> connection \<Rightarrow> pubkey \<Rightarrow> lut list \<Rightarrow> instruction_group list list \<Rightarrow> instruction_group list \<Rightarrow> packing \<Rightarrow> bool" where
  "packed env conn feePayer luts gss cur s \<longleftrightarrow>
     map pb_instructions (pk_batches s) = map flat gss \<and> pk_instructions s = flat cur
     \<and> (\<forall>gs \<in> set (cur # gss). batch_ok env conn feePayer luts (flat gs))"

lemma pack_groups_spec:
  assumes "pack_groups env conn feePayer luts maxTxs gs s = Inr (s', stopped)"
    and "packed env conn feePayer luts gss cur s" and "int (length (pk_batches s)) < maxTxs"
    and "\<forall>g \<in> set gs. batch_ok env conn feePayer luts (gr_instructions g)"
  shows "\<exists>gss' cur' rest. concat gss' @ cur' @ rest = concat gss @ cur @ gs
    \<and> map pb_instructions (pk_batches s') = map flat gss' \<and> (\<forall>gs \<in> set gss'. batch_ok env conn feePayer luts (flat gs))
    \<and> (if stopped then cur' = [] \<and> rest \<noteq> [] \<and> int (length (pk_batches s')) = maxTxs
       else rest = [] \<and> packed env conn feePayer luts gss' cur' s' \<and> int (length (pk_batches s')) < maxTxs)"
  using assms
proof (induction env conn feePayer luts maxTxs gs s arbitrary: gss cur rule: pack_groups.induct)
  case (1 env conn feePayer luts maxTxs s)
  then show ?case by (intro exI[of _ gss] exI[of _ cur] exI[of _ "[]"]) (auto simp: packed_def)
next
  case (2 env conn feePayer luts maxTxs g gs s)
  let ?cand = "pk_instructions s @ gr_instructions g"
  let ?sz = "case measureSize env conn ?cand feePayer luts of Inl _ \<Rightarrow> MAX_TX_SIZE | Inr sz \<Rightarrow> sz"
  show ?case
  proof (cases "?sz \<le> MAX_TX_SIZE - SIZE_MARGIN")
    case True
    let ?s = "s\<lparr>pk_instructions := ?cand,
                pk_metadata := Some (case pk_metadata s of None \<Rightarrow> gr_metadata g | Some m \<Rightarrow> mergeMetadata m (gr_metadata g)),
                pk_signers := pk_signers s @ group_signers g\<rparr>"
    from True have "\<not> too_big env conn feePayer luts ?cand" unfolding measured_fits .
    with "2.prems"(2) have "packed env conn feePayer luts gss (cur @ [g]) ?s" by (simp add: packed_def batch_ok_def)
    moreover have "pack_groups env conn feePayer luts maxTxs gs ?s = Inr (s', stopped)"
      using "2.prems"(1) True by (simp add: Let_def)
    ultimately show ?thesis using "2.IH"(1)[OF refl refl True, of gss "cur @ [g]"] "2.prems"(3,4) by simp
  next
    case False
    with "2.prems"(1) have ne: "pk_instructions s \<noteq> []" by (auto simp: Let_def split: if_splits)
    let ?s = "s\<lparr>pk_batches := close_batch s\<rparr>"
    have closed: "map pb_instructions (pk_batches ?s) = map flat (gss @ [cur])" "\<forall>gs \<in> set (gss @ [cur]). batch_ok env conn feePayer luts (flat gs)"
      using "2.prems"(2) by (auto simp: packed_def close_batch_def)
    have len: "length (pk_batches ?s) = Suc (length (pk_batches s))" by (simp add: close_batch_def)
    show ?thesis
    proof (cases "int (length (pk_batches ?s)) \<ge> maxTxs")
      case True
      with "2.prems"(1) False ne have "s' = ?s" "stopped" by (auto simp: Let_def)
      with closed True "2.prems"(3) len show ?thesis
        by (intro exI[of _ "gss @ [cur]"] exI[of _ "[]"] exI[of _ "g # gs"]) auto
    next
      case room: False
      let ?t = "?s\<lparr>pk_instructions := gr_instructions g, pk_metadata := Some (gr_metadata g), pk_signers := group_signers g\<rparr>"
      have "pack_groups env conn feePayer luts maxTxs gs ?t = Inr (s', stopped)"
        using "2.prems"(1) False ne room by (simp add: Let_def)
      moreover have "packed env conn feePayer luts (gss @ [cur]) [g] ?t"
        using closed "2.prems"(4) by (simp add: packed_def)
      ultimately show ?thesis
        using "2.IH"(2)[OF refl refl False ne refl room, of "gss @ [cur]" "[g]"] "2.prems"(4) room by simp
    qed
  qed
qed

lemma buildOrSplit_serialized:
  "buildOrSplit env conns path ixs md signers feePayer = Inr r \<Longrightarrow> list_all (\<lambda>b. be_serialize env (bu_tx b) = Inr (bu_serialized b)) r"
proof (induction env conns path ixs md signers feePayer arbitrary: r rule: buildOrSplit.induct)
  case (1 env conns path ixs md signers feePayer)
  show ?case
  proof (cases "build_one env (conns path) ixs md signers feePayer")
    case (Inr one)
    with "1.prems" show ?thesis by (auto simp: buildOrSplit.simps[of _ _ _ ixs] build_one_def elim!: ebind_InrE)
  next
    case (Inl e)
    let ?mid = "ceil_div (length ixs) 2"
    from "1.prems" Inl obtain a b where big: "is_oversized_error e \<and> length ixs > 1"
      and a: "buildOrSplit env conns (path @ [0]) (take ?mid ixs) md signers feePayer = Inr a"
      and b: "buildOrSplit env conns (path @ [1]) (drop ?mid ixs) md signers feePayer = Inr b" and r: "r = a @ b"
      by (auto simp: buildOrSplit.simps[of _ _ _ ixs] Let_def split: if_splits elim!: ebind_InrE)
    from "1.IH"(1)[OF Inl big refl a] "1.IH"(2)[OF Inl big refl b] show ?thesis by (simp add: r)
  qed
qed

lemma pack_spec:
  assumes "pack env conn feePayer luts maxTxs groups = Inr (batches, left)" and "0 < maxTxs"
  shows "\<exists>gss empty rest. concat gss @ empty @ rest = concat (map (expand_group env conn feePayer luts) groups)
    \<and> flat empty = [] \<and> (left \<longleftrightarrow> rest \<noteq> []) \<and> map pb_instructions batches = map flat gss
    \<and> int (length gss) \<le> maxTxs \<and> (\<forall>gs \<in> set gss. batch_ok env conn feePayer luts (flat gs))"
proof -
  let ?gs = "concat (map (expand_group env conn feePayer luts) groups)"
  from assms(1) obtain s stopped where g: "pack_groups env conn feePayer luts maxTxs ?gs empty_packing = Inr (s, stopped)"
    and r: "pack_rest maxTxs (s, stopped) = Inr (batches, left)" by (auto simp: pack_def elim!: ebind_InrE)
  have "packed env conn feePayer luts [] [] empty_packing" by (simp add: packed_def empty_packing_def batch_ok_def)
  from pack_groups_spec[OF g this] expanded_ok[of _ env conn feePayer luts groups] assms(2)
  obtain gss cur rest where *: "concat gss @ cur @ rest = ?gs" "map pb_instructions (pk_batches s) = map flat gss"
      "\<forall>gs \<in> set gss. batch_ok env conn feePayer luts (flat gs)"
    and st: "if stopped then cur = [] \<and> rest \<noteq> [] \<and> int (length (pk_batches s)) = maxTxs
       else rest = [] \<and> packed env conn feePayer luts gss cur s \<and> int (length (pk_batches s)) < maxTxs"
    by (auto simp: empty_packing_def)
  have len: "length gss = length (pk_batches s)" using arg_cong[OF *(2), of length] by simp
  show ?thesis
  proof (cases "\<not> stopped \<and> pk_instructions s \<noteq> []")
    case True
    with r st have b: "batches = close_batch s" "\<not> left"
      by (auto simp: pack_rest_def close_batch_def Let_def split: if_splits)
    with * st True len show ?thesis
      by (intro exI[of _ "gss @ [cur]"] exI[of _ "[]"] exI[of _ "[]"]) (auto simp: packed_def close_batch_def)
  next
    case False
    with r have b: "batches = pk_batches s" "left = stopped" by (auto simp: pack_rest_def)
    with * st False len show ?thesis
      by (intro exI[of _ gss] exI[of _ cur] exI[of _ rest]) (auto simp: packed_def split: if_splits)
  qed
qed

lemma build_batches_built:
  assumes "web3_ok (be_web3 env)" and "build_batches env conns feePayer batches = Inr bs"
  shows "\<exists>txss. list_all2 (built_from env conns feePayer) (map pb_instructions batches) txss \<and> map bu_tx bs = concat txss"
proof -
  from assms(2) obtain rs where rs: "emap (\<lambda>(i, b). buildOrSplit env conns [i] (pb_instructions b) (pb_metadata b) (pb_signers b) feePayer)
      (enumerate 0 batches) = Inr rs" and bs: "bs = concat rs" by (auto simp: build_batches_def elim!: ebind_InrE)
  have len: "length rs = length batches" using emap_Inr_length[OF rs] by simp
  have "built_from env conns feePayer (pb_instructions (batches ! i)) (map bu_tx (rs ! i))" if "i < length batches" for i
    using emap_Inr_nth[OF rs, of i] that by (auto simp: nth_enumerate_eq intro!: buildOrSplit_built[OF assms(1)])
  then show ?thesis
    by (intro exI[of _ "map (map bu_tx) rs"]) (simp add: bs len list_all2_conv_all_nth map_concat)
qed

text \<open>
  The transactions hold the groups in order, whole unless a group is too large alone, and each is acceptable: what is
  left out is a suffix, and the result says so.
\<close>

lemma batched_parts:
  assumes "web3_ok (be_web3 env)" and "groups \<noteq> []" and "1 < maxTxs"
    and "buildBatchedTransactions env conn conns tipAccount groups feePayer maxTxs = Inr r"
  shows "\<exists>luts gss empty rest txss tip. getAddressLookupTableAccounts conn [getHeliumLookupTable env] = Inr luts
    \<and> concat gss @ empty @ rest = concat (map (expand_group env conn feePayer luts) groups) \<and> flat empty = []
    \<and> (br_hasMore r \<longleftrightarrow> rest \<noteq> []) \<and> int (length gss) \<le> maxTxs
    \<and> (\<forall>gs \<in> set gss. batch_ok env conn feePayer luts (flat gs))
    \<and> list_all2 (built_from env conns feePayer) (map flat gss) txss
    \<and> br_versionedTransactions r = concat txss @ tip \<and> length tip \<le> 1
    \<and> (tip \<noteq> [] \<longleftrightarrow> shouldUseJitoBundle (length (concat txss)) (cluster_of env))"
proof -
  let ?c = "cluster_of env"
  let ?mx = "if ?c = ''mainnet'' \<or> ?c = ''mainnet-beta'' then maxTxs - 1 else maxTxs"
  from assms(2,4) obtain luts batches left bs where l: "getAddressLookupTableAccounts conn [getHeliumLookupTable env] = Inr luts"
    and p: "pack env conn feePayer luts ?mx groups = Inr (batches, left)" and b: "build_batches env conns feePayer batches = Inr bs"
    and r: "(if shouldUseJitoBundle (length bs) ?c
       then ebind (getJitoTipTransaction env (conns []) tipAccount feePayer) (\<lambda>tip.
              ebind (be_serialize env tip) (\<lambda>s.
                Inr \<lparr>br_transactions = map (\<lambda>b. (bu_serialized b, bu_metadata b)) bs @
                       [(s, \<lparr>gm_type = ''jito_tip'', gm_description = ''Jito bundle tip'', gm_fields = []\<rparr>)],
                     br_versionedTransactions = map bu_tx bs @ [tip], br_hasMore = left\<rparr>))
       else Inr \<lparr>br_transactions = map (\<lambda>b. (bu_serialized b, bu_metadata b)) bs,
              br_versionedTransactions = map bu_tx bs, br_hasMore = left\<rparr>) = Inr r"
    unfolding buildBatchedTransactions_def Let_def length_map by (auto elim!: ebind_InrE)
  from assms(3) have "0 < ?mx" by simp
  from pack_spec[OF p this] obtain gss empty rest where
      1: "concat gss @ empty @ rest = concat (map (expand_group env conn feePayer luts) groups)"
        "flat empty = []" "left \<longleftrightarrow> rest \<noteq> []" "int (length gss) \<le> ?mx"
        "\<forall>gs \<in> set gss. batch_ok env conn feePayer luts (flat gs)"
    and i: "map pb_instructions batches = map flat gss" by blast
  from build_batches_built[OF assms(1) b] obtain txss where
      2: "list_all2 (built_from env conns feePayer) (map flat gss) txss" and t: "map bu_tx bs = concat txss" by (auto simp: i)
  from 1(4) have 3: "int (length gss) \<le> maxTxs" by (simp split: if_splits)
  have n: "length bs = length (concat txss)" using arg_cong[OF t, of length] by simp
  from r obtain tip where "br_versionedTransactions r = concat txss @ tip \<and> length tip \<le> 1 \<and> br_hasMore r = left
      \<and> (tip \<noteq> [] \<longleftrightarrow> shouldUseJitoBundle (length (concat txss)) ?c)"
  proof (cases "shouldUseJitoBundle (length bs) ?c")
    case True
    with r obtain tx where "br_versionedTransactions r = concat txss @ [tx]" "br_hasMore r = left" by (auto simp: t elim!: ebind_InrE)
    with True n that[of "[tx]"] show thesis by simp
  next
    case False
    with r n that[of "[]"] show thesis by (auto simp: t)
  qed
  with l 1(1-3,5) 2 3 show ?thesis by metis
qed


lemma batched_serialized:
  assumes "buildBatchedTransactions env conn conns tipAccount groups feePayer maxTxs = Inr r"
  shows "list_all2 (\<lambda>tx t. be_serialize env tx = Inr (fst t)) (br_versionedTransactions r) (br_transactions r)"
proof -
  have b: "list_all (\<lambda>b. be_serialize env (bu_tx b) = Inr (bu_serialized b)) bs" if "build_batches env conns feePayer batches = Inr bs" for batches bs
  proof -
    from that obtain rs where rs: "emap (\<lambda>(i, b). buildOrSplit env conns [i] (pb_instructions b) (pb_metadata b) (pb_signers b) feePayer)
        (enumerate 0 batches) = Inr rs" and bs: "bs = concat rs" by (auto simp: build_batches_def elim!: ebind_InrE)
    have "list_all (\<lambda>b. be_serialize env (bu_tx b) = Inr (bu_serialized b)) (rs ! i)" if "i < length rs" for i
      using emap_Inr_nth[OF rs, of i] emap_Inr_length[OF rs] that by (auto simp: nth_enumerate_eq intro!: buildOrSplit_serialized)
    then show ?thesis by (fastforce simp: bs list_all_iff in_set_conv_nth)
  qed
  have m: "list_all2 (\<lambda>tx t. be_serialize env tx = Inr (fst t)) (map bu_tx bs) (map (\<lambda>b. (bu_serialized b, bu_metadata b)) bs)"
    if "list_all (\<lambda>b. be_serialize env (bu_tx b) = Inr (bu_serialized b)) bs" for bs
    using that by (induction bs) simp_all
  from assms show ?thesis
    by (auto simp: buildBatchedTransactions_def Let_def split: if_splits elim!: ebind_InrE intro!: m b list_all2_appendI)
qed

text \<open>Without the flag, every instruction of every group is in a transaction.\<close>

theorem buildBatchedTransactions_complete:
  assumes "web3_ok (be_web3 env)" and "groups \<noteq> []" and "1 < maxTxs"
    and "buildBatchedTransactions env conn conns tipAccount groups feePayer maxTxs = Inr r" and "\<not> br_hasMore r"
  shows "\<exists>parts txs tip. concat parts = flat groups \<and> list_all2 (compiled_from env conns feePayer) parts txs
    \<and> br_versionedTransactions r = txs @ tip \<and> length tip \<le> 1"
proof -
  obtain luts gss empty rest txss tip where
    1: "concat gss @ empty @ rest = concat (map (expand_group env conn feePayer luts) groups)" "flat empty = []"
      "br_hasMore r \<longleftrightarrow> rest \<noteq> []"
      "list_all2 (built_from env conns feePayer) (map flat gss) txss"
      "br_versionedTransactions r = concat txss @ tip" "length tip \<le> 1"
    using batched_parts[OF assms(1-4)] by metis
  have "flat groups = flat (concat gss @ empty @ rest)" unfolding 1(1) flat_expand ..
  with 1(2,3) assms(5) have f: "flat groups = concat (map flat gss)" by (simp only: flat_append flat_concat) simp
  have "\<exists>parts. concat parts = concat xs \<and> list_all2 (compiled_from env conns feePayer) parts (concat tss)"
    if "list_all2 (built_from env conns feePayer) xs tss" for xs tss
    using that
  proof (induction rule: list_all2_induct)
    case (Cons x xs ts tss)
    from Cons(1,3) show ?case unfolding built_from_def by (metis concat.simps(2) concat_append list_all2_appendI)
  qed simp
  from this[OF 1(4)] obtain parts where "concat parts = concat (map flat gss)" "list_all2 (compiled_from env conns feePayer) parts (concat txss)"
    by blast
  with 1(5,6) f show ?thesis by metis
qed

text \<open>
  A single instruction that is too large is refused when it comes first, and packed when it comes later: the message
  of the first case is the check that the second one lacks.
\<close>

theorem oversized_instruction_only_first:
  assumes "too_big env conn feePayer luts [big]" and "\<not> too_big env conn feePayer luts [ix]"
    and "too_big env conn feePayer luts [ix, big]" and "1 < maxTxs"
  shows "(\<exists>e. pack env conn feePayer luts maxTxs [\<lparr>gr_instructions = [big], gr_metadata = m, gr_signers = None\<rparr>] = Inl e)
    \<and> (\<exists>bs. pack env conn feePayer luts maxTxs [\<lparr>gr_instructions = [ix], gr_metadata = m, gr_signers = None\<rparr>,
          \<lparr>gr_instructions = [big], gr_metadata = m, gr_signers = None\<rparr>] = Inr (bs, False)
        \<and> map pb_instructions bs = [[ix], [big]])"
  using assms
  by (simp add: pack_def expand_group_def empty_packing_def measured_fits[simplified] pack_rest_def close_batch_def Let_def)

section \<open>Witnesses\<close>

definition example_build :: build_env where
  "example_build =
     \<lparr>be_cluster = ''mainnet'', be_web3 = solana_web3,
      be_serializer = \<lparr>serialize_length = (\<lambda>v. Inr (200 * length (vm_compiledInstructions v))), signatures_length = (\<lambda>v. 0)\<rparr>,
      be_sign = (\<lambda>v ss. Inr []), be_serialize = (\<lambda>tx. Inr ''tx''), be_transfer = (\<lambda>a b n. num_ix 0), be_tipAmount = None\<rparr>"

definition example_group :: "byte list \<Rightarrow> instruction_group" where
  "example_group ns = \<lparr>gr_instructions = map num_ix ns,
     gr_metadata = \<lparr>gm_type = ''t'', gm_description = ''d'', gm_fields = []\<rparr>, gr_signers = None\<rparr>"

lemma example_measure: "measureSize example_build counting_conn ixs payer luts = Inr (200 * (2 + length ixs))"
  by (simp add: measureSize_def toVersionedTx_def counting_conn_def example_build_def COMPUTE_BUDGET_PLACEHOLDERS_def)

lemma example_too_big: "too_big example_build counting_conn payer luts ixs \<longleftrightarrow> 3 < length ixs"
  by (auto simp: too_big_def example_measure MAX_TX_SIZE_def SIZE_MARGIN_def)

lemma example_pack:
  "\<exists>bs. pack example_build counting_conn ''me'' luts 4 [example_group [1, 2], example_group [3, 4]] = Inr (bs, False)
    \<and> map pb_instructions bs = [map num_ix [1, 2], map num_ix [3, 4]] \<and> map pb_signers bs = [[], []]"
  by (simp add: pack_def expand_group_def example_too_big empty_packing_def example_measure MAX_TX_SIZE_def SIZE_MARGIN_def
      pack_rest_def close_batch_def Let_def example_group_def group_signers_def)

lemma example_luts: "getAddressLookupTableAccounts counting_conn ks = Inr []"
proof -
  have "collect_luts counting_conn (zip ks (map (\<lambda>_. None) ks)) = Inr []" by (induction ks) simp_all
  moreover have "getMultipleAccountsInfo counting_conn ks = Inr (map (\<lambda>_. None) ks)"
    by (simp add: counting_conn_def demo_conn_def)
  ultimately show ?thesis by (simp add: getAddressLookupTableAccounts_def)
qed

lemma example_compiles: "\<exists>d' tx. populateMissingDraftInfo counting_conn d = Inr d' \<and> toVersionedTx counting_conn d' = Inr tx"
proof -
  have "compileToV0Message counting_conn payer bh ixs luts \<noteq> Inl e" for payer bh ixs luts e by (simp add: counting_conn_def)
  then have "\<exists>tx. compileToV0Message counting_conn payer bh ixs luts = Inr tx" for payer bh ixs luts by (metis sumE)
  then show ?thesis by (auto simp: populateMissingDraftInfo_def toVersionedTx_def example_luts split: option.splits)
qed

lemma example_builds: "\<exists>b. buildOrSplit example_build (\<lambda>_. counting_conn) path ixs md [] payer = Inr [b]"
proof -
  obtain tables out where f: "instructions_with_fees example_build counting_conn ixs payer [getHeliumLookupTable example_build] = (tables, out)"
    by (cases "instructions_with_fees example_build counting_conn ixs payer [getHeliumLookupTable example_build]")
  obtain d' tx where "populateMissingDraftInfo counting_conn \<lparr>dr_recentBlockhash = Some ''bh'', dr_feePayer = payer, dr_instructions = out,
        dr_addressLookupTableAddresses = Some [getHeliumLookupTable example_build], dr_addressLookupTables = tables, dr_signers = []\<rparr> = Inr d'"
      "toVersionedTx counting_conn d' = Inr tx"
    using example_compiles by blast
  then have "buildVersionedTransaction example_build counting_conn ixs payer None [] = Inr \<lparr>bt_message = tx, bt_signatures = []\<rparr>"
    by (simp add: buildVersionedTransaction_def f Let_def)
  then show ?thesis by (simp add: buildOrSplit.simps[of _ _ _ ixs] build_one_def example_build_def)
qed

lemma example_batched:
  "\<exists>r. buildBatchedTransactions example_build counting_conn (\<lambda>_. counting_conn) (Inr ''tipper'')
     [example_group [1, 2], example_group [3, 4]] ''me'' 5 = Inr r \<and> length (br_versionedTransactions r) = 3 \<and> \<not> br_hasMore r"
proof -
  obtain bs where p: "pack example_build counting_conn ''me'' [] 4 [example_group [1, 2], example_group [3, 4]] = Inr (bs, False)"
    and i: "map pb_instructions bs = [map num_ix [1, 2], map num_ix [3, 4]]" and sg: "map pb_signers bs = [[], []]"
    using example_pack[of "[]"] by (elim exE conjE)
  from arg_cong[OF i, of length] obtain b1 b2 where bs: "bs = [b1, b2]" by (auto simp: length_Suc_conv)
  with sg have ns: "pb_signers b1 = []" "pb_signers b2 = []" by simp_all
  obtain x1 x2 where "buildOrSplit example_build (\<lambda>_. counting_conn) [0] (pb_instructions b1) (pb_metadata b1) [] ''me'' = Inr [x1]"
      "buildOrSplit example_build (\<lambda>_. counting_conn) [1] (pb_instructions b2) (pb_metadata b2) [] ''me'' = Inr [x2]"
    using example_builds by metis
  then have b: "build_batches example_build (\<lambda>_. counting_conn) ''me'' bs = Inr [x1, x2]"
    by (simp add: build_batches_def bs ns)
  have "\<exists>tip. getJitoTipTransaction example_build counting_conn (Inr ''tipper'') ''me'' = Inr tip"
    using example_compiles[of "\<lparr>dr_recentBlockhash = None, dr_feePayer = ''me'',
        dr_instructions = [be_transfer example_build ''me'' ''tipper'' (case be_tipAmount example_build of None \<Rightarrow> 10000 | Some n \<Rightarrow> n)],
        dr_addressLookupTableAddresses = None, dr_addressLookupTables = None, dr_signers = []\<rparr>"]
    by (auto simp: getJitoTipTransaction_def)
  moreover have "cluster_of example_build = ''mainnet''" "be_serialize example_build tx = Inr ''tx''" for tx
    by (simp_all add: cluster_of_def example_build_def)
  ultimately show ?thesis using p b
    by (auto simp: buildBatchedTransactions_def Let_def example_luts shouldUseJitoBundle_def)
qed

lemma example_build_ok: "web3_ok (be_web3 example_build)"
  using solana_web3_ok by (simp add: example_build_def)


theorem buildBatchedTransactions_complete_witness:
  "\<exists>parts txs. concat parts = map num_ix [1, 2, 3, 4]
     \<and> list_all2 (compiled_from example_build (\<lambda>_. counting_conn) ''me'') parts txs"
proof -
  let ?gs = "[example_group [1, 2], example_group [3, 4]]"
  obtain r where r: "buildBatchedTransactions example_build counting_conn (\<lambda>_. counting_conn) (Inr ''tipper'') ?gs ''me'' 5 = Inr r"
    and len: "\<not> br_hasMore r" using example_batched by blast
  from buildBatchedTransactions_complete[OF example_build_ok _ _ r len] show ?thesis by (auto simp: example_group_def)
qed

end
