(* ===== verification/Position_Claims.thy ===== *)
theory Position_Claims
  imports JS_Number
begin

text \<open>
  Claims of the rewards of locked positions: \<^verbatim>\<open>isClaimed\<close> of \<^verbatim>\<open>packages/voter-stake-registry-sdk/src/index.ts\<close>, the
  addresses and epochs of \<^verbatim>\<open>packages/helium-sub-daos-sdk/src\<close>, \<^verbatim>\<open>buildClaimInstructions\<close> of the blockchain API and
  \<^verbatim>\<open>formPositionClaims\<close> of \<^verbatim>\<open>packages/voter-stake-registry-hooks\<close>. A \<open>BN\<close> is an integer, the bitmap of claimed
  epochs, a \<open>u128\<close>, a word. The node, the account decoder, the derivation of addresses and the builder of
  the claim instructions are the record \<open>governance_env\<close>.
\<close>

unbundle bit_operations_syntax

section \<open>BN and buffers\<close>

text \<open>\<open>div\<close> of \<open>BN\<close> truncates towards zero; \<open>toNumber\<close> and \<open>new BN(number)\<close> take 53 bits.\<close>

definition bn_div :: "int \<Rightarrow> int \<Rightarrow> int" where
  "bn_div a b = sgn a * sgn b * (\<bar>a\<bar> div \<bar>b\<bar>)"

definition bn_toNumber :: "int \<Rightarrow> js_error + int" where
  "bn_toNumber n = (if \<bar>n\<bar> < 2 ^ 53 then Inr n else Inl (Err ''Number can only safely store up to 53 bits''))"

definition bn_of_number :: "int \<Rightarrow> js_error + int" where
  "bn_of_number n = (if \<bar>n\<bar> < 2 ^ 53 then Inr n else Inl (Err ''Assertion failed''))"

definition u64le :: "nat \<Rightarrow> bytes" where
  "u64le n = map (\<lambda>i. word_of_nat (n div 256 ^ i)) [0..<8]"

definition writeBigUInt64LE :: "int \<Rightarrow> js_error + bytes" where
  "writeBigUInt64LE n = (if 0 \<le> n \<and> n < 2 ^ 64 then Inr (u64le (nat n)) else Inl RangeError)"

definition readBigInt64LE :: "bytes \<Rightarrow> nat \<Rightarrow> js_error + int" where
  "readBigInt64LE b off =
     (if off + 8 \<le> length b then Inr (sint (word_rcat (rev (js_slice b off (off + 8))) :: 64 word)) else Inl RangeError)"

definition utf8 :: "string \<Rightarrow> bytes" where
  "utf8 s = map (\<lambda>c. word_of_nat (of_char c)) s"

section \<open>Accounts\<close>

record delegated_position =
  dp_subDao :: pubkey
  dp_lastClaimedEpoch :: int
  dp_claimedEpochsBitmap :: "128 word"
  dp_expirationTs :: int

record position =
  ps_mint :: pubkey
  ps_pubkey :: pubkey
  ps_registrar :: pubkey
  ps_lockupKind :: string
  ps_endTs :: int

text \<open>A position as the API passes it, with its delegation.\<close>

record position_info = position +
  pi_delegatedPositionKey :: pubkey
  pi_delegatedPosition :: delegated_position

record sub_dao =
  sd_dao :: pubkey
  sd_dntMint :: pubkey
  sd_delegatorPool :: pubkey

record dao =
  da_hntMint :: pubkey
  da_delegatorPool :: pubkey

record epoch_info =
  ei_rewardsIssuedAt :: "int option"
  ei_hntRewardsIssued :: int

text \<open>
  The accounts of a claim; \<open>cl_rewardMint\<close> and \<open>cl_epochInfo\<close> are \<open>hntMint\<close> and \<open>daoEpochInfo\<close> of the first kind of
  claim, \<open>dntMint\<close> and \<open>subDaoEpochInfo\<close> of the second, which has no payer.
\<close>

record claim_accounts =
  cl_payer :: "pubkey option"
  cl_position :: pubkey
  cl_positionMint :: pubkey
  cl_positionTokenAccount :: pubkey
  cl_positionAuthority :: pubkey
  cl_registrar :: pubkey
  cl_dao :: pubkey
  cl_subDao :: pubkey
  cl_delegatedPosition :: pubkey
  cl_rewardMint :: pubkey
  cl_epochInfo :: pubkey
  cl_delegatorPool :: pubkey
  cl_delegatorAta :: pubkey
  cl_delegatorPoolCircuitBreaker :: pubkey
  cl_vsrProgram :: pubkey
  cl_systemProgram :: pubkey
  cl_circuitBreakerProgram :: pubkey
  cl_associatedTokenProgram :: pubkey
  cl_tokenProgram :: pubkey

datatype claim_call =
    ClaimRewardsV1 int claim_accounts
  | ClaimRewardsV0 int claim_accounts

record governance_env =
  en_clock :: "js_error + bytes option"
  en_subDao :: "pubkey \<Rightarrow> js_error + sub_dao"
  en_dao :: "pubkey \<Rightarrow> js_error + dao"
  en_delegatedPosition :: "pubkey \<Rightarrow> js_error + delegated_position option"
  en_accounts :: "pubkey list \<Rightarrow> js_error + bytes option list"
  en_decode :: "bytes \<Rightarrow> js_error + epoch_info"
  en_findProgramAddress :: "bytes list \<Rightarrow> pubkey \<Rightarrow> pubkey"
  en_keyBytes :: "pubkey \<Rightarrow> bytes"
  en_ata :: "pubkey \<Rightarrow> pubkey \<Rightarrow> bool \<Rightarrow> js_error + pubkey"
  en_method :: "claim_call \<Rightarrow> js_error + instruction"
  en_systemProgram :: pubkey
  en_associatedTokenProgram :: pubkey
  en_tokenProgram :: pubkey

section \<open>Addresses and epochs\<close>

definition HSD_PROGRAM_ID :: pubkey where
  "HSD_PROGRAM_ID = ''hdaoVTCqhfHHo75XdAMxBKdUqvq1i5bF23sisBqVgGR''"

definition VSR_PROGRAM_ID :: pubkey where
  "VSR_PROGRAM_ID = ''hvsrNC3NKbcryqDs2DocYHZ9yPKEVzdSjQG6RVtK1s8''"

definition CIRCUIT_BREAKER_PROGRAM_ID :: pubkey where
  "CIRCUIT_BREAKER_PROGRAM_ID = ''circAbx64bbsscPbQzZAUvuXpHqrCe6fLMzc2uKXz9g''"

definition HNT_MINT :: pubkey where
  "HNT_MINT = ''hntyVP6YFm1Hg25TN9WGLqM12b8TQmcknKrdu1oxWux''"

definition EPOCH_LENGTH :: int where
  "EPOCH_LENGTH = 60 * 60 * 24"

definition currentEpoch :: "int \<Rightarrow> js_error + int" where
  "currentEpoch unixTime =
     ebind (bn_toNumber unixTime) (\<lambda>t. bn_of_number \<lfloor>fdiv (of_int t) (of_int EPOCH_LENGTH)\<rfloor>)"

definition epoch_key :: "governance_env \<Rightarrow> string \<Rightarrow> pubkey \<Rightarrow> int \<Rightarrow> js_error + pubkey" where
  "epoch_key env seed key unixTime =
     ebind (currentEpoch unixTime) (\<lambda>e.
     ebind (bn_toNumber e) (\<lambda>epoch.
     ebind (writeBigUInt64LE epoch) (\<lambda>bU64.
       Inr (en_findProgramAddress env [utf8 seed, en_keyBytes env key, bU64] HSD_PROGRAM_ID))))"

definition subDaoEpochInfoKey :: "governance_env \<Rightarrow> pubkey \<Rightarrow> int \<Rightarrow> js_error + pubkey" where
  "subDaoEpochInfoKey env = epoch_key env ''sub_dao_epoch_info''"

definition daoEpochInfoKey :: "governance_env \<Rightarrow> pubkey \<Rightarrow> int \<Rightarrow> js_error + pubkey" where
  "daoEpochInfoKey env = epoch_key env ''dao_epoch_info''"

definition daoKey :: "governance_env \<Rightarrow> pubkey \<Rightarrow> pubkey" where
  "daoKey env mint = en_findProgramAddress env [utf8 ''dao'', en_keyBytes env mint] HSD_PROGRAM_ID"

definition delegatedPositionKey :: "governance_env \<Rightarrow> pubkey \<Rightarrow> pubkey" where
  "delegatedPositionKey env position =
     en_findProgramAddress env [utf8 ''delegated_position'', en_keyBytes env position] HSD_PROGRAM_ID"

definition accountWindowedBreakerKey :: "governance_env \<Rightarrow> pubkey \<Rightarrow> pubkey" where
  "accountWindowedBreakerKey env account =
     en_findProgramAddress env [utf8 ''account_windowed_breaker'', en_keyBytes env account] CIRCUIT_BREAKER_PROGRAM_ID"

section \<open>isClaimed\<close>

definition isClaimed :: "int \<Rightarrow> int \<Rightarrow> 128 word \<Rightarrow> bool" where
  "isClaimed epoch lastClaimedEpoch claimedEpochsBitmap =
     (if epoch \<le> lastClaimedEpoch then True
      else if epoch > lastClaimedEpoch + 128 then False
      else let bitIndex = nat (epoch - lastClaimedEpoch - 1)
           in drop_bit (127 - bitIndex) claimedEpochsBitmap AND 1 = 1)"

section \<open>buildClaimInstructions\<close>

definition MAX_TXS_PER_CALL :: nat where
  "MAX_TXS_PER_CALL = 5"

definition EPOCHS_PER_BATCH :: nat where
  "EPOCHS_PER_BATCH = 128"

definition MAX_SAFE_INTEGER :: int where
  "MAX_SAFE_INTEGER = 2 ^ 53 - 1"

definition expirationCapEpoch :: "int \<Rightarrow> js_error + int" where
  "expirationCapEpoch expirationTs =
     (if expirationTs = 0 then Inr MAX_SAFE_INTEGER
      else ebind (bn_toNumber (bn_div (expirationTs - 1) EPOCH_LENGTH)) (\<lambda>e. Inr (e + 1)))"

text \<open>\<open>connection.getMultipleAccountsInfo\<close> takes at most 100 keys.\<close>

definition getMultipleAccounts_claims :: "governance_env \<Rightarrow> pubkey list \<Rightarrow> js_error + bytes option list" where
  "getMultipleAccounts_claims env keys =
     ebind (emap (\<lambda>i. en_accounts env (js_slice keys (i * 100) ((i + 1) * 100))) [0..<ceil_div (length keys) 100])
       (\<lambda>results. Inr (concat results))"

text \<open>The epochs of a position that one call looks at: the first, the exclusive end, and whether more follow.\<close>

definition is_decayed :: "int \<Rightarrow> 'a position_scheme \<Rightarrow> bool" where
  "is_decayed unixNow p \<longleftrightarrow> ps_lockupKind p \<noteq> ''constant'' \<and> ps_endTs p \<le> unixNow"

definition claim_window :: "int \<Rightarrow> position_info \<Rightarrow> js_error + (int \<times> int \<times> bool)" where
  "claim_window unixNow p =
     (let lastClaimed = dp_lastClaimedEpoch (pi_delegatedPosition p)
      in ebind (bn_toNumber (lastClaimed + 129)) (\<lambda>bitmapWindowEnd.
         ebind (bn_toNumber (if is_decayed unixNow p then bn_div (ps_endTs p) EPOCH_LENGTH + 1
                             else bn_div unixNow EPOCH_LENGTH)) (\<lambda>end.
         ebind (expirationCapEpoch (dp_expirationTs (pi_delegatedPosition p))) (\<lambda>cap.
         ebind (bn_toNumber (lastClaimed + 1)) (\<lambda>startEpoch.
           let rawEndEpoch = min end cap
           in Inr (startEpoch, min rawEndEpoch bitmapWindowEnd, rawEndEpoch > bitmapWindowEnd))))))"

text \<open>The inner loop; it stops when enough epochs are collected.\<close>

fun epoch_loop :: "nat \<Rightarrow> position_info \<Rightarrow> int list \<Rightarrow> (position_info \<times> int) list \<Rightarrow> (position_info \<times> int) list \<times> bool" where
  "epoch_loop mx p [] acc = (acc, False)"
| "epoch_loop mx p (e # es) acc =
     (if length acc \<ge> mx then (acc, True)
      else epoch_loop mx p es
             (if \<not> isClaimed e (dp_lastClaimedEpoch (pi_delegatedPosition p)) (dp_claimedEpochsBitmap (pi_delegatedPosition p))
              then acc @ [(p, e)] else acc))"

definition collect_step ::
  "int \<Rightarrow> (position_info \<times> int) list \<times> bool \<Rightarrow> position_info \<Rightarrow> js_error + ((position_info \<times> int) list \<times> bool)" where
  "collect_step unixNow = (\<lambda>(acc, hitCap) p.
     if hitCap then Inr (acc, hitCap)
     else ebind (claim_window unixNow p) (\<lambda>(startEpoch, endEpoch, beyond).
            case epoch_loop (MAX_TXS_PER_CALL * EPOCHS_PER_BATCH) p [startEpoch..endEpoch - 1] acc of
              (acc', full) \<Rightarrow> Inr (acc', beyond \<or> full)))"

definition collect_epochs :: "int \<Rightarrow> position_info list \<Rightarrow> js_error + ((position_info \<times> int) list \<times> bool)" where
  "collect_epochs unixNow positions = efold (collect_step unixNow) ([], False) positions"

text \<open>The claim of one epoch; \<open>offCurve\<close> is the third argument of \<open>getAssociatedTokenAddressSync\<close>.\<close>

definition claim_call_for ::
  "governance_env \<Rightarrow> pubkey \<Rightarrow> bool \<Rightarrow> dao \<Rightarrow> sub_dao \<Rightarrow> pubkey \<Rightarrow> pubkey \<Rightarrow> 'a position_scheme \<Rightarrow> int \<Rightarrow> epoch_info
   \<Rightarrow> js_error + claim_call" where
  "claim_call_for env wallet offCurve daoAcc subDaoAcc subDao delegatedKey p epoch info =
     (let v1 = ei_hntRewardsIssued info > 0;
          mint = (if v1 then da_hntMint daoAcc else sd_dntMint subDaoAcc);
          pool = (if v1 then da_delegatorPool daoAcc else sd_delegatorPool subDaoAcc)
      in ebind (en_ata env (ps_mint p) wallet offCurve) (\<lambda>positionTokenAccount.
         ebind (if v1 then daoEpochInfoKey env (sd_dao subDaoAcc) (epoch * EPOCH_LENGTH)
                else subDaoEpochInfoKey env subDao (epoch * EPOCH_LENGTH)) (\<lambda>epochInfo.
         ebind (en_ata env mint wallet offCurve) (\<lambda>delegatorAta.
           Inr ((if v1 then ClaimRewardsV1 else ClaimRewardsV0) epoch
             \<lparr>cl_payer = (if v1 then Some wallet else None), cl_position = ps_pubkey p, cl_positionMint = ps_mint p,
              cl_positionTokenAccount = positionTokenAccount, cl_positionAuthority = wallet,
              cl_registrar = ps_registrar p, cl_dao = daoKey env HNT_MINT, cl_subDao = subDao,
              cl_delegatedPosition = delegatedKey, cl_rewardMint = mint, cl_epochInfo = epochInfo,
              cl_delegatorPool = pool, cl_delegatorAta = delegatorAta,
              cl_delegatorPoolCircuitBreaker = accountWindowedBreakerKey env pool,
              cl_vsrProgram = VSR_PROGRAM_ID, cl_systemProgram = en_systemProgram env,
              cl_circuitBreakerProgram = CIRCUIT_BREAKER_PROGRAM_ID,
              cl_associatedTokenProgram = en_associatedTokenProgram env, cl_tokenProgram = en_tokenProgram env\<rparr>)))))"

fun claim_mint :: "claim_call \<Rightarrow> pubkey" where
  "claim_mint (ClaimRewardsV1 e a) = cl_rewardMint a"
| "claim_mint (ClaimRewardsV0 e a) = cl_rewardMint a"

text \<open>One element of a chunk: no instruction for an epoch without an account or whose rewards are not issued.\<close>

definition claim_instruction ::
  "governance_env \<Rightarrow> pubkey \<Rightarrow> dao \<Rightarrow> (pubkey \<times> sub_dao) list \<Rightarrow> (position_info \<times> int) \<times> bytes option
   \<Rightarrow> js_error + (pubkey \<times> instruction) option" where
  "claim_instruction env wallet daoAcc subDaos = (\<lambda>((p, epoch), account).
     case account of
       None \<Rightarrow> Inr None
     | Some data \<Rightarrow>
         ebind (en_decode env data) (\<lambda>info.
           if ei_rewardsIssuedAt info = None then Inr None
           else let subDao = dp_subDao (pi_delegatedPosition p)
                in case map_of subDaos subDao of
                     None \<Rightarrow> Inl TypeError
                   | Some subDaoAcc \<Rightarrow>
                       ebind (claim_call_for env wallet True daoAcc subDaoAcc subDao (pi_delegatedPositionKey p) p epoch info)
                         (\<lambda>call. ebind (en_method env call) (\<lambda>ix. Inr (Some (claim_mint call, ix))))))"

text \<open>\<open>xs[index]\<close> for each index; a missing element is \<open>undefined\<close>, as a missing account is \<open>null\<close>.\<close>

definition accounts_for :: "'a list \<Rightarrow> bytes option list \<Rightarrow> ('a \<times> bytes option) list" where
  "accounts_for xs accounts = map (\<lambda>(i, x). (x, case js_nth accounts i of Some a \<Rightarrow> a | None \<Rightarrow> None)) (enumerate 0 xs)"

definition claim_chunk ::
  "governance_env \<Rightarrow> pubkey \<Rightarrow> dao \<Rightarrow> (pubkey \<times> sub_dao) list \<Rightarrow> (position_info \<times> int) list
   \<Rightarrow> js_error + (pubkey \<times> instruction) list" where
  "claim_chunk env wallet daoAcc subDaos ch =
     ebind (emap (\<lambda>(p, epoch). subDaoEpochInfoKey env (dp_subDao (pi_delegatedPosition p)) (epoch * EPOCH_LENGTH)) ch) (\<lambda>keys.
     ebind (getMultipleAccounts_claims env keys) (\<lambda>accounts.
     ebind (emap (claim_instruction env wallet daoAcc subDaos) (accounts_for ch accounts)) (\<lambda>ixs.
       Inr (map the (filter (\<lambda>x. x \<noteq> None) ixs)))))"

record claim_result =
  cr_instructionBatches :: "instruction list list"
  cr_hasMore :: bool
  cr_hasRewards :: bool
  cr_rewardMints :: "pubkey list"

definition clock_now :: "bytes option \<Rightarrow> js_error + int" where
  "clock_now clock = (case clock of None \<Rightarrow> Inl TypeError | Some data \<Rightarrow> ebind (readBigInt64LE data 32) bn_of_number)"

definition fetch_subDaos :: "governance_env \<Rightarrow> pubkey list \<Rightarrow> js_error + (pubkey \<times> sub_dao) list" where
  "fetch_subDaos env keys = emap (\<lambda>k. ebind (en_subDao env k) (\<lambda>a. Inr (k, a))) (js_set keys)"

definition first_dao :: "governance_env \<Rightarrow> (pubkey \<times> sub_dao) list \<Rightarrow> js_error + dao" where
  "first_dao env subDaos = (case subDaos of [] \<Rightarrow> Inl TypeError | (_, a) # _ \<Rightarrow> en_dao env (sd_dao a))"

definition buildClaimInstructions :: "governance_env \<Rightarrow> position_info list \<Rightarrow> pubkey \<Rightarrow> js_error + claim_result" where
  "buildClaimInstructions env positions wallet =
     ebind (en_clock env) (\<lambda>clock.
     ebind (clock_now clock) (\<lambda>unixNow.
     ebind (fetch_subDaos env (map (dp_subDao \<circ> pi_delegatedPosition) positions)) (\<lambda>subDaos.
     ebind (first_dao env subDaos) (\<lambda>daoAcc.
     ebind (collect_epochs unixNow positions) (\<lambda>(allEpochsToClaim, hitCap).
       if allEpochsToClaim = []
       then Inr \<lparr>cr_instructionBatches = [], cr_hasMore = False, cr_hasRewards = False, cr_rewardMints = []\<rparr>
       else ebind (chunks allEpochsToClaim EPOCHS_PER_BATCH) (\<lambda>cs.
            ebind (emap (claim_chunk env wallet daoAcc subDaos) cs) (\<lambda>batches.
              let kept = filter (\<lambda>b. b \<noteq> []) batches
              in Inr \<lparr>cr_instructionBatches = map (map snd) kept, cr_hasMore = hitCap, cr_hasRewards = kept \<noteq> [],
                      cr_rewardMints = js_set (map fst (concat batches))\<rparr>)))))))"

section \<open>formPositionClaims\<close>

definition form_epochs :: "int \<Rightarrow> 'a position_scheme \<Rightarrow> delegated_position \<Rightarrow> js_error + int list" where
  "form_epochs unixNow p d =
     (let epoch = dp_lastClaimedEpoch d + 1
      in ebind (bn_toNumber (if is_decayed unixNow p then bn_div (ps_endTs p) EPOCH_LENGTH - epoch + 1
                             else bn_div unixNow EPOCH_LENGTH - epoch)) (\<lambda>epochsCount.
         ebind (emap (\<lambda>k. ebind (bn_toNumber (epoch + int k)) (\<lambda>e.
                          ebind (bn_toNumber (dp_lastClaimedEpoch d)) (\<lambda>l.
                            Inr (epoch + int k, isClaimed e l (dp_claimedEpochsBitmap d)))))
                  [0..<nat epochsCount]) (\<lambda>es. Inr (map fst (filter (\<lambda>(e, claimed). \<not> claimed) es)))))"

definition form_claim ::
  "governance_env \<Rightarrow> pubkey \<Rightarrow> dao \<Rightarrow> sub_dao \<Rightarrow> pubkey \<Rightarrow> pubkey \<Rightarrow> 'a position_scheme \<Rightarrow> int \<times> bytes option \<Rightarrow> js_error + instruction" where
  "form_claim env wallet daoAcc subDaoAcc subDao delegatedKey p = (\<lambda>(epoch, account).
     case account of
       None \<Rightarrow> Inl TypeError
     | Some data \<Rightarrow>
         ebind (en_decode env data) (\<lambda>info.
         ebind (claim_call_for env wallet False daoAcc subDaoAcc subDao delegatedKey p epoch info) (en_method env)))"

definition form_chunk ::
  "governance_env \<Rightarrow> pubkey \<Rightarrow> dao \<Rightarrow> sub_dao \<Rightarrow> pubkey \<Rightarrow> pubkey \<Rightarrow> 'a position_scheme \<Rightarrow> int list \<Rightarrow> js_error + instruction list" where
  "form_chunk env wallet daoAcc subDaoAcc subDao delegatedKey p ch =
     ebind (emap (\<lambda>epoch. subDaoEpochInfoKey env subDao (epoch * EPOCH_LENGTH)) ch) (\<lambda>keys.
     ebind (getMultipleAccounts_claims env keys) (\<lambda>accounts.
       emap (form_claim env wallet daoAcc subDaoAcc subDao delegatedKey p) (accounts_for ch accounts)))"

text \<open>The buckets of one position: its chunks, appended to those its key has already.\<close>

definition form_position ::
  "governance_env \<Rightarrow> pubkey \<Rightarrow> int \<Rightarrow> dao \<Rightarrow> (pubkey \<times> sub_dao) list \<Rightarrow> (pubkey \<times> instruction list list) list
   \<Rightarrow> position \<times> pubkey \<times> delegated_position option \<Rightarrow> js_error + (pubkey \<times> instruction list list) list" where
  "form_position env wallet unixNow daoAcc subDaos buckets = (\<lambda>(p, key, account).
     let old = (case map_of buckets (ps_pubkey p) of Some b \<Rightarrow> b | None \<Rightarrow> [])
     in case account of
          None \<Rightarrow> Inr (obj_set buckets (ps_pubkey p) old)
        | Some d \<Rightarrow>
            ebind (form_epochs unixNow p d) (\<lambda>epochsToClaim.
            ebind (chunks epochsToClaim 128) (\<lambda>cs.
            case map_of subDaos (dp_subDao d) of
              None \<Rightarrow> Inl TypeError
            | Some subDaoAcc \<Rightarrow>
                ebind (emap (form_chunk env wallet daoAcc subDaoAcc (dp_subDao d) key p) cs) (\<lambda>new.
                  Inr (obj_set buckets (ps_pubkey p) (old @ new))))))"

text \<open>\<open>acc[idx] = acc[idx] || []; acc[idx].push(...ixs)\<close> for the chunks of one position.\<close>

fun merge_rows :: "'a list list \<Rightarrow> 'a list list \<Rightarrow> 'a list list" where
  "merge_rows acc [] = acc"
| "merge_rows [] (ixs # rest) = ixs # merge_rows [] rest"
| "merge_rows (row # acc) (ixs # rest) = (row @ ixs) # merge_rows acc rest"

text \<open>A position of the hook comes with its \<open>hasRewards\<close>.\<close>

definition formPositionClaims :: "governance_env \<Rightarrow> pubkey \<Rightarrow> (position \<times> bool) list \<Rightarrow> js_error + instruction list list" where
  "formPositionClaims env wallet positions =
     ebind (en_clock env) (\<lambda>clock.
     ebind (case clock of None \<Rightarrow> Inr None | Some data \<Rightarrow> ebind (readBigInt64LE data 32) (\<lambda>n. Inr (Some n))) (\<lambda>now.
       if positions = [] then Inr []
       else case now of
              None \<Rightarrow> Inl (Err ''Unable to form position claims, Invalid params'')
            | Some t \<Rightarrow>
                if t = 0 \<or> \<not> list_ex snd positions then Inl (Err ''Unable to form position claims, Invalid params'')
                else ebind (bn_of_number t) (\<lambda>unixNow.
                     ebind (emap (\<lambda>(p, _). let key = delegatedPositionKey env (ps_pubkey p)
                                           in ebind (en_delegatedPosition env key) (\<lambda>a. Inr (p, key, a))) positions) (\<lambda>delegated.
                     let subDaoKeys = map dp_subDao (map the (filter (\<lambda>a. a \<noteq> None) (map (snd \<circ> snd) delegated)))
                     in if subDaoKeys = [] then Inr []
                        else ebind (fetch_subDaos env subDaoKeys) (\<lambda>subDaos.
                             ebind (first_dao env subDaos) (\<lambda>daoAcc.
                             ebind (efold (form_position env wallet unixNow daoAcc subDaos) [] delegated) (\<lambda>buckets.
                               Inr (foldl merge_rows [] (map snd buckets)))))))))"

end
