(* ===== verification/Claim_Lemmas.thy ===== *)
theory Claim_Lemmas
  imports Position_Claims
begin

text \<open>
  What the claims of \<open>Position_Claims\<close> select: the epochs that are due, each once, within the window of the
  bitmap, and all of them unless the call says that there is more.
\<close>

section \<open>The bitmap\<close>

theorem isClaimed_bit:
  "isClaimed e l bm \<longleftrightarrow> e \<le> l \<or> e \<le> l + 128 \<and> bit bm (nat (l + 128 - e))"
proof (cases "e \<le> l \<or> l + 128 < e")
  case True
  then show ?thesis by (auto simp: isClaimed_def)
next
  case False
  then have "127 - nat (e - l - 1) = nat (l + 128 - e)" by linarith
  moreover have "drop_bit k bm AND 1 = 1 \<longleftrightarrow> bit bm k" for k
    by (simp add: and_one_eq bit_iff_odd_drop_bit odd_iff_mod_2_eq_one)
  ultimately show ?thesis using False by (simp add: isClaimed_def Let_def)
qed

section \<open>The window\<close>

definition raw_end :: "int \<Rightarrow> position_info \<Rightarrow> int" where
  "raw_end unixNow p =
     min (if is_decayed unixNow p then bn_div (ps_endTs p) EPOCH_LENGTH + 1 else bn_div unixNow EPOCH_LENGTH)
       (let ts = dp_expirationTs (pi_delegatedPosition p)
        in if ts = 0 then MAX_SAFE_INTEGER else bn_div (ts - 1) EPOCH_LENGTH + 1)"

abbreviation last_claimed :: "position_info \<Rightarrow> int" where
  "last_claimed p \<equiv> dp_lastClaimedEpoch (pi_delegatedPosition p)"

abbreviation claimed :: "position_info \<Rightarrow> int \<Rightarrow> bool" where
  "claimed p e \<equiv> isClaimed e (last_claimed p) (dp_claimedEpochsBitmap (pi_delegatedPosition p))"

text \<open>An epoch is due when the position was delegated, locked and not expired in it and has not claimed it.\<close>

definition due :: "int \<Rightarrow> position_info \<Rightarrow> int \<Rightarrow> bool" where
  "due unixNow p e \<longleftrightarrow> e < raw_end unixNow p \<and> \<not> claimed p e"

lemma due_after: "due unixNow p e \<Longrightarrow> last_claimed p < e"
  by (rule ccontr) (simp add: due_def isClaimed_def)

lemma bn_toNumber_Inr [simp]: "bn_toNumber n = Inr m \<longleftrightarrow> m = n \<and> \<bar>n\<bar> < 2 ^ 53"
  by (auto simp: bn_toNumber_def)

lemma claim_window_Inr:
  assumes "claim_window unixNow p = Inr (s, e, beyond)"
  shows "s = last_claimed p + 1" and "e = min (raw_end unixNow p) (last_claimed p + 129)"
    and "beyond \<longleftrightarrow> last_claimed p + 129 < raw_end unixNow p"
    and "\<bar>last_claimed p + 129\<bar> < 2 ^ 53" and "\<bar>last_claimed p + 1\<bar> < 2 ^ 53"
    and "\<bar>if is_decayed unixNow p then bn_div (ps_endTs p) EPOCH_LENGTH + 1 else bn_div unixNow EPOCH_LENGTH\<bar> < 2 ^ 53"
  using assms
  by (auto simp: claim_window_def raw_end_def expirationCapEpoch_def Let_def elim!: ebind_InrE split: if_splits)

section \<open>The loops\<close>

lemma epoch_loop_spec:
  "epoch_loop mx p es acc = (acc', full) \<Longrightarrow> length acc \<le> mx \<Longrightarrow>
   \<exists>es1 es2. es = es1 @ es2 \<and> acc' = acc @ map (Pair p) (filter (\<lambda>e. \<not> claimed p e) es1) \<and> length acc' \<le> mx
     \<and> (full \<longleftrightarrow> es2 \<noteq> [])"
proof (induction mx p es acc rule: epoch_loop.induct)
  case (1 mx p acc)
  then show ?case by simp
next
  case (2 mx p e es acc)
  show ?case
  proof (cases "mx \<le> length acc")
    case True
    with 2 show ?thesis by (intro exI[of _ "[]"] exI[of _ "e # es"]) simp
  next
    case False
    let ?acc = "if \<not> claimed p e then acc @ [(p, e)] else acc"
    from False 2 have "epoch_loop mx p es ?acc = (acc', full)" "length ?acc \<le> mx" by simp_all
    from "2.IH"[OF False this] obtain es1 es2 where *: "es = es1 @ es2"
        "acc' = ?acc @ map (Pair p) (filter (\<lambda>e. \<not> claimed p e) es1)" "length acc' \<le> mx" "full \<longleftrightarrow> es2 \<noteq> []" by blast
    then show ?thesis by (intro exI[of _ "e # es1"] exI[of _ es2]) auto
  qed
qed

text \<open>What a list of positions and epochs may hold.\<close>

definition selects :: "int \<Rightarrow> position_info list \<Rightarrow> (position_info \<times> int) list \<Rightarrow> bool" where
  "selects unixNow ps sel \<longleftrightarrow>
     (\<forall>(p, e) \<in> set sel. p \<in> set ps \<and> due unixNow p e \<and> e \<le> last_claimed p + 128)"

definition covers :: "int \<Rightarrow> position_info list \<Rightarrow> (position_info \<times> int) list \<Rightarrow> bool" where
  "covers unixNow ps sel \<longleftrightarrow> (\<forall>p \<in> set ps. \<forall>e. due unixNow p e \<longrightarrow> (p, e) \<in> set sel)"

abbreviation max_epochs :: nat where
  "max_epochs \<equiv> MAX_TXS_PER_CALL * EPOCHS_PER_BATCH"

lemma collect_step_spec:
  assumes "collect_step unixNow (acc, hit) p = Inr (acc', hit')" and "length acc \<le> max_epochs"
  obtains new where "acc' = acc @ map (Pair p) new" and "length acc' \<le> max_epochs" and "distinct new"
    and "\<forall>e \<in> set new. due unixNow p e \<and> e \<le> last_claimed p + 128"
    and "\<not> hit' \<Longrightarrow> \<not> hit \<and> (\<forall>e. due unixNow p e \<longrightarrow> e \<in> set new)"
    and "\<not> hit' \<Longrightarrow> new = filter (\<lambda>e. \<not> claimed p e) [last_claimed p + 1..raw_end unixNow p - 1]"
proof (cases hit)
  case True
  with assms that[of "[]"] show thesis by (simp add: collect_step_def)
next
  case False
  from assms(1) False obtain s e beyond where w: "claim_window unixNow p = Inr (s, e, beyond)"
    by (auto simp: collect_step_def elim!: ebind_InrE)
  note win = claim_window_Inr[OF w]
  obtain full where l: "epoch_loop max_epochs p [s..e - 1] acc = (acc', full)" and h: "hit' \<longleftrightarrow> beyond \<or> full"
    using assms(1) False w by (auto simp: collect_step_def split: prod.splits)
  from epoch_loop_spec[OF l assms(2)] obtain es1 es2 where es: "[s..e - 1] = es1 @ es2"
      "acc' = acc @ map (Pair p) (filter (\<lambda>e. \<not> claimed p e) es1)" "length acc' \<le> max_epochs" "full \<longleftrightarrow> es2 \<noteq> []" by blast
  have "set es1 \<subseteq> {s..e - 1}" using es(1) by (metis Un_upper1 set_append set_upto)
  then have sub: "x \<in> set es1 \<Longrightarrow> last_claimed p < x \<and> x < raw_end unixNow p \<and> x \<le> last_claimed p + 128" for x
    using win(1,2) by auto
  have d: "distinct es1" using es(1) by (metis distinct_append distinct_upto)
  have fin: "es1 = [last_claimed p + 1..raw_end unixNow p - 1]" if "\<not> hit'"
    using that h es(1,4) win(1-3) by (simp add: min_def split: if_splits)
  show thesis
  proof (rule that[OF es(2,3)])
    show "distinct (filter (\<lambda>e. \<not> claimed p e) es1)" using d by simp
    show "\<forall>e \<in> set (filter (\<lambda>e. \<not> claimed p e) es1). due unixNow p e \<and> e \<le> last_claimed p + 128"
      using sub by (simp add: due_def)
    have "e \<in> set (filter (\<lambda>e. \<not> claimed p e) es1)" if "\<not> hit'" "due unixNow p e" for e
      using that(2) due_after[OF that(2)] by (simp add: fin[OF that(1)] due_def)
    then show "\<not> hit \<and> (\<forall>e. due unixNow p e \<longrightarrow> e \<in> set (filter (\<lambda>e. \<not> claimed p e) es1))" if "\<not> hit'"
      using that False by blast
    show "filter (\<lambda>e. \<not> claimed p e) es1 = filter (\<lambda>e. \<not> claimed p e) [last_claimed p + 1..raw_end unixNow p - 1]" if "\<not> hit'"
      by (simp only: fin[OF that])
  qed
qed

lemma collect_from:
  assumes "efold (collect_step unixNow) (acc, hit) ps = Inr (sel, hit')" and "length acc \<le> max_epochs"
  shows "\<exists>new. sel = acc @ new \<and> length sel \<le> max_epochs \<and> selects unixNow ps new \<and> (distinct ps \<longrightarrow> distinct new)
     \<and> (\<not> hit' \<longrightarrow> \<not> hit \<and> covers unixNow ps new
         \<and> new = concat (map (\<lambda>p. map (Pair p) (filter (\<lambda>e. \<not> claimed p e) [last_claimed p + 1..raw_end unixNow p - 1])) ps))"
  using assms
proof (induction ps arbitrary: acc hit)
  case Nil
  then show ?case by (simp add: selects_def covers_def)
next
  case (Cons p ps)
  from Cons.prems(1) obtain acc1 hit1 where 1: "collect_step unixNow (acc, hit) p = Inr (acc1, hit1)"
      and r: "efold (collect_step unixNow) (acc1, hit1) ps = Inr (sel, hit')" by (auto elim!: ebind_InrE)
  from collect_step_spec[OF 1 Cons.prems(2)] obtain n1 where n1: "acc1 = acc @ map (Pair p) n1" "length acc1 \<le> max_epochs"
      "distinct n1" "\<forall>e \<in> set n1. due unixNow p e \<and> e \<le> last_claimed p + 128"
    and c1: "\<not> hit1 \<Longrightarrow> \<not> hit \<and> (\<forall>e. due unixNow p e \<longrightarrow> e \<in> set n1)"
      "\<not> hit1 \<Longrightarrow> n1 = filter (\<lambda>e. \<not> claimed p e) [last_claimed p + 1..raw_end unixNow p - 1]" by metis
  from Cons.IH[OF r n1(2)] obtain n2 where n2: "sel = acc1 @ n2" "length sel \<le> max_epochs" "selects unixNow ps n2"
      "distinct ps \<longrightarrow> distinct n2"
    and c2: "\<not> hit' \<longrightarrow> \<not> hit1 \<and> covers unixNow ps n2
      \<and> n2 = concat (map (\<lambda>p. map (Pair p) (filter (\<lambda>e. \<not> claimed p e) [last_claimed p + 1..raw_end unixNow p - 1])) ps)" by blast
  have "selects unixNow (p # ps) (map (Pair p) n1 @ n2)" using n1(4) n2(3) by (auto simp: selects_def)
  moreover have "distinct (map (Pair p) n1 @ n2)" if "distinct (p # ps)"
    using that n1(3) n2(3,4) by (auto simp: distinct_map inj_on_def selects_def)
  moreover have "\<not> hit' \<longrightarrow> \<not> hit \<and> covers unixNow (p # ps) (map (Pair p) n1 @ n2)
     \<and> map (Pair p) n1 @ n2 = concat (map (\<lambda>p. map (Pair p) (filter (\<lambda>e. \<not> claimed p e) [last_claimed p + 1..raw_end unixNow p - 1])) (p # ps))"
    using c1 c2 by (auto simp: covers_def)
  moreover have "sel = acc @ (map (Pair p) n1 @ n2)" using n1(1) n2(1) by simp
  ultimately show ?case using n2(2) by blast
qed

lemma collect_spec:
  assumes "collect_epochs unixNow ps = Inr (sel, hit)"
  shows "length sel \<le> max_epochs" and "selects unixNow ps sel" and "distinct ps \<Longrightarrow> distinct sel"
    and "\<not> hit \<Longrightarrow> covers unixNow ps sel"
    and "\<not> hit \<Longrightarrow> sel = concat (map (\<lambda>p. map (Pair p) (filter (\<lambda>e. \<not> claimed p e) [last_claimed p + 1..raw_end unixNow p - 1])) ps)"
  using collect_from[OF assms[unfolded collect_epochs_def]] by auto

section \<open>The instructions\<close>

text \<open>The node answers with the account of each key.\<close>

definition reads :: "governance_env \<Rightarrow> (pubkey \<Rightarrow> bytes option) \<Rightarrow> bool" where
  "reads env acct \<longleftrightarrow> (\<forall>ks r. en_accounts env ks = Inr r \<longrightarrow> r = map acct ks)"

lemma getMultipleAccounts_claims_Inr:
  assumes "reads env acct" and "getMultipleAccounts_claims env keys = Inr r"
  shows "r = map acct keys"
proof -
  from assms(2) obtain rs where rs: "emap (en_accounts env) (chop 100 keys) = Inr rs" and r: "r = concat rs"
    unfolding getMultipleAccounts_claims_def emap_slices[OF zero_less_numeral] by (auto elim!: ebind_InrE)
  from emap_Inr_map[OF rs, of "map acct"] assms(1) have "rs = map (map acct) (chop 100 keys)" by (simp add: reads_def)
  then show ?thesis using concat_chop[of 100 keys] by (simp add: r flip: map_concat)
qed

lemma accounts_for_aligned: "accounts_for xs (map f ys) = zip xs (map f ys)" if "length xs = length ys"
  using that by (intro nth_equalityI) (simp_all add: accounts_for_def js_nth_def nth_enumerate_eq)

text \<open>The account data of an epoch, and whether its rewards are issued.\<close>

definition epoch_data :: "governance_env \<Rightarrow> (pubkey \<Rightarrow> bytes option) \<Rightarrow> position_info \<times> int \<Rightarrow> epoch_info option" where
  "epoch_data env acct = (\<lambda>(p, e).
     case subDaoEpochInfoKey env (dp_subDao (pi_delegatedPosition p)) (e * EPOCH_LENGTH) of
       Inl _ \<Rightarrow> None
     | Inr key \<Rightarrow> (case acct key of
         None \<Rightarrow> None
       | Some data \<Rightarrow> (case en_decode env data of Inl _ \<Rightarrow> None | Inr info \<Rightarrow> Some info)))"

definition issued :: "governance_env \<Rightarrow> (pubkey \<Rightarrow> bytes option) \<Rightarrow> position_info \<times> int \<Rightarrow> bool" where
  "issued env acct x \<longleftrightarrow> (case epoch_data env acct x of None \<Rightarrow> False | Some info \<Rightarrow> ei_rewardsIssuedAt info \<noteq> None)"

text \<open>An instruction claims an epoch: it was built for that position, epoch and the epoch's account.\<close>

definition claims ::
  "governance_env \<Rightarrow> pubkey \<Rightarrow> (pubkey \<Rightarrow> bytes option) \<Rightarrow> dao \<Rightarrow> position_info \<times> int \<Rightarrow> pubkey \<times> instruction \<Rightarrow> bool" where
  "claims env wallet acct daoAcc = (\<lambda>(p, e) (mint, ix).
     \<exists>info subDaoAcc call. epoch_data env acct (p, e) = Some info \<and> en_subDao env (dp_subDao (pi_delegatedPosition p)) = Inr subDaoAcc
       \<and> claim_call_for env wallet True daoAcc subDaoAcc (dp_subDao (pi_delegatedPosition p)) (pi_delegatedPositionKey p) p e info = Inr call
       \<and> claim_mint call = mint \<and> en_method env call = Inr ix)"

lemma fetch_subDaos_Inr: "fetch_subDaos env keys = Inr m \<Longrightarrow> map_of m k = Some a \<Longrightarrow> en_subDao env k = Inr a"
proof -
  assume "fetch_subDaos env keys = Inr m" "map_of m k = Some a"
  then have f: "emap (\<lambda>k. ebind (en_subDao env k) (\<lambda>a. Inr (k, a))) (js_set keys) = Inr m" and "(k, a) \<in> set m"
    by (auto simp: fetch_subDaos_def dest: map_of_SomeD)
  then obtain i where "i < length m" "m ! i = (k, a)" by (auto simp: in_set_conv_nth)
  with emap_Inr_nth[OF f, of i] emap_Inr_length[OF f] show ?thesis by (auto elim!: ebind_InrE)
qed

lemma claim_instruction_Inr:
  assumes "claim_instruction env wallet daoAcc subDaos ((p, e), acct key) = Inr r"
    and "subDaoEpochInfoKey env (dp_subDao (pi_delegatedPosition p)) (e * EPOCH_LENGTH) = Inr key"
    and "\<And>k a. map_of subDaos k = Some a \<Longrightarrow> en_subDao env k = Inr a"
  shows "case r of None \<Rightarrow> \<not> issued env acct (p, e) | Some x \<Rightarrow> issued env acct (p, e) \<and> claims env wallet acct daoAcc (p, e) x"
  using assms
  by (auto simp: claim_instruction_def issued_def claims_def epoch_data_def Let_def
      split: option.splits if_splits elim!: ebind_InrE)

lemma emap_filtered:
  "emap f xs = Inr rs \<Longrightarrow> (\<And>x r. x \<in> set xs \<Longrightarrow> f x = Inr r \<Longrightarrow> case r of None \<Rightarrow> \<not> Q x | Some y \<Rightarrow> Q x \<and> R x y) \<Longrightarrow>
   list_all2 R (filter Q xs) (map the (filter (\<lambda>r. r \<noteq> None) rs))"
proof (induction xs arbitrary: rs)
  case (Cons x xs)
  from Cons.prems(1) obtain r rs' where r: "f x = Inr r" "emap f xs = Inr rs'" "rs = r # rs'" by (auto elim!: ebind_InrE)
  from Cons.IH[OF r(2)] Cons.prems(2) have "list_all2 R (filter Q xs) (map the (filter (\<lambda>r. r \<noteq> None) rs'))" by auto
  moreover from Cons.prems(2)[of x r] r(1) have "case r of None \<Rightarrow> \<not> Q x | Some y \<Rightarrow> Q x \<and> R x y" by simp
  ultimately show ?case by (cases r) (simp_all add: r(3))
qed simp

lemma claim_chunk_Inr:
  assumes "claim_chunk env wallet daoAcc subDaos ch = Inr ixs" and "reads env acct"
    and "\<And>k a. map_of subDaos k = Some a \<Longrightarrow> en_subDao env k = Inr a"
  shows "list_all2 (claims env wallet acct daoAcc) (filter (issued env acct) ch) ixs"
proof -
  let ?key = "\<lambda>(p, epoch). subDaoEpochInfoKey env (dp_subDao (pi_delegatedPosition p)) (epoch * EPOCH_LENGTH)"
  from assms(1) obtain keys accounts rs where k: "emap ?key ch = Inr keys" and a: "getMultipleAccounts_claims env keys = Inr accounts"
      and r: "emap (claim_instruction env wallet daoAcc subDaos) (accounts_for ch accounts) = Inr rs"
      and ixs: "ixs = map the (filter (\<lambda>x. x \<noteq> None) rs)"
    by (auto simp: claim_chunk_def elim!: ebind_InrE)
  have len: "length ch = length keys" using emap_Inr_length[OF k] by simp
  have acc: "accounts_for ch accounts = zip ch (map acct keys)"
    unfolding getMultipleAccounts_claims_Inr[OF assms(2) a] by (rule accounts_for_aligned[OF len])
  have "list_all2 (\<lambda>x y. claims env wallet acct daoAcc (fst x) y) (filter (\<lambda>x. issued env acct (fst x)) (zip ch (map acct keys))) ixs"
    unfolding ixs
  proof (rule emap_filtered[OF r[unfolded acc]])
    fix x :: "(position_info \<times> int) \<times> bytes option" and r
    assume "x \<in> set (zip ch (map acct keys))" and c: "claim_instruction env wallet daoAcc subDaos x = Inr r"
    then obtain i where i: "i < length ch" "x = (ch ! i, acct (keys ! i))" using len by (auto simp: in_set_zip)
    obtain p e where pe: "ch ! i = (p, e)" by (cases "ch ! i")
    have key: "subDaoEpochInfoKey env (dp_subDao (pi_delegatedPosition p)) (e * EPOCH_LENGTH) = Inr (keys ! i)"
      using emap_Inr_nth[OF k i(1)] pe by simp
    have "claim_instruction env wallet daoAcc subDaos ((p, e), acct (keys ! i)) = Inr r" using c i(2) pe by simp
    from claim_instruction_Inr[of env wallet daoAcc subDaos p e acct, OF this key assms(3)]
    show "case r of None \<Rightarrow> \<not> issued env acct (fst x) | Some y \<Rightarrow> issued env acct (fst x) \<and> claims env wallet acct daoAcc (fst x) y"
      unfolding i(2) fst_conv pe .
  qed
  then have "list_all2 (claims env wallet acct daoAcc) (map fst (filter (\<lambda>x. issued env acct (fst x)) (zip ch (map acct keys)))) ixs"
    by (simp add: list_all2_map1)
  moreover have "map fst (filter (\<lambda>x. issued env acct (fst x)) (zip ch (map acct keys))) = filter (issued env acct) ch"
    using len by (simp add: filter_map[unfolded comp_def, symmetric])
  ultimately show ?thesis by simp
qed

lemma claim_chunks_Inr:
  assumes "emap (claim_chunk env wallet daoAcc subDaos) cs = Inr batches" and "reads env acct"
    and "\<And>k a. map_of subDaos k = Some a \<Longrightarrow> en_subDao env k = Inr a"
  shows "list_all2 (claims env wallet acct daoAcc) (filter (issued env acct) (concat cs)) (concat batches)"
    and "list_all2 (\<lambda>c b. length b \<le> length c) cs batches"
  using assms(1)
proof (induction cs arbitrary: batches)
  case Nil
  { case 1 then show ?case by simp next case 2 then show ?case by simp }
next
  case (Cons c cs)
  have one: "claim_chunk env wallet daoAcc subDaos c = Inr b \<Longrightarrow> length b \<le> length c" for b
    using list_all2_lengthD[OF claim_chunk_Inr[OF _ assms(2,3)]] length_filter_le[of _ c] by metis
  { case 1
    then show ?case using Cons.IH(1) claim_chunk_Inr[OF _ assms(2,3)] by (auto elim!: ebind_InrE intro!: list_all2_appendI)
  next
    case 2
    then show ?case using Cons.IH(2) one by (auto elim!: ebind_InrE) }
qed

end
