(* ===== verification/Claim_Properties.thy ===== *)
theory Claim_Properties
  imports Claim_Lemmas
begin

text \<open>
  The claims of the blockchain API against their meaning in seconds (\<open>claimable\<close>), the epochs of the two
  implementations against each other, and the rows of \<open>formPositionClaims\<close>.
\<close>

section \<open>Epochs in seconds\<close>

lemma bn_div_nonneg: "0 \<le> a \<Longrightarrow> bn_div a EPOCH_LENGTH = a div EPOCH_LENGTH"
  by (cases "a = 0") (simp_all add: bn_div_def EPOCH_LENGTH_def)

lemma bn_div_neg: "a < 0 \<Longrightarrow> bn_div a EPOCH_LENGTH \<le> 0"
  by (simp add: bn_div_def EPOCH_LENGTH_def)

lemma le_div_mult: "x \<le> t div d \<longleftrightarrow> x * d \<le> t" if "0 < d" for x t d :: int
proof
  assume "x \<le> t div d"
  then have "x * d \<le> (t div d) * d" using that by (simp add: mult_right_mono)
  also have "\<dots> \<le> t" using that by (simp add: minus_mod_eq_div_mult[symmetric])
  finally show "x * d \<le> t" .
next
  assume "x * d \<le> t"
  then have "(x * d) div d \<le> t div d" using that by (rule zdiv_mono1)
  then show "x \<le> t div d" using that by simp
qed

lemma epoch_before_bn_div: "0 < e \<Longrightarrow> e < bn_div t EPOCH_LENGTH \<longleftrightarrow> (e + 1) * EPOCH_LENGTH \<le> t"
proof (cases "0 \<le> t")
  case True
  have "e < t div EPOCH_LENGTH \<longleftrightarrow> e + 1 \<le> t div EPOCH_LENGTH" by linarith
  also have "\<dots> \<longleftrightarrow> (e + 1) * EPOCH_LENGTH \<le> t" by (rule le_div_mult) (simp add: EPOCH_LENGTH_def)
  finally show ?thesis unfolding bn_div_nonneg[OF True] .
next
  case False
  then have "\<not> (e + 1) * EPOCH_LENGTH \<le> t" if "0 < e" using that by (simp add: EPOCH_LENGTH_def)
  then show "0 < e \<Longrightarrow> ?thesis" using False bn_div_neg[of t] by force
qed

lemma epoch_upto_bn_div: "0 < e \<Longrightarrow> e < bn_div t EPOCH_LENGTH + 1 \<longleftrightarrow> e * EPOCH_LENGTH \<le> t"
proof (cases "0 \<le> t")
  case True
  have "e < t div EPOCH_LENGTH + 1 \<longleftrightarrow> e \<le> t div EPOCH_LENGTH" by linarith
  also have "\<dots> \<longleftrightarrow> e * EPOCH_LENGTH \<le> t" by (rule le_div_mult) (simp add: EPOCH_LENGTH_def)
  finally show ?thesis unfolding bn_div_nonneg[OF True] .
next
  case False
  then have "\<not> e * EPOCH_LENGTH \<le> t" if "0 < e" using that by (simp add: EPOCH_LENGTH_def)
  then show "0 < e \<Longrightarrow> ?thesis" using False bn_div_neg[of t] by force
qed

theorem expirationCapEpoch_pays:
  assumes "expirationCapEpoch ts = Inr cap" and "ts \<noteq> 0" and "0 < e"
  shows "e < cap \<longleftrightarrow> e * EPOCH_LENGTH < ts"
  using assms epoch_upto_bn_div[of e "ts - 1"]
  by (auto simp: expirationCapEpoch_def elim!: ebind_InrE)

theorem expirationCapEpoch_pays_witness:
  "expirationCapEpoch (50 * 86400 + 10) = Inr 51 \<and> expirationCapEpoch (50 * 86400) = Inr 50
   \<and> (50 * EPOCH_LENGTH < 50 * 86400 + 10) \<and> \<not> (50 * EPOCH_LENGTH < (50 * 86400 :: int))"
proof -
  have 1: "expirationCapEpoch (50 * 86400 + 10) = Inr 51" and 2: "expirationCapEpoch (50 * 86400) = Inr 50"
    by (simp_all add: expirationCapEpoch_def bn_div_def bn_toNumber_def EPOCH_LENGTH_def)
  show ?thesis using 1 2 expirationCapEpoch_pays[OF 1, of 50] expirationCapEpoch_pays[OF 2, of 50] by simp
qed

text \<open>
  An epoch may be claimed when it has not been, when it is over (or, of a lockup that has ended, when it starts
  before the end), and when it starts before the delegation expires.
\<close>

definition claimable :: "int \<Rightarrow> position_info \<Rightarrow> int \<Rightarrow> bool" where
  "claimable unixNow p e \<longleftrightarrow> \<not> claimed p e
     \<and> (if is_decayed unixNow p then e * EPOCH_LENGTH \<le> ps_endTs p else (e + 1) * EPOCH_LENGTH \<le> unixNow)
     \<and> (dp_expirationTs (pi_delegatedPosition p) = 0 \<or> e * EPOCH_LENGTH < dp_expirationTs (pi_delegatedPosition p))"

lemma due_claimable:
  assumes "0 \<le> last_claimed p" and "\<bar>unixNow\<bar> < 2 ^ 53"
  shows "due unixNow p e \<longleftrightarrow> claimable unixNow p e"
proof (cases "0 < e")
  case False
  with assms(1) have "claimed p e" by (simp add: isClaimed_def)
  then show ?thesis by (simp add: due_def claimable_def)
next
  case True
  have safe: "e < MAX_SAFE_INTEGER" if "if is_decayed unixNow p then e * EPOCH_LENGTH \<le> ps_endTs p else (e + 1) * EPOCH_LENGTH \<le> unixNow"
    using that assms(2) True by (auto simp: is_decayed_def EPOCH_LENGTH_def MAX_SAFE_INTEGER_def split: if_splits)
  show ?thesis
    using safe epoch_before_bn_div[OF True, of unixNow] epoch_upto_bn_div[OF True, of "ps_endTs p"]
      epoch_upto_bn_div[OF True, of "dp_expirationTs (pi_delegatedPosition p) - 1"]
    by (auto simp: due_def claimable_def raw_end_def Let_def split: if_splits)
qed

section \<open>buildClaimInstructions\<close>

lemma clock_now_53: "clock_now clock = Inr now \<Longrightarrow> \<bar>now\<bar> < 2 ^ 53"
  by (auto simp: clock_now_def bn_of_number_def split: option.splits if_splits elim!: ebind_InrE)

lemma concat_filter_nonempty: "concat (filter (\<lambda>b. b \<noteq> []) bs) = concat bs"
  by (induction bs) auto

lemma first_dao_Inr:
  assumes "fetch_subDaos env keys = Inr subDaos" and "first_dao env subDaos = Inr daoAcc"
  obtains a where "keys \<noteq> []" and "en_subDao env (hd keys) = Inr a" and "en_dao env (sd_dao a) = Inr daoAcc"
proof (cases keys)
  case Nil
  with assms show thesis by (simp add: fetch_subDaos_def first_dao_def)
next
  case (Cons k ks)
  with assms that show thesis by (auto simp: fetch_subDaos_def first_dao_def elim!: ebind_InrE)
qed

text \<open>What a successful call returns, from the lemmas on its parts.\<close>

lemma build_parts:
  assumes "buildClaimInstructions env positions wallet = Inr r" and "reads env acct"
  obtains clock now a daoAcc sel hit batches where
    "en_clock env = Inr clock" "clock_now clock = Inr now" "positions \<noteq> []"
    "en_subDao env (dp_subDao (pi_delegatedPosition (hd positions))) = Inr a" "en_dao env (sd_dao a) = Inr daoAcc"
    "collect_epochs now positions = Inr (sel, hit)"
    "list_all2 (claims env wallet acct daoAcc) (filter (issued env acct) sel) (concat batches)"
    "list_all2 (\<lambda>c b. length b \<le> length c) (chop EPOCHS_PER_BATCH sel) batches"
    "cr_instructionBatches r = map (map snd) (filter (\<lambda>b. b \<noteq> []) batches)"
    "cr_hasMore r \<longleftrightarrow> sel \<noteq> [] \<and> hit" "cr_hasRewards r \<longleftrightarrow> concat batches \<noteq> []"
    "set (cr_rewardMints r) = fst ` set (concat batches)"
proof -
  from assms(1) obtain clock now subDaos daoAcc sel hit where 1: "en_clock env = Inr clock" "clock_now clock = Inr now"
      "fetch_subDaos env (map (dp_subDao \<circ> pi_delegatedPosition) positions) = Inr subDaos" "first_dao env subDaos = Inr daoAcc"
      "collect_epochs now positions = Inr (sel, hit)"
    and r: "(if sel = [] then Inr \<lparr>cr_instructionBatches = [], cr_hasMore = False, cr_hasRewards = False, cr_rewardMints = []\<rparr>
       else ebind (chunks sel EPOCHS_PER_BATCH) (\<lambda>cs.
            ebind (emap (claim_chunk env wallet daoAcc subDaos) cs) (\<lambda>batches.
              let kept = filter (\<lambda>b. b \<noteq> []) batches
              in Inr \<lparr>cr_instructionBatches = map (map snd) kept, cr_hasMore = hit, cr_hasRewards = kept \<noteq> [],
                      cr_rewardMints = js_set (map fst (concat batches))\<rparr>))) = Inr r"
    unfolding buildClaimInstructions_def by (elim ebind_InrE) (auto elim!: ebind_InrE)
  from first_dao_Inr[OF 1(3,4)] obtain a where a: "positions \<noteq> []"
      "en_subDao env (dp_subDao (pi_delegatedPosition (hd positions))) = Inr a" "en_dao env (sd_dao a) = Inr daoAcc"
    by (auto simp: hd_map)
  show thesis
  proof (cases "sel = []")
    case True
    with r that[OF 1(1,2) a 1(5), of "[]"] show thesis by (auto simp: EPOCHS_PER_BATCH_def)
  next
    case False
    have "chunks sel EPOCHS_PER_BATCH = Inr (chop EPOCHS_PER_BATCH sel)"
      by (rule chunks_chop) (simp add: EPOCHS_PER_BATCH_def)
    with r False obtain batches where b: "emap (claim_chunk env wallet daoAcc subDaos) (chop EPOCHS_PER_BATCH sel) = Inr batches"
      and req: "r = \<lparr>cr_instructionBatches = map (map snd) (filter (\<lambda>b. b \<noteq> []) batches), cr_hasMore = hit,
         cr_hasRewards = filter (\<lambda>b. b \<noteq> []) batches \<noteq> [], cr_rewardMints = js_set (map fst (concat batches))\<rparr>"
      by (auto simp: Let_def elim!: ebind_InrE)
    note cl = claim_chunks_Inr[OF b assms(2) fetch_subDaos_Inr[OF 1(3)]]
    have "concat (chop EPOCHS_PER_BATCH sel) = sel" by (rule concat_chop) (simp add: EPOCHS_PER_BATCH_def)
    with cl(1) have "list_all2 (claims env wallet acct daoAcc) (filter (issued env acct) sel) (concat batches)" by simp
    moreover have "filter (\<lambda>b. b \<noteq> []) batches \<noteq> [] \<longleftrightarrow> concat batches \<noteq> []" by (auto simp: filter_empty_conv)
    ultimately show thesis using False by (intro that[OF 1(1,2) a 1(5) _ cl(2)]) (simp_all add: req)
  qed
qed

lemma build_claims:
  assumes "buildClaimInstructions env positions wallet = Inr r" and "reads env acct" and "distinct positions"
    and "\<forall>p \<in> set positions. 0 \<le> dp_lastClaimedEpoch (pi_delegatedPosition p)"
  shows "\<exists>clock now a daoAcc sel cs. en_clock env = Inr clock \<and> clock_now clock = Inr now
    \<and> en_subDao env (dp_subDao (pi_delegatedPosition (hd positions))) = Inr a \<and> en_dao env (sd_dao a) = Inr daoAcc
    \<and> distinct sel \<and> (\<forall>(p, e) \<in> set sel. p \<in> set positions \<and> claimable now p e \<and> issued env acct (p, e))
    \<and> list_all2 (claims env wallet acct daoAcc) sel cs
    \<and> concat (cr_instructionBatches r) = map snd cs \<and> set (cr_rewardMints r) = fst ` set cs
    \<and> (cr_hasRewards r \<and> \<not> cr_hasMore r \<longrightarrow>
        (\<forall>p \<in> set positions. \<forall>e. claimable now p e \<and> issued env acct (p, e) \<longrightarrow> (p, e) \<in> set sel))"
proof -
  obtain clock now a daoAcc sel hit batches where b:
    "en_clock env = Inr clock" "clock_now clock = Inr now" "positions \<noteq> []"
    "en_subDao env (dp_subDao (pi_delegatedPosition (hd positions))) = Inr a" "en_dao env (sd_dao a) = Inr daoAcc"
    "collect_epochs now positions = Inr (sel, hit)"
    "list_all2 (claims env wallet acct daoAcc) (filter (issued env acct) sel) (concat batches)"
    "list_all2 (\<lambda>c b. length b \<le> length c) (chop EPOCHS_PER_BATCH sel) batches"
    "cr_instructionBatches r = map (map snd) (filter (\<lambda>b. b \<noteq> []) batches)"
    "cr_hasMore r \<longleftrightarrow> sel \<noteq> [] \<and> hit" "cr_hasRewards r \<longleftrightarrow> concat batches \<noteq> []"
    "set (cr_rewardMints r) = fst ` set (concat batches)"
    by (rule build_parts[OF assms(1,2)])
  note d = due_claimable[OF bspec[OF assms(4)] clock_now_53[OF b(2)]]
  note c = collect_spec[OF b(6)]
  have "\<forall>(p, e) \<in> set (filter (issued env acct) sel). p \<in> set positions \<and> claimable now p e \<and> issued env acct (p, e)"
    using c(2) d by (auto simp: selects_def)
  moreover have "(p, e) \<in> set (filter (issued env acct) sel)"
    if "cr_hasRewards r" "\<not> cr_hasMore r" "p \<in> set positions" "claimable now p e" "issued env acct (p, e)" for p e
  proof -
    from that(1) b(11,7) have "sel \<noteq> []" by auto
    with that(2) b(10) have "\<not> hit" by simp
    from c(4)[OF this] that(3-5) d show ?thesis by (auto simp: covers_def)
  qed
  moreover have "concat (cr_instructionBatches r) = map snd (concat batches)"
    unfolding b(9) map_concat[symmetric] concat_filter_nonempty ..
  ultimately show ?thesis using b(1,2,4,5,7,12) distinct_filter[OF c(3)[OF assms(3)]] by blast
qed


section \<open>currentEpoch\<close>

lemma round_half_even_error: "\<bar>of_int (round_half_even q) - q\<bar> \<le> 1 / 2"
proof -
  have "of_int \<lfloor>q\<rfloor> \<le> q" "q < of_int \<lfloor>q\<rfloor> + 1" by linarith+
  then show ?thesis by (simp add: round_half_even_def Let_def abs_le_iff)
qed

lemma rnd_error: "0 < x \<Longrightarrow> x < 2 powi (k + 1) \<Longrightarrow> rnd x \<le> x + 2 powi (k - 53)"
proof -
  assume x: "0 < x" "x < 2 powi (k + 1)"
  let ?u = "2 powi (expo x - 52) :: rat"
  have "\<not> k + 1 \<le> expo x"
  proof
    assume "k + 1 \<le> expo x"
    then have "(2 :: rat) powi (k + 1) \<le> 2 powi expo x" by (intro power_int_increasing) auto
    with expo_bounds(1)[OF x(1)] x(2) show False by simp
  qed
  then have "?u \<le> 2 powi (k - 52)" by (intro power_int_increasing) auto
  also have "(2 :: rat) powi (k - 52) = 2 * 2 powi (k - 53)" using power_int_add[of "2 :: rat" 1 "k - 53"] by simp
  finally have u: "?u / 2 \<le> 2 powi (k - 53)" by simp
  have "of_int (round_half_even (x / ?u)) \<le> x / ?u + 1 / 2" using round_half_even_error[of "x / ?u"] by linarith
  then have "of_int (round_half_even (x / ?u)) * ?u \<le> (x / ?u + 1 / 2) * ?u" by (intro mult_right_mono) auto
  also have "\<dots> = x + ?u / 2" by (simp add: algebra_simps)
  finally show ?thesis using u by (simp add: rnd_pos[OF x(1)])
qed

lemma currentEpoch_div:
  assumes "0 \<le> t" and "t < 2 ^ 53"
  shows "currentEpoch t = Inr (t div EPOCH_LENGTH)"
proof -
  let ?q = "t div 86400" and ?x = "of_int t / 86400 :: rat"
  have q: "0 \<le> ?q" "?q < 2 ^ 37" using assms by auto
  have "t \<le> ?q * 86400 + 86399" by presburger
  then have x: "of_int ?q \<le> ?x" "?x \<le> of_int ?q + 86399 / 86400"
    by (simp_all add: divide_simps)
  have "\<lfloor>rnd ?x\<rfloor> = ?q"
  proof (cases "t = 0")
    case False
    with assms(1) have pos: "0 < ?x" by simp
    have "rnd (of_int ?q) \<le> rnd ?x" using q(1) x(1) by (intro rnd_mono_nonneg) auto
    moreover have "rnd (of_int ?q) = of_int ?q"
      using rnd_of_nat[of "nat ?q"] q by simp
    moreover have "?x < 2 powi (36 + 1)" using x(2) q(2) by simp
    from rnd_error[OF pos this] have "rnd ?x \<le> ?x + 1 / 2 ^ 17" by (simp add: power_int_minus divide_simps)
    ultimately show ?thesis using x(2) by (intro floor_unique) auto
  qed simp
  then show ?thesis using assms q
    by (simp add: currentEpoch_def bn_toNumber_def bn_of_number_def EPOCH_LENGTH_def fdiv_def)
qed

text \<open>
  C40. The epoch of a time. For every time below two to the 53 the quotient of doubles, rounded, still falls into the
  right day: \<open>currentEpoch\<close> is the integer quotient by the length of an epoch.
\<close>

theorem currentEpoch_exact:
  assumes "0 \<le> t" and "t < 2 ^ 53"
  shows "currentEpoch t = Inr (t div EPOCH_LENGTH)"
  by (rule currentEpoch_div[OF assms])

theorem currentEpoch_exact_witness: "currentEpoch (20117 * 86400 - 1) = Inr 20116"
  using currentEpoch_exact[of "20117 * 86400 - 1"] by (simp add: EPOCH_LENGTH_def)

lemma epoch_key_start:
  "0 \<le> e \<Longrightarrow> e * EPOCH_LENGTH < 2 ^ 53 \<Longrightarrow>
   epoch_key env seed key (e * EPOCH_LENGTH)
     = Inr (en_findProgramAddress env [utf8 seed, en_keyBytes env key, u64le (nat e)] HSD_PROGRAM_ID)"
  using currentEpoch_div[of "e * EPOCH_LENGTH"]
  by (simp add: epoch_key_def EPOCH_LENGTH_def bn_toNumber_def writeBigUInt64LE_def)

lemma bn_div_range: "0 \<le> a \<Longrightarrow> a < 2 ^ 53 \<Longrightarrow> 0 \<le> bn_div a EPOCH_LENGTH \<and> bn_div a EPOCH_LENGTH \<le> 2 ^ 53 div 86400"
  using zdiv_mono1[of a "2 ^ 53" 86400] unfolding bn_div_nonneg by (simp add: EPOCH_LENGTH_def)

section \<open>The two implementations\<close>

lemma map_upt_upto: "map (\<lambda>k. a + int k) [0..<n] = [a..a + int n - 1]"
  by (rule nth_equalityI) simp_all

lemma form_epochs_eq:
  assumes "0 \<le> last_claimed p" "last_claimed p < 2 ^ 53 - 1" "0 \<le> ps_endTs p" "0 \<le> unixNow" "unixNow < 2 ^ 53"
    and "dp_expirationTs (pi_delegatedPosition p) = 0"
  shows "form_epochs unixNow p (pi_delegatedPosition p)
    = Inr (filter (\<lambda>e. \<not> claimed p e) [last_claimed p + 1..raw_end unixNow p - 1])"
proof -
  let ?d = "pi_delegatedPosition p" and ?f = "last_claimed p + 1"
  let ?stop = "if is_decayed unixNow p then bn_div (ps_endTs p) EPOCH_LENGTH + 1 else bn_div unixNow EPOCH_LENGTH"
  let ?n = "nat (?stop - ?f)"
  have e: "0 \<le> ?stop" "?stop \<le> 2 ^ 53 div 86400 + 1"
    using assms(3-5) bn_div_range[of unixNow] bn_div_range[of "ps_endTs p"] by (simp_all add: is_decayed_def)
  have raw: "raw_end unixNow p = ?stop" using e(2) assms(6) by (simp add: raw_end_def MAX_SAFE_INTEGER_def)
  have es: "emap (\<lambda>k. ebind (bn_toNumber (?f + int k)) (\<lambda>e. ebind (bn_toNumber (last_claimed p)) (\<lambda>l.
          Inr (?f + int k, isClaimed e l (dp_claimedEpochsBitmap ?d))))) [0..<?n]
      = Inr (map (\<lambda>k. (?f + int k, claimed p (?f + int k))) [0..<?n])"
    using assms(1,2) e by (intro emap_total) (auto simp: bn_toNumber_def)
  have count: "(if is_decayed unixNow p then bn_div (ps_endTs p) EPOCH_LENGTH - ?f + 1 else bn_div unixNow EPOCH_LENGTH - ?f) = ?stop - ?f"
    by simp
  have num: "bn_toNumber (?stop - ?f) = Inr (?stop - ?f)" using assms(1,2) e by (simp add: bn_toNumber_def)
  have "form_epochs unixNow p ?d
      = Inr (map fst (filter (\<lambda>(e, c). \<not> c) (map (\<lambda>k. (?f + int k, claimed p (?f + int k))) [0..<?n])))"
    unfolding form_epochs_def Let_def count num ebind_simps es ..
  also have "map (\<lambda>k. (?f + int k, claimed p (?f + int k))) [0..<?n] = map (\<lambda>e. (e, claimed p e)) (map (\<lambda>k. ?f + int k) [0..<?n])"
    by (simp only: map_map comp_def)
  also have "map (\<lambda>k. ?f + int k) [0..<?n] = [?f..?stop - 1]"
  proof (cases "?f \<le> ?stop")
    case True
    then have "?f + int ?n - 1 = ?stop - 1" by simp
    then show ?thesis unfolding map_upt_upto by (rule arg_cong)
  next
    case False
    then have "?n = 0" "?stop - 1 < ?f" by simp_all
    then show ?thesis by (simp only: upt_0 upto_rec1 map_upt_upto) simp
  qed
  also have "map fst (filter (\<lambda>(e, c). \<not> c) (map (\<lambda>e. (e, claimed p e)) [?f..?stop - 1]))
      = filter (\<lambda>e. \<not> claimed p e) [?f..?stop - 1]"
    by (simp add: filter_map o_def)
  finally show ?thesis by (simp only: raw)
qed

text \<open>
  C20. The API and the hooks claim the same epochs. When the API does not stop early and the delegations do not expire,
  the epochs it collects are, position by position, those that \<open>formPositionClaims\<close> forms.
\<close>

theorem claim_epochs_agree:
  assumes "collect_epochs unixNow ps = Inr (sel, False)" and "0 \<le> unixNow" and "unixNow < 2 ^ 53"
    and "\<forall>p \<in> set ps. 0 \<le> dp_lastClaimedEpoch (pi_delegatedPosition p)
      \<and> dp_lastClaimedEpoch (pi_delegatedPosition p) < 2 ^ 53 - 1 \<and> 0 \<le> ps_endTs p
      \<and> dp_expirationTs (pi_delegatedPosition p) = 0"
  shows "\<exists>ess. emap (\<lambda>p. form_epochs unixNow p (pi_delegatedPosition p)) ps = Inr ess
    \<and> sel = concat (map (\<lambda>(p, es). map (Pair p) es) (zip ps ess))"
proof -
  let ?es = "\<lambda>p. filter (\<lambda>e. \<not> claimed p e) [last_claimed p + 1..raw_end unixNow p - 1]"
  have "emap (\<lambda>p. form_epochs unixNow p (pi_delegatedPosition p)) ps = Inr (map ?es ps)"
    using assms(2-4) by (intro emap_total form_epochs_eq) auto
  moreover have "map (\<lambda>(p, es). map (Pair p) es) (zip ps (map ?es ps)) = map (\<lambda>p. map (Pair p) (?es p)) ps"
    by (simp add: zip_map2 zip_same_conv_map)
  ultimately show ?thesis using collect_spec(5)[OF assms(1)] by auto
qed

lemma list_all2_set2: "list_all2 R xs ys \<Longrightarrow> y \<in> set ys \<Longrightarrow> \<exists>x \<in> set xs. R x y"
  by (induction rule: list_all2_induct) auto

theorem buildClaimInstructions_batches:
  assumes "buildClaimInstructions env positions wallet = Inr r" and "reads env acct"
  shows "length (cr_instructionBatches r) \<le> MAX_TXS_PER_CALL
    \<and> (\<forall>b \<in> set (cr_instructionBatches r). b \<noteq> [] \<and> length b \<le> EPOCHS_PER_BATCH)
    \<and> (cr_hasRewards r \<longleftrightarrow> cr_instructionBatches r \<noteq> [])"
proof -
  obtain clock now a daoAcc sel hit batches where b:
    "en_clock env = Inr clock" "clock_now clock = Inr now" "positions \<noteq> []"
    "en_subDao env (dp_subDao (pi_delegatedPosition (hd positions))) = Inr a" "en_dao env (sd_dao a) = Inr daoAcc"
    "collect_epochs now positions = Inr (sel, hit)"
    "list_all2 (claims env wallet acct daoAcc) (filter (issued env acct) sel) (concat batches)"
    "list_all2 (\<lambda>c b. length b \<le> length c) (chop EPOCHS_PER_BATCH sel) batches"
    "cr_instructionBatches r = map (map snd) (filter (\<lambda>b. b \<noteq> []) batches)"
    "cr_hasMore r \<longleftrightarrow> sel \<noteq> [] \<and> hit" "cr_hasRewards r \<longleftrightarrow> concat batches \<noteq> []"
    "set (cr_rewardMints r) = fst ` set (concat batches)"
    by (rule build_parts[OF assms])
  have pos: "0 < EPOCHS_PER_BATCH" by (simp add: EPOCHS_PER_BATCH_def)
  have "length batches = ceil_div (length sel) EPOCHS_PER_BATCH"
    using list_all2_lengthD[OF b(8)] by (simp add: length_chop[OF pos])
  also have "\<dots> \<le> MAX_TXS_PER_CALL"
    using collect_spec(1)[OF b(6)] by (simp add: ceil_div_def EPOCHS_PER_BATCH_def MAX_TXS_PER_CALL_def)
  finally have 1: "length (cr_instructionBatches r) \<le> MAX_TXS_PER_CALL"
    unfolding b(9) length_map by (rule order_trans[OF length_filter_le])
  have "length b \<le> EPOCHS_PER_BATCH" if mem: "b \<in> set batches" for b
  proof -
    obtain c where "c \<in> set (chop EPOCHS_PER_BATCH sel)" "length b \<le> length c"
      using list_all2_set2[OF b(8) mem] by blast
    with chop_bounds[OF pos] show ?thesis by (meson order_trans)
  qed
  then have 2: "\<forall>b \<in> set (cr_instructionBatches r). b \<noteq> [] \<and> length b \<le> EPOCHS_PER_BATCH" by (auto simp: b(9))
  have "cr_hasRewards r \<longleftrightarrow> cr_instructionBatches r \<noteq> []" unfolding b(9,11) by (auto simp: filter_empty_conv)
  with 1 2 show ?thesis by blast
qed

section \<open>formPositionClaims\<close>

text \<open>Row \<open>i\<close> of a list of rows, empty when there is none.\<close>

fun row_at :: "nat \<Rightarrow> 'a list list \<Rightarrow> 'a list" where
  "row_at i [] = []"
| "row_at 0 (row # rows) = row"
| "row_at (Suc i) (row # rows) = row_at i rows"

lemma row_at_nth: "row_at i rows = (if i < length rows then rows ! i else [])"
  by (induction i rows rule: row_at.induct) auto

lemma length_merge_rows: "length (merge_rows acc rows) = max (length acc) (length rows)"
  by (induction acc rows rule: merge_rows.induct) auto

lemma row_at_merge: "row_at i (merge_rows acc rows) = row_at i acc @ row_at i rows"
proof (induction acc rows arbitrary: i rule: merge_rows.induct)
  case (2 ixs rest)
  then show ?case by (cases i) auto
next
  case (3 row acc ixs rest)
  then show ?case by (cases i) auto
qed simp

lemma row_at_fold: "row_at i (foldl merge_rows acc bs) = row_at i acc @ concat (map (row_at i) bs)"
  by (induction bs arbitrary: acc) (simp_all add: row_at_merge)

lemma length_fold_rows: "i < length (foldl merge_rows acc bs) \<longleftrightarrow> i < length acc \<or> (\<exists>b \<in> set bs. i < length b)"
  by (induction bs arbitrary: acc) (auto simp: length_merge_rows less_max_iff_disj)

lemma obj_set_new: "k \<notin> fst ` set kvs \<Longrightarrow> obj_set kvs k v = kvs @ [(k, v)]"
  by (induction kvs k v rule: obj_set.induct) auto

text \<open>The chunks of claims of one position.\<close>

definition position_chunks ::
  "governance_env \<Rightarrow> pubkey \<Rightarrow> int \<Rightarrow> dao \<Rightarrow> position \<Rightarrow> instruction list list \<Rightarrow> bool" where
  "position_chunks env wallet unixNow daoAcc p b \<longleftrightarrow>
     (case en_delegatedPosition env (delegatedPositionKey env (ps_pubkey p)) of
        Inl _ \<Rightarrow> False
      | Inr None \<Rightarrow> b = []
      | Inr (Some d) \<Rightarrow> \<exists>es subDaoAcc. form_epochs unixNow p d = Inr es \<and> en_subDao env (dp_subDao d) = Inr subDaoAcc
          \<and> emap (form_chunk env wallet daoAcc subDaoAcc (dp_subDao d) (delegatedPositionKey env (ps_pubkey p)) p) (chop 128 es) = Inr b)"

lemma form_buckets:
  assumes "efold (form_position env wallet unixNow daoAcc subDaos) bs ds = Inr bs'"
    and "fst ` set bs \<inter> (ps_pubkey \<circ> fst) ` set ds = {}" and "distinct (map (ps_pubkey \<circ> fst) ds)"
    and "\<And>k a. map_of subDaos k = Some a \<Longrightarrow> en_subDao env k = Inr a"
    and "\<And>p key a. (p, key, a) \<in> set ds \<Longrightarrow> key = delegatedPositionKey env (ps_pubkey p) \<and> en_delegatedPosition env key = Inr a"
  shows "\<exists>new. bs' = bs @ new \<and> list_all2 (\<lambda>d b. position_chunks env wallet unixNow daoAcc (fst d) (snd b)) ds new"
  using assms(1-3,5)
proof (induction ds arbitrary: bs)
  case (Cons d ds)
  obtain p key a where d: "d = (p, key, a)" by (cases d)
  from Cons.prems(1) obtain b1 where b1: "form_position env wallet unixNow daoAcc subDaos bs d = Inr b1"
      "efold (form_position env wallet unixNow daoAcc subDaos) b1 ds = Inr bs'" by (auto elim!: ebind_InrE)
  have new: "ps_pubkey p \<notin> fst ` set bs" using Cons.prems(2) by (auto simp: d)
  then have none: "map_of bs (ps_pubkey p) = None" by (simp add: map_of_eq_None_iff)
  have key: "key = delegatedPositionKey env (ps_pubkey p)" "en_delegatedPosition env key = Inr a"
    using Cons.prems(4)[of p key a] by (auto simp: d)
  have "\<exists>b. b1 = bs @ [(ps_pubkey p, b)] \<and> position_chunks env wallet unixNow daoAcc p b"
    using b1(1) key assms(4)
    by (auto simp: d form_position_def none Let_def obj_set_new[OF new] chunks_chop position_chunks_def
        split: option.splits elim!: ebind_InrE)
  then obtain b where b: "b1 = bs @ [(ps_pubkey p, b)]" "position_chunks env wallet unixNow daoAcc p b" by blast
  have "\<exists>new. bs' = b1 @ new \<and> list_all2 (\<lambda>d b. position_chunks env wallet unixNow daoAcc (fst d) (snd b)) ds new"
  proof (rule Cons.IH[OF b1(2)])
    show "fst ` set b1 \<inter> (ps_pubkey \<circ> fst) ` set ds = {}" using Cons.prems(2,3) by (auto simp: b(1) d)
    show "distinct (map (ps_pubkey \<circ> fst) ds)" using Cons.prems(3) by (simp add: comp_def)
  qed (use Cons.prems(4) in auto)
  then obtain n where "bs' = b1 @ n" "list_all2 (\<lambda>d b. position_chunks env wallet unixNow daoAcc (fst d) (snd b)) ds n" by blast
  with b show ?case by (intro exI[of _ "(ps_pubkey p, b) # n"]) (simp add: d)
qed simp

text \<open>
  C38. The rows of \<open>formPositionClaims\<close>: row \<open>i\<close> holds the \<open>i\<close>-th chunk of claims of every position, in the order of the
  positions, and there are as many rows as the position with the most chunks has.
\<close>

theorem formPositionClaims_rows:
  assumes "formPositionClaims env wallet ps = Inr rows" and "distinct (map (ps_pubkey \<circ> fst) ps)" and "rows \<noteq> []"
  shows "\<exists>data now daoAcc bs. en_clock env = Inr (Some data) \<and> readBigInt64LE data 32 = Inr now
    \<and> list_all2 (\<lambda>p b. position_chunks env wallet now daoAcc (fst p) b) ps bs
    \<and> (\<forall>i. i < length rows \<longleftrightarrow> (\<exists>b \<in> set bs. i < length b))
    \<and> (\<forall>i < length rows. rows ! i = concat (map (row_at i) bs))"
proof -
  let ?fetch = "\<lambda>(p, _). let key = delegatedPositionKey env (ps_pubkey p)
                        in ebind (en_delegatedPosition env key) (\<lambda>a. Inr (p, key, a))"
  from assms(1,3) obtain data now ds subDaos daoAcc buckets where
      1: "en_clock env = Inr (Some data)" "readBigInt64LE data 32 = Inr now"
    and ds: "emap ?fetch ps = Inr ds"
    and sub: "fetch_subDaos env (map dp_subDao (map the (filter (\<lambda>a. a \<noteq> None) (map (snd \<circ> snd) ds)))) = Inr subDaos"
    and b: "efold (form_position env wallet now daoAcc subDaos) [] ds = Inr buckets"
    and rows: "rows = foldl merge_rows [] (map snd buckets)"
    unfolding formPositionClaims_def
    by (elim ebind_InrE) (auto simp: Let_def bn_of_number_def split: option.splits if_splits elim!: ebind_InrE)
  have len: "length ds = length ps" by (rule emap_Inr_length[OF ds])
  have nth: "ds ! i = (fst (ps ! i), delegatedPositionKey env (ps_pubkey (fst (ps ! i))), snd (snd (ds ! i)))
      \<and> en_delegatedPosition env (delegatedPositionKey env (ps_pubkey (fst (ps ! i)))) = Inr (snd (snd (ds ! i)))"
    if "i < length ps" for i
    using emap_Inr_nth[OF ds that] by (auto simp: Let_def dest!: sym[where t = "ds ! i"] split: prod.splits elim!: ebind_InrE)
  have fsts: "fst (ds ! i) = fst (ps ! i)" if "i < length ps" for i using nth[OF that] by (metis fst_conv)
  have keys: "map (ps_pubkey \<circ> fst) ds = map (ps_pubkey \<circ> fst) ps"
    by (rule nth_equalityI) (simp_all add: len fsts)
  have "\<exists>new. buckets = [] @ new \<and> list_all2 (\<lambda>d b. position_chunks env wallet now daoAcc (fst d) (snd b)) ds new"
  proof (rule form_buckets[OF b])
    show "distinct (map (ps_pubkey \<circ> fst) ds)" using assms(2) by (simp only: keys)
    show "key = delegatedPositionKey env (ps_pubkey p) \<and> en_delegatedPosition env key = Inr a" if "(p, key, a) \<in> set ds" for p key a
    proof -
      from that obtain i where i: "i < length ps" "ds ! i = (p, key, a)" by (auto simp: in_set_conv_nth len)
      then show ?thesis using nth[OF i(1)] by auto
    qed
  qed (use fetch_subDaos_Inr[OF sub] in auto)
  then have "list_all2 (\<lambda>d b. position_chunks env wallet now daoAcc (fst d) (snd b)) ds buckets" by simp
  then have "list_all2 (\<lambda>p b. position_chunks env wallet now daoAcc (fst p) b) ps (map snd buckets)"
    using fsts len by (simp add: list_all2_conv_all_nth)
  moreover have "rows ! i = concat (map (row_at i) (map snd buckets))" if "i < length rows" for i
    using that row_at_fold[of i "[]" "map snd buckets"] by (simp add: rows row_at_nth[of i "foldl merge_rows [] (map snd buckets)"])
  moreover have "i < length rows \<longleftrightarrow> (\<exists>b \<in> set (map snd buckets). i < length b)" for i
    unfolding rows length_fold_rows by simp
  ultimately show ?thesis using 1 by blast
qed

section \<open>Witnesses\<close>

definition example_clock_data :: bytes where
  "example_clock_data = replicate 34 0 @ [3] @ replicate 5 0"

definition example_subDao :: sub_dao where
  "example_subDao = \<lparr>sd_dao = ''dao'', sd_dntMint = ''dnt'', sd_delegatorPool = ''pool''\<rparr>"

definition example_dao :: dao where
  "example_dao = \<lparr>da_hntMint = ''hnt'', da_delegatorPool = ''hntpool''\<rparr>"

definition example_ix :: instruction where
  "example_ix = \<lparr>ix_programId = HSD_PROGRAM_ID, ix_keys = [], ix_data = [1, 1]\<rparr>"

definition example_delegation :: delegated_position where
  "example_delegation = \<lparr>dp_subDao = ''sd'', dp_lastClaimedEpoch = 0, dp_claimedEpochsBitmap = 0, dp_expirationTs = 0\<rparr>"

definition example_env :: governance_env where
  "example_env =
     \<lparr>en_clock = Inr (Some example_clock_data),
      en_subDao = (\<lambda>k. Inr example_subDao),
      en_dao = (\<lambda>k. Inr example_dao),
      en_delegatedPosition = (\<lambda>k. Inr (Some example_delegation)),
      en_accounts = (\<lambda>ks. Inr (map (\<lambda>k. Some [1]) ks)),
      en_decode = (\<lambda>b. Inr \<lparr>ei_rewardsIssuedAt = Some 7, ei_hntRewardsIssued = 5\<rparr>),
      en_findProgramAddress = (\<lambda>seeds program. ''pda''),
      en_keyBytes = (\<lambda>k. utf8 k),
      en_ata = (\<lambda>mint owner off. Inr (mint @ owner)),
      en_method = (\<lambda>c. case c of ClaimRewardsV1 e a \<Rightarrow> Inr \<lparr>ix_programId = HSD_PROGRAM_ID, ix_keys = [], ix_data = [1, word_of_int e]\<rparr>
                       | ClaimRewardsV0 e a \<Rightarrow> Inr \<lparr>ix_programId = HSD_PROGRAM_ID, ix_keys = [], ix_data = [0, word_of_int e]\<rparr>),
      en_systemProgram = ''sys'', en_associatedTokenProgram = ''atp'', en_tokenProgram = ''tok''\<rparr>"

definition example_position :: "pubkey \<Rightarrow> string \<Rightarrow> position" where
  "example_position k kind = \<lparr>ps_mint = k @ ''mint'', ps_pubkey = k, ps_registrar = ''reg'', ps_lockupKind = kind, ps_endTs = 90000\<rparr>"

definition example_info :: "pubkey \<Rightarrow> string \<Rightarrow> position_info" where
  "example_info k kind = position.extend (example_position k kind)
     \<lparr>pi_delegatedPositionKey = ''d'' @ k, pi_delegatedPosition = example_delegation\<rparr>"

lemma example_clock: "readBigInt64LE example_clock_data 32 = Inr 196608"
  by code_simp


lemmas example_defs = example_env_def example_info_def example_position_def position.defs

lemma example_sels:
  "en_clock example_env = Inr (Some example_clock_data)"
  "en_subDao example_env k = Inr example_subDao"
  "en_dao example_env k = Inr example_dao"
  "en_delegatedPosition example_env k = Inr (Some example_delegation)"
  "en_accounts example_env ks = Inr (map (\<lambda>k. Some [1]) ks)"
  "en_decode example_env b = Inr \<lparr>ei_rewardsIssuedAt = Some 7, ei_hntRewardsIssued = 5\<rparr>"
  "en_ata example_env mint owner off = Inr (mint @ owner)"
  "en_method example_env (ClaimRewardsV1 1 acs) = Inr example_ix"
  by (simp_all add: example_env_def example_ix_def)

lemma example_position_sels:
  "pi_delegatedPosition (example_info k kind) = example_delegation"
  "ps_pubkey (example_position k kind) = k"
  "ps_lockupKind (example_position k kind) = kind" "ps_endTs (example_position k kind) = 90000"
  "ps_lockupKind (example_info k kind) = kind" "ps_endTs (example_info k kind) = 90000"
  "dp_subDao example_delegation = ''sd''" "dp_lastClaimedEpoch example_delegation = 0"
  "dp_claimedEpochsBitmap example_delegation = 0" "dp_expirationTs example_delegation = 0"
  "da_hntMint example_dao = ''hnt''"
  by (simp_all add: example_defs example_delegation_def example_dao_def)

lemma example_key: "epoch_key example_env seed key EPOCH_LENGTH = Inr ''pda''"
  using epoch_key_start[of 1 example_env seed key] by (simp add: example_env_def EPOCH_LENGTH_def)

lemma example_unclaimed: "\<not> isClaimed 1 0 0"
  by (simp add: isClaimed_bit)

lemma example_window: "claim_window 196608 (example_info k kind) = Inr (1, 2, False)"
  by (simp add: claim_window_def is_decayed_def bn_div_def EPOCH_LENGTH_def bn_toNumber_def
      expirationCapEpoch_def MAX_SAFE_INTEGER_def Let_def example_position_sels)

lemma example_collect:
  "collect_epochs 196608 [example_info ''a'' ''constant'', example_info ''b'' ''cliff'']
    = Inr ([(example_info ''a'' ''constant'', 1), (example_info ''b'' ''cliff'', 1)], False)"
  by (simp add: collect_epochs_def collect_step_def example_window example_unclaimed example_position_sels
      MAX_TXS_PER_CALL_def EPOCHS_PER_BATCH_def)

lemma example_call:
  "\<exists>acs. claim_call_for example_env ''w'' off example_dao example_subDao subDao key p 1 \<lparr>ei_rewardsIssuedAt = Some 7, ei_hntRewardsIssued = 5\<rparr>
    = Inr (ClaimRewardsV1 1 acs) \<and> cl_rewardMint acs = ''hnt''"
  by (simp add: claim_call_for_def Let_def daoEpochInfoKey_def example_key example_sels example_position_sels)

lemma example_claim:
  "claim_instruction example_env ''w'' example_dao [(''sd'', example_subDao)] ((example_info k kind, 1), Some [1])
    = Inr (Some (''hnt'', example_ix))"
  using example_call[of True "''sd''" "pi_delegatedPositionKey (example_info k kind)" "example_info k kind"]
  by (auto simp: claim_instruction_def example_sels example_position_sels)

lemma example_accounts: "getMultipleAccounts_claims example_env ks = Inr (map (\<lambda>k. Some [1]) ks)" if "length ks = 1 \<or> length ks = 2"
  using that by (auto simp: getMultipleAccounts_claims_def ceil_div_def example_sels js_slice_def)

lemma example_chunk:
  "claim_chunk example_env ''w'' example_dao [(''sd'', example_subDao)]
     [(example_info ''a'' ''constant'', 1), (example_info ''b'' ''cliff'', 1)] = Inr [(''hnt'', example_ix), (''hnt'', example_ix)]"
  by (simp add: claim_chunk_def subDaoEpochInfoKey_def example_key accounts_for_def js_nth_def example_claim example_accounts)

lemma example_first_dao: "first_dao example_env [(''sd'', example_subDao)] = Inr example_dao"
  by (simp add: first_dao_def example_sels)

lemma example_subDaos: "fetch_subDaos example_env [''sd'', ''sd''] = Inr [(''sd'', example_subDao)]"
  by (simp add: fetch_subDaos_def example_sels)

lemma example_build:
  "buildClaimInstructions example_env [example_info ''a'' ''constant'', example_info ''b'' ''cliff''] ''w''
    = Inr \<lparr>cr_instructionBatches = [[example_ix, example_ix]], cr_hasMore = False, cr_hasRewards = True, cr_rewardMints = [''hnt'']\<rparr>"
  by (simp add: buildClaimInstructions_def example_sels example_position_sels clock_now_def example_clock bn_of_number_def
      example_collect chunks_chop EPOCHS_PER_BATCH_def example_first_dao example_subDaos example_chunk)

lemma example_epochs: "form_epochs 196608 (example_position k kind) example_delegation = Inr [1]"
  by (simp add: form_epochs_def is_decayed_def bn_div_def EPOCH_LENGTH_def bn_toNumber_def Let_def example_position_sels example_unclaimed)

lemma example_form_chunk:
  "form_chunk example_env ''w'' example_dao example_subDao ''sd'' key (example_position k kind) [1] = Inr [example_ix]"
  using example_call[of False "''sd''" key "example_position k kind"]
  by (auto simp: form_chunk_def form_claim_def subDaoEpochInfoKey_def example_key example_sels example_position_sels
      accounts_for_def js_nth_def example_accounts)

lemma example_form:
  "formPositionClaims example_env ''w'' [(example_position ''a'' ''constant'', True), (example_position ''b'' ''cliff'', False)]
    = Inr [[example_ix, example_ix]]"
  by (simp add: formPositionClaims_def example_sels example_position_sels example_clock bn_of_number_def Let_def
      form_position_def example_subDaos example_first_dao example_epochs example_form_chunk chunks_chop)


theorem buildClaimInstructions_batches_witness:
  "length [[example_ix, example_ix]] \<le> MAX_TXS_PER_CALL \<and> length [example_ix, example_ix] \<le> EPOCHS_PER_BATCH"
proof -
  have "reads example_env (\<lambda>k. Some [1])" by (simp add: reads_def example_sels)
  from buildClaimInstructions_batches[OF example_build this] show ?thesis by simp
qed

theorem claim_epochs_agree_witness:
  "\<exists>es fs. emap (\<lambda>p. form_epochs 196608 p (pi_delegatedPosition p)) [example_info ''a'' ''constant'', example_info ''b'' ''cliff'']
       = Inr [es, fs] \<and> map (Pair (example_info ''a'' ''constant'')) es @ map (Pair (example_info ''b'' ''cliff'')) fs
       = [(example_info ''a'' ''constant'', 1), (example_info ''b'' ''cliff'', 1)]"
proof -
  obtain ess where 1: "emap (\<lambda>p. form_epochs 196608 p (pi_delegatedPosition p)) [example_info ''a'' ''constant'', example_info ''b'' ''cliff''] = Inr ess"
    and 2: "[(example_info ''a'' ''constant'', 1), (example_info ''b'' ''cliff'', 1)]
      = concat (map (\<lambda>(p, es). map (Pair p) es) (zip [example_info ''a'' ''constant'', example_info ''b'' ''cliff''] ess))"
    using claim_epochs_agree[OF example_collect] by (auto simp: example_position_sels)
  from emap_Inr_length[OF 1] obtain es fs where "ess = [es, fs]" by (auto simp: length_Suc_conv)
  with 1 2 show ?thesis by auto
qed

theorem formPositionClaims_rows_witness:
  "\<exists>bs. length bs = 2 \<and> concat (map (row_at 0) bs) = [example_ix, example_ix]"
proof -
  let ?ps = "[(example_position ''a'' ''constant'', True), (example_position ''b'' ''cliff'', False)]"
  have d: "distinct (map (ps_pubkey \<circ> fst) ?ps)" by (simp add: example_position_sels)
  obtain now daoAcc bs where l: "list_all2 (\<lambda>p b. position_chunks example_env ''w'' now daoAcc (fst p) b) ?ps bs"
      and i: "\<forall>i < length [[example_ix, example_ix]]. [[example_ix, example_ix]] ! i = concat (map (row_at i) bs)"
    using formPositionClaims_rows[OF example_form d] by blast
  from i have "concat (map (row_at 0) bs) = [example_ix, example_ix]" by simp
  with list_all2_lengthD[OF l] show ?thesis by (intro exI[of _ bs]) simp
qed

end
