(* ===== verification/Position_Ownership.thy ===== *)
theory Position_Ownership
  imports JS_Number
begin

text \<open>
  Ownership of positions: \<^verbatim>\<open>validate-ownership.ts\<close> of the governance procedures of the blockchain API. A wallet owns a
  position when its token account for the position's mint exists. The derivation of the token account and the node
  are the record \<open>ownership_env\<close>.
\<close>

record ownership_env =
  oe_ata :: "pubkey \<Rightarrow> pubkey \<Rightarrow> bool \<Rightarrow> js_error + pubkey"
  oe_getAccountInfo :: "pubkey \<Rightarrow> js_error + bytes option"
  oe_getMultipleAccountsInfo :: "pubkey list \<Rightarrow> js_error + bytes option list"

record ownership_result =
  or_isOwner :: bool
  or_tokenAccount :: pubkey

text \<open>The errors a procedure may offer, and how it throws a plain error.\<close>

record 'e ownership_errors =
  oh_UNAUTHORIZED :: "(string \<Rightarrow> 'e) option"
  oh_BAD_REQUEST :: "(string \<Rightarrow> 'e) option"
  oh_plain :: "js_error \<Rightarrow> 'e"

definition throwOwnershipError :: "'e ownership_errors \<Rightarrow> string \<Rightarrow> 'e" where
  "throwOwnershipError errors message =
     (case oh_UNAUTHORIZED errors of Some f \<Rightarrow> f message
      | None \<Rightarrow> (case oh_BAD_REQUEST errors of Some f \<Rightarrow> f message | None \<Rightarrow> oh_plain errors (Err message)))"

definition validatePositionOwnership :: "ownership_env \<Rightarrow> pubkey \<Rightarrow> pubkey \<Rightarrow> js_error + ownership_result" where
  "validatePositionOwnership env positionMint wallet =
     ebind (oe_ata env positionMint wallet True) (\<lambda>tokenAccount.
     ebind (oe_getAccountInfo env tokenAccount) (\<lambda>info.
       Inr \<lparr>or_isOwner = (info \<noteq> None), or_tokenAccount = tokenAccount\<rparr>))"

definition CHUNK_SIZE :: nat where
  "CHUNK_SIZE = 100"

definition validatePositionOwnershipBatch :: "ownership_env \<Rightarrow> pubkey list \<Rightarrow> pubkey \<Rightarrow> js_error + bool list" where
  "validatePositionOwnershipBatch env positionMints wallet =
     ebind (emap (\<lambda>mint. oe_ata env mint wallet True) positionMints) (\<lambda>tokenAccounts.
     ebind (emap (\<lambda>i. oe_getMultipleAccountsInfo env (js_slice tokenAccounts (i * CHUNK_SIZE) ((i + 1) * CHUNK_SIZE)))
                 [0..<ceil_div (length tokenAccounts) CHUNK_SIZE]) (\<lambda>infos.
       Inr (map (\<lambda>info. info \<noteq> None) (concat infos))))"

definition requirePositionOwnership_msg ::
  "ownership_env \<Rightarrow> pubkey \<Rightarrow> pubkey \<Rightarrow> 'e ownership_errors \<Rightarrow> string \<Rightarrow> 'e + pubkey" where
  "requirePositionOwnership_msg env positionMint wallet errors message =
     (case validatePositionOwnership env positionMint wallet of
        Inl e \<Rightarrow> Inl (oh_plain errors e)
      | Inr r \<Rightarrow> if or_isOwner r then Inr (or_tokenAccount r) else Inl (throwOwnershipError errors message))"

definition requirePositionOwnership :: "ownership_env \<Rightarrow> pubkey \<Rightarrow> pubkey \<Rightarrow> 'e ownership_errors \<Rightarrow> 'e + pubkey" where
  "requirePositionOwnership env positionMint wallet errors =
     requirePositionOwnership_msg env positionMint wallet errors ''Wallet does not own the specified position''"

definition requirePositionOwnershipWithMessage ::
  "ownership_env \<Rightarrow> pubkey \<Rightarrow> pubkey \<Rightarrow> string \<Rightarrow> 'e ownership_errors \<Rightarrow> 'e + pubkey" where
  "requirePositionOwnershipWithMessage env positionMint wallet positionIdentifier errors =
     requirePositionOwnership_msg env positionMint wallet errors (''Wallet does not own position '' @ positionIdentifier)"

section \<open>The batched check\<close>

text \<open>The node answers a batch of at most 100 keys as it answers them one by one.\<close>

definition batch_reads :: "ownership_env \<Rightarrow> bool" where
  "batch_reads env \<longleftrightarrow>
     (\<forall>ks. length ks \<le> 100 \<longrightarrow> oe_getMultipleAccountsInfo env ks = emap (oe_getAccountInfo env) ks)"

lemma batch_rows:
  assumes "batch_reads env"
  shows "ebind (emap (\<lambda>i. oe_getMultipleAccountsInfo env (js_slice ks (i * CHUNK_SIZE) ((i + 1) * CHUNK_SIZE)))
      [0..<ceil_div (length ks) CHUNK_SIZE]) (\<lambda>rows. Inr (concat rows)) = emap (oe_getAccountInfo env) ks"
proof -
  have "emap (oe_getMultipleAccountsInfo env) (chop 100 ks) = emap (emap (oe_getAccountInfo env)) (chop 100 ks)"
    using assms chop_bounds[of 100 _ ks] by (intro emap_cong) (auto simp: batch_reads_def)
  then show ?thesis using emap_chop[of 100 "oe_getAccountInfo env" ks] unfolding CHUNK_SIZE_def emap_slices[OF zero_less_numeral] by simp
qed

lemma emap_ebind_Inr:
  "emap (\<lambda>x. ebind (f x) (\<lambda>y. ebind (g y) (\<lambda>z. Inr (h y z)))) xs = Inr rs
    \<longleftrightarrow> (\<exists>ys zs. emap f xs = Inr ys \<and> emap g ys = Inr zs \<and> rs = map2 h ys zs)"
proof (induction xs arbitrary: rs)
  case (Cons x xs)
  show ?case by (cases "f x"; cases "g (projr (f x))") (auto simp: Cons ebind_Inr_iff)
qed auto

lemma owners_map2:
  "length ks = length infos \<Longrightarrow>
   map or_isOwner (map2 (\<lambda>k i. \<lparr>or_isOwner = (i \<noteq> None), or_tokenAccount = k\<rparr>) ks infos) = map (\<lambda>i. i \<noteq> None) infos"
  by (induction ks infos rule: list_induct2) simp_all

text \<open>
  C36. The batched ownership check is the single one. Against a node that answers up to 100 keys as it answers them one by
  one, it returns a list exactly when each single check does, and then the list of their answers.
\<close>

theorem validatePositionOwnershipBatch_each:
  assumes "batch_reads env"
  shows "validatePositionOwnershipBatch env mints wallet = Inr owners
    \<longleftrightarrow> (\<exists>rs. emap (\<lambda>mint. validatePositionOwnership env mint wallet) mints = Inr rs \<and> owners = map or_isOwner rs)"
proof -
  have "validatePositionOwnershipBatch env mints wallet
      = ebind (emap (\<lambda>mint. oe_ata env mint wallet True) mints) (\<lambda>ks.
          ebind (emap (oe_getAccountInfo env) ks) (\<lambda>infos. Inr (map (\<lambda>i. i \<noteq> None) infos)))"
    unfolding validatePositionOwnershipBatch_def batch_rows[OF assms, symmetric]
    by (simp add: ebind_def split: sum.splits)
  then have "validatePositionOwnershipBatch env mints wallet = Inr owners
      \<longleftrightarrow> (\<exists>ks infos. emap (\<lambda>mint. oe_ata env mint wallet True) mints = Inr ks
            \<and> emap (oe_getAccountInfo env) ks = Inr infos \<and> owners = map (\<lambda>i. i \<noteq> None) infos)"
    by (auto simp: ebind_Inr_iff)
  also have "\<dots> \<longleftrightarrow> (\<exists>ks infos. emap (\<lambda>mint. oe_ata env mint wallet True) mints = Inr ks
            \<and> emap (oe_getAccountInfo env) ks = Inr infos
            \<and> owners = map or_isOwner (map2 (\<lambda>k i. \<lparr>or_isOwner = (i \<noteq> None), or_tokenAccount = k\<rparr>) ks infos))"
  proof (intro ex_cong1 conj_cong refl)
    fix ks infos
    assume "emap (oe_getAccountInfo env) ks = Inr infos"
    then show "owners = map (\<lambda>i. i \<noteq> None) infos
        \<longleftrightarrow> owners = map or_isOwner (map2 (\<lambda>k i. \<lparr>or_isOwner = (i \<noteq> None), or_tokenAccount = k\<rparr>) ks infos)"
      by (subst owners_map2) (drule emap_Inr_length, simp_all)
  qed
  finally show ?thesis unfolding validatePositionOwnership_def emap_ebind_Inr by metis
qed

lemma requirePositionOwnership_msg_owner:
  "requirePositionOwnership_msg env mint wallet errors message = Inr ata
    \<longleftrightarrow> oe_ata env mint wallet True = Inr ata \<and> (\<exists>data. oe_getAccountInfo env ata = Inr (Some data))"
  by (auto simp: requirePositionOwnership_msg_def validatePositionOwnership_def ebind_def split: if_splits sum.splits)

definition example_ownership :: ownership_env where
  "example_ownership =
     (let acct = (\<lambda>k. if k = ''aw'' then Some [] else None)
      in \<lparr>oe_ata = (\<lambda>m w c. Inr (m @ w)), oe_getAccountInfo = (\<lambda>k. Inr (acct k)),
          oe_getMultipleAccountsInfo = (\<lambda>ks. Inr (map acct ks))\<rparr>)"

theorem validatePositionOwnershipBatch_each_witness:
  "\<exists>rs. emap (\<lambda>mint. validatePositionOwnership example_ownership mint ''w'') [''a'', ''b''] = Inr rs
    \<and> [True, False] = map or_isOwner rs"
proof -
  have reads: "batch_reads example_ownership" by (simp add: batch_reads_def emap_total example_ownership_def Let_def)
  have "validatePositionOwnershipBatch example_ownership [''a'', ''b''] ''w'' = Inr [True, False]"
    by (simp add: validatePositionOwnershipBatch_def CHUNK_SIZE_def ceil_div_def js_slice_def example_ownership_def Let_def)
  then show ?thesis by (simp only: validatePositionOwnershipBatch_each[OF reads])
qed

end
