(* ===== verification/Api_Claims.thy ===== *)
theory Api_Claims
  imports Api_Transactions Claim_Properties Position_Ownership
begin

text \<open>
  The endpoint that claims the rewards of delegated positions, \<^verbatim>\<open>delegation/claim-rewards.ts\<close>, with the fees and
  balances (\<^verbatim>\<open>lib/utils/balance-validation.ts\<close>), the token amounts (\<^verbatim>\<open>lib/utils/token-math.ts\<close>, \<^verbatim>\<open>lib/constants/tokens.ts\<close>)
  and the response of single transactions that other endpoints share. The contract of the endpoint has no
  \<open>UNAUTHORIZED\<close>.
\<close>

section \<open>Token amounts\<close>

definition WSOL :: pubkey where
  "WSOL = ''So11111111111111111111111111111111111111112''"

definition TOKEN_DECIMALS :: "(pubkey \<times> nat) list" where
  "TOKEN_DECIMALS =
     [(WSOL, 9), (''EPjFWdd5AufqSSqeM2qN1xzybapC8G4wEGGkZwyTDt1v'', 6), (''Es9vMFrzaCERmJfrF4H2FYD4KCoNkY11McCe8BenwNYB'', 6),
      (''hntyVP6YFm1Hg25TN9WGLqM12b8TQmcknKrdu1oxWux'', 8), (''mb1eu7TzEc71KxDpsmsKoucSSuuoGLv1drys1oP2jh6'', 6),
      (''iotEVVZLEywoTn1QdwNPddxPWszn3zFhEot3MfL9fns'', 6), (''dcuc8Amr83Wz27ZkQ2K9NS6r8zRpf1J6cvArEBDZDmm'', 0)]"

text \<open>\<open>decimalsCache\<close> starts as \<open>TOKEN_DECIMALS\<close>; \<open>getMint\<close> asks the node.\<close>

definition getTokenDecimals :: "(pubkey \<Rightarrow> js_error + nat) \<Rightarrow> (pubkey \<times> nat) list \<Rightarrow> pubkey \<Rightarrow> (js_error + nat) \<times> (pubkey \<times> nat) list" where
  "getTokenDecimals getMint cache mint =
     (case map_of cache mint of
        Some d \<Rightarrow> (Inr d, cache)
      | None \<Rightarrow> (case getMint mint of Inl e \<Rightarrow> (Inl e, cache) | Inr d \<Rightarrow> (Inr d, obj_set cache mint d)))"

definition padStart0 :: "string \<Rightarrow> nat \<Rightarrow> string" where
  "padStart0 s n = replicate (n - length s) (CHR ''0'') @ s"

definition formatTokenAmount :: "string \<Rightarrow> nat \<Rightarrow> string" where
  "formatTokenAmount raw decimals =
     (let isNegative = (take 1 raw = ''-'');
          abs = (if isNegative then drop 1 raw else raw);
          padded = padStart0 abs (decimals + 1);
          intPart = take (length padded - decimals) padded;
          fracPart = drop (length padded - decimals) padded;
          trimmed = rev (dropWhile (\<lambda>c. c = CHR ''0'') (rev fracPart));
          result = (if trimmed \<noteq> [] then intPart @ ''.'' @ trimmed else intPart)
      in if isNegative then ''-'' @ result else result)"

definition int_str :: "int \<Rightarrow> string" where
  "int_str n = (if n < 0 then ''-'' @ nat_str (nat (- n)) else nat_str (nat n))"

record token_amount =
  ta_amount :: string
  ta_decimals :: nat
  ta_uiAmount :: "number option"
  ta_uiAmountString :: string
  ta_mint :: pubkey

definition toTokenAmountOutput ::
  "(pubkey \<Rightarrow> js_error + nat) \<Rightarrow> (pubkey \<times> nat) list \<Rightarrow> int \<Rightarrow> pubkey \<Rightarrow> (js_error + token_amount) \<times> (pubkey \<times> nat) list" where
  "toTokenAmountOutput getMint cache rawAmount mint =
     (case getTokenDecimals getMint cache mint of (r, cache') \<Rightarrow>
        (ebind r (\<lambda>decimals.
           Inr \<lparr>ta_amount = int_str rawAmount, ta_decimals = decimals,
                ta_uiAmount = (if \<bar>rawAmount\<bar> < 2 ^ 53 then Some (fdiv (of_int rawAmount) (10 ^ decimals)) else None),
                ta_uiAmountString = formatTokenAmount (int_str rawAmount) decimals, ta_mint = mint\<rparr>), cache'))"

section \<open>Fees and balances\<close>

definition BASE_SIGNATURE_FEE_LAMPORTS :: number where
  "BASE_SIGNATURE_FEE_LAMPORTS = 5000"

definition MIN_WALLET_RENT_LAMPORTS :: number where
  "MIN_WALLET_RENT_LAMPORTS = 890880"

definition RENT_COSTS_ATA :: number where
  "RENT_COSTS_ATA = 2039280"

definition calculateRequiredBalance :: "number \<Rightarrow> number \<Rightarrow> number" where
  "calculateRequiredBalance estimatedTxFeeLamports estimatedRentCostLamports =
     fadd (fadd estimatedTxFeeLamports estimatedRentCostLamports) MIN_WALLET_RENT_LAMPORTS"

text \<open>
  The node as the fees see it: \<open>getFeeForMessage\<close> with its value, the header's number of signatures, the balance.
\<close>

record fee_node =
  fn_fee :: "versioned_message \<Rightarrow> js_error + number option"
  fn_numRequiredSignatures :: "versioned_message \<Rightarrow> nat"
  fn_balance :: "pubkey \<Rightarrow> js_error + number"
  fn_cbProgramId :: pubkey

definition readUInt64LE :: "bytes \<Rightarrow> nat \<Rightarrow> nat" where
  "readUInt64LE b off = unat (word_rcat (rev (js_slice b off (off + 8))) :: 64 word)"

text \<open>The loop: the limit, the price and the number of other instructions.\<close>

definition scan_instruction ::
  "pubkey \<Rightarrow> pubkey list \<Rightarrow> nat option \<times> nat \<times> nat \<Rightarrow> compiled_instruction \<Rightarrow> nat option \<times> nat \<times> nat" where
  "scan_instruction cb accountKeys = (\<lambda>(limit, price, others) ix.
     if js_nth accountKeys (ci_programIdIndex ix) \<noteq> Some cb then (limit, price, others + 1)
     else let data = ci_data ix
          in (if js_nth data 0 = Some COMPUTE_BUDGET_IX_LIMIT \<and> length data \<ge> 5
              then (case readUInt32LE data 1 of Inr n \<Rightarrow> Some n | Inl _ \<Rightarrow> limit) else limit,
              if js_nth data 0 = Some COMPUTE_BUDGET_IX_PRICE \<and> length data \<ge> 9 then readUInt64LE data 1 else price,
              others))"

definition estimateTransactionFeeLocally :: "fee_node \<Rightarrow> built_tx \<Rightarrow> number" where
  "estimateTransactionFeeLocally node tx =
     (let m = bt_message tx;
          baseFee = fmul BASE_SIGNATURE_FEE_LAMPORTS (of_nat (fn_numRequiredSignatures node m))
      in case foldl (scan_instruction (fn_cbProgramId node) (vm_staticAccountKeys m)) (None, 0, 0) (vm_compiledInstructions m) of
           (limit, price, others) \<Rightarrow>
             let computeUnitLimit = (case limit of Some n \<Rightarrow> n | None \<Rightarrow> min MAX_COMPUTE_UNITS (200000 * others));
                 priorityFee = of_int \<lceil>fdiv (fmul (rnd (of_nat price)) (of_nat computeUnitLimit)) 1000000\<rceil>
             in fadd baseFee priorityFee)"

definition getTransactionFee :: "fee_node \<Rightarrow> built_tx \<Rightarrow> number" where
  "getTransactionFee node tx =
     (case fn_fee node (bt_message tx) of Inr (Some v) \<Rightarrow> v | _ \<Rightarrow> estimateTransactionFeeLocally node tx)"

definition getTotalTransactionFees :: "fee_node \<Rightarrow> built_tx list \<Rightarrow> number" where
  "getTotalTransactionFees node txs = foldl fadd 0 (map (getTransactionFee node) txs)"

section \<open>claimRewards\<close>

datatype claim_error =
    NOT_FOUND string
  | BAD_REQUEST string
  | INSUFFICIENT_FUNDS string number number
  | Failed js_error

definition claim_ownership_errors :: "claim_error ownership_errors" where
  "claim_ownership_errors = \<lparr>oh_UNAUTHORIZED = None, oh_BAD_REQUEST = Some BAD_REQUEST, oh_plain = Failed\<rparr>"

definition failing :: "js_error + 'a \<Rightarrow> claim_error + 'a" where
  "failing r = (case r of Inl e \<Rightarrow> Inl (Failed e) | Inr x \<Rightarrow> Inr x)"

record position_account =
  pa_registrar :: pubkey
  pa_lockupKind :: string
  pa_endTs :: int

record claim_handler =
  ch_build :: build_env
  ch_gov :: governance_env
  ch_own :: ownership_env
  ch_fees :: fee_node
  ch_positions :: "pubkey list \<Rightarrow> js_error + position_account option list"
  ch_delegated :: "pubkey list \<Rightarrow> js_error + delegated_position option list"
  ch_getMint :: "pubkey \<Rightarrow> js_error + nat"
  ch_tag :: "string \<Rightarrow> pubkey \<Rightarrow> nat \<Rightarrow> string"

definition positionKey :: "governance_env \<Rightarrow> pubkey \<Rightarrow> pubkey" where
  "positionKey env mint = en_findProgramAddress env [utf8 ''position'', en_keyBytes env mint] VSR_PROGRAM_ID"

text \<open>The body of the loop over the requested positions.\<close>

definition claim_position ::
  "claim_handler \<Rightarrow> pubkey \<Rightarrow> position_account option list \<Rightarrow> delegated_position option list \<Rightarrow> nat \<times> pubkey
   \<Rightarrow> claim_error + position_info" where
  "claim_position h wallet positionAccounts delegatedAccounts = (\<lambda>(i, mint).
     let pubkey = positionKey (ch_gov h) mint
     in case js_nth positionAccounts i of
          Some (Some acc) \<Rightarrow>
            ebind (requirePositionOwnershipWithMessage (ch_own h) mint wallet mint claim_ownership_errors) (\<lambda>_.
            case js_nth delegatedAccounts i of
              Some (Some d) \<Rightarrow>
                Inr \<lparr>ps_mint = mint, ps_pubkey = pubkey, ps_registrar = pa_registrar acc, ps_lockupKind = pa_lockupKind acc,
                     ps_endTs = pa_endTs acc, pi_delegatedPositionKey = delegatedPositionKey (ch_gov h) pubkey,
                     pi_delegatedPosition = d\<rparr>
            | _ \<Rightarrow> Inl (BAD_REQUEST (''Position '' @ mint @ '' is not delegated'')))
        | _ \<Rightarrow> Inl (NOT_FOUND (''Position '' @ mint @ '' not found'')))"

record claim_response =
  cp_transactions :: "(string \<times> group_metadata) list"
  cp_tag :: string
  cp_positionCount :: "nat option"
  cp_hasMore :: bool
  cp_estimatedSolFee :: token_amount

definition claim_group :: "instruction list \<Rightarrow> instruction_group" where
  "claim_group instructions =
     \<lparr>gr_instructions = instructions,
      gr_metadata = \<lparr>gm_type = ''delegation_claim_rewards'', gm_description = ''Claim delegation rewards'', gm_fields = []\<rparr>,
      gr_signers = None\<rparr>"

definition jitoTipCost :: "build_env \<Rightarrow> nat \<Rightarrow> number" where
  "jitoTipCost env n =
     (if (cluster_of env = ''mainnet'' \<or> cluster_of env = ''mainnet-beta'') \<and> n > 1
      then of_int (case be_tipAmount env of None \<Rightarrow> 10000 | Some t \<Rightarrow> t) else 0)"

text \<open>The fee of a response; the decimals of the native mint are in the cache from the start.\<close>

definition native_output :: "claim_handler \<Rightarrow> int \<Rightarrow> js_error + token_amount" where
  "native_output h amount = fst (toTokenAmountOutput (ch_getMint h) TOKEN_DECIMALS amount WSOL)"

definition claim_positions :: "claim_handler \<Rightarrow> pubkey \<Rightarrow> pubkey list \<Rightarrow> claim_error + position_info list" where
  "claim_positions h wallet positionMints =
     (let positionPubkeys = map (positionKey (ch_gov h)) positionMints
      in ebind (failing (ch_positions h positionPubkeys)) (\<lambda>positionAccounts.
         ebind (failing (ch_delegated h (map (delegatedPositionKey (ch_gov h)) positionPubkeys))) (\<lambda>delegatedAccounts.
           emap (claim_position h wallet positionAccounts delegatedAccounts) (enumerate 0 positionMints))))"

definition claimRewards ::
  "claim_handler \<Rightarrow> connection \<Rightarrow> (nat list \<Rightarrow> connection) \<Rightarrow> js_error + pubkey \<Rightarrow> pubkey \<Rightarrow> pubkey list
   \<Rightarrow> claim_error + claim_response" where
  "claimRewards h conn conns tipAccount wallet positionMints =
     ebind (claim_positions h wallet positionMints) (\<lambda>positions.
     ebind (failing (buildClaimInstructions (ch_gov h) positions wallet)) (\<lambda>claimResult.
       let tag = ch_tag h ''delegation_claim_rewards'' wallet (length positionMints)
       in if \<not> cr_hasRewards claimResult then
            ebind (failing (native_output h 0)) (\<lambda>fee.
              Inr \<lparr>cp_transactions = [], cp_tag = tag, cp_positionCount = None, cp_hasMore = False, cp_estimatedSolFee = fee\<rparr>)
          else
            ebind (failing (buildBatchedTransactions (ch_build h) conn conns tipAccount
              (map claim_group (cr_instructionBatches claimResult)) wallet (int MAX_TXS_PER_CALL))) (\<lambda>b.
            let txs = br_versionedTransactions b;
                txFee = fadd (getTotalTransactionFees (ch_fees h) txs) (jitoTipCost (ch_build h) (length txs))
            in ebind (failing (emap (\<lambda>mint. en_ata (ch_gov h) mint wallet True) (cr_rewardMints claimResult))) (\<lambda>atas.
               ebind (failing (en_accounts (ch_gov h) atas)) (\<lambda>ataAccounts.
               let ataRent = fmul (of_nat (length (filter (\<lambda>a. a = None) ataAccounts))) RENT_COSTS_ATA
               in ebind (failing (fn_balance (ch_fees h) wallet)) (\<lambda>walletBalance.
                  let totalRequired = calculateRequiredBalance txFee ataRent
                  in if walletBalance < totalRequired then
                       Inl (INSUFFICIENT_FUNDS ''Insufficient SOL balance for transaction fees'' totalRequired walletBalance)
                     else
                       ebind (failing (ebind (bn_of_number \<lfloor>txFee\<rfloor>) (native_output h))) (\<lambda>fee.
                         Inr \<lparr>cp_transactions = br_transactions b, cp_tag = tag, cp_positionCount = Some (length positionMints),
                              cp_hasMore = (cr_hasMore claimResult \<or> br_hasMore b), cp_estimatedSolFee = fee\<rparr>)))))))"

section \<open>buildSingleTransactionResponse\<close>

record single_response =
  sr_transaction :: string
  sr_metadata :: group_metadata
  sr_tag :: string
  sr_actionMetadata :: "(string \<times> string) list"
  sr_estimatedSolFee :: token_amount

text \<open>\<open>insufficient\<close> is the procedure's error; the fee and the balance are fetched concurrently, after the build.\<close>

definition buildSingleTransactionResponse ::
  "claim_handler \<Rightarrow> connection \<Rightarrow> instruction list \<Rightarrow> pubkey \<Rightarrow> pubkey list option \<Rightarrow> number \<Rightarrow> string \<Rightarrow> string
   \<Rightarrow> group_metadata \<Rightarrow> (string \<times> string) list \<Rightarrow> claim_error + single_response" where
  "buildSingleTransactionResponse h conn instructions feePayer lookups rentLamports insufficientFundsMessage tag metadata actionMetadata =
     ebind (failing (buildVersionedTransaction (ch_build h) conn instructions feePayer lookups [])) (\<lambda>tx.
     let txFee = getTransactionFee (ch_fees h) tx
     in ebind (failing (fn_balance (ch_fees h) feePayer)) (\<lambda>available.
        let required = calculateRequiredBalance txFee rentLamports
        in if available < required then Inl (INSUFFICIENT_FUNDS insufficientFundsMessage required available)
           else ebind (failing (be_serialize (ch_build h) tx)) (\<lambda>s.
                ebind (failing (ebind (bn_of_number \<lfloor>required\<rfloor>) (native_output h))) (\<lambda>fee.
                  Inr \<lparr>sr_transaction = s, sr_metadata = metadata, sr_tag = tag, sr_actionMetadata = actionMetadata,
                       sr_estimatedSolFee = fee\<rparr>))))"

section \<open>Token amounts as numbers\<close>

definition digits_nat :: "string \<Rightarrow> nat" where
  "digits_nat s = foldl (\<lambda>n c. 10 * n + (of_char c - 48)) 0 s"

text \<open>The number a decimal text stands for.\<close>

definition decimal_value :: "string \<Rightarrow> rat" where
  "decimal_value s =
     (let intPart = takeWhile (\<lambda>c. c \<noteq> CHR ''.'') s; frac = drop (length intPart + 1) s
      in of_nat (digits_nat intPart) + of_nat (digits_nat frac) / 10 ^ length frac)"

lemma digits_nat_from: "foldl (\<lambda>n c. 10 * n + (of_char c - 48)) k s = k * 10 ^ length s + digits_nat s"
proof (induction s arbitrary: k)
  case (Cons c s)
  from Cons[of "10 * k + (of_char c - 48)"] Cons[of "of_char c - 48"] show ?case by (simp add: digits_nat_def algebra_simps)
qed (simp add: digits_nat_def)

lemma digits_nat_append: "digits_nat (s @ t) = digits_nat s * 10 ^ length t + digits_nat t"
  using digits_nat_from[of "digits_nat s" t] by (simp add: digits_nat_def)

lemma digits_nat_zeros [simp]: "digits_nat (replicate n (CHR ''0'')) = 0"
  by (induction n) (simp_all add: digits_nat_def)

definition all_digits :: "string \<Rightarrow> bool" where
  "all_digits s \<longleftrightarrow> list_all (\<lambda>c. 48 \<le> (of_char c :: nat) \<and> of_char c \<le> (57 :: nat)) s"

lemma nat_str_digits: "digits_nat (nat_str n) = n \<and> all_digits (nat_str n) \<and> nat_str n \<noteq> []"
proof (induction n rule: nat_str.induct)
  case (1 n)
  have d: "of_char (char_of (48 + m)) - 48 = m" "48 \<le> (of_char (char_of (48 + m)) :: nat)" "of_char (char_of (48 + m)) \<le> (57 :: nat)"
    if "m < 10" for m :: nat using that by simp_all
  show ?case
  proof (cases "n < 10")
    case True
    with d[OF True] show ?thesis by (simp add: nat_str.simps[of n] digits_nat_def all_digits_def)
  next
    case False
    then have s: "nat_str n = nat_str (n div 10) @ [char_of (48 + n mod 10)]" by (simp add: nat_str.simps[of n])
    have "digits_nat [char_of (48 + n mod 10)] = n mod 10" using d(1)[of "n mod 10"] by (simp add: digits_nat_def)
    moreover have "all_digits [char_of (48 + n mod 10)]" using d(2,3)[of "n mod 10"] by (simp add: all_digits_def)
    ultimately show ?thesis using 1[OF False] unfolding s digits_nat_append by (simp add: all_digits_def)
  qed
qed

lemma all_digits_no_point: "all_digits s \<Longrightarrow> takeWhile (\<lambda>c. c \<noteq> CHR ''.'') s = s"
  by (auto simp: all_digits_def list_all_iff takeWhile_eq_all_conv)

lemma decimal_value_int: "all_digits i \<Longrightarrow> decimal_value i = of_nat (digits_nat i)"
  by (simp add: decimal_value_def Let_def all_digits_no_point digits_nat_def)

lemma decimal_value_point:
  "all_digits i \<Longrightarrow> decimal_value (i @ ''.'' @ t) = of_nat (digits_nat i) + of_nat (digits_nat t) / 10 ^ length t"
  using all_digits_no_point[of i] by (simp add: decimal_value_def Let_def takeWhile_append)

lemma trailing_zeros:
  obtains k where "s = rev (dropWhile (\<lambda>c. c = CHR ''0'') (rev s)) @ replicate k (CHR ''0'')"
proof
  let ?z = "\<lambda>c. c = CHR ''0''"
  have "s = rev (takeWhile ?z (rev s) @ dropWhile ?z (rev s))" by (simp only: takeWhile_dropWhile_id rev_rev_ident)
  also have "\<dots> = rev (dropWhile ?z (rev s)) @ rev (takeWhile ?z (rev s))" by (simp only: rev_append)
  also have "rev (takeWhile ?z (rev s)) = replicate (length (takeWhile ?z (rev s))) (CHR ''0'')"
    by (intro replicate_eqI) (auto dest: set_takeWhileD)
  finally show "s = rev (dropWhile ?z (rev s)) @ replicate (length (takeWhile ?z (rev s))) (CHR ''0'')" .
qed

lemma fraction_value:
  assumes "n = i * 10 ^ (d + k) + t * 10 ^ k"
  shows "of_nat i + of_nat t / 10 ^ d = (of_nat n / 10 ^ (d + k) :: rat)"
proof -
  have "(of_nat n :: rat) = of_nat i * (10 ^ d * 10 ^ k) + of_nat t * 10 ^ k"
    using arg_cong[OF assms, of "of_nat :: nat \<Rightarrow> rat"] by (simp add: power_add)
  moreover have "(a * (x * y) + b * y) / (x * y) = a + b / x" if "x \<noteq> 0" "y \<noteq> 0" for a b x y :: rat
    using that by (simp add: field_simps)
  ultimately show ?thesis by (simp add: power_add)
qed

lemma last_stripped: "rev (dropWhile (\<lambda>c. c = z) (rev f)) \<noteq> [] \<Longrightarrow> last (rev (dropWhile (\<lambda>c. c = z) (rev f))) \<noteq> z"
  using hd_dropWhile[of "\<lambda>c. c = z" "rev f"] by (simp add: last_rev)

text \<open>The printed text: the integer digits and, unless nothing is left of it, the fraction without its last zeros.\<close>

lemma formatTokenAmount_parts:
  obtains i t where "all_digits i" "t = [] \<or> last t \<noteq> CHR ''0''"
    "formatTokenAmount (nat_str n) decimals = (if t \<noteq> [] then i @ ''.'' @ t else i)"
    "of_nat (digits_nat i) + of_nat (digits_nat t) / 10 ^ length t = (of_nat n / 10 ^ decimals :: rat)"
proof -
  let ?p = "padStart0 (nat_str n) (decimals + 1)"
  let ?i = "take (length ?p - decimals) ?p" and ?f = "drop (length ?p - decimals) ?p"
  let ?t = "rev (dropWhile (\<lambda>c. c = CHR ''0'') (rev ?f))"
  have digits: "all_digits ?p" "digits_nat ?p = n"
    using nat_str_digits[of n] by (auto simp: padStart0_def digits_nat_append all_digits_def list_all_iff)
  have i: "all_digits ?i" using digits(1) by (auto simp: all_digits_def list_all_iff dest: in_set_takeD)
  have f: "length ?f = decimals" by (simp add: padStart0_def)
  obtain k where k: "?f = ?t @ replicate k (CHR ''0'')" by (rule trailing_zeros)
  have len: "decimals = length ?t + k" using f by (subst (asm) k) simp
  have ft: "digits_nat ?f = digits_nat ?t * 10 ^ k" by (subst k) (simp add: digits_nat_append)
  have "n = digits_nat ?i * 10 ^ decimals + digits_nat ?f" using digits(2) digits_nat_append[of ?i ?f] f by simp
  then have val: "of_nat (digits_nat ?i) + of_nat (digits_nat ?t) / 10 ^ length ?t = (of_nat n / 10 ^ decimals :: rat)"
    using fraction_value[of n "digits_nat ?i" "length ?t" k "digits_nat ?t"] unfolding ft len[symmetric] by blast
  have "CHR ''-'' \<notin> set (nat_str n)" using nat_str_digits[of n] by (auto simp: all_digits_def list_all_iff)
  then have "take 1 (nat_str n) \<noteq> ''-''" by (metis in_set_takeD list.set_intros(1))
  then have "formatTokenAmount (nat_str n) decimals = (if ?t \<noteq> [] then ?i @ ''.'' @ ?t else ?i)"
    by (simp add: formatTokenAmount_def Let_def)
  moreover have "?t = [] \<or> last ?t \<noteq> CHR ''0''" using last_stripped[of "CHR ''0''" ?f] by blast
  ultimately show thesis using i val by (intro that)
qed

text \<open>
  C39. A token amount is printed exactly: the decimal text read back as a number is the raw amount divided by ten to
  the number of decimals, and a fraction does not end in a zero.
\<close>

theorem formatTokenAmount_value:
  "decimal_value (formatTokenAmount (nat_str n) decimals) = of_nat n / 10 ^ decimals
   \<and> (CHR ''.'' \<in> set (formatTokenAmount (nat_str n) decimals) \<longrightarrow> last (formatTokenAmount (nat_str n) decimals) \<noteq> CHR ''0'')"
proof -
  obtain i t where p: "all_digits i" "t = [] \<or> last t \<noteq> CHR ''0''"
    "formatTokenAmount (nat_str n) decimals = (if t \<noteq> [] then i @ ''.'' @ t else i)"
    "of_nat (digits_nat i) + of_nat (digits_nat t) / 10 ^ length t = (of_nat n / 10 ^ decimals :: rat)"
    by (rule formatTokenAmount_parts[of n decimals]) blast
  have nil: "digits_nat [] = 0" by (simp add: digits_nat_def)
  show ?thesis
  proof (cases "t = []")
    case True
    with p(3,4) show ?thesis using all_digits_no_point[OF p(1)] by (auto simp: decimal_value_int[OF p(1)] nil)
  next
    case False
    with p(2,3) show ?thesis using decimal_value_point[OF p(1), of t] p(4) by simp
  qed
qed

theorem formatTokenAmount_value_witness:
  "formatTokenAmount (nat_str 150) 2 = ''1.5'' \<and> decimal_value ''1.5'' = 3 / 2 \<and> last ''1.5'' \<noteq> CHR ''0''"
proof -
  have f: "formatTokenAmount (nat_str 150) 2 = ''1.5''" by code_simp
  show ?thesis using formatTokenAmount_value[of 150 2] unfolding f by simp
qed

section \<open>The claim endpoint\<close>

lemma failing_Inr [simp]: "failing r = Inr x \<longleftrightarrow> r = Inr x"
  by (cases r) (simp_all add: failing_def)

text \<open>Only positions that the wallet owns and that are delegated are claimed, and all that are asked for.\<close>

lemma claim_positions_spec:
  assumes "claim_positions h wallet mints = Inr ps"
  shows "map ps_mint ps = mints \<and> (\<forall>p \<in> set ps. ps_pubkey p = positionKey (ch_gov h) (ps_mint p)
      \<and> (\<exists>ata data. oe_ata (ch_own h) (ps_mint p) wallet True = Inr ata \<and> oe_getAccountInfo (ch_own h) ata = Inr (Some data))
      \<and> (\<exists>ks ds. ch_delegated h ks = Inr ds \<and> Some (pi_delegatedPosition p) \<in> set ds))"
proof -
  let ?keys = "map (positionKey (ch_gov h)) mints"
  from assms obtain pas das where d: "ch_delegated h (map (delegatedPositionKey (ch_gov h)) ?keys) = Inr das"
    and e: "emap (claim_position h wallet pas das) (enumerate 0 mints) = Inr ps"
    by (auto simp: claim_positions_def Let_def elim!: ebind_InrE)
  have len: "length ps = length mints" using emap_Inr_length[OF e] by simp
  have one: "claim_position h wallet pas das (i, mints ! i) = Inr (ps ! i)" if "i < length mints" for i
    using emap_Inr_nth[OF e, of i] that by (simp add: nth_enumerate_eq)
  have fact: "ps_mint p = mint \<and> ps_pubkey p = positionKey (ch_gov h) mint
      \<and> (\<exists>ata data. oe_ata (ch_own h) mint wallet True = Inr ata \<and> oe_getAccountInfo (ch_own h) ata = Inr (Some data))
      \<and> Some (pi_delegatedPosition p) \<in> set das" if "claim_position h wallet pas das (i, mint) = Inr p" for i mint p
    using that
    by (auto simp: claim_position_def Let_def requirePositionOwnershipWithMessage_def requirePositionOwnership_msg_owner
        js_nth_Some_iff in_set_conv_nth split: option.splits elim!: ebind_InrE)
  have m: "ps_mint (ps ! i) = mints ! i" if "i < length mints" for i using fact[OF one[OF that]] by blast
  have "map ps_mint ps = mints" by (rule nth_equalityI) (simp_all add: len m)
  moreover have "ps_pubkey p = positionKey (ch_gov h) (ps_mint p)
      \<and> (\<exists>ata data. oe_ata (ch_own h) (ps_mint p) wallet True = Inr ata \<and> oe_getAccountInfo (ch_own h) ata = Inr (Some data))
      \<and> Some (pi_delegatedPosition p) \<in> set das" if p: "p \<in> set ps" for p
  proof -
    from p len obtain i where i: "i < length mints" "ps ! i = p" by (auto simp: in_set_conv_nth)
    from fact[OF one[OF i(1)]] show ?thesis by (simp add: i(2))
  qed
  ultimately show ?thesis using d by blast
qed

text \<open>A single transaction is returned only when the payer can afford it; it holds the instructions that were asked for.\<close>

theorem buildSingleTransactionResponse_affordable:
  assumes "buildSingleTransactionResponse h conn ixs payer lookups rent message tag md action = Inr r" and "web3_ok (be_web3 (ch_build h))"
  shows "\<exists>tx balance. compiled_from (ch_build h) (\<lambda>_. conn) payer ixs tx \<and> be_serialize (ch_build h) tx = Inr (sr_transaction r)
    \<and> fn_balance (ch_fees h) payer = Inr balance \<and> calculateRequiredBalance (getTransactionFee (ch_fees h) tx) rent \<le> balance"
proof -
  from assms(1) obtain tx balance where t: "buildVersionedTransaction (ch_build h) conn ixs payer lookups [] = Inr tx"
      "fn_balance (ch_fees h) payer = Inr balance"
    and b: "\<not> balance < calculateRequiredBalance (getTransactionFee (ch_fees h) tx) rent"
      "be_serialize (ch_build h) tx = Inr (sr_transaction r)"
    by (auto simp: buildSingleTransactionResponse_def Let_def split: if_splits elim!: ebind_InrE)
  from buildVersionedTransaction_compiled[of "ch_build h" "\<lambda>_. conn", OF assms(2) t(1)] t(2) b show ?thesis by (meson not_le)
qed

lemma claimRewards_Inr:
  assumes "claimRewards h conn conns tipAccount wallet mints = Inr out"
  obtains ps r where "claim_positions h wallet mints = Inr ps" and "buildClaimInstructions (ch_gov h) ps wallet = Inr r"
    and "\<not> cr_hasRewards r \<Longrightarrow> cp_transactions out = [] \<and> \<not> cp_hasMore out"
    and "cr_hasRewards r \<Longrightarrow> \<exists>b. buildBatchedTransactions (ch_build h) conn conns tipAccount
        (map claim_group (cr_instructionBatches r)) wallet (int MAX_TXS_PER_CALL) = Inr b
      \<and> cp_transactions out = br_transactions b \<and> (cp_hasMore out \<longleftrightarrow> cr_hasMore r \<or> br_hasMore b)
      \<and> (\<exists>atas accounts balance. emap (\<lambda>mint. en_ata (ch_gov h) mint wallet True) (cr_rewardMints r) = Inr atas
          \<and> en_accounts (ch_gov h) atas = Inr accounts \<and> fn_balance (ch_fees h) wallet = Inr balance
          \<and> calculateRequiredBalance
              (fadd (getTotalTransactionFees (ch_fees h) (br_versionedTransactions b))
                 (jitoTipCost (ch_build h) (length (br_versionedTransactions b))))
              (fmul (of_nat (length (filter (\<lambda>a. a = None) accounts))) RENT_COSTS_ATA) \<le> balance)"
proof -
  from assms obtain ps r where 1: "claim_positions h wallet mints = Inr ps" "buildClaimInstructions (ch_gov h) ps wallet = Inr r"
    unfolding claimRewards_def by (auto elim!: ebind_InrE)
  show thesis
  proof (rule that[OF 1])
    show "cp_transactions out = [] \<and> \<not> cp_hasMore out" if "\<not> cr_hasRewards r"
      using assms that unfolding claimRewards_def by (auto simp: 1 Let_def elim!: ebind_InrE)
    assume "cr_hasRewards r"
    with assms show "\<exists>b. buildBatchedTransactions (ch_build h) conn conns tipAccount
        (map claim_group (cr_instructionBatches r)) wallet (int MAX_TXS_PER_CALL) = Inr b
      \<and> cp_transactions out = br_transactions b \<and> (cp_hasMore out \<longleftrightarrow> cr_hasMore r \<or> br_hasMore b)
      \<and> (\<exists>atas accounts balance. emap (\<lambda>mint. en_ata (ch_gov h) mint wallet True) (cr_rewardMints r) = Inr atas
          \<and> en_accounts (ch_gov h) atas = Inr accounts \<and> fn_balance (ch_fees h) wallet = Inr balance
          \<and> calculateRequiredBalance
              (fadd (getTotalTransactionFees (ch_fees h) (br_versionedTransactions b))
                 (jitoTipCost (ch_build h) (length (br_versionedTransactions b))))
              (fmul (of_nat (length (filter (\<lambda>a. a = None) accounts))) RENT_COSTS_ATA) \<le> balance)"
      unfolding claimRewards_def
      by (simp only: 1 failing_def sum.case ebind_simps Let_def not_True_eq_False if_False simp_thms)
         (auto simp: not_less split: if_splits sum.splits elim!: ebind_InrE)
  qed
qed

lemma flat_claim_groups: "flat (map claim_group bs) = concat bs"
  by (simp add: claim_group_def comp_def)

lemma list_all2_set1: "list_all2 R xs ys \<Longrightarrow> x \<in> set xs \<Longrightarrow> \<exists>y \<in> set ys. R x y"
  by (induction rule: list_all2_induct) auto

lemma build_claims_complete:
  assumes "buildClaimInstructions env ps wallet = Inr r" and "reads env acct" and "distinct ps"
    and "\<forall>p \<in> set ps. 0 \<le> dp_lastClaimedEpoch (pi_delegatedPosition p)" and "cr_hasRewards r" and "\<not> cr_hasMore r"
  obtains clock now daoAcc sel cs where "en_clock env = Inr clock" "clock_now clock = Inr now"
    "list_all2 (claims env wallet acct daoAcc) sel cs" "concat (cr_instructionBatches r) = map snd cs"
    "\<forall>p \<in> set ps. \<forall>e. claimable now p e \<and> issued env acct (p, e) \<longrightarrow> (p, e) \<in> set sel"
  using build_claims[OF assms(1-4)] assms(5,6) that by (elim exE conjE) blast

lemma in_compiled_part:
  assumes "list_all2 R parts txs" and "x \<in> set (concat parts)"
  obtains part tx where "R part tx" and "x \<in> set part" and "tx \<in> set txs"
proof -
  from assms(2) obtain part where "part \<in> set parts" "x \<in> set part" by auto
  then obtain i where i: "i < length parts" "x \<in> set (parts ! i)" by (metis in_set_conv_nth)
  with assms(1) that[of "parts ! i" "txs ! i"] show thesis by (auto simp: list_all2_conv_all_nth)
qed



section \<open>Witnesses\<close>

definition example_handler :: "governance_env \<Rightarrow> delegated_position \<Rightarrow> claim_handler" where
  "example_handler gov d =
     \<lparr>ch_build = example_build, ch_gov = gov,
      ch_own = \<lparr>oe_ata = (\<lambda>m w c. Inr (m @ w)), oe_getAccountInfo = (\<lambda>k. Inr (Some [])),
        oe_getMultipleAccountsInfo = (\<lambda>ks. Inr (map (\<lambda>k. Some []) ks))\<rparr>,
      ch_fees = \<lparr>fn_fee = (\<lambda>m. Inr (Some 5000)), fn_numRequiredSignatures = (\<lambda>m. 1), fn_balance = (\<lambda>k. Inr 1000000),
        fn_cbProgramId = CB_PROGRAM\<rparr>,
      ch_positions = (\<lambda>ks. Inr (map (\<lambda>k. Some \<lparr>pa_registrar = ''reg'', pa_lockupKind = ''constant'', pa_endTs = 90000\<rparr>) ks)),
      ch_delegated = (\<lambda>ks. Inr (map (\<lambda>k. Some d) ks)), ch_getMint = (\<lambda>m. Inl Timeout),
      ch_tag = (\<lambda>t w n. t)\<rparr>"

definition example_claimed :: "delegated_position \<Rightarrow> position_info" where
  "example_claimed d = \<lparr>ps_mint = ''a'', ps_pubkey = ''pda'', ps_registrar = ''reg'', ps_lockupKind = ''constant'', ps_endTs = 90000,
     pi_delegatedPositionKey = ''pda'', pi_delegatedPosition = d\<rparr>"

lemma example_claimed_sels:
  "ps_lockupKind (example_claimed d) = ''constant''" "pi_delegatedPosition (example_claimed d) = d"
  by (simp_all add: example_claimed_def)

lemma example_handler_sels:
  "ch_build (example_handler gov d) = example_build" "ch_gov (example_handler gov d) = gov"
  "ch_delegated (example_handler gov d) ks = Inr (map (\<lambda>k. Some d) ks)"
  "fn_balance (ch_fees (example_handler gov d)) k = Inr 1000000"
  "getTransactionFee (ch_fees (example_handler gov d)) tx = 5000"
  by (simp_all add: example_handler_def getTransactionFee_def)

lemma example_positions:
  assumes "\<And>seeds k. en_findProgramAddress gov seeds k = ''pda''"
  shows "claim_positions (example_handler gov d) ''w'' [''a''] = Inr [example_claimed d]"
  using assms
  by (simp add: claim_positions_def claim_position_def failing_def example_handler_def js_nth_def positionKey_def delegatedPositionKey_def
      requirePositionOwnershipWithMessage_def requirePositionOwnership_msg_def validatePositionOwnership_def example_claimed_def Let_def)

lemma example_native: "\<exists>t. native_output h n = Inr t"
  by (simp add: native_output_def toTokenAmountOutput_def getTokenDecimals_def TOKEN_DECIMALS_def)

lemma example_claimed_build:
  "buildClaimInstructions example_env [example_claimed example_delegation] ''w''
    = Inr \<lparr>cr_instructionBatches = [[example_ix]], cr_hasMore = False, cr_hasRewards = True, cr_rewardMints = [''hnt'']\<rparr>"
proof -
  let ?p = "example_claimed example_delegation"
  have w: "claim_window 196608 ?p = Inr (1, 2, False)"
    by (simp add: claim_window_def is_decayed_def bn_div_def EPOCH_LENGTH_def bn_toNumber_def
      expirationCapEpoch_def MAX_SAFE_INTEGER_def Let_def example_position_sels example_claimed_sels)
  have c: "collect_epochs 196608 [?p] = Inr ([(?p, 1)], False)"
    by (simp add: collect_epochs_def collect_step_def w example_unclaimed example_position_sels example_claimed_sels
      MAX_TXS_PER_CALL_def EPOCHS_PER_BATCH_def)
  have i: "claim_instruction example_env ''w'' example_dao [(''sd'', example_subDao)] ((?p, 1), Some [1]) = Inr (Some (''hnt'', example_ix))"
    using example_call[of True "''sd''" "pi_delegatedPositionKey ?p" ?p]
    by (auto simp: claim_instruction_def example_sels example_position_sels example_claimed_sels)
  have ch: "claim_chunk example_env ''w'' example_dao [(''sd'', example_subDao)] [(?p, 1)] = Inr [(''hnt'', example_ix)]"
    by (simp add: claim_chunk_def subDaoEpochInfoKey_def example_key accounts_for_def js_nth_def i example_accounts)
  have "fetch_subDaos example_env [''sd''] = Inr [(''sd'', example_subDao)]" by (simp add: fetch_subDaos_def example_sels)
  then show ?thesis
    by (simp add: buildClaimInstructions_def example_sels example_position_sels example_claimed_sels clock_now_def example_clock
      bn_of_number_def c chunks_chop EPOCHS_PER_BATCH_def example_first_dao ch)
qed

lemma example_claim_batched:
  "\<exists>b. buildBatchedTransactions example_build counting_conn (\<lambda>_. counting_conn) (Inr ''tipper'') [claim_group [example_ix]] ''w'' 5 = Inr b
    \<and> length (br_transactions b) = 1 \<and> length (br_versionedTransactions b) = 1 \<and> \<not> br_hasMore b"
proof -
  obtain x where x: "buildOrSplit example_build (\<lambda>_. counting_conn) [0] [example_ix] (gr_metadata (claim_group [example_ix])) [] ''w'' = Inr [x]"
    using example_builds by blast
  have "pack example_build counting_conn ''w'' [] 4 [claim_group [example_ix]]
      = Inr ([\<lparr>pb_instructions = [example_ix], pb_metadata = gr_metadata (claim_group [example_ix]), pb_signers = []\<rparr>], False)"
    by (simp add: pack_def expand_group_def example_too_big empty_packing_def example_measure MAX_TX_SIZE_def SIZE_MARGIN_def
      pack_rest_def close_batch_def Let_def claim_group_def group_signers_def)
  moreover have "cluster_of example_build = ''mainnet''" by (simp add: cluster_of_def example_build_def)
  ultimately show ?thesis
    by (simp add: buildBatchedTransactions_def Let_def example_luts shouldUseJitoBundle_def build_batches_def x)
qed

lemma example_claimRewards:
  "\<exists>out. claimRewards (example_handler example_env example_delegation) counting_conn (\<lambda>_. counting_conn) (Inr ''tipper'') ''w'' [''a''] = Inr out
    \<and> cp_transactions out \<noteq> [] \<and> \<not> cp_hasMore out"
proof -
  obtain b where b: "buildBatchedTransactions example_build counting_conn (\<lambda>_. counting_conn) (Inr ''tipper'') [claim_group [example_ix]] ''w'' 5 = Inr b"
      "length (br_transactions b) = 1" "length (br_versionedTransactions b) = 1" "\<not> br_hasMore b"
    using example_claim_batched by blast
  from b(3) obtain tx where tx: "br_versionedTransactions b = [tx]" by (auto simp: length_Suc_conv)
  have r: "rnd 5000 = 5000" "rnd 895880 = 895880" using rnd_of_nat[of 5000] rnd_of_nat[of 895880] by simp_all
  obtain t where t: "native_output (example_handler example_env example_delegation) 5000 = Inr t" using example_native by blast
  have p: "claim_positions (example_handler example_env example_delegation) ''w'' [''a''] = Inr [example_claimed example_delegation]"
    by (rule example_positions) (simp add: example_env_def)
  have "jitoTipCost example_build 1 = 0" by (simp add: jitoTipCost_def)
  then show ?thesis using b(2,4)
    by (auto simp: claimRewards_def p example_handler_sels example_claimed_build failing_def MAX_TXS_PER_CALL_def b(1) Let_def tx
      getTotalTransactionFees_def fadd_def fmul_def r calculateRequiredBalance_def MIN_WALLET_RENT_LAMPORTS_def example_sels
      bn_of_number_def t)
qed


text \<open>A position whose 128 epochs are all claimed, 131 epochs after the last claimed one.\<close>

definition late_data :: bytes where
  "late_data = replicate 32 0 @ [128, 180, 172] @ replicate 5 0"

definition late_env :: governance_env where
  "late_env = example_env\<lparr>en_clock := Inr (Some late_data)\<rparr>"

definition full_delegation :: delegated_position where
  "full_delegation = example_delegation\<lparr>dp_claimedEpochsBitmap := - 1\<rparr>"

lemma late_clock: "readBigInt64LE late_data 32 = Inr 11318400"
  by code_simp


end
