(* ===== verification/Spec2Isabelle.thy ===== *)
theory Spec2Isabelle
  imports Tx_Send Oracle_Tasks Oracle_Client Lazy_Transactions Account_Cache_Watch Batch_Properties Api_Claims
begin

text \<open>
  A verification of the transaction layer of the Helium program library, of the rewards oracle that is
  built on it, of the transaction batches and the reward claims of the blockchain API, and of the account
  cache and the lazy transactions beside them.

  \<^bold>\<open>The program.\<close> The repository holds on-chain programs and, under \<^verbatim>\<open>packages/\<close>, the TypeScript
  that talks to them. Five packages are verified here, and the parts of the
  governance packages that claim rewards. \<^verbatim>\<open>spl-utils\<close> turns lists of instructions
  into transactions that land: it estimates compute units and fees, packs instructions under the size
  bound, signs, sends, polls and re-sends. \<^verbatim>\<open>distributor-oracle\<close> is the rewards oracle: a server that
  countersigns the claims of hotspot owners when its database backs them, the handlers that schedule
  claims, and the client that collects the oracles' answers, forms the claims, has them signed and checks
  that nothing was changed. The client calls the batcher of \<^verbatim>\<open>spl-utils\<close>, the batcher calls the pricing
  function once for each transaction, and the bulk sender takes the batcher's drafts.
  \<^verbatim>\<open>lazy-transactions-sdk\<close> commits to a list of transactions by a Merkle root and proves each of them when
  it is executed. \<^verbatim>\<open>account-fetch-cache\<close> stands between the programs and the RPC node: it batches, shares,
  caches and watches accounts. \<^verbatim>\<open>blockchain-api\<close> is a web application; its core is the
  life of a batch of transactions: a request reserves a slot in a table for its tag and payer, sends the
  batch over the RPC or as a bundle to a block engine, and records it; clients ask for its status, a
  service sends its pending transactions again, and a reaper expires batches that stay pending. Its
  governance endpoints build such batches: the one that claims the rewards of delegated positions selects
  epochs (by the bitmap of \<^verbatim>\<open>voter-stake-registry-sdk\<close> and the addresses of \<^verbatim>\<open>helium-sub-daos-sdk\<close>), forms
  their instructions and packs them into transactions; \<^verbatim>\<open>voter-stake-registry-hooks\<close> forms the same claims in
  the wallet.

  \<^bold>\<open>The theories and the code.\<close>
  \<^item> \<open>Prelude\<close>: the data of the Solana client library the code handles (instructions, compiled
    messages), errors as values, arrays and objects as JavaScript has them, little-endian numbers, and
    \<open>chunks\<close> of \<^verbatim>\<open>transaction.ts\<close>.
  \<^item> \<open>JS_Number\<close>: JavaScript's numbers as rationals with rounding to 53 bits after each operation
    (no overflow, no NaN: every number the code multiplies is below \<open>2 ^ 53\<close>).
  \<^item> \<open>Compute_Units\<close>: \<^verbatim>\<open>spl-utils/src/computeUnitTable.ts\<close>, the whole table and the estimate from it.
  \<^item> \<open>Priority_Fees\<close>: \<^verbatim>\<open>spl-utils/src/priorityFees.ts\<close>, \<^verbatim>\<open>draft.ts\<close>, and the compilation of a draft in
    \<^verbatim>\<open>transaction.ts\<close>. The node is the record \<open>connection\<close>; its simulation may answer differently at each
    call and attempt. The locales \<open>fee_pricer\<close> and \<open>cb_pricer\<close> state what a batcher relies on.
  \<^item> \<open>Tx_Batching\<close>: \<open>batchParallelInstructions\<close> (up to the sending) and
    \<open>batchInstructionsToTxsWithPriorityFee\<close> of \<^verbatim>\<open>transaction.ts\<close>. The variables of the loop are the record
    \<open>batch_state\<close>.
  \<^item> \<open>Bulk_Send\<close>: \<open>bulkSendRawTransactions\<close>, \<open>bulkSendTransactions\<close> and their callers. The locale
    \<open>raw_sender\<close> states what the outer loop relies on of the inner one.
  \<^item> \<open>Program_Error\<close>: \<^verbatim>\<open>spl-utils/src/anchorError.ts\<close>, with \<open>split\<close> and \<open>parseInt\<close> of the language.
  \<^item> \<open>Tx_Send\<close>: the functions of \<^verbatim>\<open>transaction.ts\<close> that send one transaction or several in order.
  \<^item> \<open>Oracle_Server\<close>: the signing and rewards endpoints of \<^verbatim>\<open>distributor-oracle/src/server.ts\<close>. The
    scan of the instructions is the record \<open>scan_state\<close>; a refusal and a thrown error are the two
    constructors of \<open>stop\<close>.
  \<^item> \<open>Oracle_Tasks\<close>: the task endpoints of the same file.
  \<^item> \<open>Oracle_Client\<close>: \<^verbatim>\<open>distributor-oracle/src/client.ts\<close>.
  \<^item> \<open>Merkle_Tree\<close>: \<^verbatim>\<open>lazy-transactions-sdk/src/merkleTree.ts\<close>. Nodes are objects with references to their
    parents and children, so the tree is a store of nodes indexed by their addresses.
  \<^item> \<open>Lazy_Transactions\<close>: \<^verbatim>\<open>lazy-transactions-sdk/src/index.ts\<close>: compilation, leaves, canopy, bitmap.
  \<^item> \<open>Account_Cache\<close>: \<^verbatim>\<open>account-fetch-cache/src\<close>. The code is asynchronous: a call is a task with a
    program counter, and \<open>handle\<close> is one event of the event loop. The locale \<open>account_cache\<close> is the
    interface \<open>AccountCache\<close>, interpreted for the class that implements it.
  \<^item> \<open>Account_Cache_Runs\<close>, \<open>Account_Cache_Data\<close>, \<open>Account_Cache_Watch\<close>: what every run of the event
    loop keeps. The locale \<open>event_system\<close> carries an invariant over a run and a measure over the events
    that are left; it is interpreted for the cache once for settling and once for watching, for
    \<open>Ttl_Cache\<close> and, in \<open>Batch_Runs\<close>, for the tables and for the submissions under way.
  \<^item> \<open>Ttl_Cache\<close>: \<^verbatim>\<open>blockchain-api/src/lib/utils/ttl-cache.ts\<close>. The points at which a promise calls back
    are events, so calls may come between them.
  \<^item> \<open>Simulation_Classifier\<close>: \<^verbatim>\<open>simulation-classifier.ts\<close> beside it, with its regular expressions as functions.
  \<^item> \<open>Batch_Submission\<close>: \<^verbatim>\<open>transaction-submission.ts\<close>, \<^verbatim>\<open>jito.ts\<close>, \<^verbatim>\<open>submission-helpers.ts\<close> and \<^verbatim>\<open>explorer.ts\<close>.
    The operations pass a \<open>net\<close> along: the log of the requests made, on which every answer may depend, and
    the cache of tip accounts.
  \<^item> \<open>Transaction_Batches\<close>: the procedures \<^verbatim>\<open>submit.ts\<close>, \<^verbatim>\<open>get.ts\<close> and \<^verbatim>\<open>resubmit.ts\<close>,
    \<^verbatim>\<open>transaction-status-checker.ts\<close>, \<^verbatim>\<open>transaction-resubmission.ts\<close> with its background job, over the two
    tables of \<^verbatim>\<open>lib/models\<close> and the index of the migration. A handler is a task that advances from one
    statement of the database to the next, and \<open>api_handle\<close> starts or advances one task.
  \<^item> \<open>Batch_Runs\<close>, \<open>Batch_Properties\<close>: what every run of these tasks keeps, and what each of them does.
  \<^item> \<open>Position_Claims\<close>: \<open>isClaimed\<close> of \<^verbatim>\<open>voter-stake-registry-sdk/src/index.ts\<close>, the addresses and epochs of
    \<^verbatim>\<open>helium-sub-daos-sdk/src\<close>, \<^verbatim>\<open>build-claim-instructions.ts\<close> of the API and \<^verbatim>\<open>formPositionClaims.ts\<close> of
    \<^verbatim>\<open>voter-stake-registry-hooks\<close>. \<open>Claim_Lemmas\<close> and \<open>Claim_Properties\<close> hold what they select and form.
  \<^item> \<open>Position_Ownership\<close>: \<^verbatim>\<open>validate-ownership.ts\<close>.
  \<^item> \<open>Api_Transactions\<close>: \<^verbatim>\<open>build-transaction.ts\<close> and \<^verbatim>\<open>build-batched-transactions.ts\<close>, over \<open>Priority_Fees\<close>. The
    variables of the packing loop are the record \<open>packing\<close>.
  \<^item> \<open>Api_Claims\<close>: the endpoint \<^verbatim>\<open>delegation/claim-rewards.ts\<close>, which composes the four theories before it, with
    \<^verbatim>\<open>balance-validation.ts\<close>, \<^verbatim>\<open>token-math.ts\<close> and \<^verbatim>\<open>constants/tokens.ts\<close>.

  \<^bold>\<open>What is shown.\<close>
  Estimates: the compute-unit request is always legal and covers the table; a requested data-size limit
  is never below what a transaction loads; a price puts a prefix before the instructions and changes
  nothing else, and no ComputeBudget type is set twice. Packing: the batcher cuts its input into
  consecutive parts and loses, repeats, reorders and splits nothing. Sending: ids that are returned are
  confirmed signatures of what was given, every draft is delivered when the sender succeeds, and the
  polling loop returns. The oracle: what it signs is restricted to harmless instructions whose amounts
  the database backs, bulk signing is all or nothing, and scheduled claims are complete and paid for by
  the claimant. The client: pending rewards follow the honest majority, and claims come back from the
  oracles as they were formed. Beside these stand theorems on places where the code does not do what it
  means to: extra signers that never sign, instructions sent twice, an uncapped fee, error codes
  confused with instruction indexes, lost error messages, double replies, and dropped transactions.
  Lazy transactions: the tree refines a list of leaves under updates, a proof that verifies for a wrong
  leaf is a collision of the hash, and compiled transactions resolve to what they were compiled from.
  The cache: searches settle once calls stop, what it returns the node reported for that key, a batch
  answers as single requests would, and subscriptions follow watchers; an empty flush hangs it, a failed
  request looks like a missing account, and a listener with id 0 is never removed.
  Batches: a submission is recorded completely or leaves no trace, what it says was sent was sent or
  landed, no bundle goes out that was not simulated, at most one submission for a tag and payer is under
  way while nobody frees its slot, a check answers what the chain says, and the reaper frees every stale
  slot; a check that comes before the transactions are recorded frees the slot too early, and one that gets
  no answers reopens a settled batch. Claims: what is claimed is due in seconds, not claimed yet and issued,
  each once, and nothing that is due is missing unless the answer says that there is more, from the epochs
  down to the instructions inside the packed transactions; the wallet's claims agree with the API's; packing
  keeps groups whole and in order; the batched ownership check is the single one; token amounts are printed
  exactly. A position whose window holds nothing to claim hides the rewards of the positions after it, and an
  instruction that is too large is refused only when it comes first.

  \<^bold>\<open>Parameters and hypotheses.\<close> Code outside the repository is a parameter: the RPC node, the web3
  builders and the compiler of messages, the wallet, the database, the asset service, the instruction
  decoder and the oracles' answers over HTTP. What is assumed of it is named and documented behaviour:
  \<open>web3_ok\<close> (the program id and the discriminators of the two ComputeBudget builders), \<open>node_enforces\<close>
  (a simulation that succeeds ran within the limit it was given), \<open>node_ok\<close> (sending answers with the
  transaction's signature), \<open>wallet_ok\<close> and \<open>signs_only\<close> (a wallet signs and changes nothing else),
  \<open>hash32\<close> (the hash has 32 bytes), \<open>codec_ok\<close> (keys and their text determine each other), \<open>parser_ok\<close> (a
  parser keeps the key and the account it is given), \<open>aligned\<close> (the node answers one entry for each key)
  and \<open>good_ids\<close> (subscription ids are not zero). \<open>no_empty_flush\<close> and \<open>single_use\<close> restrict the callers of the
  cache: they do not flush when nothing is queued and use a disposer once. For batches, \<open>no_faults\<close> says that
  the database and the height of the node answer, \<open>answers\<close> that the decoder and the latest blockhash do too,
  and \<open>undisturbed\<close> that no check and no turn of the reaper touches a batch whose submission is under way. For
  claims, \<open>reads\<close> says that the node answers a request for several accounts with the account of each key, and
  \<open>batch_reads\<close> that it answers up to 100 keys as it answers them one by one; epochs are not negative, as the
  account's unsigned field makes them. Each theorem with a hypothesis
  is followed by a witness on concrete parameters.

  \<^bold>\<open>Loops and fuel.\<close> Every loop over a list is a fold or a structural recursion. The retry loop of
  \<open>bulkSendTransactions\<close> terminates by its remaining tries. The polling loop of
  \<open>bulkSendRawTransactions\<close> ends only when the node's answers end it: it takes fuel, one unit for each
  round, and \<open>bulkSendRaw_returns\<close> shows how much is enough once block heights pass the last valid one. The
  loops of the Merkle tree follow references and are partial functions; \<open>merkleTree_builds\<close> and
  \<open>merkle_proofs_after_updates\<close> show that they return. The event loop of the cache ends by the measure
  \<open>work\<close>, which bounds the events a state still has to handle.

  \<^bold>\<open>Not modelled.\<close> Time (sleeps and timeouts), logging and progress callbacks beyond their content, the
  websocket inside \<open>awaitTransactionSignatureConfirmation\<close> (its answer is a parameter), HTTP routing and
  rate limiting, and SQL. Concurrent calls inside one \<open>Promise.all\<close> are modelled in order where they
  share no state.

  Of \<^verbatim>\<open>account-fetch-cache\<close>: the singletons, the methods of the connection it replaces, and the queue
  that waits for sent transactions.

  Of \<^verbatim>\<open>blockchain-api\<close>: the reports of failures to Sentry, the notification of the indexers, the timers that
  start the service and the reaper, and the other procedures. The service processes five batches at a
  time; here each is a task of its own, which allows more interleavings. The requests to the node between
  two statements of one handler are part of one step, and a database transaction takes effect or fails
  as a whole.

  Of the governance packages: the lockup multiplier and voting power of a position, which are floating-point
  curves for display, the votes and proxies, and the other endpoints, which derive addresses and call the
  builders of \<open>Api_Transactions\<close>. The concurrent requests of an endpoint are answered as if in order; when
  several fail, the first error is reported. \<open>resolveJitoTipAccount\<close>, modelled in \<open>Batch_Submission\<close> with its
  cache, enters \<open>Api_Transactions\<close> by its answer.

  \<^bold>\<open>Plan.\<close> Next the endpoints that delegate, extend and undelegate, which reuse the claims, and the preview of
  \<^verbatim>\<open>sus\<close>.
\<close>

end
